(* ===== verification/Tx_Prelude.thy ===== *)
theory Tx_Prelude
  imports Main "HOL-Library.Word" "HOL-Library.Monad_Syntax"
begin

text \<open>
  Shared vocabulary of the development: type names for C data, the unsigned arithmetic
  of \<open>size_t\<close> and \<open>unsigned\<close>, the reading of a C string out of a buffer, and the lemma
  collections the component theories extend.

  A computation that the C code may leave undefined (a NULL dereference, an access outside
  an allocated area, a loop without end) is a value of an option type: \<open>None\<close> says that the
  program has no defined result. Theorems that a function returns therefore state
  \<open>= Some _\<close>.
\<close>

named_theorems tx_inv \<open>introduction and preservation of component invariants\<close>
named_theorems tx_defs \<open>definitions a component's proofs unfold together\<close>

type_synonym cstring = string
type_synonym byte = char
type_synonym u64 = "64 word"
type_synonym u32 = "32 word"
type_synonym u16 = "16 word"
type_synonym u8 = "8 word"

abbreviation NUL :: char where "NUL \<equiv> CHR 0x00"

subsection \<open>Unsigned machine arithmetic on naturals\<close>

definition size_add :: "nat \<Rightarrow> nat \<Rightarrow> nat" where
  "size_add a b = (a + b) mod 2 ^ 64"

definition size_sub :: "nat \<Rightarrow> nat \<Rightarrow> nat" where
  "size_sub a b = (a + 2 ^ 64 - b) mod 2 ^ 64"

definition size_mul :: "nat \<Rightarrow> nat \<Rightarrow> nat" where
  "size_mul a b = (a * b) mod 2 ^ 64"

definition uint_wrap :: "nat \<Rightarrow> nat" where
  "uint_wrap a = a mod 2 ^ 32"

lemma size_add_small [simp]: "a + b < 2 ^ 64 \<Longrightarrow> size_add a b = a + b"
  by (simp add: size_add_def)

lemma size_mul_small [simp]: "a * b < 2 ^ 64 \<Longrightarrow> size_mul a b = a * b"
  by (simp add: size_mul_def)

lemma size_sub_no_borrow:
  assumes "b \<le> a" "a < 2 ^ 64"
  shows "size_sub a b = a - b"
proof -
  have "size_sub a b = ((a - b) + 2 ^ 64) mod 2 ^ 64"
    using assms(1) by (simp only: size_sub_def diff_add_assoc2)
  also have "\<dots> = (a - b) mod 2 ^ 64" by (rule mod_add_self2)
  also have "\<dots> = a - b" using assms(2) by (intro mod_less) linarith
  finally show ?thesis .
qed

lemma size_sub_borrow:
  assumes "a < b" "b \<le> 2 ^ 64"
  shows "size_sub a b = a + 2 ^ 64 - b"
  using assms by (simp add: size_sub_def)

lemma uint_wrap_small [simp]: "a < 2 ^ 32 \<Longrightarrow> uint_wrap a = a"
  by (simp add: uint_wrap_def)

subsection \<open>C strings in buffers\<close>

text \<open>The string a \<open>char *\<close> denotes: the bytes up to the first NUL.\<close>

definition cstr_of :: "byte list \<Rightarrow> cstring" where
  "cstr_of bs = takeWhile (\<lambda>c. c \<noteq> NUL) bs"

definition is_cstring :: "cstring \<Rightarrow> bool" where
  "is_cstring s = list_all (\<lambda>c. c \<noteq> NUL) s"

lemma is_cstring_simps [simp]:
  "is_cstring []"
  "is_cstring (c # s) \<longleftrightarrow> c \<noteq> NUL \<and> is_cstring s"
  "is_cstring (s @ t) \<longleftrightarrow> is_cstring s \<and> is_cstring t"
  by (auto simp: is_cstring_def)

lemma cstr_of_terminated: "is_cstring s \<Longrightarrow> cstr_of (s @ NUL # r) = s"
  by (induction s) (auto simp: cstr_of_def)

lemma is_cstring_cstr_of [simp]: "is_cstring (cstr_of bs)"
  by (induction bs) (auto simp: cstr_of_def)

subsection \<open>Writing a block of bytes into a buffer\<close>

text \<open>\<open>memcpy(buf + off, src, length src)\<close>; \<open>None\<close> when the block does not fit.\<close>

definition mem_write :: "byte list \<Rightarrow> nat \<Rightarrow> byte list \<Rightarrow> byte list option" where
  "mem_write mem off src =
     (if off + length src \<le> length mem
      then Some (take off mem @ src @ drop (off + length src) mem)
      else None)"

definition mem_zero :: "nat \<Rightarrow> byte list" where
  "mem_zero n = replicate n NUL"

lemma length_mem_zero [simp]: "length (mem_zero n) = n"
  by (simp add: mem_zero_def)

lemma drop_mem_zero [simp]: "drop k (mem_zero n) = mem_zero (n - k)"
  by (simp add: mem_zero_def)

lemma mem_zero_1 [simp]: "mem_zero (Suc 0) = [NUL]" "mem_zero 0 = []"
  by (simp_all add: mem_zero_def)

lemma mem_write_fits [simp]:
  "off + length src \<le> length mem \<Longrightarrow>
   mem_write mem off src = Some (take off mem @ src @ drop (off + length src) mem)"
  by (simp add: mem_write_def)

lemma mem_write_overflow [simp]:
  "length mem < off + length src \<Longrightarrow> mem_write mem off src = None"
  by (simp add: mem_write_def)

lemma mem_write_length: "mem_write mem off src = Some m \<Longrightarrow> length m = length mem"
  by (auto simp: mem_write_def split: if_splits)

subsection \<open>Character classes used by the parsers\<close>

definition char_between :: "char \<Rightarrow> char \<Rightarrow> char \<Rightarrow> bool" where
  "char_between lo hi c \<longleftrightarrow> (of_char lo :: nat) \<le> of_char c \<and> (of_char c :: nat) \<le> of_char hi"

definition is_digit_char :: "char \<Rightarrow> bool" where
  "is_digit_char c = char_between CHR ''0'' CHR ''9'' c"

text \<open>Dereferencing a \<open>char *\<close> that walks along a NUL-terminated string.\<close>

definition peek :: "cstring \<Rightarrow> char" where
  "peek s = (case s of [] \<Rightarrow> NUL | c # _ \<Rightarrow> c)"

lemma peek_simps [simp]: "peek [] = NUL" "peek (c # s) = c"
  by (simp_all add: peek_def)

definition starts_with :: "cstring \<Rightarrow> cstring \<Rightarrow> bool" where
  "starts_with p s \<longleftrightarrow> take (length p) s = p"

lemma starts_with_iff: "starts_with p s \<longleftrightarrow> (\<exists>r. s = p @ r)"
  unfolding starts_with_def by (metis append_eq_conv_conj append_take_drop_id)

lemma starts_with_refl [simp]: "starts_with s s"
  by (simp add: starts_with_def)

end
