(* ===== verification/Tx_Strings.thy ===== *)
theory Tx_Strings
  imports Tx_Prelude
begin

text \<open>
  The string layer: the character tests of utils.c, the NULL-tolerant comparisons and the
  growing byte buffers (\<open>XMLSTRING\<close>) of strings.c, and the UTF-8 encoder and decoder.

  A buffer is modelled with its memory area, so that the guard that makes it grow is what
  keeps the writes inside the area: a write outside it is \<open>None\<close>.
\<close>

unbundle bit_operations_syntax

subsection \<open>utils.c: character tests\<close>

definition x_is_ws :: "char \<Rightarrow> bool" where
  "x_is_ws c \<longleftrightarrow> c = CHR '' '' \<or> c = CHR 0x09 \<or> c = CHR 0x0A \<or> c = CHR 0x0D"

definition x_can_number :: "cstring \<Rightarrow> bool" where
  "x_can_number p =
     (let p1 = (if peek p = CHR ''-'' then tl p else p);
          p2 = (if peek p1 = CHR ''.'' then tl p1 else p1)
      in char_between CHR ''0'' CHR ''9'' (peek p2))"

definition x_is_namechar :: "char \<Rightarrow> bool" where
  "x_is_namechar c \<longleftrightarrow>
     char_between CHR ''A'' CHR ''Z'' c \<or> char_between CHR ''a'' CHR ''z'' c \<or>
     char_between CHR ''0'' CHR ''9'' c \<or> c = CHR ''_'' \<or> c = CHR ''-'' \<or> c = CHR '':'' \<or> c = CHR ''.''"

definition x_is_selchar :: "char \<Rightarrow> bool" where
  "x_is_selchar c \<longleftrightarrow> x_is_namechar c \<or> c = CHR ''/'' \<or> c = CHR ''.'' \<or> c = CHR ''*''"

subsection \<open>strings.c: comparisons of possibly NULL strings\<close>

text \<open>\<open>strcmp\<close> compares bytes as unsigned characters; only the sign of its result is used.\<close>

fun strcmp :: "cstring \<Rightarrow> cstring \<Rightarrow> int" where
  "strcmp [] [] = 0"
| "strcmp [] (d # ds) = -1"
| "strcmp (c # cs) [] = 1"
| "strcmp (c # cs) (d # ds) =
     (if c = d then strcmp cs ds
      else if (of_char c :: nat) < of_char d then -1 else 1)"

definition tolower :: "char \<Rightarrow> char" where
  "tolower c = (if char_between CHR ''A'' CHR ''Z'' c then char_of ((of_char c :: nat) + 32) else c)"

definition strcasecmp :: "cstring \<Rightarrow> cstring \<Rightarrow> int" where
  "strcasecmp l r = strcmp (map tolower l) (map tolower r)"

text \<open>
  Equal pointers are compared first in the source; two pointers to the same address have the
  same string, for which \<open>strcmp\<close> is 0 as well.
\<close>

fun xml_strcmp :: "cstring option \<Rightarrow> cstring option \<Rightarrow> int" where
  "xml_strcmp None None = 0"
| "xml_strcmp None (Some r) = -1"
| "xml_strcmp (Some l) None = 1"
| "xml_strcmp (Some l) (Some r) = strcmp l r"

fun xml_strcasecmp :: "cstring option \<Rightarrow> cstring option \<Rightarrow> int" where
  "xml_strcasecmp None None = 0"
| "xml_strcasecmp None (Some r) = -1"
| "xml_strcasecmp (Some l) None = 1"
| "xml_strcasecmp (Some l) (Some r) = strcasecmp l r"

lemma strcmp_eq_0 [simp]: "strcmp l r = 0 \<longleftrightarrow> l = r"
  by (induction l r rule: strcmp.induct) auto

lemma strcmp_antisym: "strcmp r l = - strcmp l r"
  by (induction l r rule: strcmp.induct) auto

lemma strcmp_range: "strcmp l r \<in> {-1, 0, 1}"
  by (induction l r rule: strcmp.induct) auto

lemma strcmp_trans:
  "strcmp a b \<le> 0 \<Longrightarrow> strcmp b c \<le> 0 \<Longrightarrow> strcmp a c \<le> 0"
proof (induction a b arbitrary: c rule: strcmp.induct)
  case 1 then show ?case by simp
next
  case (2 d ds) then show ?case by (cases c) auto
next
  case (3 c cs) then show ?case by simp
next
  case (4 x xs y ys)
  show ?case
  proof (cases c)
    case Nil with 4 show ?thesis by simp
  next
    case (Cons z zs)
    with 4 show ?thesis by (auto split: if_splits)
  qed
qed

lemma xml_strcmp_eq_0 [simp]: "xml_strcmp l r = 0 \<longleftrightarrow> l = r"
  by (cases l; cases r) auto

subsection \<open>strings.c: growing buffers\<close>

record xmls =
  xs_buf :: "byte list"
  xs_len :: nat
  xs_allocated :: nat
  xs_hash :: u64

definition xmls_new :: "nat \<Rightarrow> xmls" where
  "xmls_new bsize =
     \<lparr>xs_buf = mem_zero (size_add bsize 1), xs_len = 0, xs_allocated = bsize, xs_hash = 0\<rparr>"

definition xmls_new_string :: "cstring option \<Rightarrow> nat \<Rightarrow> xmls option option" where
  "xmls_new_string s n =
     (case s of
        None \<Rightarrow> Some None
      | Some bs \<Rightarrow>
          (let r = xmls_new n in
           if length bs + 1 < n then None
           else do {
             b \<leftarrow> mem_write (xs_buf r) 0 (take n (bs @ [NUL]));
             Some (Some (r\<lparr>xs_buf := b, xs_len := n\<rparr>))
           }))"

definition xmls_new_string_literal :: "cstring option \<Rightarrow> xmls option option" where
  "xmls_new_string_literal s =
     (case s of None \<Rightarrow> Some None | Some bs \<Rightarrow> xmls_new_string (Some bs) (length bs))"

text \<open>The growth step shared by the two appending operations.\<close>

definition xmls_regrow :: "xmls \<Rightarrow> nat \<Rightarrow> xmls option" where
  "xmls_regrow s new =
     (if xs_allocated s \<le> length (xs_buf s)
      then do {
        b \<leftarrow> mem_write (mem_zero new) 0 (take (xs_allocated s) (xs_buf s));
        Some (s\<lparr>xs_buf := b, xs_allocated := new\<rparr>)
      }
      else None)"

definition xmls_add_char :: "xmls \<Rightarrow> char \<Rightarrow> xmls option" where
  "xmls_add_char s c = do {
     s1 \<leftarrow> (if size_sub (xs_allocated s) 2 \<le> xs_len s
            then xmls_regrow s (size_add (size_mul (xs_allocated s) 2) 1)
            else Some s);
     b \<leftarrow> mem_write (xs_buf s1) (xs_len s1) [c, NUL];
     Some (s1\<lparr>xs_buf := b, xs_len := size_add (xs_len s1) 1\<rparr>)
   }"

definition xmls_add_str :: "xmls \<Rightarrow> cstring option \<Rightarrow> xmls option" where
  "xmls_add_str s d =
     (case d of
        None \<Rightarrow> Some s
      | Some bs \<Rightarrow>
          (let l = uint_wrap (length bs + 1) in
           if l = 0 then Some s
           else do {
             s1 \<leftarrow> (if xs_allocated s \<le> size_add (xs_len s) l
                    then xmls_regrow s (size_add (size_mul (xs_allocated s) 2) l)
                    else Some s);
             b \<leftarrow> mem_write (xs_buf s1) (xs_len s1) (take l (bs @ [NUL]));
             Some (s1\<lparr>xs_buf := b, xs_len := size_add (xs_len s1) l - 1\<rparr>)
           }))"

definition xmls_append :: "xmls \<Rightarrow> xmls option \<Rightarrow> xmls option" where
  "xmls_append s v = (case v of None \<Rightarrow> Some s | Some x \<Rightarrow> xmls_add_str s (Some (cstr_of (xs_buf x))))"

definition xmls_detach :: "xmls option \<Rightarrow> cstring option" where
  "xmls_detach s = map_option (\<lambda>x. cstr_of (xs_buf x)) s"

text \<open>The bytes a buffer holds.\<close>

definition xmls_content :: "xmls \<Rightarrow> byte list" where
  "xmls_content s = take (xs_len s) (xs_buf s)"

definition xmls_equals :: "xmls option \<Rightarrow> xmls option \<Rightarrow> bool" where
  "xmls_equals a b =
     (case (a, b) of
        (None, None) \<Rightarrow> True
      | (Some x, Some y) \<Rightarrow>
          xs_len x = xs_len y \<and> take (xs_len x) (xs_buf x) = take (xs_len x) (xs_buf y)
      | _ \<Rightarrow> False)"


subsection \<open>Appending is memory safe and appends\<close>

definition xmls_inv :: "xmls \<Rightarrow> bool" where
  "xmls_inv s \<longleftrightarrow>
     2 \<le> xs_allocated s \<and> xs_allocated s \<le> length (xs_buf s) \<and> xs_len s \<le> xs_allocated s \<and>
     xs_len s < length (xs_buf s) \<and> xs_buf s ! xs_len s = NUL"

lemma xmls_new_inv [tx_inv]: "2 \<le> n \<Longrightarrow> n + 1 < 2 ^ 64 \<Longrightarrow> xmls_inv (xmls_new n)"
  by (simp add: xmls_inv_def xmls_new_def mem_zero_def)

lemma xmls_new_content [simp]: "xmls_content (xmls_new n) = []"
  by (simp add: xmls_content_def xmls_new_def)

lemma xmls_regrow_ok:
  assumes "xs_allocated s \<le> length (xs_buf s)" "xs_allocated s \<le> new"
  shows "xmls_regrow s new = Some (s\<lparr>xs_buf := take (xs_allocated s) (xs_buf s) @
            mem_zero (new - xs_allocated s), xs_allocated := new\<rparr>)"
  using assms by (simp add: xmls_regrow_def mem_zero_def)

text \<open>One write of a block that ends in NUL, at the end of the current content.\<close>

lemma write_at_end:
  assumes "n \<le> length mem" "n + length d < length mem"
  shows "\<exists>m. mem_write mem n (d @ [NUL]) = Some m \<and> length m = length mem \<and>
             take (n + length d) m = take n mem @ d \<and> m ! (n + length d) = NUL"
  using assms by (intro exI[of _ "take n mem @ (d @ [NUL]) @ drop (n + length (d @ [NUL])) mem"])
    (auto simp: nth_append)

lemma xmls_add_char_ok:
  assumes inv: "xmls_inv s" and small: "2 * xs_allocated s + 1 < 2 ^ 64"
  shows "\<exists>s'. xmls_add_char s c = Some s' \<and> xmls_inv s' \<and> xmls_content s' = xmls_content s @ [c]"
proof -
  let ?a = "xs_allocated s"
  let ?g = "\<lambda>t. \<exists>s'. do { b \<leftarrow> mem_write (xs_buf t) (xs_len t) [c, NUL];
       Some (t\<lparr>xs_buf := b, xs_len := size_add (xs_len t) 1\<rparr>) } = Some s' \<and>
       xmls_inv s' \<and> xmls_content s' = xmls_content t @ [c]"
  have step: "?g t" if "xs_len t + 1 < length (xs_buf t)" "xs_len t + 1 \<le> xs_allocated t"
    "2 \<le> xs_allocated t" "xs_allocated t \<le> length (xs_buf t)" "xs_len t + 1 < 2 ^ 64" for t
    using that write_at_end[of "xs_len t" "xs_buf t" "[c]"]
    by (auto simp: xmls_inv_def xmls_content_def)
  have sub: "size_sub ?a 2 = ?a - 2"
    using inv small by (intro size_sub_no_borrow) (auto simp: xmls_inv_def)
  show ?thesis
  proof (cases "?a - 2 \<le> xs_len s")
    case True
    let ?t = "s\<lparr>xs_buf := take ?a (xs_buf s) @ mem_zero (?a + 1), xs_allocated := 2 * ?a + 1\<rparr>"
    have rg: "xmls_regrow s (size_add (size_mul ?a 2) 1) = Some ?t"
      using inv small by (simp add: xmls_regrow_ok xmls_inv_def mult.commute)
    have "?g ?t" using inv small by (intro step) (auto simp: xmls_inv_def)
    moreover have "xmls_content ?t = xmls_content s"
      using inv by (simp add: xmls_content_def xmls_inv_def min_def)
    ultimately show ?thesis using True rg by (simp add: xmls_add_char_def sub)
  next
    case False
    then have "?g s" using inv small by (intro step) (auto simp: xmls_inv_def)
    with False show ?thesis by (simp add: xmls_add_char_def sub)
  qed
qed

lemma xmls_add_str_ok:
  assumes inv: "xmls_inv s" and len: "length d + 1 < 2 ^ 32"
    and small: "2 * xs_allocated s + length d + 1 < 2 ^ 64"
  shows "\<exists>s'. xmls_add_str s (Some d) = Some s' \<and> xmls_inv s' \<and> xmls_content s' = xmls_content s @ d"
proof -
  let ?a = "xs_allocated s" and ?l = "length d + 1"
  let ?g = "\<lambda>t. \<exists>s'. do { b \<leftarrow> mem_write (xs_buf t) (xs_len t) (d @ [NUL]);
       Some (t\<lparr>xs_buf := b, xs_len := size_add (xs_len t) ?l - 1\<rparr>) } = Some s' \<and>
       xmls_inv s' \<and> xmls_content s' = xmls_content t @ d"
  have step: "?g t" if "xs_len t + length d < length (xs_buf t)" "xs_len t + length d \<le> xs_allocated t"
    "2 \<le> xs_allocated t" "xs_allocated t \<le> length (xs_buf t)" "xs_len t + length d + 1 < 2 ^ 64" for t
    using that write_at_end[of "xs_len t" "xs_buf t" d]
    by (auto simp: xmls_inv_def xmls_content_def)
  have add: "size_add (xs_len s) ?l = xs_len s + ?l"
    using inv small by (intro size_add_small) (auto simp: xmls_inv_def)
  show ?thesis
  proof (cases "?a \<le> xs_len s + ?l")
    case True
    let ?t = "s\<lparr>xs_buf := take ?a (xs_buf s) @ mem_zero (?a + ?l), xs_allocated := 2 * ?a + ?l\<rparr>"
    have rg: "xmls_regrow s (size_add (size_mul ?a 2) ?l) = Some ?t"
      using inv small by (simp add: xmls_regrow_ok xmls_inv_def mult.commute)
    have "?g ?t" using inv small by (intro step) (auto simp: xmls_inv_def)
    moreover have "xmls_content ?t = xmls_content s"
      using inv by (simp add: xmls_content_def xmls_inv_def min_def)
    ultimately show ?thesis using True rg len by (simp add: xmls_add_str_def add[simplified])
  next
    case False
    then have "?g s" using inv small by (intro step) (auto simp: xmls_inv_def)
    with False len show ?thesis by (simp add: xmls_add_str_def add[simplified])
  qed
qed

subsection \<open>Building a string from pieces\<close>

fun xmls_add_strs :: "xmls \<Rightarrow> cstring list \<Rightarrow> xmls option" where
  "xmls_add_strs s [] = Some s"
| "xmls_add_strs s (d # ds) = do { s1 \<leftarrow> xmls_add_str s (Some d); xmls_add_strs s1 ds }"

text \<open>Growth is amortised: the room never exceeds three times the bytes that were needed.\<close>

lemma xmls_add_str_room:
  assumes "xmls_add_str s (Some d) = Some s'" "xmls_inv s" "length d + 1 < 2 ^ 32"
    "2 * xs_allocated s + length d + 1 < 2 ^ 64"
  shows "xs_allocated s' \<le> max (xs_allocated s) (3 * (xs_len s + length d + 1))" "xs_len s' = xs_len s + length d"
  using assms
  by (auto simp: xmls_add_str_def xmls_regrow_ok xmls_inv_def mult.commute bind_eq_Some_conv size_add_small
      split: if_splits)

lemma xmls_add_strs_ok:
  assumes "xmls_inv s" "xs_allocated s \<le> 3 * m" "xs_len s + sum_list (map (\<lambda>d. length d + 1) ds) \<le> m"
    "m < 2 ^ 31"
  shows "\<exists>s'. xmls_add_strs s ds = Some s' \<and> xmls_inv s' \<and> xmls_content s' = xmls_content s @ concat ds \<and>
    xs_allocated s' \<le> 3 * m"
  using assms
proof (induction ds arbitrary: s)
  case Nil
  then show ?case by simp
next
  case (Cons d ds)
  have small: "length d + 1 < 2 ^ 32" "2 * xs_allocated s + length d + 1 < 2 ^ 64" using Cons.prems by simp_all
  from xmls_add_str_ok[OF Cons.prems(1) small] obtain s1 where s1: "xmls_add_str s (Some d) = Some s1" "xmls_inv s1"
    "xmls_content s1 = xmls_content s @ d" by blast
  note room = xmls_add_str_room[OF s1(1) Cons.prems(1) small]
  have "xs_allocated s1 \<le> 3 * m" "xs_len s1 + sum_list (map (\<lambda>d. length d + 1) ds) \<le> m"
    using room Cons.prems by auto
  from Cons.IH[OF s1(2) this Cons.prems(4)] s1 show ?case by auto
qed

text \<open>
  C19: Building a string by appending pieces never writes outside the buffer and yields exactly their
  concatenation, for every initial size of at least 2; the buffer grows to at most three times the
  bytes appended (each with its NUL) or the initial size.
\<close>

theorem xmls_build_concatenates:
  assumes "2 \<le> n" "n \<le> 3 * m" "sum_list (map (\<lambda>d. length d + 1) ds) \<le> m" "m < 2 ^ 31"
  shows "\<exists>s. xmls_add_strs (xmls_new n) ds = Some s \<and> xmls_content s = concat ds \<and> xs_allocated s \<le> 3 * m \<and>
    xs_allocated s \<le> length (xs_buf s)"
proof -
  have "xmls_inv (xmls_new n)" using assms by (intro xmls_new_inv) auto
  moreover have "xs_allocated (xmls_new n) = n" "xs_len (xmls_new n) = 0" by (simp_all add: xmls_new_def)
  ultimately show ?thesis using xmls_add_strs_ok[of "xmls_new n" m ds] assms by (auto simp: xmls_inv_def)
qed

theorem xmls_build_concatenates_witness:
  "\<exists>s. xmls_add_strs (xmls_new 2) [''ab'', ''c''] = Some s \<and> xmls_content s = ''abc'' \<and> xs_allocated s \<le> 15 \<and>
    xs_allocated s \<le> length (xs_buf s)"
  using xmls_build_concatenates[of 2 5 "[''ab'', ''c'']"] by simp

text \<open>
  The size of a new buffer matters: \<open>allocated - 2\<close> wraps around below 2, so a buffer created
  with size 1 takes one character and writes the next one behind its end, and one of size 0 overflows at once.
\<close>

theorem xmls_small_buffer_overflows:
  "do { s \<leftarrow> xmls_add_char (xmls_new 1) c; xmls_add_char s d } = None \<and> xmls_add_char (xmls_new 0) c = None"
  by (simp_all add: xmls_add_char_def xmls_new_def size_sub_def size_add_def mem_zero_def mem_write_def bind_eq_None_conv)

end
