(* ===== verification/Tx_Utf8.thy ===== *)
theory Tx_Utf8
  imports Tx_Strings
begin

text \<open>
  UTF-8 in strings.c: \<open>xmls_add_utf\<close> (encoder) and \<open>utf2ws\<close> (decoder into an array of
  16-bit units). The decoder keeps its units in a signed \<open>short\<close>; the callers that write
  them back (\<open>substring\<close>, \<open>translate\<close>) convert that \<open>short\<close> to \<open>unsigned\<close>, which sign-extends.
\<close>

unbundle bit_operations_syntax

definition byte_of :: "u32 \<Rightarrow> char" where
  "byte_of u = char_of (unat u)"

definition w8 :: "char \<Rightarrow> u8" where
  "w8 c = word_of_nat (of_char c)"

definition xmls_add_utf :: "xmls \<Rightarrow> u32 \<Rightarrow> xmls option" where
  "xmls_add_utf s u =
     (if u < 128 then xmls_add_char s (byte_of u)
      else if u < 0x800 then do {
        s \<leftarrow> xmls_add_char s (byte_of (0xC0 OR drop_bit 6 u));
        xmls_add_char s (byte_of (0x80 OR (u AND 0x3F)))
      }
      else if u < 0x10000 then do {
        s \<leftarrow> xmls_add_char s (byte_of (0xE0 OR drop_bit 12 u));
        s \<leftarrow> xmls_add_char s (byte_of (0x80 OR (drop_bit 6 u AND 0x3F)));
        xmls_add_char s (byte_of (0x80 OR (u AND 0x3F)))
      }
      else if u < 0x200000 then do {
        s \<leftarrow> xmls_add_char s (byte_of (0xF0 OR drop_bit 18 u));
        s \<leftarrow> xmls_add_char s (byte_of (0x80 OR (drop_bit 12 u AND 0x3F)));
        s \<leftarrow> xmls_add_char s (byte_of (0x80 OR (drop_bit 6 u AND 0x3F)));
        xmls_add_char s (byte_of (0x80 OR (u AND 0x3F)))
      }
      else Some s)"

text \<open>The bytes the encoder appends.\<close>

definition utf8_bytes :: "u32 \<Rightarrow> byte list" where
  "utf8_bytes u =
     (if u < 128 then [byte_of u]
      else if u < 0x800 then [byte_of (0xC0 OR drop_bit 6 u), byte_of (0x80 OR (u AND 0x3F))]
      else if u < 0x10000 then
        [byte_of (0xE0 OR drop_bit 12 u), byte_of (0x80 OR (drop_bit 6 u AND 0x3F)),
         byte_of (0x80 OR (u AND 0x3F))]
      else if u < 0x200000 then
        [byte_of (0xF0 OR drop_bit 18 u), byte_of (0x80 OR (drop_bit 12 u AND 0x3F)),
         byte_of (0x80 OR (drop_bit 6 u AND 0x3F)), byte_of (0x80 OR (u AND 0x3F))]
      else [])"

text \<open>
  The decoder's loop over the bytes before the terminating NUL. A multi-byte lead at the end of
  the string makes the index step over the NUL and the loop reads behind the string: \<open>None\<close>.
\<close>

fun utf2ws_loop :: "cstring \<Rightarrow> u16 list option" where
  "utf2ws_loop [] = Some []"
| "utf2ws_loop (c # cs) =
     (let b = w8 c in
      if b AND 0x80 \<noteq> 0 then
        if b AND 0xE0 = 0xC0 then
          (case cs of
             d # ds \<Rightarrow> do {
               r \<leftarrow> utf2ws_loop ds;
               Some ((push_bit 6 (ucast (b AND 0x1F)) OR ucast (w8 d AND 0x3F)) # r) }
           | [] \<Rightarrow> None)
        else if b AND 0xF0 = 0xE0 then
          (case cs of
             d # e # es \<Rightarrow> do {
               r \<leftarrow> utf2ws_loop es;
               Some ((push_bit 12 (ucast (b AND 0x0F)) OR push_bit 6 (ucast (w8 d AND 0x3F)) OR
                      ucast (w8 e AND 0x3F)) # r) }
           | _ \<Rightarrow> None)
        else map_option (\<lambda>r. 0 # r) (utf2ws_loop cs)
      else map_option (\<lambda>r. ucast b # r) (utf2ws_loop cs))"

text \<open>The array of \<open>utf2ws\<close> read by a loop that stops at the first 0 unit.\<close>

definition utf2ws :: "cstring option \<Rightarrow> u16 list option option" where
  "utf2ws s =
     (case s of None \<Rightarrow> Some None
      | Some bs \<Rightarrow> map_option (\<lambda>ws. Some (takeWhile (\<lambda>w. w \<noteq> 0) ws)) (utf2ws_loop bs))"

text \<open>C's conversion of a \<open>short\<close> argument to the \<open>unsigned\<close> parameter of \<open>xmls_add_utf\<close>.\<close>

definition short_to_unsigned :: "u16 \<Rightarrow> u32" where
  "short_to_unsigned w = scast w"

subsection \<open>The encoder appends the UTF-8 bytes\<close>

fun xmls_add_chars :: "xmls \<Rightarrow> byte list \<Rightarrow> xmls option" where
  "xmls_add_chars s [] = Some s"
| "xmls_add_chars s (c # cs) = do { s' \<leftarrow> xmls_add_char s c; xmls_add_chars s' cs }"

lemma xmls_add_utf_chars: "xmls_add_utf s u = xmls_add_chars s (utf8_bytes u)"
  by (simp add: xmls_add_utf_def utf8_bytes_def)

lemma xmls_add_char_allocated:
  assumes "xmls_add_char s c = Some s'" "xmls_inv s" "2 * xs_allocated s + 1 < 2 ^ 64"
  shows "xs_allocated s' \<le> 2 * xs_allocated s + 1"
  using assms
  by (auto simp: xmls_add_char_def xmls_regrow_ok xmls_inv_def mult.commute bind_eq_Some_conv
      split: if_splits)

lemma xmls_add_chars_ok:
  assumes "xmls_inv s" "2 ^ length cs * (xs_allocated s + 1) < 2 ^ 64"
  shows "\<exists>s'. xmls_add_chars s cs = Some s' \<and> xmls_inv s' \<and> xmls_content s' = xmls_content s @ cs"
  using assms
proof (induction cs arbitrary: s)
  case Nil
  then show ?case by simp
next
  case (Cons c cs)
  have p: "(1::nat) \<le> 2 ^ length cs" by simp
  have b: "2 ^ length cs * (2 * xs_allocated s + 2) < 2 ^ 64"
    using Cons.prems(2) by (simp add: algebra_simps)
  have "2 * xs_allocated s + 2 \<le> 2 ^ length cs * (2 * xs_allocated s + 2)"
    using mult_le_mono1[OF p, of "2 * xs_allocated s + 2"] by simp
  with b have small: "2 * xs_allocated s + 1 < 2 ^ 64" by linarith
  obtain t where t: "xmls_add_char s c = Some t" "xmls_inv t" "xmls_content t = xmls_content s @ [c]"
    using xmls_add_char_ok[OF Cons.prems(1) small] by blast
  have "xs_allocated t + 1 \<le> 2 * xs_allocated s + 2"
    using xmls_add_char_allocated[OF t(1) Cons.prems(1) small] by simp
  then have "2 ^ length cs * (xs_allocated t + 1) < 2 ^ 64"
    using b mult_le_mono2[of "xs_allocated t + 1" "2 * xs_allocated s + 2" "2 ^ length cs"] by linarith
  from Cons.IH[OF t(2) this] t show ?case by auto
qed

lemma utf8_bytes_length: "length (utf8_bytes u) \<le> 4"
  by (simp add: utf8_bytes_def)

subsection \<open>Decoding inverts encoding for 16-bit code points\<close>

lemma w8_byte_of [simp]: "w8 (byte_of u) = ucast u"
proof -
  have "w8 (byte_of u) = word_of_nat (unat u mod 256)"
    by (simp add: w8_def byte_of_def)
  also have "\<dots> = ucast u"
    by (rule word_unat_eq_iff[THEN iffD2])
      (simp add: unat_of_nat unsigned_ucast_eq take_bit_eq_mod)
  finally show ?thesis .
qed

lemma high_bits_clear:
  fixes u :: "'a::len word"
  assumes "unat u < 2 ^ k" "k \<le> n"
  shows "\<not> bit u n"
proof -
  have "take_bit k (unat u) = unat u" using assms(1) by (simp add: take_bit_nat_eq_self)
  then have "bit (unat u) n \<longleftrightarrow> bit (take_bit k (unat u)) n" by simp
  then have "\<not> bit (unat u) n" using assms(2) by (simp add: bit_take_bit_iff)
  then show ?thesis using bit_imp_le_length[of u n] by (auto simp: bit_unsigned_iff)
qed

text \<open>Equality of words, one goal per bit: each is closed by evaluating \<open>bit\<close>.\<close>

lemma less_8_cases: "(n::nat) < 8 \<Longrightarrow> n = 0 \<or> n = 1 \<or> n = 2 \<or> n = 3 \<or> n = 4 \<or> n = 5 \<or> n = 6 \<or> n = 7"
  by auto

lemma u8_eqI:
  fixes a b :: u8
  assumes "bit a 0 = bit b 0" "bit a 1 = bit b 1" "bit a 2 = bit b 2" "bit a 3 = bit b 3"
    "bit a 4 = bit b 4" "bit a 5 = bit b 5" "bit a 6 = bit b 6" "bit a 7 = bit b 7"
  shows "a = b"
proof (rule bit_word_eqI)
  fix n assume "n < LENGTH(8)"
  then have "n < 8" by simp
  from less_8_cases[OF this] show "bit a n = bit b n" using assms by (elim disjE) simp_all
qed

lemma u16_eqI:
  fixes a b :: u16
  assumes lo: "\<And>n. n < 8 \<Longrightarrow> bit a n = bit b n"
    and "bit a 8 = bit b 8" "bit a 9 = bit b 9" "bit a 10 = bit b 10" "bit a 11 = bit b 11"
    "bit a 12 = bit b 12" "bit a 13 = bit b 13" "bit a 14 = bit b 14" "bit a 15 = bit b 15"
  shows "a = b"
proof (rule bit_word_eqI)
  fix n assume n: "n < LENGTH(16)"
  show "bit a n = bit b n"
  proof (cases "n < 8")
    case True then show ?thesis by (rule lo)
  next
    case False
    then obtain m where m: "n = 8 + m" by (metis le_add_diff_inverse not_less)
    with n have "m < 8" by simp
    from less_8_cases[OF this] show ?thesis using assms(2-) m by (elim disjE) simp_all
  qed
qed

lemmas bit_facts = bit_and_iff bit_or_iff bit_drop_bit_eq bit_push_bit_iff bit_unsigned_iff
  bit_0_eq

lemma nonzero_by_bit: "bit (w :: 'a::len word) n \<Longrightarrow> w \<noteq> 0"
  by auto

lemma ascii_byte:
  fixes u :: u32
  assumes "u < 128"
  shows "(ucast u :: u8) AND 0x80 = 0"
proof -
  have "\<not> bit u 7" using assms by (intro high_bits_clear[of u 7]) (simp_all add: word_less_nat_alt)
  then show ?thesis by (intro u8_eqI) (simp_all add: bit_facts)
qed

lemma lead2:
  fixes u :: u32
  assumes "u < 0x800"
  shows "(ucast (0xC0 OR drop_bit 6 u) :: u8) AND 0x80 \<noteq> 0"
    "(ucast (0xC0 OR drop_bit 6 u) :: u8) AND 0xE0 = 0xC0"
proof -
  have h: "\<not> bit u 11"
    using assms by (intro high_bits_clear[of u 11]) (simp_all add: word_less_nat_alt)
  show "(ucast (0xC0 OR drop_bit 6 u) :: u8) AND 0x80 \<noteq> 0"
    by (rule nonzero_by_bit[of _ 7]) (simp add: bit_facts)
  show "(ucast (0xC0 OR drop_bit 6 u) :: u8) AND 0xE0 = 0xC0"
    using h by (intro u8_eqI) (simp_all add: bit_facts)
qed

lemma lead3:
  fixes u :: u32
  assumes "u < 0x10000"
  shows "(ucast (0xE0 OR drop_bit 12 u) :: u8) AND 0x80 \<noteq> 0"
    "(ucast (0xE0 OR drop_bit 12 u) :: u8) AND 0xE0 \<noteq> 0xC0"
    "(ucast (0xE0 OR drop_bit 12 u) :: u8) AND 0xF0 = 0xE0"
proof -
  have h: "\<not> bit u 16"
    using assms by (intro high_bits_clear[of u 16]) (simp_all add: word_less_nat_alt)
  show "(ucast (0xE0 OR drop_bit 12 u) :: u8) AND 0x80 \<noteq> 0"
    by (rule nonzero_by_bit[of _ 7]) (simp add: bit_facts)
  have "bit ((ucast (0xE0 OR drop_bit 12 u) :: u8) AND 0xE0) 5" "\<not> bit (0xC0 :: u8) 5"
    by (simp_all add: bit_facts)
  then show "(ucast (0xE0 OR drop_bit 12 u) :: u8) AND 0xE0 \<noteq> 0xC0" by metis
  show "(ucast (0xE0 OR drop_bit 12 u) :: u8) AND 0xF0 = 0xE0"
    using h by (intro u8_eqI) (simp_all add: bit_facts)
qed

lemma decode2:
  fixes u :: u32
  assumes "u < 0x800"
  shows "push_bit 6 (ucast ((ucast (0xC0 OR drop_bit 6 u) :: u8) AND 0x1F)) OR
         ucast ((ucast (0x80 OR (u AND 0x3F)) :: u8) AND 0x3F) = (ucast u :: u16)" (is "?l = ?r")
proof (rule u16_eqI)
  have h: "\<not> bit u n" if "11 \<le> n" for n
    using assms that by (intro high_bits_clear[of u 11]) (simp_all add: word_less_nat_alt)
  note facts = bit_facts h
  { fix n :: nat assume "n < 8"
    from less_8_cases[OF this] show "bit ?l n = bit ?r n" by (elim disjE) (simp_all add: facts) }
  show "bit ?l 8 = bit ?r 8" "bit ?l 9 = bit ?r 9" "bit ?l 10 = bit ?r 10" "bit ?l 11 = bit ?r 11"
    "bit ?l 12 = bit ?r 12" "bit ?l 13 = bit ?r 13" "bit ?l 14 = bit ?r 14" "bit ?l 15 = bit ?r 15"
    by (simp_all add: facts)
qed

lemma decode3:
  fixes u :: u32
  shows "push_bit 12 (ucast ((ucast (0xE0 OR drop_bit 12 u) :: u8) AND 0x0F)) OR
         push_bit 6 (ucast ((ucast (0x80 OR (drop_bit 6 u AND 0x3F)) :: u8) AND 0x3F)) OR
         ucast ((ucast (0x80 OR (u AND 0x3F)) :: u8) AND 0x3F) = (ucast u :: u16)" (is "?l = ?r")
proof (rule u16_eqI)
  { fix n :: nat assume "n < 8"
    from less_8_cases[OF this] show "bit ?l n = bit ?r n" by (elim disjE) (simp_all add: bit_facts) }
  show "bit ?l 8 = bit ?r 8" "bit ?l 9 = bit ?r 9" "bit ?l 10 = bit ?r 10" "bit ?l 11 = bit ?r 11"
    "bit ?l 12 = bit ?r 12" "bit ?l 13 = bit ?r 13" "bit ?l 14 = bit ?r 14" "bit ?l 15 = bit ?r 15"
    by (simp_all add: bit_facts)
qed

lemma ascii_decode:
  fixes u :: u32
  assumes "u < 128"
  shows "(ucast (ucast u :: u8) :: u16) = ucast u"
proof -
  have h: "\<not> bit u n" if "7 \<le> n" for n
    using assms that by (intro high_bits_clear[of u 7]) (simp_all add: word_less_nat_alt)
  have "n < 8" if "bit u n" for n
    using h[of n] that by (cases "7 \<le> n") auto
  then show ?thesis by (intro bit_word_eqI) (auto simp: bit_facts)
qed

lemma utf2ws_loop_utf8_bytes:
  assumes "u < 0x10000"
  shows "utf2ws_loop (utf8_bytes u @ rest) = map_option (\<lambda>r. ucast u # r) (utf2ws_loop rest)"
proof -
  consider "u < 128" | "\<not> u < 128" "u < 0x800" | "\<not> u < 128" "\<not> u < 0x800" by blast
  then show ?thesis
  proof cases
    case 1
    then show ?thesis by (simp add: utf8_bytes_def ascii_byte ascii_decode)
  next
    case 2
    then show ?thesis
      by (cases "utf2ws_loop rest") (simp_all add: utf8_bytes_def lead2 decode2)
  next
    case 3
    then show ?thesis using assms
      by (cases "utf2ws_loop rest") (simp_all add: utf8_bytes_def lead3 decode3)
  qed
qed

lemma ucast_u16_small: "(ucast (w :: u16) :: u32) < 0x10000"
proof -
  have "unat w < 2 ^ 16" using unsigned_less[of w] by simp
  then show ?thesis by (simp add: word_less_nat_alt unsigned_ucast_eq take_bit_eq_mod)
qed

lemma u16_u32_u16: "(ucast (ucast (w :: u16) :: u32) :: u16) = w"
  by (intro bit_word_eqI) (auto simp: bit_facts)

lemma utf2ws_loop_encode:
  "utf2ws_loop (concat (map (\<lambda>w. utf8_bytes (ucast w)) ws)) = Some ws"
  by (induction ws) (simp_all add: utf2ws_loop_utf8_bytes[OF ucast_u16_small] u16_u32_u16)

subsection \<open>Writing a decoded unit back\<close>

lemma short_to_unsigned_pos:
  assumes "w < 0x8000"
  shows "short_to_unsigned w = ucast w"
proof -
  have "\<not> bit w n" if "15 \<le> n" for n
    using assms that by (intro high_bits_clear[of w 15]) (simp_all add: word_less_nat_alt)
  then show ?thesis
    by (intro bit_word_eqI) (auto simp: short_to_unsigned_def bit_signed_iff bit_unsigned_iff min_def)
qed

lemma short_to_unsigned_neg:
  assumes "0x8000 \<le> w"
  shows "utf8_bytes (short_to_unsigned w) = []"
proof -
  have "2 ^ 15 \<le> unat w" "unat w < 2 ^ 16"
    using assms unsigned_less[of w] by (simp_all add: word_le_nat_alt)
  then have "unat w div 2 ^ 15 = 1" by simp
  then have "bit (unat w) 15" by (simp add: bit_iff_odd)
  then have "bit w 15" by (simp add: bit_unsigned_iff)
  then have b: "bit (short_to_unsigned w) 31"
    by (simp add: short_to_unsigned_def bit_signed_iff min_def)
  have "\<not> short_to_unsigned w < 0x200000"
  proof
    assume "short_to_unsigned w < 0x200000"
    then have "\<not> bit (short_to_unsigned w) 31"
      by (intro high_bits_clear[of _ 21]) (simp_all add: word_less_nat_alt)
    with b show False by simp
  qed
  then show ?thesis by (simp add: utf8_bytes_def word_less_nat_alt)
qed

text \<open>
  C20: Decoding inverts encoding: a text of 16-bit code points written as UTF-8 is decoded by
  \<open>utf2ws\<close> to the same units, for every code point from 1 to U+FFFF.
\<close>

theorem utf2ws_inverts_utf8:
  assumes "0 \<notin> set ws"
  shows "utf2ws (Some (concat (map (\<lambda>w. utf8_bytes (ucast w)) ws))) = Some (Some ws)"
proof -
  have "takeWhile (\<lambda>w. w \<noteq> 0) ws = ws" using assms by (induction ws) auto
  then show ?thesis by (simp add: utf2ws_def utf2ws_loop_encode)
qed

theorem utf2ws_inverts_utf8_witness:
  "utf2ws (Some (concat (map (\<lambda>w. utf8_bytes (ucast w)) [0x41 :: u16, 0x44F, 0x20AC]))) = Some (Some [0x41, 0x44F, 0x20AC])"
  by (rule utf2ws_inverts_utf8) simp

text \<open>
  Writing a unit back goes through a signed \<open>short\<close>: units below U+8000 get their UTF-8
  bytes, units from U+8000 on are sign-extended past the largest code point and are silently lost.
\<close>

theorem unit_written_back:
  "utf8_bytes (short_to_unsigned w) = (if w < 0x8000 then utf8_bytes (ucast w) else [])"
  using short_to_unsigned_pos[of w] short_to_unsigned_neg[of w] by (simp add: not_less)

end
