(* ===== verification/Tx_Dict.thy ===== *)
theory Tx_Dict
  imports Tx_Strings
begin

text \<open>
  xmldict.c: the chained hash dictionary from \<open>XMLSTRING\<close> names to pointers, and the interface
  \<open>dictionary\<close> its clients rely on. Slots of \<open>entries\<close> that were allocated but never written
  are \<open>None\<close>; reading one, or indexing outside the array, makes the operation \<open>None\<close>. The
  32-bit counters \<open>allocated\<close> and \<open>used\<close> are naturals (a dictionary of \<open>2 ^ 32\<close> entries is
  not considered) and \<open>malloc\<close>/\<open>realloc\<close> succeed.
\<close>

subsection \<open>Data\<close>

record 'd dictentry =
  de_name :: xmls
  de_data :: 'd
  de_next :: nat

record 'd dict =
  d_entries :: "'d dictentry option list"
  d_allocated :: nat
  d_used :: nat
  d_hash :: "nat list"

subsection \<open>Operations\<close>

text \<open>The sdbm hash over the bytes of a C string, in 64-bit arithmetic.\<close>

definition hash_step :: "u64 \<Rightarrow> char \<Rightarrow> u64" where
  "hash_step hash c = word_of_nat (of_char c) + push_bit 6 hash + push_bit 16 hash - hash"

definition hash_function :: "cstring \<Rightarrow> u64" where
  "hash_function str = foldl hash_step 0 str"

text \<open>The bucket of a name, and the name with its hash cached.\<close>

definition bucket_number :: "xmls \<Rightarrow> nat \<times> xmls" where
  "bucket_number str =
     (let str' = (if xs_hash str = 0 then str\<lparr>xs_hash := hash_function (cstr_of (xs_buf str))\<rparr> else str)
      in (unat (xs_hash str' mod 127), str'))"

definition dict_new :: "nat \<Rightarrow> 'd dict" where
  "dict_new n =
     (let sz = (if n = 0 then 100 else n) in
      \<lparr>d_entries = replicate sz None, d_allocated = sz, d_used = 0, d_hash = replicate 128 0\<rparr>)"

definition entry_at :: "'d dictentry option list \<Rightarrow> nat \<Rightarrow> 'd dictentry option" where
  "entry_at es i = (if i < length es then es ! i else None)"

text \<open>The chain walk of \<open>dict_find\<close> and \<open>dict_add\<close>: \<open>h\<close> is an index plus one, 0 ends the chain.\<close>

partial_function (option) dict_walk ::
  "'d dictentry option list \<Rightarrow> nat \<Rightarrow> xmls \<Rightarrow> 'd option option" where
  "dict_walk es h name =
     (if h = 0 then Some None
      else do {
        e \<leftarrow> entry_at es (h - 1);
        if xmls_equals (Some (de_name e)) (Some name) then Some (Some (de_data e))
        else dict_walk es (de_next e) name
      })"

definition dict_find :: "'d dict option \<Rightarrow> xmls option \<Rightarrow> 'd option option" where
  "dict_find dict name =
     (case (dict, name) of
        (Some d, Some n) \<Rightarrow>
          (let (h, n') = bucket_number n in dict_walk (d_entries d) (d_hash d ! h) n')
      | _ \<Rightarrow> Some None)"

definition dict_grow :: "'d dict \<Rightarrow> 'd dict" where
  "dict_grow d =
     (if d_allocated d \<le> d_used d
      then d\<lparr>d_allocated := d_allocated d + 100, d_entries := d_entries d @ replicate 100 None\<rparr>
      else d)"

text \<open>Writing the new entry and making it the head of its chain.\<close>

definition dict_link :: "'d dict \<Rightarrow> nat \<Rightarrow> xmls \<Rightarrow> 'd \<Rightarrow> 'd dict option" where
  "dict_link d h name data =
     (if d_used d < length (d_entries d)
      then Some (d\<lparr>d_entries := (d_entries d)[d_used d :=
                     Some \<lparr>de_name = name, de_data = data, de_next = d_hash d ! h\<rparr>],
                   d_hash := (d_hash d)[h := d_used d + 1],
                   d_used := d_used d + 1\<rparr>)
      else None)"

definition dict_add :: "'d dict \<Rightarrow> xmls option \<Rightarrow> 'd \<Rightarrow> (bool \<times> 'd dict) option" where
  "dict_add dict name data =
     (case name of
        None \<Rightarrow> Some (False, dict)
      | Some n \<Rightarrow>
          (let d = dict_grow dict; (h, n') = bucket_number n in do {
             found \<leftarrow> dict_walk (d_entries d) (d_hash d ! h) n';
             case found of
               Some _ \<Rightarrow> Some (False, d)
             | None \<Rightarrow> map_option (\<lambda>d'. (True, d')) (dict_link d h n' data)
           }))"

definition dict_replace :: "'d dict \<Rightarrow> xmls option \<Rightarrow> 'd \<Rightarrow> 'd dict option" where
  "dict_replace dict name data =
     (case name of
        None \<Rightarrow> Some dict
      | Some n \<Rightarrow>
          (let d = dict_grow dict; (h, n') = bucket_number n in dict_link d h n' data))"

subsection \<open>Valid names\<close>

text \<open>A name is a terminated string whose cached hash, once set, is the hash of its bytes.\<close>

definition name_ok :: "xmls \<Rightarrow> bool" where
  "name_ok x \<longleftrightarrow>
     xs_len x < length (xs_buf x) \<and> xs_buf x ! xs_len x = NUL \<and>
     (xs_hash x = 0 \<or> xs_hash x = hash_function (cstr_of (xs_buf x)))"

definition name_bucket :: "byte list \<Rightarrow> nat" where
  "name_bucket bs = unat (hash_function (cstr_of bs) mod 127)"

lemma xmls_equals_content:
  assumes "name_ok x" "name_ok y"
  shows "xmls_equals (Some x) (Some y) \<longleftrightarrow> xmls_content x = xmls_content y"
proof -
  have "length (xmls_content x) = xs_len x" "length (xmls_content y) = xs_len y"
    using assms by (simp_all add: name_ok_def xmls_content_def)
  then have "xmls_content x = xmls_content y \<Longrightarrow> xs_len x = xs_len y" by metis
  then show ?thesis by (auto simp: xmls_equals_def xmls_content_def)
qed

lemma cstr_of_take:
  "n < length b \<Longrightarrow> b ! n = NUL \<Longrightarrow> cstr_of b = cstr_of (take n b)"
proof (induction b arbitrary: n)
  case Nil then show ?case by simp
next
  case (Cons a b)
  then show ?case by (cases n) (auto simp: cstr_of_def)
qed

lemma bucket_number_ok:
  assumes "name_ok x"
  shows "fst (bucket_number x) = name_bucket (xmls_content x)"
    "name_ok (snd (bucket_number x))" "xmls_content (snd (bucket_number x)) = xmls_content x"
proof -
  have "cstr_of (xs_buf x) = cstr_of (xmls_content x)"
    using assms cstr_of_take by (auto simp: name_ok_def xmls_content_def)
  then show "fst (bucket_number x) = name_bucket (xmls_content x)"
    using assms by (auto simp: bucket_number_def name_bucket_def Let_def name_ok_def)
qed (use assms in \<open>auto simp: bucket_number_def Let_def name_ok_def xmls_content_def\<close>)

lemma name_bucket_less: "name_bucket bs < 127"
proof -
  have "(w :: u64) mod 127 < 127" for w by (rule word_mod_less_divisor) simp
  then show ?thesis by (simp add: name_bucket_def word_less_nat_alt)
qed

lemma new_string_literal_ok:
  assumes "is_cstring s" "length s + 1 < 2 ^ 64"
  obtains x where "xmls_new_string_literal (Some s) = Some (Some x)" "name_ok x" "xmls_content x = s"
proof
  let ?x = "\<lparr>xs_buf = s @ [NUL], xs_len = length s, xs_allocated = length s, xs_hash = 0\<rparr>"
  show "xmls_new_string_literal (Some s) = Some (Some ?x)"
    using assms by (simp add: xmls_new_string_literal_def xmls_new_string_def xmls_new_def)
qed (simp_all add: name_ok_def xmls_content_def)

subsection \<open>The representation invariant\<close>

text \<open>
  \<open>dchain es n h r\<close>: following the links from \<open>h\<close> visits exactly the entries \<open>r\<close>, all of
  them among the first \<open>n\<close> slots.
\<close>

fun dchain :: "'d dictentry option list \<Rightarrow> nat \<Rightarrow> nat \<Rightarrow> 'd dictentry list \<Rightarrow> bool" where
  "dchain es n h [] \<longleftrightarrow> h = 0"
| "dchain es n h (e # r) \<longleftrightarrow>
     0 < h \<and> h \<le> n \<and> entry_at es (h - 1) = Some e \<and> dchain es n (de_next e) r"

definition entry_bucket :: "'d dictentry \<Rightarrow> nat" where
  "entry_bucket e = name_bucket (xmls_content (de_name e))"

text \<open>\<open>us\<close> are the used entries, oldest first; the chain of a bucket lists its entries newest first.\<close>

definition dict_rel :: "'d dict \<Rightarrow> 'd dictentry list \<Rightarrow> bool" where
  "dict_rel d us \<longleftrightarrow>
     d_used d = length us \<and> d_used d \<le> d_allocated d \<and> length (d_entries d) = d_allocated d \<and>
     length (d_hash d) = 128 \<and> (\<forall>e\<in>set us. name_ok (de_name e)) \<and>
     (\<forall>b<127. dchain (d_entries d) (d_used d) (d_hash d ! b) (rev (filter (\<lambda>e. entry_bucket e = b) us)))"

definition dict_inv :: "'d dict \<Rightarrow> bool" where
  "dict_inv d \<longleftrightarrow> (\<exists>us. dict_rel d us)"

text \<open>What a list of used entries means: the newest binding of a name wins.\<close>

definition entries_map :: "'d dictentry list \<Rightarrow> byte list \<Rightarrow> 'd option" where
  "entries_map us k = map_option de_data (find (\<lambda>e. xmls_content (de_name e) = k) (rev us))"

lemma entries_map_snoc:
  "entries_map (us @ [e]) = (entries_map us)(xmls_content (de_name e) \<mapsto> de_data e)"
  by (auto simp: entries_map_def fun_eq_iff)

lemma entries_map_Nil [simp]: "entries_map [] = Map.empty"
  by (auto simp: entries_map_def fun_eq_iff)

lemma dchain_mono:
  "dchain es n h r \<Longrightarrow> n \<le> m \<Longrightarrow> (\<And>i. i < n \<Longrightarrow> entry_at es' i = entry_at es i) \<Longrightarrow>
   dchain es' m h r"
  by (induction r arbitrary: h) auto

lemma dict_walk_chain:
  assumes "dchain es n h r" "\<forall>e\<in>set r. name_ok (de_name e)" "name_ok x"
  shows "dict_walk es h x =
           Some (map_option de_data (find (\<lambda>e. xmls_content (de_name e) = xmls_content x) r))"
  using assms
proof (induction r arbitrary: h)
  case Nil
  then show ?case by (simp add: dict_walk.simps)
next
  case (Cons e r)
  then show ?case by (subst dict_walk.simps) (simp add: xmls_equals_content)
qed

lemma find_filter_same:
  "(\<And>e. P e \<Longrightarrow> Q e) \<Longrightarrow> find P (filter Q xs) = find P xs"
  by (induction xs) auto

lemma dict_walk_bucket:
  assumes "dict_rel d us" "name_ok x"
  shows "dict_walk (d_entries d) (d_hash d ! name_bucket (xmls_content x)) x =
           Some (entries_map us (xmls_content x))"
proof -
  let ?b = "name_bucket (xmls_content x)"
  let ?r = "rev (filter (\<lambda>e. entry_bucket e = ?b) us)"
  have "dchain (d_entries d) (d_used d) (d_hash d ! ?b) ?r" "\<forall>e\<in>set ?r. name_ok (de_name e)"
    using assms(1) name_bucket_less by (auto simp: dict_rel_def)
  then have "dict_walk (d_entries d) (d_hash d ! ?b) x =
      Some (map_option de_data (find (\<lambda>e. xmls_content (de_name e) = xmls_content x) ?r))"
    using assms(2) by (rule dict_walk_chain)
  also have "find (\<lambda>e. xmls_content (de_name e) = xmls_content x) ?r =
      find (\<lambda>e. xmls_content (de_name e) = xmls_content x) (rev us)"
    unfolding rev_filter by (rule find_filter_same) (simp add: entry_bucket_def)
  finally show ?thesis by (simp add: entries_map_def)
qed

lemma dict_new_rel: "dict_rel (dict_new n) []"
  by (simp add: dict_rel_def dict_new_def Let_def)

lemma dict_grow_rel:
  assumes "dict_rel d us"
  shows "dict_rel (dict_grow d) us" "d_used (dict_grow d) < d_allocated (dict_grow d)"
proof -
  have "dchain (d_entries d @ replicate 100 None) n h r"
    if "dchain (d_entries d) n h r" "n \<le> length (d_entries d)" for n h r
    using that by (intro dchain_mono[OF that(1)]) (auto simp: entry_at_def nth_append)
  then show "dict_rel (dict_grow d) us" using assms by (auto simp: dict_grow_def dict_rel_def)
  show "d_used (dict_grow d) < d_allocated (dict_grow d)"
    using assms by (auto simp: dict_grow_def dict_rel_def)
qed

lemma dict_link_rel:
  assumes rel: "dict_rel d us" and room: "d_used d < d_allocated d" and x: "name_ok x"
  defines "b \<equiv> name_bucket (xmls_content x)"
  shows "\<exists>d' e. dict_link d b x v = Some d' \<and> de_name e = x \<and> de_data e = v \<and> dict_rel d' (us @ [e])"
proof -
  let ?e = "\<lparr>de_name = x, de_data = v, de_next = d_hash d ! b\<rparr>"
  let ?es = "(d_entries d)[d_used d := Some ?e]"
  let ?d = "d\<lparr>d_entries := ?es, d_hash := (d_hash d)[b := d_used d + 1], d_used := d_used d + 1\<rparr>"
  have b: "b < 127" unfolding b_def by (rule name_bucket_less)
  have old: "dchain ?es (d_used d + 1) h r" if "dchain (d_entries d) (d_used d) h r" for h r
    using that by (rule dchain_mono) (auto simp: entry_at_def)
  have "dchain ?es (d_used d + 1) ((d_hash d)[b := d_used d + 1] ! c)
          (rev (filter (\<lambda>e. entry_bucket e = c) (us @ [?e])))" if "c < 127" for c
    using that rel room b old
    by (cases "c = b") (auto simp: dict_rel_def entry_bucket_def b_def entry_at_def)
  then have "dict_rel ?d (us @ [?e])"
    using rel room x by (auto simp: dict_rel_def)
  moreover have "dict_link d b x v = Some ?d"
    using rel room by (simp add: dict_link_def dict_rel_def)
  ultimately show ?thesis by (intro exI[of _ ?d] exI[of _ ?e]) simp
qed

subsection \<open>The dictionary interface\<close>

text \<open>
  What the clients of xmldict.c rely on: a name's contents are its key, \<open>find\<close> reads the
  map, \<open>add\<close> keeps an existing binding and says so, \<open>replace\<close> overrides it.
\<close>

fun add_list :: "('m \<Rightarrow> 'x \<Rightarrow> 'v \<Rightarrow> (bool \<times> 'm) option) \<Rightarrow> 'm \<Rightarrow> ('x \<times> 'v) list \<Rightarrow> 'm option" where
  "add_list add_op m [] = Some m"
| "add_list add_op m ((x, v) # r) = do { (b, m') \<leftarrow> add_op m x v; add_list add_op m' r }"

locale dictionary =
  fixes inv :: "'m \<Rightarrow> bool"
    and ok :: "'x \<Rightarrow> bool"
    and key :: "'x \<Rightarrow> 'k"
    and lookup :: "'m \<Rightarrow> 'k \<Rightarrow> 'v option"
    and empty :: "'m"
    and find_op :: "'m \<Rightarrow> 'x \<Rightarrow> 'v option option"
    and add_op :: "'m \<Rightarrow> 'x \<Rightarrow> 'v \<Rightarrow> (bool \<times> 'm) option"
    and replace_op :: "'m \<Rightarrow> 'x \<Rightarrow> 'v \<Rightarrow> 'm option"
  assumes empty: "inv empty" "lookup empty = Map.empty"
    and find: "inv m \<Longrightarrow> ok x \<Longrightarrow> find_op m x = Some (lookup m (key x))"
    and add_new: "inv m \<Longrightarrow> ok x \<Longrightarrow> lookup m (key x) = None \<Longrightarrow>
      \<exists>m'. add_op m x v = Some (True, m') \<and> inv m' \<and> lookup m' = (lookup m)(key x \<mapsto> v)"
    and add_old: "inv m \<Longrightarrow> ok x \<Longrightarrow> lookup m (key x) \<noteq> None \<Longrightarrow>
      \<exists>m'. add_op m x v = Some (False, m') \<and> inv m' \<and> lookup m' = lookup m"
    and replace: "inv m \<Longrightarrow> ok x \<Longrightarrow>
      \<exists>m'. replace_op m x v = Some m' \<and> inv m' \<and> lookup m' = (lookup m)(key x \<mapsto> v)"
begin

lemma add_cases:
  assumes "inv m" "ok x"
  shows "\<exists>m'. add_op m x v = Some (lookup m (key x) = None, m') \<and> inv m' \<and>
     lookup m' = (if lookup m (key x) = None then (lookup m)(key x \<mapsto> v) else lookup m)"
  using add_new[OF assms, of v] add_old[OF assms, of v] by auto

lemma find_after_add:
  assumes "inv m" "ok x" "ok y"
  shows "\<exists>b m'. add_op m x v = Some (b, m') \<and> inv m' \<and>
     find_op m' y = Some (if key y = key x \<and> lookup m (key x) = None then Some v else lookup m (key y))"
proof -
  obtain m' where m': "add_op m x v = Some (lookup m (key x) = None, m')" "inv m'"
    "lookup m' = (if lookup m (key x) = None then (lookup m)(key x \<mapsto> v) else lookup m)"
    using add_cases[OF assms(1,2)] by blast
  have "find_op m' y = Some (lookup m' (key y))" using m'(2) assms(3) by (rule find)
  then show ?thesis using m' by (cases "lookup m (key x) = None") auto
qed

lemma find_after_replace:
  assumes "inv m" "ok x" "ok y"
  shows "\<exists>m'. replace_op m x v = Some m' \<and> inv m' \<and>
     find_op m' y = Some (if key y = key x then Some v else lookup m (key y))"
proof -
  obtain m' where "replace_op m x v = Some m'" "inv m'" "lookup m' = (lookup m)(key x \<mapsto> v)"
    using replace[OF assms(1,2)] by blast
  then show ?thesis using find[OF _ assms(3), of m'] by auto
qed

text \<open>A loop that adds a list of bindings: the first binding of a key stays.\<close>

lemma add_list_lookup:
  assumes "inv m" "\<forall>(x, v)\<in>set ps. ok x"
  shows "\<exists>m'. add_list add_op m ps = Some m' \<and> inv m' \<and>
     lookup m' = map_of (map (\<lambda>(x, v). (key x, v)) ps) ++ lookup m"
  using assms
proof (induction ps arbitrary: m)
  case Nil
  then show ?case by simp
next
  case (Cons p ps)
  obtain x v where p: "p = (x, v)" by (cases p)
  with Cons.prems obtain m1 where m1: "add_op m x v = Some (lookup m (key x) = None, m1)" "inv m1"
    "lookup m1 = (if lookup m (key x) = None then (lookup m)(key x \<mapsto> v) else lookup m)"
    using add_cases[of m x v] by auto
  from Cons.IH[OF m1(2)] Cons.prems(2) obtain m2 where m2: "add_list add_op m1 ps = Some m2" "inv m2"
    "lookup m2 = map_of (map (\<lambda>(x, v). (key x, v)) ps) ++ lookup m1" by auto
  have "map_of (map (\<lambda>(x, v). (key x, v)) ps) ++ lookup m1 =
      map_of (map (\<lambda>(x, v). (key x, v)) (p # ps)) ++ lookup m"
    using m1(3) p by (auto simp: map_add_def fun_eq_iff split: option.splits)
  with m1 m2 p show ?case by (auto simp: fun_upd_def)
qed

end

subsection \<open>xmldict.c provides the interface\<close>

text \<open>The map a dictionary stands for, read through \<open>dict_find\<close> itself.\<close>

definition name_of :: "byte list \<Rightarrow> xmls" where
  "name_of k = \<lparr>xs_buf = k @ [NUL], xs_len = length k, xs_allocated = length k, xs_hash = 0\<rparr>"

lemma name_of_ok [simp]: "name_ok (name_of k)" "xmls_content (name_of k) = k"
  by (simp_all add: name_of_def name_ok_def xmls_content_def nth_append)

definition dict_lookup :: "'d dict \<Rightarrow> byte list \<Rightarrow> 'd option" where
  "dict_lookup d k = (case dict_find (Some d) (Some (name_of k)) of None \<Rightarrow> None | Some r \<Rightarrow> r)"

lemma dict_find_rel:
  assumes "dict_rel d us" "name_ok x"
  shows "dict_find (Some d) (Some x) = Some (entries_map us (xmls_content x))"
proof -
  obtain h x' where hx: "bucket_number x = (h, x')" by (cases "bucket_number x")
  with bucket_number_ok[OF assms(2)] have "h = name_bucket (xmls_content x')" "name_ok x'"
    "xmls_content x' = xmls_content x" by simp_all
  then show ?thesis using dict_walk_bucket[OF assms(1), of x'] hx by (simp add: dict_find_def)
qed

lemma dict_lookup_rel:
  assumes "dict_rel d us"
  shows "dict_lookup d = entries_map us"
  by (rule ext) (simp add: dict_lookup_def dict_find_rel[OF assms])

lemma dict_add_rel:
  assumes rel: "dict_rel d us" and x: "name_ok x"
  shows "\<exists>d' us'. dict_add d (Some x) v = Some (entries_map us (xmls_content x) = None, d') \<and>
    dict_rel d' us' \<and> entries_map us' = (if entries_map us (xmls_content x) = None
       then (entries_map us)(xmls_content x \<mapsto> v) else entries_map us)"
proof -
  obtain h x' where hx: "bucket_number x = (h, x')" by (cases "bucket_number x")
  with bucket_number_ok[OF x] have b: "h = name_bucket (xmls_content x')" "name_ok x'"
    "xmls_content x' = xmls_content x" by simp_all
  note g = dict_grow_rel[OF rel]
  note w = dict_walk_bucket[OF g(1) b(2)]
  show ?thesis
  proof (cases "entries_map us (xmls_content x)")
    case None
    from dict_link_rel[OF g b(2), of v] obtain d' e where
      "dict_link (dict_grow d) h x' v = Some d'" "de_name e = x'" "de_data e = v" "dict_rel d' (us @ [e])"
      unfolding b(1) by blast
    then show ?thesis using None w b hx
      by (intro exI[of _ d'] exI[of _ "us @ [e]"]) (simp add: dict_add_def entries_map_snoc)
  next
    case (Some y)
    then show ?thesis using w b hx g
      by (intro exI[of _ "dict_grow d"] exI[of _ us]) (simp add: dict_add_def)
  qed
qed

lemma dict_replace_rel:
  assumes rel: "dict_rel d us" and x: "name_ok x"
  shows "\<exists>d' us'. dict_replace d (Some x) v = Some d' \<and> dict_rel d' us' \<and>
    entries_map us' = (entries_map us)(xmls_content x \<mapsto> v)"
proof -
  obtain h x' where hx: "bucket_number x = (h, x')" by (cases "bucket_number x")
  with bucket_number_ok[OF x] have b: "h = name_bucket (xmls_content x')" "name_ok x'"
    "xmls_content x' = xmls_content x" by simp_all
  from dict_link_rel[OF dict_grow_rel[OF rel] b(2), of v] obtain d' e where
    "dict_link (dict_grow d) h x' v = Some d'" "de_name e = x'" "de_data e = v" "dict_rel d' (us @ [e])"
    unfolding b(1) by blast
  then show ?thesis using b hx
    by (intro exI[of _ d'] exI[of _ "us @ [e]"]) (simp add: dict_replace_def entries_map_snoc)
qed

interpretation xmldict: dictionary dict_inv name_ok xmls_content dict_lookup "dict_new n"
  "\<lambda>d x. dict_find (Some d) (Some x)" "\<lambda>d x. dict_add d (Some x)" "\<lambda>d x. dict_replace d (Some x)"
  for n
proof unfold_locales
  show "dict_inv (dict_new n)" using dict_new_rel by (auto simp: dict_inv_def)
  show "dict_lookup (dict_new n) = Map.empty" using dict_lookup_rel[OF dict_new_rel] by simp
next
  fix m :: "'b dict" and x assume "dict_inv m" "name_ok x"
  then show "dict_find (Some m) (Some x) = Some (dict_lookup m (xmls_content x))"
    by (auto simp: dict_inv_def dict_lookup_rel dict_find_rel)
next
  fix m :: "'b dict" and x v assume "dict_inv m" "name_ok x" "dict_lookup m (xmls_content x) = None"
  then show "\<exists>m'. dict_add m (Some x) v = Some (True, m') \<and> dict_inv m' \<and>
      dict_lookup m' = (dict_lookup m)(xmls_content x \<mapsto> v)"
    using dict_add_rel[of m _ x v] by (fastforce simp: dict_inv_def dict_lookup_rel)
next
  fix m :: "'b dict" and x v assume "dict_inv m" "name_ok x" "dict_lookup m (xmls_content x) \<noteq> None"
  then show "\<exists>m'. dict_add m (Some x) v = Some (False, m') \<and> dict_inv m' \<and> dict_lookup m' = dict_lookup m"
    using dict_add_rel[of m _ x v] by (fastforce simp: dict_inv_def dict_lookup_rel)
next
  fix m :: "'b dict" and x v assume "dict_inv m" "name_ok x"
  then show "\<exists>m'. dict_replace m (Some x) v = Some m' \<and> dict_inv m' \<and>
      dict_lookup m' = (dict_lookup m)(xmls_content x \<mapsto> v)"
    using dict_replace_rel[of m _ x v] by (fastforce simp: dict_inv_def dict_lookup_rel)
qed

subsection \<open>The dictionary is a finite map\<close>

text \<open>
  C9: A dictionary filled by \<open>dict_add\<close> is the finite map of the pairs in which the first value of a
  name wins: no addition crashes or fails, whatever the number of entries (the table grows) and the buckets
  they fall into, and \<open>dict_find\<close> then returns the value of that map for every name.
\<close>

theorem dict_build_is_map:
  assumes "\<forall>(x, v)\<in>set ps. name_ok x" "name_ok y"
  shows "\<exists>d. add_list (\<lambda>d x. dict_add d (Some x)) (dict_new n) ps = Some d \<and>
    dict_find (Some d) (Some y) = Some (map_of (map (\<lambda>(x, v). (xmls_content x, v)) ps) (xmls_content y))"
proof -
  from xmldict.add_list_lookup[OF xmldict.empty(1) assms(1), of n] obtain d where
    d: "add_list (\<lambda>d x. dict_add d (Some x)) (dict_new n) ps = Some d" "dict_inv d"
    "dict_lookup d = map_of (map (\<lambda>(x, v). (xmls_content x, v)) ps)" by (auto simp: xmldict.empty(2))
  with xmldict.find[OF d(2) assms(2)] show ?thesis by simp
qed

theorem dict_build_is_map_witness:
  "\<exists>d. add_list (\<lambda>d x. dict_add d (Some x)) (dict_new 1)
        [(name_of ''a'', 1 :: nat), (name_of ''b'', 2), (name_of ''a'', 3)] = Some d \<and>
    dict_find (Some d) (Some (name_of ''a'')) = Some (Some 1)"
  using dict_build_is_map[of "[(name_of ''a'', 1 :: nat), (name_of ''b'', 2), (name_of ''a'', 3)]" "name_of ''a''" 1]
  by (auto simp del: add_list.simps)

text \<open>
  \<open>dict_replace\<close> is an update: afterwards \<open>dict_find\<close> returns the new value for that name and the
  value from before for every other name.
\<close>

theorem dict_replace_updates:
  assumes "dict_inv d" "name_ok x" "name_ok y"
  shows "\<exists>d'. dict_replace d (Some x) v = Some d' \<and> dict_inv d' \<and>
    dict_find (Some d') (Some y) =
      (if xmls_content y = xmls_content x then Some (Some v) else dict_find (Some d) (Some y))"
  using xmldict.find_after_replace[OF assms, of v] xmldict.find[OF assms(1,3)] by auto

theorem dict_replace_updates_witness:
  "\<exists>d'. dict_replace (dict_new 0) (Some (name_of ''k'')) (7 :: nat) = Some d' \<and> dict_inv d' \<and>
    dict_find (Some d') (Some (name_of ''k'')) = Some (Some 7)"
  using dict_replace_updates[OF xmldict.empty(1), of "name_of ''k''" "name_of ''k''" 0 "7 :: nat"] by simp

end
