(* ===== verification/Tx_Allocator.thy ===== *)
theory Tx_Allocator
  imports Tx_Prelude
begin

text \<open>
  allocator.c: the region allocator. An allocator has one entry per thread; an entry is a
  list of blocks, of which the tail serves the requests; blocks are never freed before the whole
  allocator is. A pointer is the position of its first byte: allocator, entry, block, offset.

  The heap of allocators, the global \<open>current_allocator\<close> and the calling thread are explicit.
  \<open>malloc\<close> and \<open>pthread_key_create\<close> succeed. \<open>None\<close> is a NULL or uninitialised pointer
  followed by the code; a NULL result of \<open>memory_allocator_new\<close> is \<open>Some (None, _)\<close>.
\<close>

datatype alloc_mode = MODE_SELF | MODE_STYLESHEET | MODE_GLOBAL

record alloc_data =
  ad_size :: nat
  ad_offset :: nat

record alloc_entry =
  ae_thread :: nat
  ae_mode :: alloc_mode
  ae_data :: "alloc_data list"
  ae_tail :: nat

text \<open>
  \<open>custom_allocators\<close> is an array of two pointers from \<open>malloc\<close>: a slot that was not
  written is \<open>None\<close>. \<open>al_key\<close> is the thread-specific cache of the entry found.
\<close>

record allocator =
  al_custom :: "(nat option \<times> nat option) option"
  al_entries :: "alloc_entry list"
  al_key :: "(nat \<times> nat) list"

record memworld =
  mw_allocators :: "allocator list"
  mw_current :: "nat option"

type_synonym mem_ptr = "nat \<times> nat \<times> nat \<times> nat"

subsection \<open>Operations\<close>

definition memory_allocator_create_data :: "nat \<Rightarrow> alloc_data" where
  "memory_allocator_create_data sz = \<lparr>ad_size = sz, ad_offset = 0\<rparr>"

definition memory_allocator_entry_size :: "alloc_entry \<Rightarrow> nat" where
  "memory_allocator_entry_size e = foldl (\<lambda>r d. r + ad_size d) 0 (ae_data e)"

definition memory_allocator_size :: "allocator \<Rightarrow> nat" where
  "memory_allocator_size a = foldl (\<lambda>r e. r + memory_allocator_entry_size e) 0 (al_entries a)"

fun find_index :: "('a \<Rightarrow> bool) \<Rightarrow> 'a list \<Rightarrow> nat option" where
  "find_index P [] = None"
| "find_index P (x # xs) = (if P x then Some 0 else map_option Suc (find_index P xs))"

definition memory_allocator_find_entry :: "nat \<Rightarrow> allocator \<Rightarrow> nat option \<times> allocator" where
  "memory_allocator_find_entry self a =
     (case map_of (al_key a) self of
        Some t \<Rightarrow> (Some t, a)
      | None \<Rightarrow>
          (case find_index (\<lambda>e. ae_thread e = self) (al_entries a) of
             None \<Rightarrow> (None, a)
           | Some t \<Rightarrow> (Some t, a\<lparr>al_key := (self, t) # al_key a\<rparr>)))"

definition memory_allocator_create :: "memworld \<Rightarrow> nat \<times> memworld" where
  "memory_allocator_create w =
     (length (mw_allocators w),
      w\<lparr>mw_allocators := mw_allocators w @ [\<lparr>al_custom = None, al_entries = [], al_key = []\<rparr>]\<rparr>)"

definition get_allocator :: "memworld \<Rightarrow> nat \<Rightarrow> allocator option" where
  "get_allocator w i = (if i < length (mw_allocators w) then Some (mw_allocators w ! i) else None)"

definition put_allocator :: "memworld \<Rightarrow> nat \<Rightarrow> allocator \<Rightarrow> memworld" where
  "put_allocator w i a = w\<lparr>mw_allocators := (mw_allocators w)[i := a]\<rparr>"

definition memory_allocator_set_custom :: "nat \<Rightarrow> alloc_mode \<Rightarrow> nat \<Rightarrow> memworld \<Rightarrow> memworld option" where
  "memory_allocator_set_custom i mode custom w = do {
     a \<leftarrow> get_allocator w i;
     let (s, g) = (case al_custom a of None \<Rightarrow> (None, None) | Some c \<Rightarrow> c);
     let s = (if mode = MODE_STYLESHEET then Some custom else s);
     let g = (if mode = MODE_GLOBAL then Some custom else g);
     Some (put_allocator w i (a\<lparr>al_custom := Some (s, g)\<rparr>))
   }"

definition memory_allocator_add_entry :: "nat \<Rightarrow> nat \<Rightarrow> nat \<Rightarrow> memworld \<Rightarrow> memworld option" where
  "memory_allocator_add_entry i thread sz w = do {
     a \<leftarrow> get_allocator w i;
     Some (put_allocator w i (a\<lparr>al_entries := al_entries a @
       [\<lparr>ae_thread = thread, ae_mode = MODE_SELF, ae_data = [memory_allocator_create_data sz], ae_tail = 0\<rparr>]\<rparr>))
   }"

definition memory_allocator_set_current :: "nat \<Rightarrow> memworld \<Rightarrow> memworld" where
  "memory_allocator_set_current i w = w\<lparr>mw_current := Some i\<rparr>"

definition memory_allocator_activate_mode :: "nat \<Rightarrow> alloc_mode \<Rightarrow> memworld \<Rightarrow> (bool \<times> memworld) option" where
  "memory_allocator_activate_mode self mode w = do {
     i \<leftarrow> mw_current w;
     a \<leftarrow> get_allocator w i;
     case find_index (\<lambda>e. ae_thread e = self) (al_entries a) of
       None \<Rightarrow> Some (False, w)
     | Some t \<Rightarrow>
         if ae_mode (al_entries a ! t) = mode then Some (False, w)
         else Some (True, put_allocator w i
                (a\<lparr>al_entries := (al_entries a)[t := (al_entries a ! t)\<lparr>ae_mode := mode\<rparr>]\<rparr>))
   }"

text \<open>Serving a request from an entry: block index, offset and the new entry.\<close>

definition entry_new :: "nat \<Rightarrow> alloc_entry \<Rightarrow> (nat \<times> nat \<times> alloc_entry) option" where
  "entry_new sz e =
     (if ae_tail e < length (ae_data e) then
        (let data = ae_data e ! ae_tail e;
             (b, e1) =
               (if ad_size data < size_add (ad_offset data) sz
                then if ae_tail e + 1 = length (ae_data e)
                     then (ae_tail e + 1,
                           e\<lparr>ae_data := ae_data e @
                               [memory_allocator_create_data
                                  (size_mul 2 (if ad_size data < sz then sz else ad_size data))],
                             ae_tail := ae_tail e + 1\<rparr>)
                     else (ae_tail e + 1, e)
                else (ae_tail e, e));
             d = ae_data e1 ! b
         in Some (b, ad_offset d, e1\<lparr>ae_data := (ae_data e1)[b := d\<lparr>ad_offset := size_add (ad_offset d) sz\<rparr>]\<rparr>))
      else None)"

text \<open>The entry that serves the thread: its own, or that of the custom allocator of its mode.\<close>

definition serving_entry :: "nat \<Rightarrow> memworld \<Rightarrow> ((nat \<times> nat) option \<times> memworld) option" where
  "serving_entry self w = do {
     i \<leftarrow> mw_current w;
     a \<leftarrow> get_allocator w i;
     let (t, a1) = memory_allocator_find_entry self a;
     let w1 = put_allocator w i a1;
     case t of
       None \<Rightarrow> Some (None, w1)
     | Some t \<Rightarrow>
         (case al_custom a1 of
            Some (s, g) \<Rightarrow>
              if ae_mode (al_entries a1 ! t) \<noteq> MODE_SELF then do {
                c \<leftarrow> (if ae_mode (al_entries a1 ! t) = MODE_STYLESHEET then s else g);
                ca \<leftarrow> get_allocator w1 c;
                let (ct, ca1) = memory_allocator_find_entry self ca;
                Some (map_option (\<lambda>ct. (c, ct)) ct, put_allocator w1 c ca1)
              } else Some (Some (i, t), w1)
          | None \<Rightarrow> Some (Some (i, t), w1))
   }"

definition memory_allocator_new :: "nat \<Rightarrow> nat \<Rightarrow> memworld \<Rightarrow> (mem_ptr option \<times> memworld) option" where
  "memory_allocator_new self sz w = do {
     (who, w1) \<leftarrow> serving_entry self w;
     case who of
       None \<Rightarrow> Some (None, w1)
     | Some (i, t) \<Rightarrow> do {
         a \<leftarrow> get_allocator w1 i;
         (b, off, e) \<leftarrow> entry_new sz (al_entries a ! t);
         Some (Some (i, t, b, off), put_allocator w1 i (a\<lparr>al_entries := (al_entries a)[t := e]\<rparr>))
       }
   }"

text \<open>The calls of all threads, in the order in which they happen.\<close>

datatype mem_op = Request nat nat | Activate nat alloc_mode | Set_Current nat

fun mem_step :: "mem_op \<Rightarrow> memworld \<Rightarrow> (mem_ptr option \<times> memworld) option" where
  "mem_step (Request self sz) w = memory_allocator_new self sz w"
| "mem_step (Activate self mode) w = map_option (\<lambda>(changed, w1). (None, w1)) (memory_allocator_activate_mode self mode w)"
| "mem_step (Set_Current i) w = Some (None, memory_allocator_set_current i w)"

fun mem_run :: "mem_op list \<Rightarrow> memworld \<Rightarrow> (mem_ptr option list \<times> memworld) option" where
  "mem_run [] w = Some ([], w)"
| "mem_run (op # ops) w = do {
     (p, w1) \<leftarrow> mem_step op w;
     (ps, w2) \<leftarrow> mem_run ops w1;
     Some (p # ps, w2)
   }"



subsection \<open>Invariant of an entry and safety of one request\<close>

definition entry_inv :: "alloc_entry \<Rightarrow> bool" where
  "entry_inv e \<longleftrightarrow> ae_data e \<noteq> [] \<and> ae_tail e + 1 = length (ae_data e) \<and>
     (\<forall>d\<in>set (ae_data e). ad_offset d \<le> ad_size d)"

text \<open>The bytes of block \<open>b\<close> handed out so far are those below its offset.\<close>

definition used_upto :: "alloc_entry \<Rightarrow> nat \<Rightarrow> nat" where
  "used_upto e b = (if b < length (ae_data e) then ad_offset (ae_data e ! b) else 0)"

definition block_size :: "alloc_entry \<Rightarrow> nat \<Rightarrow> nat" where
  "block_size e b = (if b < length (ae_data e) then ad_size (ae_data e ! b) else 0)"

definition request_fits :: "nat \<Rightarrow> alloc_entry \<Rightarrow> bool" where
  "request_fits sz e \<longleftrightarrow> (\<forall>d\<in>set (ae_data e). ad_size d < 2 ^ 62) \<and> sz < 2 ^ 62"

lemma entry_new_ok:
  assumes inv: "entry_inv e" and fits: "request_fits sz e"
  shows "\<exists>b off e'. entry_new sz e = Some (b, off, e') \<and> entry_inv e' \<and>
     off = used_upto e b \<and> off + sz \<le> block_size e' b \<and> used_upto e' b = off + sz \<and>
     (\<forall>c. c \<noteq> b \<longrightarrow> used_upto e' c = used_upto e c) \<and>
     (\<forall>c < length (ae_data e). block_size e' c = block_size e c) \<and>
     length (ae_data e) \<le> length (ae_data e') \<and> ae_thread e' = ae_thread e \<and> ae_mode e' = ae_mode e"
proof -
  let ?t = "ae_tail e" and ?d = "ae_data e ! ae_tail e"
  have t: "?t < length (ae_data e)" using inv by (simp add: entry_inv_def)
  then have d: "?d \<in> set (ae_data e)" by simp
  then have bounds: "ad_offset ?d \<le> ad_size ?d" "ad_size ?d < 2 ^ 62" "sz < 2 ^ 62"
    using inv fits by (auto simp: entry_inv_def request_fits_def)
  then have add: "size_add (ad_offset ?d) sz = ad_offset ?d + sz"
    using bounds by (intro size_add_small) simp
  show ?thesis
  proof (cases "ad_size ?d < ad_offset ?d + sz")
    case True
    let ?n = "2 * (if ad_size ?d < sz then sz else ad_size ?d)"
    let ?e = "e\<lparr>ae_data := ae_data e @ [\<lparr>ad_size = ?n, ad_offset = sz\<rparr>], ae_tail := ?t + 1\<rparr>"
    have "size_mul 2 (if ad_size ?d < sz then sz else ad_size ?d) = ?n"
      using bounds by (intro size_mul_small) (auto split: if_splits)
    then have "entry_new sz e = Some (?t + 1, 0, ?e)"
      using True add inv bounds t
      by (simp add: entry_new_def entry_inv_def memory_allocator_create_data_def Let_def)
    then show ?thesis using inv
      by (intro exI[of _ "?t + 1"] exI[of _ 0] exI[of _ ?e])
        (auto simp: entry_inv_def used_upto_def block_size_def nth_append)
  next
    case False
    let ?e = "e\<lparr>ae_data := (ae_data e)[?t := ?d\<lparr>ad_offset := ad_offset ?d + sz\<rparr>]\<rparr>"
    have "entry_new sz e = Some (?t, ad_offset ?d, ?e)"
      using False add t by (simp add: entry_new_def Let_def)
    then show ?thesis using inv t False
      by (intro exI[of _ ?t] exI[of _ "ad_offset ?d"] exI[of _ ?e])
        (auto simp: entry_inv_def used_upto_def block_size_def nth_list_update
          dest!: set_update_subset_insert[THEN subsetD])
  qed
qed

subsection \<open>One request at the level of the allocators\<close>

definition entry_of :: "memworld \<Rightarrow> nat \<Rightarrow> nat \<Rightarrow> alloc_entry option" where
  "entry_of w i t = do { a \<leftarrow> get_allocator w i; if t < length (al_entries a) then Some (al_entries a ! t) else None }"

definition allocator_inv :: "allocator \<Rightarrow> bool" where
  "allocator_inv a \<longleftrightarrow> (\<forall>e\<in>set (al_entries a). entry_inv e) \<and>
     (\<forall>(th, t)\<in>set (al_key a). t < length (al_entries a) \<and> ae_thread (al_entries a ! t) = th)"

definition world_inv :: "memworld \<Rightarrow> bool" where
  "world_inv w \<longleftrightarrow> (\<forall>a\<in>set (mw_allocators w). allocator_inv a)"

definition world_fits :: "nat \<Rightarrow> memworld \<Rightarrow> bool" where
  "world_fits sz w \<longleftrightarrow> (\<forall>a\<in>set (mw_allocators w). \<forall>e\<in>set (al_entries a). request_fits sz e)"

definition world_used :: "memworld \<Rightarrow> nat \<Rightarrow> nat \<Rightarrow> nat \<Rightarrow> nat" where
  "world_used w i t b = (case entry_of w i t of None \<Rightarrow> 0 | Some e \<Rightarrow> used_upto e b)"

definition world_block :: "memworld \<Rightarrow> nat \<Rightarrow> nat \<Rightarrow> nat \<Rightarrow> nat" where
  "world_block w i t b = (case entry_of w i t of None \<Rightarrow> 0 | Some e \<Rightarrow> block_size e b)"

lemma find_index_Some:
  "find_index P xs = Some i \<Longrightarrow> i < length xs \<and> P (xs ! i)"
  by (induction xs arbitrary: i) (auto split: if_splits)

lemma find_index_None: "find_index P xs = None \<longleftrightarrow> (\<forall>x\<in>set xs. \<not> P x)"
  by (induction xs) auto

lemma find_entry_ok:
  assumes "allocator_inv a" "memory_allocator_find_entry self a = (t, a')"
  shows "allocator_inv a' \<and> al_entries a' = al_entries a \<and> al_custom a' = al_custom a \<and>
    (\<forall>k. t = Some k \<longrightarrow> k < length (al_entries a) \<and> ae_thread (al_entries a ! k) = self)"
proof (cases "map_of (al_key a) self")
  case (Some k)
  then have "(self, k) \<in> set (al_key a)" by (rule map_of_SomeD)
  then show ?thesis using Some assms by (auto simp: memory_allocator_find_entry_def allocator_inv_def)
next
  case key: None
  show ?thesis
  proof (cases "find_index (\<lambda>e. ae_thread e = self) (al_entries a)")
    case None
    then show ?thesis using key assms by (simp add: memory_allocator_find_entry_def)
  next
    case (Some k)
    then show ?thesis using key assms find_index_Some[OF Some]
      by (auto simp: memory_allocator_find_entry_def allocator_inv_def)
  qed
qed

lemma get_put [simp]:
  "i < length (mw_allocators w) \<Longrightarrow>
   get_allocator (put_allocator w i a) j = (if j = i then Some a else get_allocator w j)"
  by (auto simp: get_allocator_def put_allocator_def)

lemma get_allocator_Some:
  "get_allocator w i = Some a \<Longrightarrow> i < length (mw_allocators w) \<and> a \<in> set (mw_allocators w)"
  by (auto simp: get_allocator_def split: if_splits)

lemma world_inv_put:
  "world_inv w \<Longrightarrow> allocator_inv a \<Longrightarrow> world_inv (put_allocator w i a)"
  by (auto simp: world_inv_def put_allocator_def dest!: set_update_subset_insert[THEN subsetD])

lemma entry_of_put_same_entries:
  assumes "get_allocator w i = Some a" "al_entries a' = al_entries a"
  shows "entry_of (put_allocator w i a') = entry_of w"
  using assms get_allocator_Some[OF assms(1)] by (auto simp: entry_of_def fun_eq_iff)

lemma serving_entry_ok:
  assumes "world_inv w" "serving_entry self w = Some (who, w')"
  shows "world_inv w' \<and> entry_of w' = entry_of w \<and>
    (\<forall>i t. who = Some (i, t) \<longrightarrow> (\<exists>a. get_allocator w' i = Some a \<and> t < length (al_entries a)))"
proof -
  from assms(2) obtain i a where ia': "mw_current w = Some i" "get_allocator w i = Some a"
    by (auto simp: serving_entry_def bind_eq_Some_conv)
  obtain t a1 where "memory_allocator_find_entry self a = (t, a1)" by fastforce
  note ia = ia' this
  let ?w1 = "put_allocator w i a1"
  have inv_a: "allocator_inv a" using assms(1) get_allocator_Some[OF ia(2)] by (auto simp: world_inv_def)
  note f = find_entry_ok[OF inv_a ia(3)]
  have w1: "world_inv ?w1" "entry_of ?w1 = entry_of w" "get_allocator ?w1 i = Some a1"
    using f assms(1) ia(2) get_allocator_Some[OF ia(2)]
    by (auto intro: world_inv_put entry_of_put_same_entries)
  have custom: ?thesis
    if c: "get_allocator ?w1 c = Some ca" "memory_allocator_find_entry self ca = (ct, ca1)"
      and r: "who = map_option (\<lambda>ct. (c, ct)) ct" "w' = put_allocator ?w1 c ca1" for c ca ct ca1
  proof -
    have "allocator_inv ca" using w1(1) get_allocator_Some[OF c(1)] by (auto simp: world_inv_def)
    from find_entry_ok[OF this c(2)] show ?thesis
      using r w1 c(1) get_allocator_Some[OF c(1)] entry_of_put_same_entries[OF c(1), of ca1]
      by (auto intro: world_inv_put)
  qed
  have step: "(case t of None \<Rightarrow> Some (None, ?w1)
     | Some t \<Rightarrow>
         (case al_custom a1 of
            Some (s, g) \<Rightarrow>
              if ae_mode (al_entries a1 ! t) \<noteq> MODE_SELF then do {
                c \<leftarrow> (if ae_mode (al_entries a1 ! t) = MODE_STYLESHEET then s else g);
                ca \<leftarrow> get_allocator ?w1 c;
                let (ct, ca1) = memory_allocator_find_entry self ca;
                Some (map_option (\<lambda>ct. (c, ct)) ct, put_allocator ?w1 c ca1)
              } else Some (Some (i, t), ?w1)
          | None \<Rightarrow> Some (Some (i, t), ?w1))) = Some (who, w')"
    using assms(2) ia by (simp add: serving_entry_def Let_def)
  have own: ?thesis if "who = map_option (\<lambda>t. (i, t)) t" "w' = ?w1"
    using that f w1 by auto
  show ?thesis
  proof (cases "\<exists>k s g. t = Some k \<and> al_custom a1 = Some (s, g) \<and> ae_mode (al_entries a1 ! k) \<noteq> MODE_SELF")
    case False
    then show ?thesis using step own by (auto split: option.splits if_splits)
  next
    case True
    then obtain k s g where k: "t = Some k" "al_custom a1 = Some (s, g)" "ae_mode (al_entries a1 ! k) \<noteq> MODE_SELF"
      by blast
    with step obtain c ca where c: "get_allocator ?w1 c = Some ca"
      and r: "(let (ct, ca1) = memory_allocator_find_entry self ca in
                Some (map_option (\<lambda>ct. (c, ct)) ct, put_allocator ?w1 c ca1)) = Some (who, w')"
      by (auto simp: bind_eq_Some_conv)
    obtain ct ca1 where ct: "memory_allocator_find_entry self ca = (ct, ca1)" by fastforce
    from r ct have "who = map_option (\<lambda>ct. (c, ct)) ct" "w' = put_allocator ?w1 c ca1" by auto
    with c ct show ?thesis by (rule custom)
  qed
qed

lemma memory_allocator_new_region:
  assumes inv: "world_inv w" and fits: "world_fits sz w"
    and new: "memory_allocator_new self sz w = Some (Some (i, t, b, off), w')"
  shows "world_inv w' \<and> off = world_used w i t b \<and> off + sz \<le> world_block w' i t b \<and>
    world_used w' i t b = off + sz \<and>
    (\<forall>j u c. (j, u, c) \<noteq> (i, t, b) \<longrightarrow> world_used w' j u c = world_used w j u c)"
proof -
  from new obtain w1 where sv: "serving_entry self w = Some (Some (i, t), w1)"
    by (auto simp: memory_allocator_new_def bind_eq_Some_conv split: option.splits)
  from serving_entry_ok[OF inv sv] obtain a where w1: "world_inv w1" "entry_of w1 = entry_of w"
    "get_allocator w1 i = Some a" "t < length (al_entries a)" by auto
  let ?e = "al_entries a ! t"
  have e: "entry_of w i t = Some ?e" using w1 by (simp add: entry_of_def flip: w1(2))
  then have "\<exists>y\<in>set (mw_allocators w). ?e \<in> set (al_entries y)"
    by (auto simp: entry_of_def bind_eq_Some_conv dest!: get_allocator_Some split: if_splits)
      (metis nth_mem)
  then have "request_fits sz ?e" using fits by (auto simp: world_fits_def)
  moreover have "entry_inv ?e" "allocator_inv a"
    using w1 get_allocator_Some[OF w1(3)] by (auto simp: world_inv_def allocator_inv_def)
  ultimately obtain e' where e': "entry_new sz ?e = Some (b, off, e')" "entry_inv e'"
    "off = used_upto ?e b" "off + sz \<le> block_size e' b" "used_upto e' b = off + sz"
    "\<forall>c. c \<noteq> b \<longrightarrow> used_upto e' c = used_upto ?e c" "ae_thread e' = ae_thread ?e"
    and w': "w' = put_allocator w1 i (a\<lparr>al_entries := (al_entries a)[t := e']\<rparr>)"
    using entry_new_ok[of ?e sz] new sv w1
    by (auto simp: memory_allocator_new_def bind_eq_Some_conv)
  let ?a = "a\<lparr>al_entries := (al_entries a)[t := e']\<rparr>"
  have "allocator_inv ?a"
    using \<open>allocator_inv a\<close> e'(2,7) w1(4)
    by (auto simp: allocator_inv_def nth_list_update dest!: set_update_subset_insert[THEN subsetD])
  then have "world_inv w'" using w1(1) w' by (simp add: world_inv_put)
  moreover have other: "entry_of w' j u = (if j = i \<and> u = t then Some e' else entry_of w j u)" for j u
    using w1 get_allocator_Some[OF w1(3)] by (auto simp: w' entry_of_def simp flip: w1(2))
  ultimately show ?thesis using e e' by (auto simp: world_used_def world_block_def)
qed

lemma memory_allocator_new_null:
  assumes "world_inv w" "memory_allocator_new self sz w = Some (None, w')"
  shows "world_inv w' \<and> world_used w' = world_used w"
  using assms serving_entry_ok[OF assms(1), of self]
  by (auto simp: memory_allocator_new_def bind_eq_Some_conv world_used_def fun_eq_iff
      split: option.splits prod.splits)



subsection \<open>Sequences of calls hand out disjoint regions\<close>

text \<open>Sizes stay below \<open>2 ^ 62\<close> along the run, so no size computation wraps around.\<close>

fun run_fits :: "mem_op list \<Rightarrow> memworld \<Rightarrow> bool" where
  "run_fits [] w = True"
| "run_fits (op # ops) w =
     ((case op of Request self sz \<Rightarrow> world_fits sz w | _ \<Rightarrow> True) \<and>
      (case mem_step op w of None \<Rightarrow> True | Some (p, w1) \<Rightarrow> run_fits ops w1))"

text \<open>A change of mode or of the current allocator touches no block.\<close>

lemma activate_mode_keeps:
  assumes "memory_allocator_activate_mode self mode w = Some (b, w')" "world_inv w"
  shows "world_inv w' \<and> world_used w' = world_used w"
proof -
  from assms(1) obtain i a where a: "mw_current w = Some i" "get_allocator w i = Some a"
    by (auto simp: memory_allocator_activate_mode_def bind_eq_Some_conv)
  show ?thesis
  proof (cases "w' = w")
    case False
    with assms(1) a obtain t where t: "find_index (\<lambda>e. ae_thread e = self) (al_entries a) = Some t"
      "w' = put_allocator w i (a\<lparr>al_entries := (al_entries a)[t := (al_entries a ! t)\<lparr>ae_mode := mode\<rparr>]\<rparr>)"
      by (auto simp: memory_allocator_activate_mode_def split: option.splits if_splits)
    let ?e = "(al_entries a ! t)\<lparr>ae_mode := mode\<rparr>"
    let ?a = "a\<lparr>al_entries := (al_entries a)[t := ?e]\<rparr>"
    have len: "t < length (al_entries a)" using find_index_Some[OF t(1)] by simp
    have inv: "allocator_inv a" using assms(2) get_allocator_Some[OF a(2)] by (simp add: world_inv_def)
    then have "entry_inv (al_entries a ! t)" using len by (simp add: allocator_inv_def)
    then have "entry_inv ?e" by (simp add: entry_inv_def)
    then have "allocator_inv ?a" using inv len
      by (auto simp: allocator_inv_def nth_list_update dest!: set_update_subset_insert[THEN subsetD])
    moreover have "entry_of w' j u = (if j = i \<and> u = t then Some ?e else entry_of w j u)" for j u
      using a len get_allocator_Some[OF a(2)] by (auto simp: t(2) entry_of_def)
    moreover have "entry_of w i t = Some (al_entries a ! t)" using a len by (simp add: entry_of_def)
    ultimately show ?thesis using assms(2)
      by (auto simp: t(2) world_inv_put world_used_def used_upto_def fun_eq_iff split: option.split)
  qed (use assms(2) in simp)
qed

lemma mem_step_ok:
  assumes "world_inv w" "mem_step op w = Some (p, w1)" "case op of Request self sz \<Rightarrow> world_fits sz w | _ \<Rightarrow> True"
  shows "world_inv w1 \<and> (\<forall>i t b. world_used w i t b \<le> world_used w1 i t b) \<and>
    (\<forall>i t b off. p = Some (i, t, b, off) \<longrightarrow> world_used w i t b \<le> off \<and>
       (\<forall>self sz. op = Request self sz \<longrightarrow> world_used w1 i t b = off + sz))"
proof (cases op)
  case (Request self sz)
  show ?thesis
  proof (cases p)
    case None
    then show ?thesis using memory_allocator_new_null[OF assms(1)] assms(2) Request by force
  next
    case (Some q)
    obtain i t b off where q: "q = (i, t, b, off)" by (metis prod_cases4)
    from memory_allocator_new_region[OF assms(1), of sz self i t b off w1] assms(2,3) Request Some q
    have r: "world_inv w1" "off = world_used w i t b" "world_used w1 i t b = off + sz"
      "\<And>j u c. (j, u, c) \<noteq> (i, t, b) \<Longrightarrow> world_used w1 j u c = world_used w j u c" by auto
    have "world_used w j u c \<le> world_used w1 j u c" for j u c
      using r(2,3) r(4)[of j u c] by (cases "(j, u, c) = (i, t, b)") auto
    with r Some q Request show ?thesis by auto
  qed
next
  case (Activate self mode)
  with assms(2) obtain c where "memory_allocator_activate_mode self mode w = Some (c, w1)" "p = None" by auto
  with activate_mode_keeps[OF this(1) assms(1)] show ?thesis by simp
next
  case (Set_Current i)
  with assms(1,2) have "world_inv w1 \<and> world_used w1 = world_used w" "p = None"
    by (auto simp: memory_allocator_set_current_def world_inv_def world_used_def entry_of_def get_allocator_def fun_eq_iff)
  then show ?thesis by simp
qed

lemma run_above_used:
  assumes "world_inv w" "run_fits ops w" "mem_run ops w = Some (ps, w')" "k < length ops" "ps ! k = Some (i, t, b, off)"
  shows "world_used w i t b \<le> off"
  using assms
proof (induction ops arbitrary: w ps k)
  case (Cons op ops)
  from Cons.prems(3) obtain p w1 qs where step: "mem_step op w = Some (p, w1)" "mem_run ops w1 = Some (qs, w')" "ps = p # qs"
    by (auto simp: bind_eq_Some_conv)
  note ok = mem_step_ok[OF Cons.prems(1) step(1)]
  have fits: "case op of Request self sz \<Rightarrow> world_fits sz w | _ \<Rightarrow> True" "run_fits ops w1" using Cons.prems(2) step(1) by simp_all
  show ?case
  proof (cases k)
    case 0
    then show ?thesis using ok[OF fits(1)] Cons.prems(5) step(3) by auto
  next
    case (Suc k')
    then have "world_used w1 i t b \<le> off"
      using Cons.IH[OF _ fits(2) step(2), of k'] ok[OF fits(1)] Cons.prems(4,5) step(3) by simp
    then show ?thesis using ok[OF fits(1)] le_trans by blast
  qed
qed simp

lemma run_ordered:
  assumes "world_inv w" "run_fits ops w" "mem_run ops w = Some (ps, w')"
    and "j < k" "k < length ops" "ops ! j = Request self sz" "ps ! j = Some (i, t, b, off1)" "ps ! k = Some (i, t, b, off2)"
  shows "off1 + sz \<le> off2"
  using assms
proof (induction ops arbitrary: w ps j k)
  case (Cons op ops)
  from Cons.prems(3) obtain p w1 qs where step: "mem_step op w = Some (p, w1)" "mem_run ops w1 = Some (qs, w')" "ps = p # qs"
    by (auto simp: bind_eq_Some_conv)
  have fits: "case op of Request self sz \<Rightarrow> world_fits sz w | _ \<Rightarrow> True" "run_fits ops w1" using Cons.prems(2) step(1) by simp_all
  note ok = mem_step_ok[OF Cons.prems(1) step(1) fits(1)]
  obtain k' where k': "k = Suc k'" using Cons.prems(4) by (cases k) auto
  show ?case
  proof (cases j)
    case 0
    then have "world_used w1 i t b = off1 + sz" using ok Cons.prems(6,7) step(3) by auto
    moreover have "world_used w1 i t b \<le> off2"
      using run_above_used[OF _ fits(2) step(2), of k'] ok Cons.prems(5,8) k' step(3) by simp
    ultimately show ?thesis by simp
  next
    case (Suc j')
    then show ?thesis using Cons.IH[OF _ fits(2) step(2), of j' k'] ok Cons.prems(4-8) k' step(3) by simp
  qed
qed simp

text \<open>
  C12: live regions never overlap: whatever the order in which threads request memory, switch their mode between the
  allocators and make other allocators the current one, two requests that are served from the same block get disjoint
  ranges of bytes, as long as the sizes of requests and blocks stay below \<open>2 ^ 62\<close> (\<open>run_fits\<close>).
\<close>

theorem allocations_disjoint:
  assumes "world_inv w" "run_fits ops w" "mem_run ops w = Some (ps, w')"
    and "j < k" "k < length ops" "ops ! j = Request self1 sz1" "ops ! k = Request self2 sz2"
    and "ps ! j = Some (i, t, b, off1)" "ps ! k = Some (i, t, b, off2)"
  shows "{off1..<off1 + sz1} \<inter> {off2..<off2 + sz2} = {}"
  using run_ordered[OF assms(1-6,8,9)] by auto


text \<open>Two allocators, of which the second one serves the first one in the mode of the stylesheet.\<close>

definition world2 :: memworld where
  "world2 = \<lparr>mw_allocators = [
     \<lparr>al_custom = Some (Some 1, Some 1), al_entries =
       [\<lparr>ae_thread = 0, ae_mode = MODE_SELF, ae_data = [\<lparr>ad_size = 16, ad_offset = 0\<rparr>], ae_tail = 0\<rparr>], al_key = []\<rparr>,
     \<lparr>al_custom = None, al_entries =
       [\<lparr>ae_thread = 0, ae_mode = MODE_SELF, ae_data = [\<lparr>ad_size = 32, ad_offset = 8\<rparr>], ae_tail = 0\<rparr>], al_key = []\<rparr>],
     mw_current = Some 0\<rparr>"

theorem allocations_disjoint_witness:
  "map_option fst (mem_run [Request 0 10, Activate 0 MODE_STYLESHEET, Request 0 20, Activate 0 MODE_SELF, Request 0 6] world2) =
     Some [Some (0, 0, 0, 0), None, Some (1, 0, 0, 8), None, Some (0, 0, 0, 10)] \<and> {0::nat..<0 + 10} \<inter> {10..<10 + 6} = {}"
proof -
  let ?ops = "[Request 0 10, Activate 0 MODE_STYLESHEET, Request 0 20, Activate 0 MODE_SELF, Request 0 6]"
  note defs = world2_def memory_allocator_new_def serving_entry_def get_allocator_def memory_allocator_find_entry_def put_allocator_def
    entry_new_def size_add_def memory_allocator_activate_mode_def
  have inv: "world_inv world2" by (simp add: world2_def world_inv_def allocator_inv_def entry_inv_def)
  obtain w' where w': "mem_run ?ops world2 = Some ([Some (0, 0, 0, 0), None, Some (1, 0, 0, 8), None, Some (0, 0, 0, 10)], w')"
    by (simp add: defs)
  have "run_fits ?ops world2" by (simp add: defs world_fits_def request_fits_def)
  from allocations_disjoint[OF inv this w', of 0 4 0 10 0 6 0 0 0 0 10] w' show ?thesis by simp
qed



text \<open>
  The program \<open>allocator_test\<close> expects NULL from the request behind the sixteen that fill its block of 256 bytes; the
  allocator answers it from a second block.
\<close>

lemma full_block_grows:
  "map_option (\<lambda>(ps, w). drop 15 ps)
     (mem_run (map (\<lambda>_. Request 0 16) [3..<20]) (memory_allocator_set_current 0
       (the (memory_allocator_add_entry 0 0 256 (snd (memory_allocator_create \<lparr>mw_allocators = [], mw_current = None\<rparr>)))))) =
   Some [Some (0, 0, 0, 240), Some (0, 0, 1, 0)]"
  by (simp add: memory_allocator_add_entry_def memory_allocator_create_def memory_allocator_set_current_def get_allocator_def
      put_allocator_def memory_allocator_new_def serving_entry_def memory_allocator_find_entry_def entry_new_def size_add_def
      size_mul_def memory_allocator_create_data_def)

subsection \<open>The threads of the pool\<close>

text \<open>threadpool.c 147-156: one entry for each thread of the pool.\<close>

fun threadpool_set_allocator :: "nat \<Rightarrow> nat list \<Rightarrow> memworld \<Rightarrow> memworld option" where
  "threadpool_set_allocator alloc [] w = Some w"
| "threadpool_set_allocator alloc (t # ts) w = do {
     w1 \<leftarrow> memory_allocator_add_entry alloc t 500000 w;
     threadpool_set_allocator alloc ts w1
   }"

definition has_entry :: "memworld \<Rightarrow> nat \<Rightarrow> nat \<Rightarrow> bool" where
  "has_entry w alloc t \<longleftrightarrow> (case get_allocator w alloc of None \<Rightarrow> False | Some a \<Rightarrow> t \<in> ae_thread ` set (al_entries a))"

lemma add_entry_has:
  assumes "get_allocator w alloc \<noteq> None"
  shows "\<exists>w'. memory_allocator_add_entry alloc t sz w = Some w' \<and> get_allocator w' alloc \<noteq> None \<and>
    (\<forall>u. has_entry w' alloc u \<longleftrightarrow> u = t \<or> has_entry w alloc u)"
proof -
  obtain a where "get_allocator w alloc = Some a" "alloc < length (mw_allocators w)"
    using assms get_allocator_Some by blast
  then show ?thesis by (auto simp: memory_allocator_add_entry_def has_entry_def)
qed

text \<open>After the pool is set up, exactly its threads and those known before can allocate.\<close>

lemma set_allocator_entries:
  "get_allocator w alloc \<noteq> None \<Longrightarrow> \<exists>w'. threadpool_set_allocator alloc ts w = Some w' \<and>
    (\<forall>u. has_entry w' alloc u \<longleftrightarrow> u \<in> set ts \<or> has_entry w alloc u)"
proof (induction ts arbitrary: w)
  case (Cons t ts)
  from add_entry_has[OF Cons.prems, of t 500000] obtain w1 where
    w1: "memory_allocator_add_entry alloc t 500000 w = Some w1" "get_allocator w1 alloc \<noteq> None"
      "\<forall>u. has_entry w1 alloc u \<longleftrightarrow> u = t \<or> has_entry w alloc u" by blast
  from Cons.IH[OF w1(2)] w1(1,3) show ?case by auto
qed simp

end
