(* ===== verification/Tx_Queue.thy ===== *)
theory Tx_Queue
  imports Tx_Prelude
begin

text \<open>
  unbounded_queue.c: the linked FIFO of the thread pool, with its dummy head cell. Cells live
  in a store indexed by address; \<open>free\<close> empties the slot, so that a later access to a freed
  cell is \<open>None\<close>. Each operation runs under the queue's mutex and is one step, except that a
  dequeue on an empty queue gives the mutex up: \<open>dequeue_pop\<close> is the part behind the wait.
  The interface \<open>fifo\<close> is what the thread pool relies on.
\<close>

record 'a queue_cell =
  qc_value :: "'a option"
  qc_next :: "nat option"

record 'a queue =
  q_cells :: "'a queue_cell option list"
  q_head :: nat
  q_tail :: nat
  q_is_closed :: bool

definition cell :: "'a queue \<Rightarrow> nat \<Rightarrow> 'a queue_cell option" where
  "cell q p = (if p < length (q_cells q) then q_cells q ! p else None)"

definition unbounded_queue_create :: "'a queue" where
  "unbounded_queue_create =
     \<lparr>q_cells = [Some \<lparr>qc_value = None, qc_next = None\<rparr>], q_head = 0, q_tail = 0, q_is_closed = False\<rparr>"

definition unbounded_queue_close :: "'a queue \<Rightarrow> 'a queue" where
  "unbounded_queue_close q = q\<lparr>q_is_closed := True\<rparr>"

definition unbounded_queue_enqueue :: "'a queue \<Rightarrow> 'a \<Rightarrow> 'a queue option" where
  "unbounded_queue_enqueue q v = do {
     t \<leftarrow> cell q (q_tail q);
     let entry = length (q_cells q);
     Some (q\<lparr>q_cells := (q_cells q)[q_tail q := Some (t\<lparr>qc_next := Some entry\<rparr>)] @
                  [Some \<lparr>qc_value = Some v, qc_next = None\<rparr>],
             q_tail := entry\<rparr>)
   }"

text \<open>The loop condition \<open>queue->head->next == NULL\<close>.\<close>

definition queue_empty :: "'a queue \<Rightarrow> bool option" where
  "queue_empty q = map_option (\<lambda>h. qc_next h = None) (cell q (q_head q))"

definition dequeue_pop :: "'a queue \<Rightarrow> ('a option \<times> 'a queue) option" where
  "dequeue_pop q = do {
     h \<leftarrow> cell q (q_head q);
     n \<leftarrow> qc_next h;
     c \<leftarrow> cell q n;
     Some (qc_value c, q\<lparr>q_head := n, q_cells := (q_cells q)[q_head q := None]\<rparr>)
   }"

datatype 'a dequeue_result = Deq_Closed | Deq_Wait | Deq_Value "'a option"

text \<open>\<open>unbounded_queue_dequeue\<close> up to its return or its first wait.\<close>

definition unbounded_queue_dequeue :: "'a queue \<Rightarrow> ('a dequeue_result \<times> 'a queue) option" where
  "unbounded_queue_dequeue q =
     (if q_is_closed q then Some (Deq_Closed, q)
      else do {
        e \<leftarrow> queue_empty q;
        if e then Some (Deq_Wait, q) else map_option (\<lambda>(v, q'). (Deq_Value v, q')) (dequeue_pop q)
      })"

subsection \<open>Abstraction to a list\<close>

text \<open>\<open>qchain cs h vs t\<close>: from cell \<open>h\<close> the links lead through cells holding \<open>vs\<close> to the last cell \<open>t\<close>.\<close>

fun qchain :: "'a queue_cell option list \<Rightarrow> nat \<Rightarrow> 'a list \<Rightarrow> nat \<Rightarrow> bool" where
  "qchain cs h [] t \<longleftrightarrow> h = t \<and> h < length cs \<and> (\<exists>c. cs ! h = Some c \<and> qc_next c = None)"
| "qchain cs h (v # vs) t \<longleftrightarrow>
     h < length cs \<and> (\<exists>c n d. cs ! h = Some c \<and> qc_next c = Some n \<and> h < n \<and> n < length cs \<and>
        cs ! n = Some d \<and> qc_value d = Some v \<and> qchain cs n vs t)"

definition queue_rel :: "'a queue \<Rightarrow> 'a list \<Rightarrow> bool" where
  "queue_rel q vs \<longleftrightarrow> qchain (q_cells q) (q_head q) vs (q_tail q)"

lemma qchain_last: "qchain cs h vs t \<Longrightarrow> h \<le> t \<and> t < length cs \<and> (\<exists>c. cs ! t = Some c \<and> qc_next c = None)"
proof (induction vs arbitrary: h)
  case Nil
  then show ?case by auto
next
  case (Cons v vs)
  then obtain n where "h < n" "qchain cs n vs t" by auto
  with Cons.IH[of n] show ?case by auto
qed

lemma qchain_below:
  "qchain cs n vs t \<Longrightarrow> h < n \<Longrightarrow> qchain (cs[h := x]) n vs t"
proof (induction vs arbitrary: n)
  case Nil
  then show ?case by auto
next
  case (Cons v vs)
  then obtain c m d where m: "n < length cs" "cs ! n = Some c" "qc_next c = Some m" "n < m" "m < length cs"
    "cs ! m = Some d" "qc_value d = Some v" "qchain cs m vs t" by auto
  with Cons.prems(2) Cons.IH[of m] show ?case by simp
qed

lemma qchain_append:
  assumes "qchain cs h vs t" "cs ! t = Some c"
  shows "qchain (cs[t := Some (c\<lparr>qc_next := Some (length cs)\<rparr>)] @ [Some \<lparr>qc_value = Some v, qc_next = None\<rparr>])
     h (vs @ [v]) (length cs)"
  using assms
proof (induction vs arbitrary: h)
  case Nil
  then show ?case by (auto simp: nth_append)
next
  case (Cons u vs)
  then obtain c' n d where n: "h < length cs" "cs ! h = Some c'" "qc_next c' = Some n" "h < n"
    "n < length cs" "cs ! n = Some d" "qc_value d = Some u" "qchain cs n vs t" by auto
  have "n \<le> t" using qchain_last[OF n(8)] by simp
  then have "h \<noteq> t" using n(4) by simp
  have "\<exists>d. cs[t := Some (c\<lparr>qc_next := Some (length cs)\<rparr>)] ! n = Some d \<and> qc_value d = Some u"
    using n Cons.prems(2) by (cases "n = t") auto
  with n \<open>h \<noteq> t\<close> Cons.IH[OF n(8) Cons.prems(2)] show ?case
    by (auto simp: nth_append)
qed

lemma enqueue_rel:
  assumes "queue_rel q vs"
  shows "\<exists>q'. unbounded_queue_enqueue q v = Some q' \<and> queue_rel q' (vs @ [v]) \<and> q_is_closed q' = q_is_closed q"
proof -
  from assms qchain_last obtain c where "q_tail q < length (q_cells q)" "q_cells q ! q_tail q = Some c"
    unfolding queue_rel_def by blast
  then show ?thesis using qchain_append[of "q_cells q" "q_head q" vs "q_tail q" c v] assms
    by (simp add: unbounded_queue_enqueue_def cell_def queue_rel_def Let_def)
qed

lemma queue_empty_rel: "queue_rel q vs \<Longrightarrow> queue_empty q = Some (vs = [])"
  by (cases vs) (auto simp: queue_rel_def queue_empty_def cell_def)

lemma dequeue_pop_rel:
  assumes "queue_rel q (v # vs)"
  shows "\<exists>q'. dequeue_pop q = Some (Some v, q') \<and> queue_rel q' vs \<and> q_is_closed q' = q_is_closed q"
proof -
  from assms obtain c n d where n: "q_head q < length (q_cells q)" "q_cells q ! q_head q = Some c"
    "qc_next c = Some n" "q_head q < n" "n < length (q_cells q)" "q_cells q ! n = Some d"
    "qc_value d = Some v" "qchain (q_cells q) n vs (q_tail q)" by (auto simp: queue_rel_def)
  then have "queue_rel (q\<lparr>q_head := n, q_cells := (q_cells q)[q_head q := None]\<rparr>) vs"
    using qchain_below[OF n(8,4)] by (simp add: queue_rel_def)
  with n show ?thesis by (simp add: dequeue_pop_def cell_def)
qed

lemma close_rel: "queue_rel (unbounded_queue_close q) vs \<longleftrightarrow> queue_rel q vs"
  by (simp add: queue_rel_def unbounded_queue_close_def)

lemma create_rel: "queue_rel unbounded_queue_create []"
  by (simp add: queue_rel_def unbounded_queue_create_def)

subsection \<open>The interface\<close>

locale fifo =
  fixes rel :: "'q \<Rightarrow> 'a list \<Rightarrow> bool"
    and closed :: "'q \<Rightarrow> bool"
    and new :: "'q"
    and close :: "'q \<Rightarrow> 'q"
    and enq :: "'q \<Rightarrow> 'a \<Rightarrow> 'q option"
    and deq :: "'q \<Rightarrow> ('a dequeue_result \<times> 'q) option"
  assumes new: "rel new []" "\<not> closed new"
    and close: "rel q vs \<Longrightarrow> rel (close q) vs" "closed (close q)"
    and enq: "rel q vs \<Longrightarrow> \<exists>q'. enq q v = Some q' \<and> rel q' (vs @ [v]) \<and> closed q' = closed q"
    and deq_closed: "closed q \<Longrightarrow> deq q = Some (Deq_Closed, q)"
    and deq_empty: "\<not> closed q \<Longrightarrow> rel q [] \<Longrightarrow> deq q = Some (Deq_Wait, q)"
    and deq_value: "\<not> closed q \<Longrightarrow> rel q (v # vs) \<Longrightarrow>
      \<exists>q'. deq q = Some (Deq_Value (Some v), q') \<and> rel q' vs \<and> \<not> closed q'"
begin

lemma enq_all:
  assumes "rel q us"
  shows "\<exists>q'. List.fold (\<lambda>v r. do { q \<leftarrow> r; enq q v }) vs (Some q) = Some q' \<and> rel q' (us @ vs) \<and> closed q' = closed q"
  using assms
proof (induction vs arbitrary: q us)
  case Nil
  then show ?case by simp
next
  case (Cons v vs)
  from enq[OF Cons.prems, of v] obtain q1 where q1: "enq q v = Some q1" "rel q1 (us @ [v])" "closed q1 = closed q"
    by blast
  from Cons.IH[OF q1(2)] q1 show ?case by auto
qed

text \<open>Values come out in the order in which they were put in, whatever is still behind them.\<close>

lemma deq_after_enq:
  assumes "rel q (u # us)" "\<not> closed q"
  shows "\<exists>q1 q2. enq q v = Some q1 \<and> deq q1 = Some (Deq_Value (Some u), q2) \<and> rel q2 (us @ [v])"
proof -
  from enq[OF assms(1), of v] assms(2) obtain q1 where q1: "enq q v = Some q1" "rel q1 (u # us @ [v])" "\<not> closed q1"
    by auto
  with deq_value[OF q1(3,2)] show ?thesis by blast
qed

lemma first_in_first_out:
  assumes "rel q []" "\<not> closed q"
  shows "\<exists>q1 q2. List.fold (\<lambda>v r. do { q \<leftarrow> r; enq q v }) (v # vs) (Some q) = Some q1 \<and>
    deq q1 = Some (Deq_Value (Some v), q2) \<and> rel q2 vs"
  using enq_all[OF assms(1), of "v # vs"] assms(2) deq_value by (metis append_Nil)

end

interpretation uq: fifo queue_rel q_is_closed unbounded_queue_create unbounded_queue_close
  unbounded_queue_enqueue unbounded_queue_dequeue
proof unfold_locales
  fix q :: "'a queue" and v vs assume "\<not> q_is_closed q" "queue_rel q (v # vs)"
  then show "\<exists>q'. unbounded_queue_dequeue q = Some (Deq_Value (Some v), q') \<and> queue_rel q' vs \<and> \<not> q_is_closed q'"
    using dequeue_pop_rel[of q v vs] by (auto simp: unbounded_queue_dequeue_def queue_empty_rel)
qed (simp_all add: create_rel close_rel enqueue_rel queue_empty_rel unbounded_queue_dequeue_def,
    simp_all add: unbounded_queue_create_def unbounded_queue_close_def)

text \<open>
  C28: The work queue is first in, first out: after any sequence of values is enqueued into an open empty queue,
  the first dequeue returns the first of them, and the queue then holds the others in their order.
\<close>

theorem queue_first_in_first_out:
  assumes "queue_rel q []" "\<not> q_is_closed q"
  shows "\<exists>q1 q2. List.fold (\<lambda>v r. do { q \<leftarrow> r; unbounded_queue_enqueue q v }) (v # vs) (Some q) = Some q1 \<and>
    unbounded_queue_dequeue q1 = Some (Deq_Value (Some v), q2) \<and> queue_rel q2 vs"
  by (rule uq.first_in_first_out[OF assms])

theorem queue_first_in_first_out_witness:
  "\<exists>q1 q2. List.fold (\<lambda>v r. do { q \<leftarrow> r; unbounded_queue_enqueue q v }) [1 :: nat, 2] (Some unbounded_queue_create) = Some q1 \<and>
    unbounded_queue_dequeue q1 = Some (Deq_Value (Some 1), q2) \<and> queue_rel q2 [2]"
  using queue_first_in_first_out[OF uq.new, of "1 :: nat" "[2]"] .

end
