(* ===== verification/Tx_Pool.thy ===== *)
theory Tx_Pool
  imports Tx_Queue
begin

text \<open>
  threadpool.c, shared_variable.c and template_task.c: the workers over the shared queue, the
  counting latch a transformation waits on, and the decision whether an instruction becomes a
  task. Each critical section of the code is one step; which thread moves next is not
  determined, so the pool and the latch are step relations.
\<close>

subsection \<open>shared_variable.c\<close>

definition shared_variable_create :: u32 where
  "shared_variable_create = 1"

definition shared_variable_increase :: "u32 \<Rightarrow> u32" where
  "shared_variable_increase v = v + 1"

text \<open>The new value, and whether the waiters are woken.\<close>

definition shared_variable_decrease :: "u32 \<Rightarrow> u32 \<times> bool" where
  "shared_variable_decrease v = (v - 1, v - 1 = 0)"

text \<open>The loop condition of \<open>shared_variable_wait\<close>: whether the caller returns now.\<close>

definition shared_variable_wait_returns :: "u32 \<Rightarrow> bool" where
  "shared_variable_wait_returns v \<longleftrightarrow> v = 0"

text \<open>
  A latch with its tasks: a running task of the transformation starts another one
  (\<open>template_task_run\<close> increases before it starts the task), a task ends
  (\<open>template_task_function\<close> decreases), the transformation's caller returns from the wait.
\<close>

record latch =
  l_value :: u32
  l_tasks :: nat
  l_returned :: bool

definition latch_init :: latch where
  "latch_init = \<lparr>l_value = shared_variable_create, l_tasks = 1, l_returned = False\<rparr>"

inductive latch_step :: "latch \<Rightarrow> latch \<Rightarrow> bool" where
  spawn: "0 < l_tasks s \<Longrightarrow> l_tasks s + 1 < 2 ^ 32 \<Longrightarrow>
    latch_step s (s\<lparr>l_value := shared_variable_increase (l_value s), l_tasks := l_tasks s + 1\<rparr>)"
| finish: "0 < l_tasks s \<Longrightarrow>
    latch_step s (s\<lparr>l_value := fst (shared_variable_decrease (l_value s)), l_tasks := l_tasks s - 1\<rparr>)"
| wait_return: "shared_variable_wait_returns (l_value s) \<Longrightarrow> latch_step s (s\<lparr>l_returned := True\<rparr>)"

inductive latch_reachable :: "latch \<Rightarrow> bool" where
  init: "latch_reachable latch_init"
| step: "latch_reachable s \<Longrightarrow> latch_step s t \<Longrightarrow> latch_reachable t"

definition latch_inv :: "latch \<Rightarrow> bool" where
  "latch_inv s \<longleftrightarrow> l_value s = of_nat (l_tasks s) \<and> l_tasks s < 2 ^ 32 \<and> (l_returned s \<longrightarrow> l_tasks s = 0)"

lemma of_nat_u32_0: "n < 2 ^ 32 \<Longrightarrow> (of_nat n :: u32) = 0 \<longleftrightarrow> n = 0"
  by (auto simp: word_of_nat_eq_0_iff dest: nat_dvd_not_less)

lemma latch_step_inv [tx_inv]: "latch_step s t \<Longrightarrow> latch_inv s \<Longrightarrow> latch_inv t"
  by (induction rule: latch_step.induct)
    (auto simp: latch_inv_def shared_variable_increase_def shared_variable_decrease_def
      shared_variable_wait_returns_def of_nat_u32_0 of_nat_diff)

lemma latch_reachable_inv: "latch_reachable s \<Longrightarrow> latch_inv s"
proof (induction rule: latch_reachable.induct)
  case init
  then show ?case by (simp add: latch_inv_def latch_init_def shared_variable_create_def)
next
  case (step s t)
  then show ?case using latch_step_inv by blast
qed

subsection \<open>threadpool.c: the counter of blocked callers\<close>

record pool_counter =
  pc_threads :: nat
  pc_blocked :: nat

definition thread_pool_try_wait :: "pool_counter \<Rightarrow> bool \<times> pool_counter" where
  "thread_pool_try_wait p =
     (if pc_blocked p < pc_threads p then (True, p\<lparr>pc_blocked := pc_blocked p + 1\<rparr>) else (False, p))"

definition thread_pool_finish_wait :: "pool_counter \<Rightarrow> pool_counter" where
  "thread_pool_finish_wait p = (if 0 < pc_blocked p then p\<lparr>pc_blocked := pc_blocked p - 1\<rparr> else p)"

lemma try_wait_bound [tx_inv]:
  "pc_blocked p \<le> pc_threads p \<Longrightarrow> pc_blocked (snd (thread_pool_try_wait p)) \<le> pc_threads p"
  by (simp add: thread_pool_try_wait_def)

subsection \<open>threadpool.c: workers and shutdown\<close>

datatype pool_item = Task nat | Stop_Task

datatype worker = W_Dequeue | W_Blocked | W_Woken | W_Running nat | W_Exited

text \<open>\<open>M_Closing k\<close>: the pool is being freed, \<open>k\<close> stop tasks are still to be enqueued.\<close>

datatype master = M_Open | M_Closing nat | M_Joined

record pool =
  p_queue :: "pool_item queue"
  p_workers :: "worker list"
  p_master :: master

datatype pool_label = L_Submit | L_Worker nat | L_Spurious nat | L_Master

definition threadpool_init :: "nat \<Rightarrow> pool option" where
  "threadpool_init n =
     (if n = 0 then None
      else Some \<lparr>p_queue = unbounded_queue_create, p_workers = replicate n W_Dequeue, p_master = M_Open\<rparr>)"

text \<open>\<open>pthread_cond_broadcast\<close> of the queue's condition.\<close>

definition broadcast :: "worker list \<Rightarrow> worker list" where
  "broadcast ws = map (\<lambda>w. if w = W_Blocked then W_Woken else w) ws"

text \<open>What \<open>worker_thr_routine\<close> does with the task it was given.\<close>

fun worker_take :: "pool_item option \<Rightarrow> worker" where
  "worker_take (Some (Task k)) = W_Running k"
| "worker_take (Some Stop_Task) = W_Exited"
| "worker_take None = W_Exited"

inductive pool_step :: "pool \<Rightarrow> pool_label \<Rightarrow> pool \<Rightarrow> bool" where
  submit: "p_master s = M_Open \<or> (\<exists>k. W_Running k \<in> set (p_workers s)) \<Longrightarrow>
     unbounded_queue_enqueue (p_queue s) (Task k) = Some q \<Longrightarrow>
     pool_step s L_Submit (s\<lparr>p_queue := q, p_workers := broadcast (p_workers s)\<rparr>)"
| deq_closed: "i < length (p_workers s) \<Longrightarrow> p_workers s ! i = W_Dequeue \<Longrightarrow>
     unbounded_queue_dequeue (p_queue s) = Some (Deq_Closed, q) \<Longrightarrow>
     pool_step s (L_Worker i) (s\<lparr>p_queue := q, p_workers := (p_workers s)[i := W_Exited]\<rparr>)"
| deq_wait: "i < length (p_workers s) \<Longrightarrow> p_workers s ! i = W_Dequeue \<Longrightarrow>
     unbounded_queue_dequeue (p_queue s) = Some (Deq_Wait, q) \<Longrightarrow>
     pool_step s (L_Worker i) (s\<lparr>p_queue := q, p_workers := (p_workers s)[i := W_Blocked]\<rparr>)"
| deq_value: "i < length (p_workers s) \<Longrightarrow> p_workers s ! i = W_Dequeue \<Longrightarrow>
     unbounded_queue_dequeue (p_queue s) = Some (Deq_Value v, q) \<Longrightarrow>
     pool_step s (L_Worker i) (s\<lparr>p_queue := q, p_workers := (p_workers s)[i := worker_take v]\<rparr>)"
| woken_empty: "i < length (p_workers s) \<Longrightarrow> p_workers s ! i = W_Woken \<Longrightarrow>
     queue_empty (p_queue s) = Some True \<Longrightarrow>
     pool_step s (L_Worker i) (s\<lparr>p_workers := (p_workers s)[i := W_Blocked]\<rparr>)"
| woken_take: "i < length (p_workers s) \<Longrightarrow> p_workers s ! i = W_Woken \<Longrightarrow>
     queue_empty (p_queue s) = Some False \<Longrightarrow> dequeue_pop (p_queue s) = Some (v, q) \<Longrightarrow>
     pool_step s (L_Worker i) (s\<lparr>p_queue := q, p_workers := (p_workers s)[i := worker_take v]\<rparr>)"
| finish: "i < length (p_workers s) \<Longrightarrow> p_workers s ! i = W_Running k \<Longrightarrow>
     pool_step s (L_Worker i) (s\<lparr>p_workers := (p_workers s)[i := W_Dequeue]\<rparr>)"
| spurious: "i < length (p_workers s) \<Longrightarrow> p_workers s ! i = W_Blocked \<Longrightarrow>
     pool_step s (L_Spurious i) (s\<lparr>p_workers := (p_workers s)[i := W_Woken]\<rparr>)"
| close: "p_master s = M_Open \<Longrightarrow>
     pool_step s L_Master (s\<lparr>p_queue := unbounded_queue_close (p_queue s),
                             p_master := M_Closing (length (p_workers s))\<rparr>)"
| put_stop: "p_master s = M_Closing (Suc k) \<Longrightarrow>
     unbounded_queue_enqueue (p_queue s) Stop_Task = Some q \<Longrightarrow>
     pool_step s L_Master (s\<lparr>p_queue := q, p_workers := broadcast (p_workers s), p_master := M_Closing k\<rparr>)"
| join: "p_master s = M_Closing 0 \<Longrightarrow> (\<forall>w\<in>set (p_workers s). w = W_Exited) \<Longrightarrow>
     pool_step s L_Master (s\<lparr>p_master := M_Joined\<rparr>)"

inductive pool_reachable :: "nat \<Rightarrow> pool \<Rightarrow> bool" for n where
  init: "threadpool_init n = Some s \<Longrightarrow> pool_reachable n s"
| step: "pool_reachable n s \<Longrightarrow> pool_step s l t \<Longrightarrow> pool_reachable n t"

subsection \<open>The invariant of the pool\<close>

definition exited :: "worker list \<Rightarrow> nat" where
  "exited ws = length (filter (\<lambda>w. w = W_Exited) ws)"

definition stops :: "pool_item list \<Rightarrow> nat" where
  "stops vs = length (filter (\<lambda>v. v = Stop_Task) vs)"

definition pool_ok :: "pool \<Rightarrow> pool_item list \<Rightarrow> bool" where
  "pool_ok s vs \<longleftrightarrow> queue_rel (p_queue s) vs \<and>
     (vs \<noteq> [] \<longrightarrow> W_Blocked \<notin> set (p_workers s)) \<and>
     (p_master s = M_Open \<longrightarrow> \<not> q_is_closed (p_queue s) \<and> stops vs = 0) \<and>
     (p_master s \<noteq> M_Open \<longrightarrow> q_is_closed (p_queue s)) \<and>
     (\<forall>k. p_master s = M_Closing k \<longrightarrow> length (p_workers s) \<le> stops vs + k + exited (p_workers s)) \<and>
     (p_master s = M_Joined \<longrightarrow> exited (p_workers s) = length (p_workers s))"

lemma stops_simps [simp]: "stops [] = 0" "stops (v # vs) = (if v = Stop_Task then Suc (stops vs) else stops vs)"
  "stops (us @ vs) = stops us + stops vs"
  by (simp_all add: stops_def)

lemma exited_Nil [simp]: "exited [] = 0"
  by (simp add: exited_def)

lemma exited_Cons [simp]: "exited (w # ws) = (if w = W_Exited then Suc (exited ws) else exited ws)"
  by (simp add: exited_def)

lemma exited_broadcast [simp]: "exited (broadcast ws) = exited ws"
  by (induction ws) (auto simp: broadcast_def)

lemma length_broadcast [simp]: "length (broadcast ws) = length ws"
  by (simp add: broadcast_def)

lemma broadcast_not_blocked [simp]: "W_Blocked \<notin> set (broadcast ws)"
  by (auto simp: broadcast_def)

lemma exited_update:
  "i < length ws \<Longrightarrow> ws ! i \<noteq> W_Exited \<Longrightarrow>
   exited (ws[i := w]) = exited ws + (if w = W_Exited then 1 else 0)"
proof (induction ws arbitrary: i)
  case Nil then show ?case by simp
next
  case (Cons v ws) then show ?case by (cases i) auto
qed

lemma exited_le: "exited ws \<le> length ws"
  by (simp add: exited_def)

lemma exited_less: "i < length ws \<Longrightarrow> ws ! i \<noteq> W_Exited \<Longrightarrow> exited ws < length ws"
  unfolding exited_def by (rule length_filter_less[of "ws ! i"]) auto

lemma set_update_Blocked:
  "W_Blocked \<notin> set ws \<Longrightarrow> w \<noteq> W_Blocked \<Longrightarrow> W_Blocked \<notin> set (ws[i := w])"
  by (auto dest!: set_update_subset_insert[THEN subsetD])

lemma exited_all: "exited ws = length ws \<longleftrightarrow> (\<forall>w\<in>set ws. w = W_Exited)"
proof (induction ws)
  case Nil
  then show ?case by simp
next
  case (Cons w ws)
  then show ?case using exited_le[of ws] by auto
qed

lemma pool_ok_rel: "pool_ok s vs \<Longrightarrow> queue_rel (p_queue s) vs"
  by (simp add: pool_ok_def)

lemma submit_ok:
  assumes "pool_ok s vs" "unbounded_queue_enqueue (p_queue s) v = Some q"
    and "p_master s = M_Open \<Longrightarrow> v \<noteq> Stop_Task"
  shows "pool_ok (s\<lparr>p_queue := q, p_workers := broadcast (p_workers s)\<rparr>) (vs @ [v])"
  using assms enqueue_rel[of "p_queue s" vs v] by (auto simp: pool_ok_def)

text \<open>A worker leaves the queue with its first value, or with nothing from an empty or closed queue.\<close>

lemma take_ok:
  assumes ok: "pool_ok s (v # vs)" and i: "i < length (p_workers s)" "p_workers s ! i \<noteq> W_Exited"
    and q: "dequeue_pop (p_queue s) = Some (r, q)"
  shows "pool_ok (s\<lparr>p_queue := q, p_workers := (p_workers s)[i := worker_take r]\<rparr>) vs"
proof -
  from ok have rel: "queue_rel (p_queue s) (v # vs)" by (simp add: pool_ok_def)
  from dequeue_pop_rel[OF rel] q have r: "r = Some v" "queue_rel q vs" "q_is_closed q = q_is_closed (p_queue s)"
    by auto
  have b: "W_Blocked \<notin> set ((p_workers s)[i := worker_take r])"
    using ok r(1) by (intro set_update_Blocked) (cases v; auto simp: pool_ok_def)+
  have e: "exited ((p_workers s)[i := worker_take r]) = exited (p_workers s) + (if v = Stop_Task then 1 else 0)"
    using exited_update[OF i] r(1) by (cases v) auto
  have "p_master s \<noteq> M_Joined" using ok exited_less[OF i] by (auto simp: pool_ok_def)
  with ok r b e show ?thesis by (auto simp: pool_ok_def split: if_splits)
qed

lemma step_off_ok:
  assumes ok: "pool_ok s vs" and i: "i < length (p_workers s)" "p_workers s ! i \<noteq> W_Exited"
    and w: "w = W_Blocked \<Longrightarrow> vs = []"
    and x: "w = W_Exited \<Longrightarrow> p_master s \<noteq> M_Open"
  shows "pool_ok (s\<lparr>p_workers := (p_workers s)[i := w]\<rparr>) vs"
proof -
  have "p_master s \<noteq> M_Joined" using ok exited_less[OF i] by (auto simp: pool_ok_def)
  moreover have "vs \<noteq> [] \<Longrightarrow> W_Blocked \<notin> set ((p_workers s)[i := w])"
    using ok w by (intro set_update_Blocked) (auto simp: pool_ok_def)
  moreover have "exited (p_workers s) \<le> exited ((p_workers s)[i := w])" using exited_update[OF i] by simp
  ultimately show ?thesis using ok by (auto simp: pool_ok_def intro: order_trans)
qed

lemma dequeue_closed: "unbounded_queue_dequeue q = Some (Deq_Closed, q') \<Longrightarrow> q_is_closed q \<and> q' = q"
  by (auto simp: unbounded_queue_dequeue_def split: if_splits bind_splits)

lemma dequeue_wait:
  "unbounded_queue_dequeue q = Some (Deq_Wait, q') \<Longrightarrow> queue_rel q vs \<Longrightarrow> q' = q \<and> vs = []"
  by (auto simp: unbounded_queue_dequeue_def queue_empty_rel split: if_splits)

lemma dequeue_value:
  "unbounded_queue_dequeue q = Some (Deq_Value v, q') \<Longrightarrow> queue_rel q vs \<Longrightarrow>
   vs \<noteq> [] \<and> dequeue_pop q = Some (v, q')"
  by (auto simp: unbounded_queue_dequeue_def queue_empty_rel split: if_splits)

lemma close_closes: "q_is_closed (unbounded_queue_close q)"
  by (simp add: unbounded_queue_close_def)

lemma pool_step_ok [tx_inv]: "pool_step s l t \<Longrightarrow> pool_ok s vs \<Longrightarrow> \<exists>vs'. pool_ok t vs'"
proof (induction rule: pool_step.induct)
  case (submit s k q)
  then show ?case using submit_ok by blast
next
  case (deq_closed i s q)
  then have "p_master s \<noteq> M_Open" "q = p_queue s" using dequeue_closed by (auto simp: pool_ok_def)
  with deq_closed show ?case using step_off_ok[of s vs i W_Exited] by auto
next
  case (deq_wait i s q)
  then have "vs = []" "q = p_queue s" using dequeue_wait by (auto simp: pool_ok_def)
  with deq_wait show ?case using step_off_ok[of s vs i W_Blocked] by auto
next
  case (deq_value i s v q)
  then have "vs \<noteq> []" "dequeue_pop (p_queue s) = Some (v, q)" using dequeue_value by (auto simp: pool_ok_def)
  with deq_value show ?case using take_ok[of s _ _ i v q] by (cases vs) auto
next
  case (woken_empty i s)
  then have "vs = []" using queue_empty_rel[OF pool_ok_rel] by auto
  with woken_empty show ?case using step_off_ok[of s vs i W_Blocked] by auto
next
  case (woken_take i s v q)
  then have "vs \<noteq> []" using queue_empty_rel[OF pool_ok_rel] by auto
  with woken_take show ?case using take_ok[of s _ _ i v q] by (cases vs) auto
next
  case (finish i s k)
  then show ?case using step_off_ok[of s vs i W_Dequeue] by auto
next
  case (spurious i s)
  then show ?case using step_off_ok[of s vs i W_Woken] by auto
next
  case (close s)
  then show ?case by (intro exI[of _ vs]) (auto simp: pool_ok_def close_rel close_closes)
next
  case (put_stop s k q)
  then have "pool_ok (s\<lparr>p_queue := q, p_workers := broadcast (p_workers s)\<rparr>) (vs @ [Stop_Task])"
    by (intro submit_ok) auto
  with put_stop show ?case by (intro exI[of _ "vs @ [Stop_Task]"]) (auto simp: pool_ok_def)
next
  case (join s)
  then show ?case by (intro exI[of _ vs]) (auto simp: pool_ok_def exited_all)
qed

lemma created_open: "\<not> q_is_closed unbounded_queue_create"
  by (simp add: unbounded_queue_create_def)

lemma pool_reachable_ok: "pool_reachable n s \<Longrightarrow> \<exists>vs. pool_ok s vs"
proof (induction rule: pool_reachable.induct)
  case (init s)
  then show ?case
    by (intro exI[of _ "[]"])
      (auto simp: threadpool_init_def pool_ok_def create_rel created_open split: if_splits)
next
  case (step s l t)
  then show ?case using pool_step_ok by blast
qed

subsection \<open>Shutdown\<close>

text \<open>A step of the pool's own threads: no spurious wake-up, no further submission.\<close>

definition quiet_step :: "pool \<Rightarrow> pool \<Rightarrow> bool" where
  "quiet_step s t \<longleftrightarrow> (\<exists>l. (l = L_Master \<or> (\<exists>i. l = L_Worker i)) \<and> pool_step s l t)"

lemma quiet_stepI:
  "pool_step s L_Master t \<Longrightarrow> quiet_step s t" "pool_step s (L_Worker i) t \<Longrightarrow> quiet_step s t"
  by (auto simp: quiet_step_def)

lemma all_exited_or: "(\<forall>w\<in>set ws. w = W_Exited) \<or> (\<exists>i<length ws. ws ! i \<noteq> W_Exited)"
  by (auto simp: in_set_conv_nth)

lemma woken_moves:
  assumes "pool_ok s vs" "i < length (p_workers s)" "p_workers s ! i = W_Woken"
  shows "\<exists>t. quiet_step s t"
proof (cases vs)
  case Nil
  with assms pool_step.woken_empty[of i s] queue_empty_rel[OF pool_ok_rel] show ?thesis
    by (auto intro: quiet_stepI)
next
  case (Cons v vs')
  with assms have "queue_rel (p_queue s) (v # vs')" by (simp add: pool_ok_def)
  with dequeue_pop_rel[OF this] queue_empty_rel[OF this] assms pool_step.woken_take[of i s] show ?thesis
    by (fastforce intro: quiet_stepI)
qed

lemma closing_moves:
  assumes ok: "pool_ok s vs" and m: "p_master s = M_Closing k"
  shows "\<exists>t. quiet_step s t"
proof (cases k)
  case (Suc k')
  from enqueue_rel[OF pool_ok_rel[OF ok]] pool_step.put_stop m Suc show ?thesis
    by (blast intro: quiet_stepI)
next
  case 0
  from all_exited_or[of "p_workers s"] show ?thesis
  proof (elim disjE exE conjE)
    assume "\<forall>w\<in>set (p_workers s). w = W_Exited"
    with m 0 show ?thesis using pool_step.join[of s] by (blast intro: quiet_stepI)
  next
    fix i assume i: "i < length (p_workers s)" "p_workers s ! i \<noteq> W_Exited"
    from ok m 0 exited_less[OF i] have "stops vs \<noteq> 0" by (auto simp: pool_ok_def)
    then have "vs \<noteq> []" by auto
    with ok have "W_Blocked \<notin> set (p_workers s)" by (simp add: pool_ok_def)
    with i have nb: "p_workers s ! i \<noteq> W_Blocked" by (metis nth_mem)
    have "unbounded_queue_dequeue (p_queue s) = Some (Deq_Closed, p_queue s)"
      using ok m by (simp add: pool_ok_def unbounded_queue_dequeue_def)
    with i nb woken_moves[OF ok i(1)] pool_step.deq_closed[of i s] pool_step.finish[of i s] show ?thesis
      by (cases "p_workers s ! i") (auto intro: quiet_stepI)
  qed
qed

text \<open>The measure: the stop tasks to come first, then how far each worker is from leaving.\<close>

fun master_rank :: "master \<Rightarrow> nat" where
  "master_rank M_Open = 0"
| "master_rank M_Joined = 0"
| "master_rank (M_Closing k) = Suc k"

fun worker_rank :: "worker \<Rightarrow> nat" where
  "worker_rank W_Woken = 3"
| "worker_rank (W_Running k) = 2"
| "worker_rank W_Dequeue = 1"
| "worker_rank W_Blocked = 0"
| "worker_rank W_Exited = 0"

definition workers_rank :: "worker list \<Rightarrow> nat" where
  "workers_rank ws = sum_list (map worker_rank ws)"

lemma workers_rank_update:
  "i < length ws \<Longrightarrow> worker_rank w < worker_rank (ws ! i) \<Longrightarrow> workers_rank (ws[i := w]) < workers_rank ws"
proof (induction ws arbitrary: i)
  case Nil then show ?case by simp
next
  case (Cons v ws) then show ?case by (cases i) (auto simp: workers_rank_def)
qed

lemma worker_take_rank: "worker_rank (worker_take v) \<le> 2"
  by (cases v rule: worker_take.cases) auto

lemma quiet_step_decreases:
  assumes "pool_ok s vs" "p_master s \<noteq> M_Open" "quiet_step s t"
  shows "p_master t \<noteq> M_Open \<and> ((master_rank (p_master t), workers_rank (p_workers t)),
     (master_rank (p_master s), workers_rank (p_workers s))) \<in> less_than <*lex*> less_than"
proof -
  from assms(3) obtain l where l: "pool_step s l t" "l = L_Master \<or> (\<exists>i. l = L_Worker i)"
    by (auto simp: quiet_step_def)
  from l assms(1,2) show ?thesis
  proof (induction rule: pool_step.induct)
    case (deq_wait i s q)
    then show ?case by (auto simp: pool_ok_def unbounded_queue_dequeue_def)
  next
    case (deq_value i s v q)
    then show ?case by (auto simp: pool_ok_def unbounded_queue_dequeue_def)
  next
    case (woken_take i s v q)
    then show ?case using workers_rank_update[of i "p_workers s" "worker_take v"] worker_take_rank[of v] by auto
  qed (auto intro!: workers_rank_update)
qed

lemma quiet_step_reachable: "quiet_step s t \<Longrightarrow> pool_reachable n s \<Longrightarrow> pool_reachable n t"
  by (auto simp: quiet_step_def intro: pool_reachable.step)

lemma wf_quiet: "wf {(t, s). pool_reachable n s \<and> p_master s \<noteq> M_Open \<and> quiet_step s t}"
proof (rule wf_subset)
  show "wf (inv_image (less_than <*lex*> less_than) (\<lambda>s. (master_rank (p_master s), workers_rank (p_workers s))))"
    by auto
  show "{(t, s). pool_reachable n s \<and> p_master s \<noteq> M_Open \<and> quiet_step s t}
     \<subseteq> inv_image (less_than <*lex*> less_than) (\<lambda>s. (master_rank (p_master s), workers_rank (p_workers s)))"
  proof (clarify)
    fix t s assume s: "pool_reachable n s" "p_master s \<noteq> M_Open" "quiet_step s t"
    from pool_reachable_ok[OF s(1)] obtain vs where "pool_ok s vs" by blast
    from quiet_step_decreases[OF this s(2,3)]
    show "(t, s) \<in> inv_image (less_than <*lex*> less_than) (\<lambda>s. (master_rank (p_master s), workers_rank (p_workers s)))"
      by (simp only: in_inv_image)
  qed
qed

lemma quiet_stays_closed:
  assumes "pool_reachable n s" "p_master s \<noteq> M_Open" "quiet_step s t"
  shows "p_master t \<noteq> M_Open"
  using pool_reachable_ok[OF assms(1)] quiet_step_decreases assms(2,3) by blast

text \<open>
  C10: Shutdown of the thread pool cannot hang. In every reachable state of a pool that is being
  freed, as long as the joins are not over, one of the pool's own threads can move: no worker is
  left blocked in the queue without a wake-up to come.
\<close>

theorem pool_shutdown_never_stuck:
  assumes "pool_reachable n s" "p_master s = M_Closing k"
  shows "\<exists>t. quiet_step s t"
  using pool_reachable_ok[OF assms(1)] closing_moves assms(2) by blast

text \<open>
  C11: Once a pool is being freed, the steps of its own threads come to an end, so that together
  with progress the joins are reached: every run of worker and master steps is finite and can be
  continued to one that ends with all threads joined.
\<close>

theorem pool_shutdown_terminates:
  assumes "pool_reachable n s" "p_master s \<noteq> M_Open"
  shows "\<exists>t. quiet_step\<^sup>*\<^sup>* s t \<and> p_master t = M_Joined \<and> \<not> (\<exists>f. f 0 = s \<and> (\<forall>i. quiet_step (f i) (f (Suc i))))"
proof -
  have ex: "\<exists>t. quiet_step\<^sup>*\<^sup>* s t \<and> p_master t = M_Joined"
    using assms
  proof (induction s rule: wf_induct_rule[OF wf_quiet[of n]])
    case (1 s)
    show ?case
    proof (cases "p_master s")
      case (M_Closing k)
      from pool_reachable_ok[OF 1(2)] closing_moves[OF _ M_Closing] obtain u where u: "quiet_step s u" by blast
      have "\<exists>t. quiet_step\<^sup>*\<^sup>* u t \<and> p_master t = M_Joined"
        using 1 u quiet_step_reachable[OF u] quiet_stays_closed[OF 1(2,3) u] by blast
      with u show ?thesis by (meson converse_rtranclp_into_rtranclp)
    qed (use 1 in auto)
  qed
  have "\<not> (\<exists>f. f 0 = s \<and> (\<forall>i. quiet_step (f i) (f (Suc i))))"
  proof clarify
    fix f assume f: "s = f 0" "\<forall>i. quiet_step (f i) (f (Suc i))"
    have *: "pool_reachable n (f i) \<and> p_master (f i) \<noteq> M_Open" for i
      by (induction i) (use assms f quiet_step_reachable quiet_stays_closed in blast)+
    then show False using wf_quiet[of n] f(2) unfolding wf_iff_no_infinite_down_chain by blast
  qed
  with ex show ?thesis by blast
qed

text \<open>A run of a pool of one worker: a task is queued, the pool is freed before the worker comes to it.\<close>

lemmas queue_defs = unbounded_queue_create_def unbounded_queue_enqueue_def unbounded_queue_close_def
  unbounded_queue_dequeue_def cell_def broadcast_def Let_def

definition run_q :: "pool_item list \<Rightarrow> bool \<Rightarrow> pool_item queue" where
  "run_q vs c =
     \<lparr>q_cells = map (\<lambda>i. Some \<lparr>qc_value = (if i = 0 then None else Some (vs ! (i - 1))),
                              qc_next = (if i = length vs then None else Some (i + 1))\<rparr>) [0..<Suc (length vs)],
      q_head = 0, q_tail = length vs, q_is_closed = c\<rparr>"

lemma run_start: "pool_reachable 1 \<lparr>p_queue = run_q [] False, p_workers = [W_Dequeue], p_master = M_Open\<rparr>"
  by (rule pool_reachable.init) (simp add: threadpool_init_def unbounded_queue_create_def run_q_def)

lemma run_submit:
  "pool_reachable 1 \<lparr>p_queue = run_q [Task 7] False, p_workers = [W_Dequeue], p_master = M_Open\<rparr>"
  using pool_reachable.step[OF run_start pool_step.submit[where k = 7 and q = "run_q [Task 7] False"]]
  by (simp add: run_q_def queue_defs)

lemma run_close:
  "pool_reachable 1 \<lparr>p_queue = run_q [Task 7] True, p_workers = [W_Dequeue], p_master = M_Closing 1\<rparr>"
  using pool_reachable.step[OF run_submit pool_step.close]
  by (simp add: run_q_def queue_defs)

lemma run_exit:
  "pool_reachable 1 \<lparr>p_queue = run_q [Task 7] True, p_workers = [W_Exited], p_master = M_Closing 1\<rparr>"
  using pool_reachable.step[OF run_close pool_step.deq_closed[where i = 0 and q = "run_q [Task 7] True"]]
  by (simp add: run_q_def queue_defs)

lemma run_stop:
  "pool_reachable 1 \<lparr>p_queue = run_q [Task 7, Stop_Task] True, p_workers = [W_Exited], p_master = M_Closing 0\<rparr>"
  using pool_reachable.step[OF run_exit pool_step.put_stop[where k = 0 and q = "run_q [Task 7, Stop_Task] True"]]
  by (simp add: run_q_def queue_defs)

lemma run_joined:
  "pool_reachable 1 \<lparr>p_queue = run_q [Task 7, Stop_Task] True, p_workers = [W_Exited], p_master = M_Joined\<rparr>"
  using pool_reachable.step[OF run_stop pool_step.join]
  by (simp add: run_q_def queue_defs)

theorem pool_shutdown_never_stuck_witness:
  "\<exists>t. quiet_step \<lparr>p_queue = run_q [Task 7] True, p_workers = [W_Dequeue], p_master = M_Closing 1\<rparr> t"
  using pool_shutdown_never_stuck[OF run_close, of 1] by simp

theorem pool_shutdown_terminates_witness:
  "\<exists>t. quiet_step\<^sup>*\<^sup>* \<lparr>p_queue = run_q [Task 7] True, p_workers = [W_Dequeue], p_master = M_Closing 1\<rparr> t \<and>
     p_master t = M_Joined"
  using pool_shutdown_terminates[OF run_close] by auto

text \<open>
  Freeing the pool does not run the tasks that are still queued: a pool of one worker that
  is freed right after a task was submitted can be joined with that task still in the queue, since a closed
  queue hands out nothing.
\<close>

theorem pool_shutdown_drops_queued_tasks:
  "\<exists>s. pool_reachable 1 s \<and> p_master s = M_Joined \<and> queue_rel (p_queue s) [Task 7, Stop_Task]"
  by (rule exI, rule conjI[OF run_joined]) (simp add: run_q_def queue_rel_def)

text \<open>
  The latch of a transformation counts its unfinished tasks: in every reachable state its value is
  their number, and the caller that waits on it returns only when no task is left, however the
  starts and ends of the tasks interleave.
\<close>

theorem latch_returns_when_done:
  assumes "latch_reachable s"
  shows "l_value s = of_nat (l_tasks s) \<and> (l_returned s \<longrightarrow> l_tasks s = 0)"
  using latch_reachable_inv[OF assms] by (auto simp: latch_inv_def)

theorem latch_returns_when_done_witness:
  "l_value (latch_init\<lparr>l_value := shared_variable_increase (l_value latch_init), l_tasks := l_tasks latch_init + 1\<rparr>) = of_nat (2::nat)"
proof -
  have "latch_reachable (latch_init\<lparr>l_value := shared_variable_increase (l_value latch_init), l_tasks := l_tasks latch_init + 1\<rparr>)"
    by (rule latch_reachable.step[OF latch_reachable.init], rule latch_step.spawn) (simp_all add: latch_init_def)
  from latch_returns_when_done[OF this] show ?thesis by (simp add: latch_init_def)
qed

end
