(* ===== verification/Tx_Double.thy ===== *)
theory Tx_Double
  imports Tx_Strings Complex_Main
begin

text \<open>
  The part of C's \<open>double\<close> and of the C library that the XPath arithmetic uses: IEEE 754
  binary64 values, the four operations with rounding to nearest (ties to even), comparison,
  \<open>floor\<close>, \<open>ceil\<close>, \<open>trunc\<close>, \<open>round\<close>, \<open>modf\<close>, \<open>strtod\<close>, \<open>atol\<close> and the formats \<open>%ld\<close> and \<open>%f\<close>. A finite
  value is a sign and a rational magnitude. Conversions whose result the C standard leaves
  undefined are \<open>None\<close>.
\<close>

subsection \<open>Values and rounding\<close>

datatype double = D_nan bool | D_inf bool | D_num bool rat

definition pow2 :: "int \<Rightarrow> rat" where
  "pow2 k = (if 0 \<le> k then 2 ^ nat k else 1 / 2 ^ nat (- k))"

function int_log2 :: "int \<Rightarrow> int" where
  "int_log2 n = (if n < 2 then 0 else 1 + int_log2 (n div 2))"
  by auto
termination by (relation "measure nat") auto

declare int_log2.simps [simp del]

text \<open>The exponent of a positive rational: \<open>2 ^ k \<le> a < 2 ^ (k + 1)\<close>.\<close>

definition rat_log2 :: "rat \<Rightarrow> int" where
  "rat_log2 a =
     (let (p, q) = quotient_of a; k = int_log2 p - int_log2 q
      in if pow2 k \<le> a then k else k - 1)"

definition round_even :: "rat \<Rightarrow> int" where
  "round_even q =
     (let f = \<lfloor>q\<rfloor>; d = q - of_int f
      in if d < 1 / 2 then f else if 1 / 2 < d then f + 1 else if even f then f else f + 1)"

definition fround :: "bool \<Rightarrow> rat \<Rightarrow> double" where
  "fround s a =
     (if a = 0 then D_num s 0
      else let e = max (rat_log2 a - 52) (-1074); r = of_int (round_even (a / pow2 e)) * pow2 e
           in if pow2 1024 \<le> r then D_inf s else D_num s r)"

definition d_of_rat :: "rat \<Rightarrow> double" where
  "d_of_rat q = fround (q < 0) \<bar>q\<bar>"

text \<open>Conversion of a \<open>long\<close>.\<close>

definition d_of_int :: "int \<Rightarrow> double" where
  "d_of_int i = d_of_rat (of_int i)"

definition sval :: "bool \<Rightarrow> rat \<Rightarrow> rat" where
  "sval s m = (if s then - m else m)"

subsection \<open>Arithmetic\<close>

text \<open>
  The result of an invalid operation is the default NaN, whose sign bit is set on x86-64; an
  operand that is a NaN is the result (the left one first).
\<close>

definition d_default_nan :: double where
  "d_default_nan = D_nan True"

text \<open>\<open>nan("")\<close> of the C library.\<close>

definition d_quiet_nan :: double where
  "d_quiet_nan = D_nan False"

fun d_isnan :: "double \<Rightarrow> bool" where
  "d_isnan (D_nan s) = True"
| "d_isnan _ = False"

fun d_neg :: "double \<Rightarrow> double" where
  "d_neg (D_nan s) = D_nan (\<not> s)"
| "d_neg (D_inf s) = D_inf (\<not> s)"
| "d_neg (D_num s m) = D_num (\<not> s) m"

fun d_abs :: "double \<Rightarrow> double" where
  "d_abs (D_nan s) = D_nan False"
| "d_abs (D_inf s) = D_inf False"
| "d_abs (D_num s m) = D_num False m"

fun d_add :: "double \<Rightarrow> double \<Rightarrow> double" where
  "d_add (D_nan s) y = D_nan s"
| "d_add x (D_nan t) = D_nan t"
| "d_add (D_inf s) (D_inf t) = (if s = t then D_inf s else d_default_nan)"
| "d_add (D_inf s) (D_num t n) = D_inf s"
| "d_add (D_num s m) (D_inf t) = D_inf t"
| "d_add (D_num s m) (D_num t n) =
     (if sval s m + sval t n = 0 then D_num (s \<and> t) 0 else d_of_rat (sval s m + sval t n))"

fun d_minus :: "double \<Rightarrow> double \<Rightarrow> double" where
  "d_minus x (D_nan t) = (if d_isnan x then x else D_nan t)"
| "d_minus x y = d_add x (d_neg y)"

fun d_mul :: "double \<Rightarrow> double \<Rightarrow> double" where
  "d_mul (D_nan s) y = D_nan s"
| "d_mul x (D_nan t) = D_nan t"
| "d_mul (D_inf s) (D_inf t) = D_inf (s \<noteq> t)"
| "d_mul (D_inf s) (D_num t n) = (if n = 0 then d_default_nan else D_inf (s \<noteq> t))"
| "d_mul (D_num s m) (D_inf t) = (if m = 0 then d_default_nan else D_inf (s \<noteq> t))"
| "d_mul (D_num s m) (D_num t n) = fround (s \<noteq> t) (m * n)"

fun d_div :: "double \<Rightarrow> double \<Rightarrow> double" where
  "d_div (D_nan s) y = D_nan s"
| "d_div x (D_nan t) = D_nan t"
| "d_div (D_inf s) (D_inf t) = d_default_nan"
| "d_div (D_inf s) (D_num t n) = D_inf (s \<noteq> t)"
| "d_div (D_num s m) (D_inf t) = D_num (s \<noteq> t) 0"
| "d_div (D_num s m) (D_num t n) =
     (if n = 0 then (if m = 0 then d_default_nan else D_inf (s \<noteq> t)) else fround (s \<noteq> t) (m / n))"

subsection \<open>Comparison\<close>

fun d_less :: "double \<Rightarrow> double \<Rightarrow> bool" where
  "d_less (D_nan s) y = False"
| "d_less x (D_nan t) = False"
| "d_less (D_inf s) (D_inf t) = (s \<and> \<not> t)"
| "d_less (D_inf s) (D_num t n) = s"
| "d_less (D_num s m) (D_inf t) = (\<not> t)"
| "d_less (D_num s m) (D_num t n) = (sval s m < sval t n)"

fun d_eq :: "double \<Rightarrow> double \<Rightarrow> bool" where
  "d_eq (D_inf s) (D_inf t) = (s = t)"
| "d_eq (D_num s m) (D_num t n) = (sval s m = sval t n)"
| "d_eq _ _ = False"

definition d_zero :: double where
  "d_zero = D_num False 0"

subsection \<open>Integral parts\<close>

definition d_integral :: "bool \<Rightarrow> int \<Rightarrow> double" where
  "d_integral s i = D_num (if i = 0 then s else i < 0) (of_int \<bar>i\<bar>)"

fun d_floor :: "double \<Rightarrow> double" where
  "d_floor (D_num s m) = d_integral s \<lfloor>sval s m\<rfloor>"
| "d_floor x = x"

fun d_ceil :: "double \<Rightarrow> double" where
  "d_ceil (D_num s m) = d_integral s \<lceil>sval s m\<rceil>"
| "d_ceil x = x"

fun d_trunc :: "double \<Rightarrow> double" where
  "d_trunc (D_num s m) = D_num s (of_int \<lfloor>m\<rfloor>)"
| "d_trunc x = x"

text \<open>\<open>round\<close>: halves away from zero.\<close>

fun d_round :: "double \<Rightarrow> double" where
  "d_round (D_num s m) = D_num s (of_int \<lfloor>m + 1 / 2\<rfloor>)"
| "d_round x = x"

text \<open>\<open>modf\<close>: fractional part and integral part.\<close>

fun d_modf :: "double \<Rightarrow> double \<times> double" where
  "d_modf (D_num s m) = (D_num s (m - of_int \<lfloor>m\<rfloor>), D_num s (of_int \<lfloor>m\<rfloor>))"
| "d_modf (D_inf s) = (D_num s 0, D_inf s)"
| "d_modf (D_nan s) = (D_nan s, D_nan s)"

text \<open>The conversions \<open>(int)\<close>, \<open>(long)\<close> and \<open>(unsigned)\<close>; undefined when the value does not fit.\<close>

fun d_to_int_range :: "int \<Rightarrow> int \<Rightarrow> double \<Rightarrow> int option" where
  "d_to_int_range lo hi (D_num s m) =
     (let i = (if s then - \<lfloor>m\<rfloor> else \<lfloor>m\<rfloor>) in if lo \<le> i \<and> i \<le> hi then Some i else None)"
| "d_to_int_range lo hi _ = None"

definition d_to_long :: "double \<Rightarrow> int option" where
  "d_to_long = d_to_int_range (- (2 ^ 63)) (2 ^ 63 - 1)"

definition d_to_int :: "double \<Rightarrow> int option" where
  "d_to_int = d_to_int_range (- (2 ^ 31)) (2 ^ 31 - 1)"

definition d_to_uint :: "double \<Rightarrow> int option" where
  "d_to_uint = d_to_int_range 0 (2 ^ 32 - 1)"

subsection \<open>Integers up to \<open>2 ^ 53\<close> are exact\<close>

lemma pow2_nonneg: "pow2 (int k) = 2 ^ k"
  by (simp add: pow2_def)

lemma pow2_neg: "pow2 (- int k) = 1 / 2 ^ k"
  by (cases "k = 0") (simp_all add: pow2_def)

lemma int_log2_bounds: "0 < n \<Longrightarrow> \<exists>k. int_log2 n = int k \<and> 2 ^ k \<le> n \<and> n < 2 ^ (k + 1)"
proof (induction n rule: int_log2.induct)
  case (1 n)
  show ?case
  proof (cases "n < 2")
    case True
    with 1(2) have "n = 1" by simp
    then show ?thesis by (intro exI[of _ 0]) (simp add: int_log2.simps)
  next
    case False
    with 1 obtain k where k: "int_log2 (n div 2) = int k" "2 ^ k \<le> n div 2" "n div 2 < 2 ^ (k + 1)" by fastforce
    then have "2 * 2 ^ k \<le> n" "n < 2 * 2 ^ (k + 1)" by linarith+
    with k(1) False show ?thesis by (intro exI[of _ "Suc k"]) (simp add: int_log2.simps[of n])
  qed
qed

lemma rat_log2_int:
  assumes "0 < n"
  shows "rat_log2 (of_int n) = int_log2 n"
proof -
  from int_log2_bounds[OF assms] obtain k where "int_log2 n = int k" "2 ^ k \<le> n" by blast
  then have "(of_int (2 ^ k) :: rat) \<le> of_int n" by (simp only: of_int_le_iff)
  with \<open>int_log2 n = int k\<close> have "pow2 (int_log2 n) \<le> of_int n" by (simp add: pow2_nonneg)
  then show ?thesis by (simp add: rat_log2_def quotient_of_int int_log2.simps[of 1])
qed

lemma round_even_int [simp]: "round_even (of_int n) = n"
  by (simp add: round_even_def)

lemma fround_exact:
  assumes "a \<noteq> 0" "\<bar>a\<bar> < pow2 1024" "a / pow2 (max (rat_log2 a - 52) (-1074)) = of_int i"
  shows "fround s a = D_num s a"
proof -
  have "pow2 e \<noteq> 0" for e by (simp add: pow2_def)
  with assms(3) have "of_int i * pow2 (max (rat_log2 a - 52) (-1074)) = a" by (simp add: field_simps)
  with assms show ?thesis by (simp add: fround_def)
qed

lemma fround_0 [simp]: "fround s 0 = D_num s 0"
  by (simp add: fround_def)

lemma fround_int:
  assumes "0 \<le> n" "n \<le> 2 ^ 53"
  shows "fround s (of_int n) = D_num s (of_int n)"
proof (cases "n = 0")
  case False
  with assms(1) have n: "0 < n" by simp
  from int_log2_bounds[OF n] obtain k where k: "int_log2 n = int k" "2 ^ k \<le> n" by blast
  have small: "\<bar>of_int n\<bar> < pow2 1024"
  proof -
    have "(of_int n :: rat) \<le> of_int (2 ^ 53)" using assms(2) by (simp only: of_int_le_iff)
    also have "\<dots> = 2 ^ 53" by simp
    also have "\<dots> < 2 ^ 1024" by simp
    finally show ?thesis using n by (simp add: pow2_def)
  qed
  have "(2::int) ^ k \<le> 2 ^ 53" using k(2) assms(2) by linarith
  then have "k \<le> 53" by (rule power_le_imp_le_exp[rotated]) simp
  show ?thesis
  proof (cases "k \<le> 52")
    case True
    then have e: "max (rat_log2 (of_int n) - 52) (-1074) = - int (52 - k)" using k n by (simp add: rat_log2_int)
    show ?thesis
      by (rule fround_exact[OF _ small, of "n * 2 ^ (52 - k)"]) (use n in \<open>simp_all add: e pow2_neg\<close>)
  next
    case 2: False
    with \<open>k \<le> 53\<close> have "k = 53" by simp
    with k assms(2) have "n = 2 ^ 53" by simp
    moreover have "max (rat_log2 (of_int n) - 52) (-1074) = int 1" using k n \<open>k = 53\<close> by (simp add: rat_log2_int)
    ultimately show ?thesis
      by (intro fround_exact[OF _ small, of "2 ^ 52"]) (simp_all add: pow2_def)
  qed
qed simp

lemma d_of_int_exact: "\<bar>i\<bar> \<le> 2 ^ 53 \<Longrightarrow> d_of_int i = D_num (i < 0) (of_int \<bar>i\<bar>)"
  using fround_int[of "\<bar>i\<bar>" "i < 0"] by (simp add: d_of_int_def d_of_rat_def)

lemma sval_d_of_int: "sval (i < 0) (of_int \<bar>i\<bar>) = of_int i"
  by (simp add: sval_def)

lemma d_of_rat_of_int: "d_of_rat (of_int i) = d_of_int i"
  by (simp add: d_of_int_def)

lemma d_add_int:
  assumes "\<bar>i\<bar> \<le> 2 ^ 53" "\<bar>j\<bar> \<le> 2 ^ 53"
  shows "d_add (d_of_int i) (d_of_int j) = d_of_int (i + j)"
proof -
  have "of_int i + of_int j = (of_int (i + j) :: rat)" by simp
  then show ?thesis using assms d_of_int_exact[of 0]
    by (simp only: d_of_int_exact[OF assms(1)] d_of_int_exact[OF assms(2)] d_add.simps sval_d_of_int d_of_rat_of_int)
      (auto simp: add_eq_0_iff simp flip: of_int_minus)
qed

lemma d_of_int_small_0: "\<bar>i\<bar> \<le> 2 ^ 53 \<Longrightarrow> d_eq (d_of_int i) d_zero \<longleftrightarrow> i = 0"
  by (simp add: d_of_int_exact d_zero_def sval_def)

lemma d_less_int: "\<bar>i\<bar> \<le> 2 ^ 53 \<Longrightarrow> \<bar>j\<bar> \<le> 2 ^ 53 \<Longrightarrow> d_less (d_of_int i) (d_of_int j) \<longleftrightarrow> i < j"
  by (simp add: d_of_int_exact sval_d_of_int del: of_int_abs)

lemma d_eq_int: "\<bar>i\<bar> \<le> 2 ^ 53 \<Longrightarrow> \<bar>j\<bar> \<le> 2 ^ 53 \<Longrightarrow> d_eq (d_of_int i) (d_of_int j) \<longleftrightarrow> i = j"
  by (simp add: d_of_int_exact sval_d_of_int del: of_int_abs)

subsection \<open>Reading numbers\<close>

definition is_space :: "char \<Rightarrow> bool" where
  "is_space c \<longleftrightarrow> c = CHR '' '' \<or> char_between CHR 0x09 CHR 0x0D c"

definition digit_val :: "char \<Rightarrow> int" where
  "digit_val c = of_char c - 48"

definition is_hex_char :: "char \<Rightarrow> bool" where
  "is_hex_char c \<longleftrightarrow> is_digit_char c \<or> char_between CHR ''a'' CHR ''f'' c \<or> char_between CHR ''A'' CHR ''F'' c"

definition hex_val :: "char \<Rightarrow> int" where
  "hex_val c = (if is_digit_char c then digit_val c else of_char (tolower c) - 87)"

definition read_base :: "int \<Rightarrow> (char \<Rightarrow> int) \<Rightarrow> cstring \<Rightarrow> int" where
  "read_base b v s = foldl (\<lambda>a c. b * a + v c) 0 s"

text \<open>An optional sign; whether it was a minus, and the rest.\<close>

definition read_sign :: "cstring \<Rightarrow> bool \<times> cstring" where
  "read_sign s =
     (if peek s = CHR ''-'' then (True, tl s) else if peek s = CHR ''+'' then (False, tl s) else (False, s))"

text \<open>The exponent part behind the letter \<open>e\<close> or \<open>p\<close>; 0 when no digit follows.\<close>

definition read_exp :: "char \<Rightarrow> cstring \<Rightarrow> int" where
  "read_exp letter s =
     (if tolower (peek s) \<noteq> letter then 0
      else let (neg, r) = read_sign (tl s); ds = takeWhile is_digit_char r; e = read_base 10 digit_val ds
           in if neg then - e else e)"

text \<open>Digits with an optional point: the digits, how many follow the point, the rest.\<close>

definition read_mantissa :: "(char \<Rightarrow> bool) \<Rightarrow> cstring \<Rightarrow> cstring \<times> int \<times> cstring" where
  "read_mantissa d s =
     (let ds = takeWhile d s; r = dropWhile d s
      in if peek r = CHR ''.'' then let fs = takeWhile d (tl r) in (ds @ fs, int (length fs), dropWhile d (tl r))
         else (ds, 0, r))"

definition pow10 :: "int \<Rightarrow> rat" where
  "pow10 k = (if 0 \<le> k then 10 ^ nat k else 1 / 10 ^ nat (- k))"

definition strtod :: "cstring \<Rightarrow> double" where
  "strtod str =
     (let (neg, s) = read_sign (dropWhile is_space str); ls = map tolower s;
          hex = tl (tl s); (hs, hn, hr) = read_mantissa is_hex_char hex; (ds, dn, dr) = read_mantissa is_digit_char s
      in if starts_with ''0x'' ls \<and> hs \<noteq> []
         then fround neg (of_int (read_base 16 hex_val hs) * pow2 (read_exp CHR ''p'' hr - 4 * hn))
         else if ds \<noteq> [] then fround neg (of_int (read_base 10 digit_val ds) * pow10 (read_exp CHR ''e'' dr - dn))
         else if starts_with ''inf'' ls then D_inf neg
         else if starts_with ''nan'' ls then D_nan neg
         else d_zero)"

text \<open>\<open>atol\<close>: glibc's \<open>strtol\<close> with base 10, which saturates.\<close>

definition atol :: "cstring \<Rightarrow> int" where
  "atol str =
     (let (neg, s) = read_sign (dropWhile is_space str); n = read_base 10 digit_val (takeWhile is_digit_char s)
      in if neg then max (- n) (- (2 ^ 63)) else min n (2 ^ 63 - 1))"

subsection \<open>Printing numbers\<close>

definition digit_char :: "nat \<Rightarrow> char" where
  "digit_char d = ''0123456789'' ! d"

fun show_nat :: "nat \<Rightarrow> cstring" where
  "show_nat n = (if n < 10 then [digit_char n] else show_nat (n div 10) @ [digit_char (n mod 10)])"

declare show_nat.simps [simp del]

text \<open>\<open>%ld\<close>.\<close>

definition show_long :: "int \<Rightarrow> cstring" where
  "show_long i = (if i < 0 then CHR ''-'' # show_nat (nat (- i)) else show_nat (nat i))"

definition pad_left :: "nat \<Rightarrow> cstring \<Rightarrow> cstring" where
  "pad_left k s = replicate (k - length s) CHR ''0'' @ s"

text \<open>\<open>%f\<close>: six decimals, the exact value rounded to nearest, ties to even.\<close>

fun show_f :: "double \<Rightarrow> cstring" where
  "show_f (D_nan s) = (if s then ''-nan'' else ''nan'')"
| "show_f (D_inf s) = (if s then ''-inf'' else ''inf'')"
| "show_f (D_num s m) =
     (let n = nat (round_even (m * 1000000))
      in (if s then ''-'' else []) @ show_nat (n div 1000000) @ ''.'' @ pad_left 6 (show_nat (n mod 1000000)))"

subsection \<open>Printed integers are read back\<close>

lemma digit_char_props:
  assumes "d < 10"
  shows "is_digit_char (digit_char d)" "digit_val (digit_char d) = int d"
    "\<not> is_space (digit_char d)" "digit_char d \<noteq> CHR ''-''" "digit_char d \<noteq> CHR ''+''" "digit_char d \<noteq> NUL"
    "digit_char d \<noteq> CHR ''x''" "tolower (digit_char d) \<noteq> CHR ''x''" "digit_char d \<noteq> CHR ''.''"
proof -
  from assms have "d \<in> {0, 1, 2, 3, 4, 5, 6, 7, 8, 9}" by auto
  then show "is_digit_char (digit_char d)" "digit_val (digit_char d) = int d"
    "\<not> is_space (digit_char d)" "digit_char d \<noteq> CHR ''-''" "digit_char d \<noteq> CHR ''+''" "digit_char d \<noteq> NUL"
    "digit_char d \<noteq> CHR ''x''" "tolower (digit_char d) \<noteq> CHR ''x''" "digit_char d \<noteq> CHR ''.''"
    by (auto simp: digit_char_def digit_val_def is_digit_char_def char_between_def is_space_def tolower_def)
qed

lemma read_base_snoc: "read_base b v (s @ [c]) = b * read_base b v s + v c"
  by (simp add: read_base_def)

lemma show_nat_digits: "list_all is_digit_char (show_nat n)"
  by (induction n rule: show_nat.induct) (subst show_nat.simps, simp add: digit_char_props)

lemma show_nat_read: "read_base 10 digit_val (show_nat n) = int n"
proof (induction n rule: show_nat.induct)
  case (1 n)
  show ?case
  proof (cases "n < 10")
    case True
    then show ?thesis by (simp add: show_nat.simps[of n] read_base_def digit_char_props)
  next
    case False
    have "10 * int (n div 10) + int (n mod 10) = int n" by presburger
    with False 1 show ?thesis by (simp add: show_nat.simps[of n] read_base_snoc digit_char_props)
  qed
qed

lemma show_nat_hd: "\<exists>d r. d < 10 \<and> show_nat n = digit_char d # r \<and> list_all is_digit_char r"
proof (induction n rule: show_nat.induct)
  case (1 n)
  show ?case
  proof (cases "n < 10")
    case True
    then show ?thesis by (simp add: show_nat.simps[of n]) blast
  next
    case False
    with 1 obtain d r where "d < 10" "show_nat (n div 10) = digit_char d # r" "list_all is_digit_char r" by blast
    with False show ?thesis by (simp add: show_nat.simps[of n] digit_char_props) blast
  qed
qed

lemma takeWhile_digits [simp]:
  "takeWhile is_digit_char (show_nat n) = show_nat n" "dropWhile is_digit_char (show_nat n) = []"
  using show_nat_digits[of n] by (simp_all add: list_all_iff)

lemma show_long_split:
  "read_sign (dropWhile is_space (show_long i)) = (i < 0, show_nat (nat \<bar>i\<bar>))"
proof -
  obtain d r where *: "d < 10" "show_nat (nat \<bar>i\<bar>) = digit_char d # r" using show_nat_hd by blast
  have "\<not> is_space CHR ''-''" by (simp add: is_space_def char_between_def)
  with * show ?thesis by (auto simp: show_long_def read_sign_def digit_char_props)
qed

lemma atol_show_long:
  assumes "- (2 ^ 63) \<le> i" "i < 2 ^ 63"
  shows "atol (show_long i) = i"
  using assms by (auto simp: atol_def show_long_split show_nat_read Let_def)

text \<open>Decimal digits are not taken for a hexadecimal number, an exponent or a fraction.\<close>

lemma strtod_digits:
  assumes "d < 10" "list_all is_digit_char r"
  shows "\<not> starts_with ''0x'' (map tolower (digit_char d # r))"
proof (cases r)
  case (Cons c r')
  with assms(2) have c: "is_digit_char c" by simp
  have "tolower c \<noteq> CHR ''x''" using c by (auto simp: is_digit_char_def char_between_def tolower_def)
  with Cons show ?thesis by (simp add: starts_with_def)
qed (simp add: starts_with_def)

lemma strtod_show_long: "strtod (show_long i) = d_of_int i"
proof -
  obtain d r where *: "d < 10" "show_nat (nat \<bar>i\<bar>) = digit_char d # r" "list_all is_digit_char r"
    using show_nat_hd by blast
  have m: "read_mantissa is_digit_char (show_nat (nat \<bar>i\<bar>)) = (show_nat (nat \<bar>i\<bar>), 0, [])"
    by (simp add: read_mantissa_def)
  have "tolower NUL \<noteq> CHR ''e''" by (simp add: tolower_def char_between_def)
  then have e: "read_exp CHR ''e'' [] = 0" by (simp add: read_exp_def)
  have "\<not> starts_with ''0x'' (map tolower (show_nat (nat \<bar>i\<bar>)))" using strtod_digits[OF *(1,3)] *(2) by simp
  moreover have "show_nat (nat \<bar>i\<bar>) \<noteq> []" using * by simp
  ultimately show ?thesis
    by (simp add: strtod_def show_long_split m e Let_def show_nat_read pow10_def d_of_int_def d_of_rat_def
        split: prod.split)
qed

end
