(* ===== verification/Tx_Nodes.thy ===== *)
theory Tx_Nodes
  imports Tx_Double
begin

text \<open>
  ltr_xsl.h and nodes.c: the \<open>XMLNODE\<close> structures that carry documents and
  selections, on an explicit heap. A node pointer is an index into the heap, a NULL pointer is \<open>None\<close>; nodes are
  only ever added. An \<open>XMLSTRING\<close> is read through its bytes (the buffers are modelled in
  Tx_Strings), and a compiled expression is a tree of its own type.
\<close>

subsection \<open>Data\<close>

type_synonym ref = nat

datatype nodetype = EMPTY_NODE | ELEMENT_NODE | TEXT_NODE | ATTRIBUTE_NODE | PI_NODE | COMMENT_NODE | INFO_NODE
  | XPATH_NODE_VAR | XPATH_NODE_NOT | XPATH_NODE_OR | XPATH_NODE_AND | XPATH_NODE_EQ | XPATH_NODE_NE
  | XPATH_NODE_LT | XPATH_NODE_GT | XPATH_NODE_CALL | KEY_NODE | XPATH_NODE_LE | XPATH_NODE_GE
  | XPATH_NODE_ADD | XPATH_NODE_SUB | XPATH_NODE_MUL | XPATH_NODE_DIV | XPATH_NODE_MOD
  | XPATH_NODE_FILTER | XPATH_NODE_ALL | XPATH_NODE_ATTR | XPATH_NODE_ROOT | XPATH_NODE_PARENT
  | XPATH_NODE_SELF | XPATH_NODE_ANCESTOR | XPATH_NODE_FOLLOWING_SIBLING | XPATH_NODE_PRECEDING_SIBLING
  | XPATH_NODE_PRECEDING | XPATH_NODE_FOLLOWING | XPATH_NODE_SELECT | XPATH_NODE_ATTR_ALL | XPATH_NODE_INT
  | XPATH_NODE_CONTEXT | XPATH_NODE_DESCENDANT | XPATH_NODE_DESCENDANT_OR_SELF | XPATH_NODE_UNION
  | XPATH_NODE_ANCESTOR_OR_SELF

text \<open>
  \<open>VAL_BOOL\<close> and \<open>VAL_INT\<close> share the integer member of the union; a string or a
  nodeset may be the NULL pointer.
\<close>

datatype rvalue = VAL_NULL | VAL_BOOL int | VAL_INT int | VAL_NUMBER double
  | VAL_STRING "cstring option" | VAL_NODESET "ref option"

text \<open>
  A compiled expression, an \<open>XMLNODE\<close> tree of which the evaluator reads the type, the
  name, the content, the integer of \<open>extra\<close>, the node test in \<open>attributes\<close> and the list of
  children.
\<close>

datatype xpath_expr = XE (xe_type: nodetype) (xe_name: "cstring option") (xe_content: "cstring option")
  (xe_int: int) (xe_kind: "(nodetype \<times> cstring option) option") (xe_children: "xpath_expr list")

record xmlnode =
  n_parent :: "ref option"
  n_next :: "ref option"
  n_prev :: "ref option"
  n_children :: "ref option"
  n_attributes :: "ref option"
  n_original :: "ref option"
  n_flags :: u32
  n_position :: u32
  n_order :: u32
  n_uid :: "ref option"
  n_compiled :: "xpath_expr option"
  n_extra :: rvalue
  n_line :: nat
  n_file :: "cstring option"
  n_name :: "cstring option"
  n_content :: "cstring option"
  n_type :: nodetype

type_synonym heap = "xmlnode list"

definition null_node :: xmlnode where
  "null_node = \<lparr>n_parent = None, n_next = None, n_prev = None, n_children = None, n_attributes = None,
     n_original = None, n_flags = 0, n_position = 0, n_order = 0, n_uid = None, n_compiled = None,
     n_extra = VAL_NULL, n_line = 0, n_file = None, n_name = None, n_content = None, n_type = EMPTY_NODE\<rparr>"

text \<open>Reading through a pointer and updating a structure through a pointer.\<close>

definition deref :: "heap \<Rightarrow> ref option \<Rightarrow> xmlnode option" where
  "deref h p = (case p of None \<Rightarrow> None | Some a \<Rightarrow> if a < length h then Some (h ! a) else None)"

definition set_node :: "heap \<Rightarrow> ref \<Rightarrow> (xmlnode \<Rightarrow> xmlnode) \<Rightarrow> heap" where
  "set_node h a f = h[a := f (h ! a)]"

definition upd :: "heap \<Rightarrow> ref option \<Rightarrow> (xmlnode \<Rightarrow> xmlnode) \<Rightarrow> heap option" where
  "upd h p f = (case p of None \<Rightarrow> None | Some a \<Rightarrow> if a < length h then Some (set_node h a f) else None)"

lemma deref_simps [simp]:
  "deref h None = None" "a < length h \<Longrightarrow> deref h (Some a) = Some (h ! a)"
  by (simp_all add: deref_def)

lemma deref_Some [simp]: "deref h (Some a) = Some n \<longleftrightarrow> a < length h \<and> h ! a = n"
  by (auto simp: deref_def)

lemma upd_simps [simp]:
  "upd h None f = None" "a < length h \<Longrightarrow> upd h (Some a) f = Some (set_node h a f)"
  by (simp_all add: upd_def)

lemma length_set_node [simp]: "length (set_node h a f) = length h"
  by (simp add: set_node_def)

lemma nth_set_node: "b < length h \<Longrightarrow> set_node h a f ! b = (if a = b then f (h ! b) else h ! b)"
  by (simp add: set_node_def nth_list_update)

subsection \<open>nodes.c\<close>

definition xml_unlink_node :: "heap \<Rightarrow> ref option \<Rightarrow> heap option" where
  "xml_unlink_node h node = do {
     n \<leftarrow> deref h node;
     h1 \<leftarrow> (case n_prev n of
         Some _ \<Rightarrow> upd h (n_prev n) (\<lambda>m. m\<lparr>n_next := n_next n\<rparr>)
       | None \<Rightarrow> (case n_parent n of
             Some _ \<Rightarrow> upd h (n_parent n) (\<lambda>m. m\<lparr>n_children := n_next n\<rparr>)
           | None \<Rightarrow> Some h));
     n1 \<leftarrow> deref h1 node;
     (case n_next n1 of
        Some _ \<Rightarrow> upd h1 (n_next n1) (\<lambda>m. m\<lparr>n_prev := n_prev n1\<rparr>)
      | None \<Rightarrow> Some h1)
   }"

definition xml_new_node :: "heap \<Rightarrow> cstring option \<Rightarrow> nodetype \<Rightarrow> ref \<times> heap" where
  "xml_new_node h name ty =
     (length h, h @ [null_node\<lparr>n_type := ty, n_name := name, n_uid := Some (length h)\<rparr>])"

text \<open>
  The last node of a list: \<open>for(r = p; r->next; r = r->next)\<close>. The nodes are not changed on
  the way, so a walk longer than the heap never ends: the fuel \<open>length h\<close> is enough for every list
  that ends (\<open>last_node_chain\<close>).
\<close>

fun last_node_fuel :: "nat \<Rightarrow> heap \<Rightarrow> ref \<Rightarrow> ref option" where
  "last_node_fuel 0 h a = None"
| "last_node_fuel (Suc k) h a = do {
     n \<leftarrow> deref h (Some a);
     (case n_next n of None \<Rightarrow> Some a | Some b \<Rightarrow> last_node_fuel k h b)
   }"

definition last_node :: "heap \<Rightarrow> ref \<Rightarrow> ref option" where
  "last_node h a = last_node_fuel (length h) h a"

definition xml_add_child :: "heap \<Rightarrow> ref option \<Rightarrow> ref option \<Rightarrow> heap option" where
  "xml_add_child h node child =
     (case child of
        None \<Rightarrow> Some h
      | Some c \<Rightarrow> do {
          n \<leftarrow> deref h node;
          h1 \<leftarrow> (case n_children n of
              Some first \<Rightarrow> do {
                prev \<leftarrow> last_node h first;
                h' \<leftarrow> upd h child (\<lambda>m. m\<lparr>n_prev := Some prev\<rparr>);
                upd h' (Some prev) (\<lambda>m. m\<lparr>n_next := child\<rparr>)
              }
            | None \<Rightarrow> upd h node (\<lambda>m. m\<lparr>n_children := child\<rparr>));
          upd h1 child (\<lambda>m. m\<lparr>n_parent := node\<rparr>)
        })"

definition xml_append_child :: "heap \<Rightarrow> ref option \<Rightarrow> nodetype \<Rightarrow> (ref \<times> heap) option" where
  "xml_append_child h node ty = do {
     let (ret, h1) = xml_new_node h None ty;
     h2 \<leftarrow> xml_add_child h1 node (Some ret);
     Some (ret, h2)
   }"

text \<open>The nodes of a list in order, as a walk over the \<open>next\<close> pointers meets them.\<close>

fun walk_fuel :: "nat \<Rightarrow> (xmlnode \<Rightarrow> ref option) \<Rightarrow> heap \<Rightarrow> ref option \<Rightarrow> ref list option" where
  "walk_fuel k nxt h None = Some []"
| "walk_fuel 0 nxt h (Some a) = None"
| "walk_fuel (Suc k) nxt h (Some a) = do {
     n \<leftarrow> deref h (Some a);
     r \<leftarrow> walk_fuel k nxt h (nxt n);
     Some (a # r)
   }"

definition walk :: "(xmlnode \<Rightarrow> ref option) \<Rightarrow> heap \<Rightarrow> ref option \<Rightarrow> ref list option" where
  "walk nxt h p = walk_fuel (length h) nxt h p"

text \<open>
  \<open>xpath_nodeset_copy\<close>: the copies are made in the order of the list, each linked behind the
  one before it. \<open>copy_fields\<close> is the block of assignments of the loop.
\<close>

definition copy_fields :: "xmlnode \<Rightarrow> u32 \<Rightarrow> xmlnode \<Rightarrow> xmlnode" where
  "copy_fields src i dst = dst\<lparr>n_original := n_original src, n_name := n_name src, n_position := i,
     n_order := n_order src, n_children := n_children src, n_attributes := n_attributes src,
     n_content := n_content src, n_parent := n_parent src\<rparr>"

fun nodeset_copy_loop :: "heap \<Rightarrow> ref \<Rightarrow> u32 \<Rightarrow> ref list \<Rightarrow> heap option" where
  "nodeset_copy_loop h dst i [] = Some h"
| "nodeset_copy_loop h dst i (src # rest) = do {
     s \<leftarrow> deref h (Some src);
     h1 \<leftarrow> upd h (Some dst) (copy_fields s (i + 1));
     (case rest of
        [] \<Rightarrow> Some h1
      | src' # _ \<Rightarrow> do {
          s' \<leftarrow> deref h1 (Some src');
          let (dst', h2) = xml_new_node h1 None (n_type s');
          h3 \<leftarrow> upd h2 (Some dst) (\<lambda>m. m\<lparr>n_next := Some dst'\<rparr>);
          h4 \<leftarrow> upd h3 (Some dst') (\<lambda>m. m\<lparr>n_prev := Some dst\<rparr>);
          nodeset_copy_loop h4 dst' (i + 1) rest
        })
   }"

definition xpath_nodeset_copy :: "heap \<Rightarrow> ref option \<Rightarrow> (ref option \<times> heap) option" where
  "xpath_nodeset_copy h src =
     (case src of
        None \<Rightarrow> Some (None, h)
      | Some a \<Rightarrow> do {
          s \<leftarrow> deref h src;
          nodes \<leftarrow> walk n_next h src;
          let (ret, h1) = xml_new_node h None (n_type s);
          h2 \<leftarrow> nodeset_copy_loop h1 ret 0 nodes;
          Some (Some ret, h2)
        })"

text \<open>The first node of a list with a property: \<open>for(; r; r = r->next) if(..) break\<close>.\<close>

fun first_node_fuel :: "nat \<Rightarrow> (xmlnode \<Rightarrow> bool) \<Rightarrow> heap \<Rightarrow> ref option \<Rightarrow> ref option option" where
  "first_node_fuel k P h None = Some None"
| "first_node_fuel 0 P h (Some a) = None"
| "first_node_fuel (Suc k) P h (Some a) = do {
     n \<leftarrow> deref h (Some a);
     if P n then Some (Some a) else first_node_fuel k P h (n_next n)
   }"

definition first_node :: "(xmlnode \<Rightarrow> bool) \<Rightarrow> heap \<Rightarrow> ref option \<Rightarrow> ref option option" where
  "first_node P h p = first_node_fuel (length h) P h p"

definition is_node_parallel :: "heap \<Rightarrow> ref option \<Rightarrow> bool option" where
  "is_node_parallel h node = do {
     n \<leftarrow> deref h node;
     if n_type n = TEXT_NODE then Some False
     else do {
       r \<leftarrow> first_node (\<lambda>t. n_type t = ELEMENT_NODE) h (n_next n);
       Some (r \<noteq> None)
     }
   }"

text \<open>The building functions of the interface; the string arguments may be NULL.\<close>

definition XMLCreateElement :: "heap \<Rightarrow> ref option \<Rightarrow> cstring option \<Rightarrow> (ref \<times> heap) option" where
  "XMLCreateElement h parent name = do {
     let (result, h1) = xml_new_node h name ELEMENT_NODE;
     h2 \<leftarrow> (case parent of None \<Rightarrow> Some h1 | Some _ \<Rightarrow> xml_add_child h1 parent (Some result));
     Some (result, h2)
   }"

definition XMLAddText :: "heap \<Rightarrow> ref option \<Rightarrow> cstring option \<Rightarrow> heap option" where
  "XMLAddText h element txt = do {
     let (result, h1) = xml_new_node h None TEXT_NODE;
     h2 \<leftarrow> upd h1 (Some result) (\<lambda>m. m\<lparr>n_content := txt, n_parent := element\<rparr>);
     xml_add_child h2 element (Some result)
   }"

definition XMLAddAttribute :: "heap \<Rightarrow> ref option \<Rightarrow> cstring option \<Rightarrow> cstring option \<Rightarrow> heap option" where
  "XMLAddAttribute h element name value = do {
     let (a, h1) = xml_new_node h name ATTRIBUTE_NODE;
     e \<leftarrow> deref h1 element;
     h2 \<leftarrow> upd h1 (Some a) (\<lambda>m. m\<lparr>n_content := value, n_parent := element, n_next := n_attributes e\<rparr>);
     upd h2 element (\<lambda>m. m\<lparr>n_attributes := Some a\<rparr>)
   }"

subsection \<open>Lists of nodes\<close>

fun linked :: "(xmlnode \<Rightarrow> ref option) \<Rightarrow> heap \<Rightarrow> ref option \<Rightarrow> ref list \<Rightarrow> bool" where
  "linked nxt h p [] \<longleftrightarrow> p = None"
| "linked nxt h p (a # r) \<longleftrightarrow> p = Some a \<and> a < length h \<and> linked nxt h (nxt (h ! a)) r"

lemma linked_unique: "linked nxt h p xs \<Longrightarrow> linked nxt h p ys \<Longrightarrow> xs = ys"
proof (induction xs arbitrary: p ys)
  case Nil
  then show ?case by (cases ys) auto
next
  case (Cons a xs)
  then show ?case by (cases ys) auto
qed

lemma linked_suffix: "linked nxt h p (xs @ a # ys) \<Longrightarrow> linked nxt h (Some a) (a # ys)"
  by (induction xs arbitrary: p) auto

lemma linked_distinct: "linked nxt h p xs \<Longrightarrow> distinct xs"
proof (induction xs arbitrary: p)
  case (Cons a xs)
  have "a \<notin> set xs"
  proof
    assume "a \<in> set xs"
    then obtain us vs where "xs = us @ a # vs" by (auto simp: in_set_conv_decomp)
    with Cons.prems have "linked nxt h (Some a) (a # vs)" using linked_suffix[of nxt h p "a # us" a vs] by auto
    from linked_unique[OF this, of "a # xs"] Cons.prems have "a # vs = a # xs" by simp
    with \<open>xs = us @ a # vs\<close> show False by simp
  qed
  with Cons show ?case by auto
qed simp

lemma linked_bound: "linked nxt h p xs \<Longrightarrow> set xs \<subseteq> {..<length h}"
  by (induction xs arbitrary: p) auto

lemma linked_length: "linked nxt h p xs \<Longrightarrow> length xs \<le> length h"
  using linked_distinct[of nxt h p xs] linked_bound[of nxt h p xs]
  by (metis card_lessThan card_mono distinct_card finite_lessThan)

lemma walk_fuel_linked: "linked nxt h p xs \<Longrightarrow> length xs \<le> k \<Longrightarrow> walk_fuel k nxt h p = Some xs"
proof (induction xs arbitrary: k p)
  case Nil
  then show ?case by simp
next
  case (Cons a xs)
  then show ?case by (cases k) auto
qed

lemma walk_fuel_sound: "walk_fuel k nxt h p = Some xs \<Longrightarrow> linked nxt h p xs"
  by (induction k nxt h p arbitrary: xs rule: walk_fuel.induct) (auto split: bind_splits)

text \<open>The walk returns exactly when the list ends.\<close>

lemma walk_iff: "walk nxt h p = Some xs \<longleftrightarrow> linked nxt h p xs"
  unfolding walk_def using walk_fuel_linked linked_length walk_fuel_sound by blast

lemma last_node_fuel_linked:
  "linked n_next h (Some a) (a # r) \<Longrightarrow> length r < k \<Longrightarrow> last_node_fuel k h a = Some (last (a # r))"
proof (induction r arbitrary: a k)
  case Nil
  then show ?case by (cases k) auto
next
  case (Cons b r)
  then show ?case by (cases k) auto
qed

lemma last_node_chain: "linked n_next h (Some a) xs \<Longrightarrow> last_node h a = Some (last xs)"
  using last_node_fuel_linked[of h a "tl xs" "length h"] linked_length[of n_next h "Some a" xs]
  by (cases xs) (auto simp: last_node_def)

lemma first_node_fuel_linked:
  "linked n_next h p xs \<Longrightarrow> length xs \<le> k \<Longrightarrow> first_node_fuel k P h p = Some (find (\<lambda>a. P (h ! a)) xs)"
proof (induction xs arbitrary: p k)
  case Nil
  then show ?case by simp
next
  case (Cons a xs)
  then show ?case by (cases k) auto
qed

lemma first_node_linked: "linked n_next h p xs \<Longrightarrow> first_node P h p = Some (find (\<lambda>a. P (h ! a)) xs)"
  using first_node_fuel_linked linked_length by (simp add: first_node_def)

lemma linked_frame:
  "linked nxt h p xs \<Longrightarrow> length h \<le> length h' \<Longrightarrow> (\<And>a. a \<in> set xs \<Longrightarrow> nxt (h' ! a) = nxt (h ! a)) \<Longrightarrow>
   linked nxt h' p xs"
  by (induction xs arbitrary: p) auto

subsection \<open>Doubly linked lists of children\<close>

text \<open>
  \<open>dseg h par pv p xs q\<close>: from \<open>p\<close> the \<open>next\<close> pointers lead through the nodes \<open>xs\<close> to \<open>q\<close>, each with parent
  \<open>par\<close>, and \<open>prev\<close> points back, from the first to \<open>pv\<close>.
\<close>

fun dseg :: "heap \<Rightarrow> ref option \<Rightarrow> ref option \<Rightarrow> ref option \<Rightarrow> ref list \<Rightarrow> ref option \<Rightarrow> bool" where
  "dseg h par pv p [] q \<longleftrightarrow> p = q"
| "dseg h par pv p (a # r) q \<longleftrightarrow> p = Some a \<and> a < length h \<and> n_parent (h ! a) = par \<and> n_prev (h ! a) = pv \<and>
     dseg h par (Some a) (n_next (h ! a)) r q"

definition child_list :: "heap \<Rightarrow> ref \<Rightarrow> ref list \<Rightarrow> bool" where
  "child_list h par xs \<longleftrightarrow> par < length h \<and> par \<notin> set xs \<and> dseg h (Some par) None (n_children (h ! par)) xs None"

definition last_or :: "ref option \<Rightarrow> ref list \<Rightarrow> ref option" where
  "last_or pv xs = (if xs = [] then pv else Some (last xs))"

lemma last_or_simps [simp]: "last_or pv [] = pv" "last_or pv (a # r) = last_or (Some a) r"
  by (simp_all add: last_or_def)

lemma dseg_append:
  "dseg h par pv p (xs @ ys) q \<longleftrightarrow> (\<exists>m. dseg h par pv p xs m \<and> dseg h par (last_or pv xs) m ys q)"
  by (induction xs arbitrary: pv p) auto

lemma dseg_linked: "dseg h par pv p xs None \<Longrightarrow> linked n_next h p xs"
  by (induction xs arbitrary: pv p) auto

lemma dseg_frame:
  "dseg h par pv p xs q \<Longrightarrow> length h \<le> length h' \<Longrightarrow>
   (\<And>a. a \<in> set xs \<Longrightarrow> n_parent (h' ! a) = n_parent (h ! a) \<and> n_prev (h' ! a) = n_prev (h ! a) \<and>
      n_next (h' ! a) = n_next (h ! a)) \<Longrightarrow>
   dseg h' par pv p xs q"
  by (induction xs arbitrary: pv p) auto

lemma dseg_bound: "dseg h par pv p xs q \<Longrightarrow> set xs \<subseteq> {..<length h}"
  by (induction xs arbitrary: pv p) auto

lemma child_list_distinct: "child_list h par xs \<Longrightarrow> distinct xs"
  unfolding child_list_def by (blast intro: linked_distinct dseg_linked)

text \<open>Appending a node at the end of a child list.\<close>

lemma add_child_first:
  assumes "child_list h par []" "c < length h" "c \<noteq> par" "n_next (h ! c) = None" "n_prev (h ! c) = None"
  shows "\<exists>h'. xml_add_child h (Some par) (Some c) = Some h' \<and> child_list h' par [c]"
  using assms by (auto simp: xml_add_child_def child_list_def nth_set_node)

lemma dseg_nonempty: "dseg h par pv p xs None \<Longrightarrow> xs \<noteq> [] \<Longrightarrow> p = Some (hd xs)"
  by (cases xs) auto

lemma add_child_more:
  assumes cl: "child_list h par (xs @ [l])" and c: "c < length h" "c \<noteq> par" "c \<notin> set (xs @ [l])"
    and n: "n_next (h ! c) = None"
  shows "\<exists>h'. xml_add_child h (Some par) (Some c) = Some h' \<and> child_list h' par (xs @ [l, c])"
proof -
  let ?h1 = "set_node h c (\<lambda>m. m\<lparr>n_prev := Some l\<rparr>)"
  let ?h2 = "set_node ?h1 l (\<lambda>m. m\<lparr>n_next := Some c\<rparr>)"
  let ?h' = "set_node ?h2 c (\<lambda>m. m\<lparr>n_parent := Some par\<rparr>)"
  from cl obtain first where first: "n_children (h ! par) = Some first" and par: "par < length h" "par \<notin> set (xs @ [l])"
    and seg: "dseg h (Some par) None (Some first) (xs @ [l]) None"
    using dseg_nonempty[of h "Some par" None "n_children (h ! par)" "xs @ [l]"] by (auto simp: child_list_def)
  have last: "last_node h first = Some l" using last_node_chain[OF dseg_linked[OF seg]] by simp
  from seg have "l < length h" using dseg_bound by fastforce
  with last first par c have eq: "xml_add_child h (Some par) (Some c) = Some ?h'"
    by (simp add: xml_add_child_def)
  have dist: "l \<notin> set xs" using child_list_distinct[OF cl] by simp
  from seg obtain m where m: "dseg h (Some par) None (Some first) xs m" "dseg h (Some par) (last_or None xs) m [l] None"
    by (auto simp: dseg_append)
  have "dseg ?h' (Some par) None (Some first) xs m"
    using dist c by (intro dseg_frame[OF m(1)]) (use dseg_bound[OF m(1)] in \<open>auto simp: nth_set_node\<close>)
  moreover have "dseg ?h' (Some par) (last_or None xs) m [l, c] None"
    using m(2) c n by (auto simp: nth_set_node)
  ultimately have "dseg ?h' (Some par) None (Some first) (xs @ [l, c]) None"
    by (auto simp: dseg_append)
  with eq first par c show ?thesis by (auto simp: child_list_def nth_set_node)
qed

lemma xml_add_child_list [tx_inv]:
  assumes "child_list h par xs" "c < length h" "c \<noteq> par" "c \<notin> set xs"
    and "n_next (h ! c) = None" "n_prev (h ! c) = None"
  shows "\<exists>h'. xml_add_child h (Some par) (Some c) = Some h' \<and> child_list h' par (xs @ [c])"
proof (cases xs rule: rev_cases)
  case Nil
  with assms add_child_first[of h par c] show ?thesis by simp
next
  case (snoc us l)
  with assms add_child_more[of h par us l c] show ?thesis by simp
qed

lemma dseg_new_prev:
  assumes "dseg h par pv p ys q" "length h \<le> length h'"
    and "\<And>a. a \<in> set ys \<Longrightarrow> n_parent (h' ! a) = n_parent (h ! a) \<and> n_next (h' ! a) = n_next (h ! a)"
    and "\<And>a. a \<in> set (tl ys) \<Longrightarrow> n_prev (h' ! a) = n_prev (h ! a)"
    and "ys \<noteq> [] \<Longrightarrow> n_prev (h' ! hd ys) = pv'"
  shows "dseg h' par pv' p ys q"
proof (cases ys)
  case (Cons y r)
  have "dseg h' par (Some y) (n_next (h ! y)) r q"
    using assms Cons by (intro dseg_frame[of h par "Some y" _ r q h']) auto
  with assms Cons show ?thesis by auto
qed (use assms in simp)

lemma dseg_new_next:
  assumes "dseg h par pv p (us @ [l]) q" "length h \<le> length h'"
    and "\<And>a. a \<in> set (us @ [l]) \<Longrightarrow> n_parent (h' ! a) = n_parent (h ! a) \<and> n_prev (h' ! a) = n_prev (h ! a)"
    and "\<And>a. a \<in> set us \<Longrightarrow> n_next (h' ! a) = n_next (h ! a)"
    and "n_next (h' ! l) = q'"
  shows "dseg h' par pv p (us @ [l]) q'"
proof -
  from assms(1) obtain m where m: "dseg h par pv p us m" "dseg h par (last_or pv us) m [l] q"
    by (auto simp: dseg_append)
  have "dseg h' par pv p us m" using assms by (intro dseg_frame[OF m(1)]) auto
  with m assms show ?thesis by (auto simp: dseg_append)
qed

lemma unlink_child_list [tx_inv]:
  assumes cl: "child_list h par (xs @ c # ys)"
  shows "\<exists>h'. xml_unlink_node h (Some c) = Some h' \<and> child_list h' par (xs @ ys)"
proof -
  from cl have par: "par < length h" "par \<notin> set (xs @ c # ys)" by (auto simp: child_list_def)
  from cl obtain m where m: "dseg h (Some par) None (n_children (h ! par)) xs m"
    and s: "dseg h (Some par) (last_or None xs) m (c # ys) None" by (auto simp: child_list_def dseg_append)
  then have c: "m = Some c" "c < length h" "n_parent (h ! c) = Some par" "n_prev (h ! c) = last_or None xs"
    and ys: "dseg h (Some par) (Some c) (n_next (h ! c)) ys None" by auto
  have dist: "distinct (xs @ c # ys)" using child_list_distinct[OF cl] .
  have bound: "set xs \<subseteq> {..<length h}" "set ys \<subseteq> {..<length h}" using dseg_bound[OF m] dseg_bound[OF ys] .
  have nx: "n_next (h ! c) = (if ys = [] then None else Some (hd ys))" using ys by (cases ys) auto
  show ?thesis
  proof (cases xs rule: rev_cases)
    case Nil
    define h1 where "h1 = set_node h par (\<lambda>k. k\<lparr>n_children := n_next (h ! c)\<rparr>)"
    define h2 where "h2 = (if ys = [] then h1 else set_node h1 (hd ys) (\<lambda>k. k\<lparr>n_prev := None\<rparr>))"
    have h1c: "h1 ! c = h ! c" using par c by (auto simp: h1_def nth_set_node)
    have eq: "xml_unlink_node h (Some c) = Some h2"
      using c par Nil nx bound h1c unfolding xml_unlink_node_def h2_def
      by (cases ys) (auto simp: h1_def)
    have "dseg h2 (Some par) None (n_next (h ! c)) ys None"
      by (rule dseg_new_prev[OF ys]; cases ys; use par dist bound in \<open>auto simp: h2_def h1_def nth_set_node\<close>)
    moreover have "n_children (h2 ! par) = n_next (h ! c)" "length h2 = length h"
      using par by (auto simp: h2_def h1_def nth_set_node)
    ultimately show ?thesis using eq par Nil by (auto simp: child_list_def)
  next
    case (snoc us l)
    define h1 where "h1 = set_node h l (\<lambda>k. k\<lparr>n_next := n_next (h ! c)\<rparr>)"
    define h2 where "h2 = (if ys = [] then h1 else set_node h1 (hd ys) (\<lambda>k. k\<lparr>n_prev := Some l\<rparr>))"
    have h1c: "h1 ! c = h ! c" using dist c snoc by (auto simp: h1_def nth_set_node)
    have eq: "xml_unlink_node h (Some c) = Some h2"
      using c snoc nx bound h1c unfolding xml_unlink_node_def h2_def
      by (cases ys) (auto simp: h1_def last_or_def)
    have "dseg h2 (Some par) None (n_children (h ! par)) (us @ [l]) (n_next (h ! c))"
      by (rule dseg_new_next[OF m[unfolded snoc]]; cases ys;
          use dist bound snoc in \<open>auto simp: h2_def h1_def nth_set_node\<close>)
    moreover have "dseg h2 (Some par) (Some l) (n_next (h ! c)) ys None"
      by (rule dseg_new_prev[OF ys]; cases ys; use dist bound snoc in \<open>auto simp: h2_def h1_def nth_set_node\<close>)
    moreover have "n_children (h2 ! par) = n_children (h ! par)" "length h2 = length h"
      using par bound snoc by (auto simp: h2_def h1_def nth_set_node)
    ultimately show ?thesis using eq par snoc by (auto simp: child_list_def dseg_append last_or_def)
  qed
qed

text \<open>
  C29: The child lists stay well formed: adding a detached node appends it at the end of the
  doubly linked list of children (with its parent and its \<open>prev\<close> set), and unlinking a child
  from any position removes exactly that child.
\<close>

theorem child_list_operations:
  assumes "child_list h par (xs @ c # ys)"
    and "d < length h" "d \<noteq> par" "d \<notin> set (xs @ c # ys)" "n_next (h ! d) = None" "n_prev (h ! d) = None"
  shows "(\<exists>h1. xml_add_child h (Some par) (Some d) = Some h1 \<and> child_list h1 par (xs @ c # ys @ [d])) \<and>
    (\<exists>h2. xml_unlink_node h (Some c) = Some h2 \<and> child_list h2 par (xs @ ys))"
  using xml_add_child_list[OF assms] unlink_child_list[OF assms(1)] by simp_all

definition heap3 :: heap where
  "heap3 = [null_node\<lparr>n_children := Some 1\<rparr>, null_node\<lparr>n_parent := Some 0, n_next := None\<rparr>, null_node]"

theorem child_list_operations_witness:
  "(\<exists>h1. xml_add_child heap3 (Some 0) (Some 2) = Some h1 \<and> child_list h1 0 [1, 2]) \<and>
   (\<exists>h2. xml_unlink_node heap3 (Some 1) = Some h2 \<and> child_list h2 0 [])"
proof -
  have "child_list heap3 0 ([] @ 1 # [])" "2 < length heap3" "(2::nat) \<noteq> 0" "2 \<notin> set ([] @ (1::nat) # [])"
    "n_next (heap3 ! 2) = None" "n_prev (heap3 ! 2) = None"
    by (simp_all add: heap3_def child_list_def null_node_def)
  from child_list_operations[OF this] show ?thesis by simp
qed

end
