(* ===== verification/Tx_Select.thy ===== *)
theory Tx_Select
  imports Tx_Nodes
begin

text \<open>
  The part of xpath.c below the evaluator: the string value of nodes, selections and the
  axes. A selection is a list of fresh nodes that copy the fields of the nodes they stand for.
\<close>

lemma xmls_equals_content_eq:
  assumes "xs_len x \<le> length (xs_buf x)" "xs_len y \<le> length (xs_buf y)"
  shows "xmls_equals (Some x) (Some y) \<longleftrightarrow> xmls_content x = xmls_content y"
proof -
  have "xmls_content x = xmls_content y \<Longrightarrow> xs_len x = xs_len y"
    using assms by (auto simp: xmls_content_def dest: arg_cong[of _ _ length])
  then show ?thesis by (auto simp: xmls_equals_def xmls_content_def)
qed

text \<open>\<open>xmls_equals\<close> on the bytes of the strings; two NULL pointers are equal.\<close>

definition str_equals :: "cstring option \<Rightarrow> cstring option \<Rightarrow> bool" where
  "str_equals a b \<longleftrightarrow> a = b"

definition xsl_s_root :: cstring where
  "xsl_s_root = ''root''"

subsection \<open>utils.c: attributes\<close>

text \<open>\<open>while(node->type == EMPTY_NODE) node = node->children\<close>\<close>

fun skip_empty_fuel :: "nat \<Rightarrow> heap \<Rightarrow> ref option \<Rightarrow> ref option" where
  "skip_empty_fuel 0 h p = None"
| "skip_empty_fuel (Suc k) h p = do {
     n \<leftarrow> deref h p;
     if n_type n = EMPTY_NODE then skip_empty_fuel k h (n_children n) else p
   }"

definition xml_get_attr :: "heap \<Rightarrow> ref option \<Rightarrow> cstring option \<Rightarrow> cstring option option" where
  "xml_get_attr h node name = do {
     a \<leftarrow> skip_empty_fuel (Suc (length h)) h node;
     n \<leftarrow> deref h (Some a);
     attr \<leftarrow> first_node (\<lambda>m. str_equals (n_name m) name) h (n_attributes n);
     Some (case attr of None \<Rightarrow> None | Some b \<Rightarrow> n_content (h ! b))
   }"

definition XMLAttributes :: "heap \<Rightarrow> ref option \<Rightarrow> (cstring \<times> cstring) list option" where
  "XMLAttributes h xml = do {
     n \<leftarrow> deref h xml;
     as \<leftarrow> walk n_next h (n_attributes n);
     those (map (\<lambda>a. do { k \<leftarrow> n_name (h ! a); v \<leftarrow> n_content (h ! a); Some (k, v) }) as)
   }"

subsection \<open>xpath.c 34-124: string values\<close>

definition xpath_in_selection :: "heap \<Rightarrow> ref option \<Rightarrow> cstring option \<Rightarrow> ref option option" where
  "xpath_in_selection h sel name = first_node (\<lambda>n. str_equals (n_name n) name) h sel"

text \<open>
  The recursion goes along \<open>children\<close> and \<open>next\<close>; a path of it that is longer than the heap meets a
  node twice and never ends, so the fuel \<open>length h\<close> loses nothing.
\<close>

fun add_node_str_fuel :: "nat \<Rightarrow> heap \<Rightarrow> ref option \<Rightarrow> cstring \<Rightarrow> cstring option" where
  "add_node_str_fuel k h None str = Some str"
| "add_node_str_fuel 0 h (Some a) str = None"
| "add_node_str_fuel (Suc k) h (Some a) str = do {
     n \<leftarrow> deref h (Some a);
     str1 \<leftarrow> (case n_children n of None \<Rightarrow> Some str | Some c \<Rightarrow> add_node_str_fuel k h (Some c) str);
     let str2 = (if n_type n = TEXT_NODE then str1 @ (case n_content n of None \<Rightarrow> [] | Some c \<Rightarrow> c) else str1);
     add_node_str_fuel k h (n_next n) str2
   }"

definition add_node_str :: "heap \<Rightarrow> cstring \<Rightarrow> ref option \<Rightarrow> cstring option" where
  "add_node_str h str node = add_node_str_fuel (length h) h node str"

text \<open>The outer \<open>None\<close> is a crash or a loop, the inner one a NULL result.\<close>

definition node2string :: "heap \<Rightarrow> ref option \<Rightarrow> cstring option option" where
  "node2string h node =
     (case node of
        None \<Rightarrow> Some None
      | Some a \<Rightarrow> do {
          n \<leftarrow> deref h (Some a);
          if n_type n = TEXT_NODE \<or> n_type n = ATTRIBUTE_NODE
          then map_option Some (n_content n)
          else map_option Some (add_node_str h [] node)
        })"

text \<open>\<open>nodes2string\<close> cuts each node off its successors while it is converted.\<close>

fun nodes2string_loop :: "heap \<Rightarrow> ref list \<Rightarrow> cstring option \<Rightarrow> cstring option option" where
  "nodes2string_loop h [] content = Some content"
| "nodes2string_loop h (a # r) content = do {
     t \<leftarrow> node2string (set_node h a (\<lambda>n. n\<lparr>n_next := None\<rparr>)) (Some a);
     nodes2string_loop h r
       (case t of None \<Rightarrow> content | Some s \<Rightarrow> Some ((case content of None \<Rightarrow> [] | Some c \<Rightarrow> c) @ s))
   }"

definition nodes2string :: "heap \<Rightarrow> ref option \<Rightarrow> cstring option option" where
  "nodes2string h node = do { as \<leftarrow> walk n_next h node; nodes2string_loop h as None }"

subsection \<open>xpath.c 126-174: building selections\<close>

definition add_to_selection :: "heap \<Rightarrow> ref option \<Rightarrow> ref option \<Rightarrow> u32 \<Rightarrow> (ref option \<times> u32 \<times> heap) option" where
  "add_to_selection h prev src position =
     (case src of
        None \<Rightarrow> Some (prev, position, h)
      | Some _ \<Rightarrow> do {
          s \<leftarrow> deref h src;
          let (dst, h1) = xml_new_node h None (n_type s);
          h2 \<leftarrow> upd h1 (Some dst) (\<lambda>d. d\<lparr>n_original := src, n_name := n_name s, n_content := n_content s,
            n_attributes := n_attributes s, n_children := n_children s, n_parent := n_parent s,
            n_order := n_order s, n_uid := n_uid s, n_position := position + 1\<rparr>);
          h3 \<leftarrow> (case prev of
              None \<Rightarrow> Some h2
            | Some p \<Rightarrow> do {
                h' \<leftarrow> upd h2 (Some dst) (\<lambda>d. d\<lparr>n_prev := prev\<rparr>);
                upd h' prev (\<lambda>d. d\<lparr>n_next := Some dst\<rparr>)
              });
          Some (Some dst, position + 1, h3)
        })"

text \<open>The nodes before the last one get a position: the result, the counter, the selection.\<close>

fun number_siblings_fuel :: "nat \<Rightarrow> heap \<Rightarrow> ref \<Rightarrow> u32 \<Rightarrow> (ref \<times> u32 \<times> heap) option" where
  "number_siblings_fuel 0 h src position = None"
| "number_siblings_fuel (Suc k) h src position = do {
     n \<leftarrow> deref h (Some src);
     (case n_next n of
        None \<Rightarrow> Some (src, position, h)
      | Some b \<Rightarrow> do {
          h1 \<leftarrow> upd h (Some src) (\<lambda>m. m\<lparr>n_position := position + 1\<rparr>);
          number_siblings_fuel k h1 b (position + 1)
        })
   }"

definition xml_add_siblings ::
  "heap \<Rightarrow> ref option \<Rightarrow> ref option \<Rightarrow> u32 \<Rightarrow> ref option \<Rightarrow> (ref option \<times> u32 \<times> ref option \<times> heap) option" where
  "xml_add_siblings h prev src position psel =
     (case src of
        None \<Rightarrow> Some (prev, position, psel, h)
      | Some a \<Rightarrow> do {
          (psel', h1) \<leftarrow> (case prev of
              Some _ \<Rightarrow> do {
                h' \<leftarrow> upd h prev (\<lambda>m. m\<lparr>n_next := src\<rparr>);
                h'' \<leftarrow> upd h' src (\<lambda>m. m\<lparr>n_prev := prev\<rparr>);
                Some (psel, h'')
              }
            | None \<Rightarrow> Some (src, h));
          (last, position', h2) \<leftarrow> number_siblings_fuel (length h1) h1 a position;
          Some (Some last, position', psel', h2)
        })"

definition xml_append_node :: "heap \<Rightarrow> ref option \<Rightarrow> ref option \<Rightarrow> (ref option \<times> heap) option" where
  "xml_append_node h prev src =
     (case src of
        None \<Rightarrow> Some (prev, h)
      | Some a \<Rightarrow> do {
          h1 \<leftarrow> (case prev of
              Some _ \<Rightarrow> do {
                h' \<leftarrow> upd h prev (\<lambda>m. m\<lparr>n_next := src\<rparr>);
                upd h' src (\<lambda>m. m\<lparr>n_prev := prev\<rparr>)
              }
            | None \<Rightarrow> Some h);
          r \<leftarrow> last_node h1 a;
          Some (Some r, h1)
        })"

subsection \<open>xpath.c 229-254: the node test\<close>

definition xpath_node_kind :: "xmlnode \<Rightarrow> (nodetype \<times> cstring option) option \<Rightarrow> bool option" where
  "xpath_node_kind node kind =
     (case kind of
        None \<Rightarrow> Some (n_type node = ELEMENT_NODE \<or> n_type node = ATTRIBUTE_NODE)
      | Some (ty, name) \<Rightarrow>
          if ty = XPATH_NODE_CALL
          then do {
            s \<leftarrow> name;
            if s = ''text'' then Some (n_type node = TEXT_NODE)
            else if s = ''node'' then Some True
            else Some False
          }
          else Some (n_type node = ELEMENT_NODE \<and> str_equals (n_name node) name))"

subsection \<open>xpath.c 256-465: the axes\<close>

text \<open>A selection under construction: the heap, the counter, the last node and the first node.\<close>

record selection =
  s_heap :: heap
  s_pos :: u32
  s_tail :: "ref option"
  s_head :: "ref option"

definition new_selection :: "heap \<Rightarrow> selection" where
  "new_selection h = \<lparr>s_heap = h, s_pos = 0, s_tail = None, s_head = None\<rparr>"

text \<open>\<open>tmp = add_to_selection(tmp, node, &pos); if(!ret) ret = tmp;\<close>\<close>

definition sel_add :: "selection \<Rightarrow> ref \<Rightarrow> selection option" where
  "sel_add s a = do {
     (t, p, h) \<leftarrow> add_to_selection (s_heap s) (s_tail s) (Some a) (s_pos s);
     Some \<lparr>s_heap = h, s_pos = p, s_tail = t, s_head = (if s_head s = None then t else s_head s)\<rparr>
   }"

definition sel_test :: "selection \<Rightarrow> ref \<Rightarrow> (nodetype \<times> cstring option) option \<Rightarrow> selection option" where
  "sel_test s a kind = do {
     n \<leftarrow> deref (s_heap s) (Some a);
     ok \<leftarrow> xpath_node_kind n kind;
     if ok then sel_add s a else Some s
   }"

text \<open>\<open>tmp = xml_append_node(tmp, nodes); if(!ret) ret = tmp;\<close>\<close>

definition sel_append :: "selection \<Rightarrow> ref option \<Rightarrow> selection option" where
  "sel_append s nodes = do {
     (t, h) \<leftarrow> xml_append_node (s_heap s) (s_tail s) nodes;
     Some (s\<lparr>s_heap := h, s_tail := t, s_head := (if s_head s = None then t else s_head s)\<rparr>)
   }"

text \<open>
  The loops \<open>for(node = p; node; node = node->next)\<close>, also over \<open>prev\<close>. The loop adds
  nodes to the heap but changes none it walks over, so the fuel is the size of the heap at the start.
\<close>

fun select_loop :: "nat \<Rightarrow> (xmlnode \<Rightarrow> ref option) \<Rightarrow> (nodetype \<times> cstring option) option \<Rightarrow>
    selection \<Rightarrow> ref option \<Rightarrow> selection option" where
  "select_loop k nxt kind s None = Some s"
| "select_loop 0 nxt kind s (Some a) = None"
| "select_loop (Suc k) nxt kind s (Some a) = do {
     s1 \<leftarrow> sel_test s a kind;
     n \<leftarrow> deref (s_heap s1) (Some a);
     select_loop k nxt kind s1 (nxt n)
   }"

fun add_all_children :: "nat \<Rightarrow> (nodetype \<times> cstring option) option \<Rightarrow> selection \<Rightarrow> ref option \<Rightarrow>
    selection option" where
  "add_all_children k kind s None = Some s"
| "add_all_children 0 kind s (Some a) = None"
| "add_all_children (Suc k) kind s (Some a) = do {
     n \<leftarrow> deref (s_heap s) (Some a);
     s1 \<leftarrow> (if n_type n = EMPTY_NODE then add_all_children k kind s (n_children n)
           else do {
             s' \<leftarrow> sel_test s a kind;
             n' \<leftarrow> deref (s_heap s') (Some a);
             (case n_children n' of None \<Rightarrow> Some s' | Some c \<Rightarrow> add_all_children k kind s' (Some c))
           });
     n1 \<leftarrow> deref (s_heap s1) (Some a);
     add_all_children k kind s1 (n_next n1)
   }"

type_synonym selector = "heap \<Rightarrow> ref option \<Rightarrow> (nodetype \<times> cstring option) option \<Rightarrow> (ref option \<times> heap) option"

definition sel_result :: "selection \<Rightarrow> ref option \<times> heap" where
  "sel_result s = (s_head s, s_heap s)"

definition xpath_get_self :: selector where
  "xpath_get_self h current kind = do {
     n \<leftarrow> deref h current;
     ok \<leftarrow> xpath_node_kind n kind;
     if ok then do { (r, p, h') \<leftarrow> add_to_selection h None current 0; Some (r, h') } else Some (None, h)
   }"

definition xpath_get_parent :: selector where
  "xpath_get_parent h current kind = do {
     n \<leftarrow> deref h current;
     (case n_parent n of
        None \<Rightarrow> Some (None, h)
      | Some _ \<Rightarrow> do {
          m \<leftarrow> deref h (n_parent n);
          if str_equals (n_name m) (Some xsl_s_root) then Some (None, h)
          else do {
            ok \<leftarrow> xpath_node_kind m kind;
            if ok then do { (r, p, h') \<leftarrow> add_to_selection h None (n_parent n) 0; Some (r, h') } else Some (None, h)
          }
        })
   }"

definition xpath_get_child :: selector where
  "xpath_get_child h current kind = do {
     n \<leftarrow> deref h current;
     s \<leftarrow> select_loop (length h) n_next kind (new_selection h) (n_children n);
     Some (sel_result s)
   }"

definition xpath_get_descendant :: selector where
  "xpath_get_descendant h current kind = do {
     n \<leftarrow> deref h current;
     s \<leftarrow> add_all_children (length h) kind (new_selection h) (n_children n);
     Some (sel_result s)
   }"

text \<open>\<open>descendant->prev = result; result->next = descendant;\<close>\<close>

definition join_selections :: "heap \<Rightarrow> ref option \<Rightarrow> ref option \<Rightarrow> (ref option \<times> heap) option" where
  "join_selections h result found =
     (case found of
        None \<Rightarrow> Some (result, h)
      | Some d \<Rightarrow>
          (case result of
             None \<Rightarrow> Some (found, h)
           | Some r \<Rightarrow> do {
               h1 \<leftarrow> upd h found (\<lambda>m. m\<lparr>n_prev := result\<rparr>);
               h2 \<leftarrow> upd h1 result (\<lambda>m. m\<lparr>n_next := found\<rparr>);
               Some (result, h2)
             }))"

definition xpath_get_descendant_or_self :: selector where
  "xpath_get_descendant_or_self h current kind = do {
     (result, h1) \<leftarrow> xpath_get_self h current kind;
     (descendant, h2) \<leftarrow> xpath_get_descendant h1 current kind;
     join_selections h2 result descendant
   }"

definition xpath_get_all :: selector where
  "xpath_get_all h current kind = xpath_get_child h current kind"

text \<open>The loop over the parents, which stops at a node named \<open>root\<close>.\<close>

fun ancestor_loop :: "nat \<Rightarrow> (nodetype \<times> cstring option) option \<Rightarrow> selection \<Rightarrow> ref option \<Rightarrow> selection option" where
  "ancestor_loop k kind s None = Some s"
| "ancestor_loop 0 kind s (Some a) = None"
| "ancestor_loop (Suc k) kind s (Some a) = do {
     n \<leftarrow> deref (s_heap s) (Some a);
     if str_equals (n_name n) (Some xsl_s_root) then Some s
     else do {
       s1 \<leftarrow> sel_test s a kind;
       n1 \<leftarrow> deref (s_heap s1) (Some a);
       ancestor_loop k kind s1 (n_parent n1)
     }
   }"

definition xpath_get_ancestor :: selector where
  "xpath_get_ancestor h current kind = do {
     n \<leftarrow> deref h current;
     s \<leftarrow> ancestor_loop (length h) kind (new_selection h) (n_parent n);
     Some (sel_result s)
   }"

definition xpath_get_ancestor_or_self :: selector where
  "xpath_get_ancestor_or_self h current kind = do {
     (result, h1) \<leftarrow> xpath_get_self h current kind;
     (ancestor, h2) \<leftarrow> xpath_get_ancestor h1 current kind;
     join_selections h2 result ancestor
   }"

text \<open>\<open>current->original != NULL ? current->original : current\<close>\<close>

definition original_of :: "heap \<Rightarrow> ref option \<Rightarrow> xmlnode option" where
  "original_of h current = do {
     n \<leftarrow> deref h current;
     (case n_original n of None \<Rightarrow> Some n | Some _ \<Rightarrow> deref h (n_original n))
   }"

definition xpath_get_preceding_sibling :: selector where
  "xpath_get_preceding_sibling h current kind = do {
     n \<leftarrow> original_of h current;
     s \<leftarrow> select_loop (length h) n_prev kind (new_selection h) (n_prev n);
     Some (sel_result s)
   }"

definition xpath_get_following_sibling :: selector where
  "xpath_get_following_sibling h current kind = do {
     n \<leftarrow> original_of h current;
     s \<leftarrow> select_loop (length h) n_next kind (new_selection h) (n_next n);
     Some (sel_result s)
   }"

text \<open>Each sibling with its descendants, the descendants as a selection of their own behind it.\<close>

fun sibling_trees_loop :: "nat \<Rightarrow> (xmlnode \<Rightarrow> ref option) \<Rightarrow> (nodetype \<times> cstring option) option \<Rightarrow>
    selection \<Rightarrow> ref option \<Rightarrow> selection option" where
  "sibling_trees_loop k nxt kind s None = Some s"
| "sibling_trees_loop 0 nxt kind s (Some a) = None"
| "sibling_trees_loop (Suc k) nxt kind s (Some a) = do {
     s1 \<leftarrow> sel_test s a kind;
     (descendant, h1) \<leftarrow> xpath_get_descendant (s_heap s1) (Some a) kind;
     s2 \<leftarrow> (if descendant \<noteq> None then sel_append (s1\<lparr>s_heap := h1\<rparr>) descendant else Some (s1\<lparr>s_heap := h1\<rparr>));
     n \<leftarrow> deref (s_heap s2) (Some a);
     sibling_trees_loop k nxt kind s2 (nxt n)
   }"

definition xpath_get_preceding :: selector where
  "xpath_get_preceding h current kind = do {
     n \<leftarrow> original_of h current;
     s \<leftarrow> sibling_trees_loop (length h) n_prev kind (new_selection h) (n_prev n);
     Some (sel_result s)
   }"

definition xpath_get_following :: selector where
  "xpath_get_following h current kind = do {
     n \<leftarrow> original_of h current;
     s \<leftarrow> sibling_trees_loop (length h) n_next kind (new_selection h) (n_next n);
     Some (sel_result s)
   }"

text \<open>
  \<open>xpath_apply_selector\<close>: the results for the nodes of a set, one behind the other (the \<open>prev\<close>
  pointers are not set).
\<close>

definition append_result :: "heap \<Rightarrow> ref option \<Rightarrow> ref option \<Rightarrow> ref \<Rightarrow> (ref option \<times> ref option \<times> heap) option" where
  "append_result h head tail tmp = do {
     (head', h1) \<leftarrow> (case head of
         None \<Rightarrow> Some (Some tmp, h)
       | Some _ \<Rightarrow> do { h' \<leftarrow> upd h tail (\<lambda>m. m\<lparr>n_next := Some tmp\<rparr>); Some (head, h') });
     t \<leftarrow> last_node h1 (if head = None then tmp else the tail);
     Some (head', Some t, h1)
   }"

fun apply_selector_loop :: "nat \<Rightarrow> selector \<Rightarrow> (nodetype \<times> cstring option) option \<Rightarrow> heap \<Rightarrow>
    ref option \<Rightarrow> ref option \<Rightarrow> ref option \<Rightarrow> (ref option \<times> heap) option" where
  "apply_selector_loop k sel kind h head tail None = Some (head, h)"
| "apply_selector_loop 0 sel kind h head tail (Some a) = None"
| "apply_selector_loop (Suc k) sel kind h head tail (Some a) = do {
     (tmp, h1) \<leftarrow> sel h (Some a) kind;
     (head', tail', h2) \<leftarrow> (case tmp of
         None \<Rightarrow> Some (head, tail, h1)
       | Some t \<Rightarrow> append_result h1 head tail t);
     n \<leftarrow> deref h2 (Some a);
     apply_selector_loop k sel kind h2 head' tail' (n_next n)
   }"

definition xpath_apply_selector ::
  "selector \<Rightarrow> heap \<Rightarrow> ref option \<Rightarrow> (nodetype \<times> cstring option) option \<Rightarrow> (ref option \<times> heap) option" where
  "xpath_apply_selector sel h nodes kind = apply_selector_loop (length h) sel kind h None None nodes"

fun attrs_loop :: "nat \<Rightarrow> selection \<Rightarrow> ref option \<Rightarrow> selection option" where
  "attrs_loop k s None = Some s"
| "attrs_loop 0 s (Some a) = None"
| "attrs_loop (Suc k) s (Some a) = do {
     s1 \<leftarrow> sel_add s a;
     n \<leftarrow> deref (s_heap s1) (Some a);
     attrs_loop k s1 (n_next n)
   }"

fun get_attrs_loop :: "nat \<Rightarrow> selection \<Rightarrow> ref option \<Rightarrow> selection option" where
  "get_attrs_loop k s None = Some s"
| "get_attrs_loop 0 s (Some a) = None"
| "get_attrs_loop (Suc k) s (Some a) = do {
     n \<leftarrow> deref (s_heap s) (Some a);
     s1 \<leftarrow> attrs_loop (Suc k) s (n_attributes n);
     n1 \<leftarrow> deref (s_heap s1) (Some a);
     get_attrs_loop k s1 (n_next n1)
   }"

definition xpath_get_attrs :: "heap \<Rightarrow> ref option \<Rightarrow> (ref option \<times> heap) option" where
  "xpath_get_attrs h nodeset = do {
     s \<leftarrow> get_attrs_loop (2 * length h) (new_selection h) nodeset;
     Some (sel_result s)
   }"

end
