(* ===== verification/Tx_Axes.thy ===== *)
theory Tx_Axes
  imports Tx_Select
begin

text \<open>
  What the axes select. A document is described by the forest of its node pointers
  (\<open>forest_at\<close>); a selection is described by the list of the nodes it stands for (\<open>sel_inv\<close>, \<open>selects\<close>). The
  axes are shown to return, without changing the document, the nodes XPath asks for in
  document order (or in reverse for the backward axes), numbered from 1.
\<close>

subsection \<open>Forests of nodes\<close>

datatype xtree = XT ref "xtree list"

fun forest_at :: "heap \<Rightarrow> ref option \<Rightarrow> xtree list \<Rightarrow> bool" where
  "forest_at h p [] \<longleftrightarrow> p = None"
| "forest_at h p (XT a ks # ts) \<longleftrightarrow>
     p = Some a \<and> a < length h \<and> forest_at h (n_children (h ! a)) ks \<and> forest_at h (n_next (h ! a)) ts"

fun forest_text :: "heap \<Rightarrow> xtree list \<Rightarrow> cstring" where
  "forest_text h [] = []"
| "forest_text h (XT a ks # ts) =
     forest_text h ks @
     (if n_type (h ! a) = TEXT_NODE then (case n_content (h ! a) of None \<Rightarrow> [] | Some c \<Rightarrow> c) else []) @
     forest_text h ts"

text \<open>The nodes in document order; nodes of type \<open>EMPTY_NODE\<close> only group their children.\<close>

fun forest_nodes :: "heap \<Rightarrow> xtree list \<Rightarrow> ref list" where
  "forest_nodes h [] = []"
| "forest_nodes h (XT a ks # ts) =
     (if n_type (h ! a) = EMPTY_NODE then [] else [a]) @ forest_nodes h ks @ forest_nodes h ts"

fun forest_depth :: "xtree list \<Rightarrow> nat" where
  "forest_depth [] = 0"
| "forest_depth (XT a ks # ts) = Suc (max (forest_depth ks) (forest_depth ts))"

lemma forest_unique: "forest_at h p ts \<Longrightarrow> forest_at h p us \<Longrightarrow> ts = us"
proof (induction h p ts arbitrary: us rule: forest_at.induct)
  case (1 h p)
  then show ?case by (cases us rule: forest_depth.cases) auto
next
  case (2 h p a ks ts)
  then show ?case by (cases us rule: forest_depth.cases) auto
qed

lemma forest_at_depth:
  "forest_at h p ts \<Longrightarrow> 0 < d \<Longrightarrow> d \<le> forest_depth ts \<Longrightarrow>
   \<exists>a us. a < length h \<and> forest_at h (Some a) us \<and> forest_depth us = d"
proof (induction h p ts rule: forest_at.induct)
  case (2 h p a ks ts)
  show ?case
  proof (cases "d = forest_depth (XT a ks # ts)")
    case True
    with 2 show ?thesis by (intro exI[of _ a] exI[of _ "XT a ks # ts"]) auto
  next
    case False
    with 2 have "d \<le> forest_depth ks \<or> d \<le> forest_depth ts" by (auto simp: max_def split: if_splits)
    with 2 show ?thesis by auto
  qed
qed simp

lemma forest_depth_bound:
  assumes "forest_at h p ts"
  shows "forest_depth ts \<le> length h"
proof -
  have "\<forall>d\<in>{1..forest_depth ts}. \<exists>a. a < length h \<and> (\<exists>us. forest_at h (Some a) us \<and> forest_depth us = d)"
    using forest_at_depth[OF assms] by (metis atLeastAtMost_iff less_eq_Suc_le One_nat_def)
  then obtain f where f: "\<forall>d\<in>{1..forest_depth ts}. f d < length h \<and>
      (\<exists>us. forest_at h (Some (f d)) us \<and> forest_depth us = d)" by metis
  have "inj_on f {1..forest_depth ts}" using f forest_unique by (metis inj_onI)
  moreover have "f ` {1..forest_depth ts} \<subseteq> {..<length h}" using f by auto
  ultimately have "card {1..forest_depth ts} \<le> card {..<length h}" by (rule card_inj_on_le) simp
  then show ?thesis by simp
qed

lemma add_node_str_fuel_forest:
  "forest_at h p ts \<Longrightarrow> forest_depth ts \<le> k \<Longrightarrow> add_node_str_fuel k h p str = Some (str @ forest_text h ts)"
proof (induction h p ts arbitrary: k str rule: forest_at.induct)
  case (2 h p a ks ts)
  then obtain k' where k: "k = Suc k'" by (cases k) auto
  have c: "(case n_children (h ! a) of None \<Rightarrow> Some str | Some c \<Rightarrow> add_node_str_fuel k' h (Some c) str)
      = Some (str @ forest_text h ks)"
    using 2 k by (cases "n_children (h ! a)") (auto simp: forest_depth.simps max_def split: if_splits; fastforce)+
  have "add_node_str_fuel k' h (n_next (h ! a)) s = Some (s @ forest_text h ts)" for s
    using 2 k by simp
  with 2 k c show ?case by simp
qed simp

lemma add_node_str_forest: "forest_at h p ts \<Longrightarrow> add_node_str h str p = Some (str @ forest_text h ts)"
  using add_node_str_fuel_forest forest_depth_bound by (simp add: add_node_str_def)

lemma forest_linked: "forest_at h p ts \<Longrightarrow> linked n_next h p (map (\<lambda>t. case t of XT a ks \<Rightarrow> a) ts)"
  by (induction h p ts rule: forest_at.induct) auto

subsection \<open>Selections\<close>

text \<open>The node that \<open>add_to_selection\<close> makes for a node \<open>n\<close> at \<open>a\<close>, apart from its links.\<close>

definition selection_copy :: "ref \<Rightarrow> xmlnode \<Rightarrow> nat \<Rightarrow> xmlnode" where
  "selection_copy a n i = null_node\<lparr>n_type := n_type n, n_original := Some a, n_name := n_name n,
     n_content := n_content n, n_attributes := n_attributes n, n_children := n_children n,
     n_parent := n_parent n, n_order := n_order n, n_uid := n_uid n, n_position := of_nat i\<rparr>"

fun selection_copies :: "heap \<Rightarrow> nat \<Rightarrow> ref list \<Rightarrow> xmlnode list" where
  "selection_copies h0 i [] = []"
| "selection_copies h0 i (a # r) = selection_copy a (h0 ! a) (Suc i) # selection_copies h0 (Suc i) r"

lemma selection_copies_append [simp]:
  "selection_copies h0 i (xs @ ys) = selection_copies h0 i xs @ selection_copies h0 (i + length xs) ys"
  by (induction xs arbitrary: i) auto

lemma length_selection_copies [simp]: "length (selection_copies h0 i xs) = length xs"
  by (induction xs arbitrary: i) auto

definition unlinked :: "xmlnode \<Rightarrow> xmlnode" where
  "unlinked n = n\<lparr>n_next := None, n_prev := None\<rparr>"

text \<open>The heap \<open>h\<close> contains \<open>h0\<close> unchanged.\<close>

definition extends :: "heap \<Rightarrow> heap \<Rightarrow> bool" where
  "extends h0 h \<longleftrightarrow> (\<exists>r. h = h0 @ r)"

lemma extends_refl [simp]: "extends h h"
  by (simp add: extends_def)

lemma extends_nth: "extends h0 h \<Longrightarrow> a < length h0 \<Longrightarrow> h ! a = h0 ! a"
  by (auto simp: extends_def nth_append)

lemma extends_length: "extends h0 h \<Longrightarrow> length h0 \<le> length h"
  by (auto simp: extends_def)

lemma extends_trans: "extends h0 h1 \<Longrightarrow> extends h1 h2 \<Longrightarrow> extends h0 h2"
  by (auto simp: extends_def)

lemma extends_set_node: "extends h0 h \<Longrightarrow> length h0 \<le> d \<Longrightarrow> extends h0 (set_node h d f)"
  by (auto simp: extends_def set_node_def list_update_append)

lemma extends_append: "extends h0 h \<Longrightarrow> extends h0 (h @ r)"
  by (auto simp: extends_def)

lemma linked_extends:
  assumes "linked nxt h0 p xs" "extends h0 h"
  shows "linked nxt h p xs"
proof (rule linked_frame[OF assms(1) extends_length[OF assms(2)]])
  fix a assume "a \<in> set xs"
  then have "a < length h0" using linked_bound[OF assms(1)] by auto
  then show "nxt (h ! a) = nxt (h0 ! a)" by (simp add: extends_nth[OF assms(2)])
qed

lemma forest_extends: "forest_at h0 p ts \<Longrightarrow> extends h0 h \<Longrightarrow> forest_at h p ts"
proof (induction h0 p ts rule: forest_at.induct)
  case (2 h0 p a ks ts)
  then have "h ! a = h0 ! a" "a < length h" using extends_nth extends_length by fastforce+
  with 2 show ?case by simp
qed simp

text \<open>
  The selection from \<open>p\<close> to \<open>t\<close> in \<open>h\<close> consists of fresh nodes that stand for the nodes \<open>xs\<close> of \<open>h0\<close>, in this
  order, numbered from 1.
\<close>

definition selects :: "heap \<Rightarrow> heap \<Rightarrow> ref option \<Rightarrow> ref option \<Rightarrow> ref list \<Rightarrow> bool" where
  "selects h0 h p t xs \<longleftrightarrow> extends h0 h \<and> set xs \<subseteq> {..<length h0} \<and>
     (\<exists>ds. linked n_next h p ds \<and> t = last_or None ds \<and> (\<forall>d\<in>set ds. length h0 \<le> d) \<and>
        map (\<lambda>d. unlinked (h ! d)) ds = selection_copies h0 0 xs)"

definition sel_inv :: "heap \<Rightarrow> selection \<Rightarrow> ref list \<Rightarrow> bool" where
  "sel_inv h0 s xs \<longleftrightarrow> selects h0 (s_heap s) (s_head s) (s_tail s) xs \<and> s_pos s = of_nat (length xs)"

lemma new_selection_inv: "sel_inv h (new_selection h) []"
  by (simp add: sel_inv_def selects_def new_selection_def)

lemma linked_extend_tail:
  assumes "linked nxt h p (ds @ [l])" "b < length h'" "length h \<le> length h'"
    and "\<And>a. a \<in> set ds \<Longrightarrow> nxt (h' ! a) = nxt (h ! a)" "nxt (h' ! l) = Some b" "nxt (h' ! b) = None"
  shows "linked nxt h' p (ds @ [l, b])"
  using assms
proof (induction ds arbitrary: p)
  case Nil
  then show ?case by auto
next
  case (Cons a ds)
  then show ?case by auto
qed

lemma last_or_snoc [simp]: "last_or pv (xs @ [x]) = Some x"
  by (simp add: last_or_def)

lemma sel_add_inv:
  assumes inv: "sel_inv h0 s xs" and a: "a < length h0"
  shows "\<exists>s'. sel_add s a = Some s' \<and> sel_inv h0 s' (xs @ [a])"
proof -
  let ?h = "s_heap s" let ?d = "length (s_heap s)"
  from inv obtain ds where ext: "extends h0 ?h" and xs: "set xs \<subseteq> {..<length h0}" and pos: "s_pos s = of_nat (length xs)"
    and ds: "linked n_next ?h (s_head s) ds" "s_tail s = last_or None ds" "\<forall>d\<in>set ds. length h0 \<le> d"
    and copies: "map (\<lambda>d. unlinked (?h ! d)) ds = selection_copies h0 0 xs"
    by (auto simp: sel_inv_def selects_def)
  have a': "a < ?d" "?h ! a = h0 ! a" using a ext extends_length extends_nth by fastforce+
  have bound: "set ds \<subseteq> {..<?d}" using linked_bound[OF ds(1)] .
  define c where "c = selection_copy a (h0 ! a) (Suc (length xs))"
  have upd: "\<And>f. set_node (?h @ [f]) ?d g = ?h @ [g f]" for g by (simp add: set_node_def)
  show ?thesis
  proof (cases ds rule: rev_cases)
    case Nil
    then have "s_head s = None" "s_tail s = None" "xs = []" using ds arg_cong[OF copies, of length] by auto
    then have "sel_add s a = Some \<lparr>s_heap = ?h @ [c], s_pos = 1, s_tail = Some ?d, s_head = Some ?d\<rparr>"
      using a' pos by (simp add: sel_add_def add_to_selection_def xml_new_node_def upd c_def selection_copy_def)
    moreover have "sel_inv h0 \<lparr>s_heap = ?h @ [c], s_pos = 1, s_tail = Some ?d, s_head = Some ?d\<rparr> [a]"
      using ext a extends_length[OF ext] \<open>xs = []\<close>
      by (auto simp: sel_inv_def selects_def extends_append last_or_def unlinked_def c_def selection_copy_def null_node_def
          intro!: exI[of _ "[?d]"])
    ultimately show ?thesis using \<open>xs = []\<close> by auto
  next
    case (snoc us l)
    then have l: "s_tail s = Some l" "l < ?d" "length h0 \<le> l" using ds bound by auto
    then have head: "s_head s = Some (hd ds)" using ds(1) snoc by (cases us) auto
    define h' where "h' = set_node (?h @ [c\<lparr>n_prev := Some l\<rparr>]) l (\<lambda>n. n\<lparr>n_next := Some ?d\<rparr>)"
    have eq: "sel_add s a = Some \<lparr>s_heap = h', s_pos = of_nat (length xs) + 1, s_tail = Some ?d, s_head = s_head s\<rparr>"
      using a' pos l head
      by (simp add: sel_add_def add_to_selection_def xml_new_node_def upd c_def selection_copy_def h'_def add.commute)
    have dist: "distinct ds" using linked_distinct[OF ds(1)] .
    have nth: "e < ?d \<Longrightarrow> h' ! e = (if e = l then (?h ! e)\<lparr>n_next := Some ?d\<rparr> else ?h ! e)" for e
      by (simp add: h'_def set_node_def nth_list_update nth_append)
    have nthd: "h' ! ?d = c\<lparr>n_prev := Some l\<rparr>" using l by (simp add: h'_def set_node_def nth_list_update nth_append)
    have cp: "map (\<lambda>d. unlinked (h' ! d)) ds = selection_copies h0 0 xs"
      unfolding copies[symmetric] using bound nth by (auto simp: unlinked_def)
    have cp': "map (\<lambda>d. unlinked (h' ! d)) us @ [unlinked (h' ! l)] = selection_copies h0 0 xs"
      using cp by (simp only: snoc map_append list.map)
    have "linked n_next h' (s_head s) (us @ [l, ?d])"
    proof (rule linked_extend_tail[OF ds(1)[unfolded snoc]])
      show "?d < length h'" "?d \<le> length h'" by (simp_all add: h'_def)
      fix e assume "e \<in> set us"
      then have "e < ?d" "e \<noteq> l" using bound snoc dist by auto
      then show "n_next (h' ! e) = n_next (?h ! e)" by (simp add: nth)
    next
      show "n_next (h' ! l) = Some ?d" "n_next (h' ! ?d) = None"
        using l by (simp_all add: nth nthd c_def selection_copy_def null_node_def)
    qed
    moreover have "extends h0 h'" using ext l by (simp add: h'_def extends_set_node extends_append)
    moreover have "unlinked (h' ! ?d) = c" by (simp add: nthd unlinked_def c_def selection_copy_def null_node_def)
    ultimately have "sel_inv h0 \<lparr>s_heap = h', s_pos = of_nat (length xs) + 1, s_tail = Some ?d, s_head = s_head s\<rparr> (xs @ [a])"
      using ds(3) xs a snoc cp' extends_length[OF ext]
      by (auto simp: sel_inv_def selects_def c_def last_or_def intro!: exI[of _ "us @ [l, ?d]"])
    with eq show ?thesis by blast
  qed
qed

subsection \<open>The loops of the axes\<close>

definition kind_defined :: "(nodetype \<times> cstring option) option \<Rightarrow> bool" where
  "kind_defined kind \<longleftrightarrow> kind \<noteq> Some (XPATH_NODE_CALL, None)"

definition matches_kind :: "(nodetype \<times> cstring option) option \<Rightarrow> xmlnode \<Rightarrow> bool" where
  "matches_kind kind n \<longleftrightarrow> xpath_node_kind n kind = Some True"

lemma xpath_node_kind_defined: "kind_defined kind \<Longrightarrow> xpath_node_kind n kind = Some (matches_kind kind n)"
  by (auto simp: kind_defined_def matches_kind_def xpath_node_kind_def split: option.splits prod.split bind_splits)

abbreviation matching :: "heap \<Rightarrow> (nodetype \<times> cstring option) option \<Rightarrow> ref list \<Rightarrow> ref list" where
  "matching h kind xs \<equiv> filter (\<lambda>a. matches_kind kind (h ! a)) xs"

lemma sel_inv_extends: "sel_inv h0 s xs \<Longrightarrow> extends h0 (s_heap s)"
  by (simp add: sel_inv_def selects_def)

lemma sel_inv_deref: "sel_inv h0 s xs \<Longrightarrow> a < length h0 \<Longrightarrow> deref (s_heap s) (Some a) = Some (h0 ! a)"
  using sel_inv_extends extends_nth extends_length by fastforce

lemma sel_test_inv:
  assumes "sel_inv h0 s xs" "a < length h0" "kind_defined kind"
  shows "\<exists>s'. sel_test s a kind = Some s' \<and> sel_inv h0 s' (xs @ matching h0 kind [a])"
  using sel_add_inv[OF assms(1,2)] assms
  by (simp add: sel_test_def sel_inv_deref xpath_node_kind_defined)

lemma select_loop_inv:
  assumes "linked nxt h0 p as" "length as \<le> k" "sel_inv h0 s xs" "kind_defined kind"
  shows "\<exists>s'. select_loop k nxt kind s p = Some s' \<and> sel_inv h0 s' (xs @ matching h0 kind as)"
  using assms
proof (induction as arbitrary: p k s xs)
  case Nil
  then show ?case by auto
next
  case (Cons a as)
  then obtain k' where k: "k = Suc k'" by (cases k) auto
  from Cons.prems have a: "p = Some a" "a < length h0" "linked nxt h0 (nxt (h0 ! a)) as" by auto
  from sel_test_inv[OF Cons.prems(3) a(2) Cons.prems(4)] obtain s1 where
    s1: "sel_test s a kind = Some s1" "sel_inv h0 s1 (xs @ matching h0 kind [a])" by blast
  from Cons.IH[OF a(3) _ s1(2) Cons.prems(4), of k'] Cons.prems(2) k s1 a sel_inv_deref[OF s1(2) a(2)]
  show ?case by (cases "matches_kind kind (h0 ! a)") simp_all
qed

lemma ancestor_loop_inv:
  assumes "linked n_parent h0 p as" "length as \<le> k" "sel_inv h0 s xs" "kind_defined kind"
  shows "\<exists>s'. ancestor_loop k kind s p = Some s' \<and>
    sel_inv h0 s' (xs @ matching h0 kind (takeWhile (\<lambda>a. n_name (h0 ! a) \<noteq> Some xsl_s_root) as))"
  using assms
proof (induction as arbitrary: p k s xs)
  case Nil
  then show ?case by auto
next
  case (Cons a as)
  then obtain k' where k: "k = Suc k'" by (cases k) auto
  from Cons.prems have a: "p = Some a" "a < length h0" "linked n_parent h0 (n_parent (h0 ! a)) as" by auto
  note d = sel_inv_deref[OF Cons.prems(3) a(2)]
  show ?case
  proof (cases "n_name (h0 ! a) = Some xsl_s_root")
    case True
    with k a d Cons.prems(3) show ?thesis by (simp add: str_equals_def)
  next
    case False
    from sel_test_inv[OF Cons.prems(3) a(2) Cons.prems(4)] obtain s1 where
      s1: "sel_test s a kind = Some s1" "sel_inv h0 s1 (xs @ matching h0 kind [a])" by blast
    from Cons.IH[OF a(3) _ s1(2) Cons.prems(4), of k'] Cons.prems(2) k s1 a sel_inv_deref[OF s1(2) a(2)] False d
    show ?thesis by (cases "matches_kind kind (h0 ! a)") (simp_all add: str_equals_def)
  qed
qed

lemma add_all_children_inv:
  assumes "forest_at h0 p ts" "forest_depth ts \<le> k" "sel_inv h0 s xs" "kind_defined kind"
  shows "\<exists>s'. add_all_children k kind s p = Some s' \<and> sel_inv h0 s' (xs @ matching h0 kind (forest_nodes h0 ts))"
  using assms
proof (induction h0 p ts arbitrary: k s xs rule: forest_at.induct)
  case (1 h0 p)
  then show ?case by auto
next
  case (2 h0 p a ks ts)
  then obtain k' where k: "k = Suc k'" by (cases k) auto
  from 2 have a: "p = Some a" "a < length h0" "forest_at h0 (n_children (h0 ! a)) ks"
    "forest_at h0 (n_next (h0 ! a)) ts" "forest_depth ks \<le> k'" "forest_depth ts \<le> k'" using k by auto
  note d = sel_inv_deref[OF _ a(2)]
  have kids: "\<exists>s'. add_all_children k' kind r (n_children (h0 ! a)) = Some s' \<and>
      sel_inv h0 s' (ys @ matching h0 kind (forest_nodes h0 ks))" if "sel_inv h0 r ys" for r ys
    using 2(1)[OF a(3,5) that 2(6)] .
  have step: "\<exists>s1. (if n_type (h0 ! a) = EMPTY_NODE then add_all_children k' kind s (n_children (h0 ! a))
         else do {
           s' \<leftarrow> sel_test s a kind;
           n' \<leftarrow> deref (s_heap s') (Some a);
           (case n_children n' of None \<Rightarrow> Some s' | Some c \<Rightarrow> add_all_children k' kind s' (Some c))
         }) = Some s1 \<and>
      sel_inv h0 s1 (xs @ matching h0 kind ((if n_type (h0 ! a) = EMPTY_NODE then [] else [a]) @ forest_nodes h0 ks))"
  proof (cases "n_type (h0 ! a) = EMPTY_NODE")
    case True
    then show ?thesis using kids[OF 2(5)] by simp
  next
    case False
    from sel_test_inv[OF 2(5) a(2) 2(6)] obtain s' where
      s': "sel_test s a kind = Some s'" "sel_inv h0 s' (xs @ matching h0 kind [a])" by blast
    have "(case n_children (h0 ! a) of None \<Rightarrow> Some s' | Some c \<Rightarrow> add_all_children k' kind s' (Some c))
        = add_all_children k' kind s' (n_children (h0 ! a))" by (simp split: option.split)
    with kids[OF s'(2)] s' d[OF s'(2)] False show ?thesis by (simp split: if_splits)
  qed
  then obtain s1 where s1: "(if n_type (h0 ! a) = EMPTY_NODE then add_all_children k' kind s (n_children (h0 ! a))
         else do {
           s' \<leftarrow> sel_test s a kind;
           n' \<leftarrow> deref (s_heap s') (Some a);
           (case n_children n' of None \<Rightarrow> Some s' | Some c \<Rightarrow> add_all_children k' kind s' (Some c))
         }) = Some s1"
      "sel_inv h0 s1 (xs @ matching h0 kind ((if n_type (h0 ! a) = EMPTY_NODE then [] else [a]) @ forest_nodes h0 ks))"
    by blast
  have "\<exists>s'. add_all_children k' kind s1 (n_next (h0 ! a)) = Some s' \<and>
      sel_inv h0 s' ((xs @ matching h0 kind ((if n_type (h0 ! a) = EMPTY_NODE then [] else [a]) @ forest_nodes h0 ks)) @
        matching h0 kind (forest_nodes h0 ts))"
    using 2(2)[OF a(4,6) s1(2) 2(6)] .
  then show ?case using s1(1) d[OF 2(5)] d[OF s1(2)] k a(1)
    by (simp only: add_all_children.simps bind.bind_lunit forest_nodes.simps filter_append append_assoc)
qed

subsection \<open>What the axes select\<close>

definition selected :: "heap \<Rightarrow> heap \<Rightarrow> ref option \<Rightarrow> ref list \<Rightarrow> bool" where
  "selected h h' p xs \<longleftrightarrow> (\<exists>t. selects h h' p t xs)"

lemma sel_result_selected: "sel_inv h s xs \<Longrightarrow> selected h (s_heap s) (s_head s) xs"
  by (auto simp: sel_inv_def selected_def)

lemma selected_extends: "selected h h' p xs \<Longrightarrow> extends h h'"
  by (auto simp: selected_def selects_def)

text \<open>The facts a selection gives to its users, without its links.\<close>

lemma selected_nodes:
  assumes "selected h h' p xs"
  shows "\<exists>ds. linked n_next h' p ds \<and> map (\<lambda>d. n_original (h' ! d)) ds = map Some xs \<and>
    map (\<lambda>d. n_position (h' ! d)) ds = map of_nat [1..<Suc (length xs)]"
proof -
  from assms obtain ds where ds: "linked n_next h' p ds" "map (\<lambda>d. unlinked (h' ! d)) ds = selection_copies h 0 xs"
    by (auto simp: selected_def selects_def)
  have o: "map n_original (selection_copies h i ys) = map Some ys" for i ys
    by (induction ys arbitrary: i) (auto simp: selection_copy_def)
  have q: "map n_position (selection_copies h i ys) = map of_nat [Suc i..<Suc (i + length ys)]" for i ys
  proof (induction ys arbitrary: i)
    case (Cons y ys)
    have "[Suc i..<Suc (i + length (y # ys))] = Suc i # [Suc (Suc i)..<Suc (Suc i + length ys)]"
      by (subst upt_conv_Cons) auto
    with Cons[of "Suc i"] show ?case by (simp add: selection_copy_def)
  qed simp
  have "map n_original (map (\<lambda>d. unlinked (h' ! d)) ds) = map Some xs"
    "map n_position (map (\<lambda>d. unlinked (h' ! d)) ds) = map of_nat [1..<Suc (length xs)]"
    unfolding ds(2) o q by simp_all
  then have "map (\<lambda>d. n_original (h' ! d)) ds = map Some xs"
    "map (\<lambda>d. n_position (h' ! d)) ds = map of_nat [1..<Suc (length xs)]"
    by (simp_all add: unlinked_def comp_def)
  with ds(1) show ?thesis by blast
qed

lemma select_loop_selected:
  assumes "linked nxt h p as" "kind_defined kind"
  shows "\<exists>s. select_loop (length h) nxt kind (new_selection h) p = Some s \<and>
    selected h (s_heap s) (s_head s) (matching h kind as)"
  using select_loop_inv[OF assms(1) linked_length[OF assms(1)] new_selection_inv assms(2)] sel_result_selected
  by fastforce

lemma child_axis:
  assumes "a < length h" "linked n_next h (n_children (h ! a)) cs" "kind_defined kind"
  shows "\<exists>p h'. xpath_get_child h (Some a) kind = Some (p, h') \<and> selected h h' p (matching h kind cs)"
  using select_loop_selected[OF assms(2,3)] assms(1)
  by (auto simp: xpath_get_child_def sel_result_def)

lemma descendant_axis:
  assumes "a < length h" "forest_at h (n_children (h ! a)) ts" "kind_defined kind"
  shows "\<exists>p h'. xpath_get_descendant h (Some a) kind = Some (p, h') \<and>
    selected h h' p (matching h kind (forest_nodes h ts))"
  using add_all_children_inv[OF assms(2) forest_depth_bound[OF assms(2)] new_selection_inv assms(3)]
    sel_result_selected assms(1)
  by (fastforce simp: xpath_get_descendant_def sel_result_def)

text \<open>
  C15: The child axis selects, for a node whose children are the list \<open>cs\<close>, exactly the children that pass the
  node test, in document order, numbered from 1; the document is unchanged.
\<close>

theorem xpath_get_child_selects:
  assumes "a < length h" "linked n_next h (n_children (h ! a)) cs" "kind_defined kind"
  shows "\<exists>p h'. xpath_get_child h (Some a) kind = Some (p, h') \<and> selected h h' p (matching h kind cs)"
  by (rule child_axis[OF assms])

text \<open>
  C8: The descendant axis selects exactly the descendants that pass the node test, in
  document order (a parent before its children, a subtree before the following siblings), numbered
  from 1, for every finite tree; the document is unchanged.
\<close>

theorem xpath_get_descendant_selects:
  assumes "a < length h" "forest_at h (n_children (h ! a)) ts" "kind_defined kind"
  shows "\<exists>p h'. xpath_get_descendant h (Some a) kind = Some (p, h') \<and>
    selected h h' p (matching h kind (forest_nodes h ts))"
  by (rule descendant_axis[OF assms])

text \<open>
  C16: The sibling axes of a node of the document select the siblings behind it in
  document order, and the siblings before it in reverse document order, numbered by proximity.
\<close>

theorem xpath_get_siblings_select:
  assumes "a < length h" "n_original (h ! a) = None" "kind_defined kind"
    and "linked n_next h (n_next (h ! a)) behind" "linked n_prev h (n_prev (h ! a)) before"
  shows "(\<exists>p h'. xpath_get_following_sibling h (Some a) kind = Some (p, h') \<and> selected h h' p (matching h kind behind)) \<and>
    (\<exists>p h'. xpath_get_preceding_sibling h (Some a) kind = Some (p, h') \<and> selected h h' p (matching h kind before))"
  using select_loop_selected[OF assms(4,3)] select_loop_selected[OF assms(5,3)] assms(1,2)
  by (auto simp: xpath_get_following_sibling_def xpath_get_preceding_sibling_def original_of_def sel_result_def)

text \<open>
  C17: The ancestor axis selects the matching nodes on the way to the top, nearest first, up to the
  first node that is named \<open>root\<close>, which is not selected.
\<close>

theorem xpath_get_ancestor_selects:
  assumes "a < length h" "linked n_parent h (n_parent (h ! a)) as" "kind_defined kind"
  shows "\<exists>p h'. xpath_get_ancestor h (Some a) kind = Some (p, h') \<and>
    selected h h' p (matching h kind (takeWhile (\<lambda>b. n_name (h ! b) \<noteq> Some xsl_s_root) as))"
  using ancestor_loop_inv[OF assms(2) linked_length[OF assms(2)] new_selection_inv assms(3)] sel_result_selected assms(1)
  by (fastforce simp: xpath_get_ancestor_def sel_result_def)

subsection \<open>A document\<close>

text \<open>
  C18: The string value of a node. For a text or an attribute node it is the content of the node (a node of these types
  without content is a crash). For every other node it is the concatenation of the contents of the text nodes below it
  in document order, followed by that of the text nodes in and below its following siblings: \<open>node2string\<close> goes on
  through the list in which it finds the node, and gives the string value of the node alone only at the end of a list.
\<close>

theorem node2string_text:
  assumes "forest_at h (Some a) (XT a ks # ts)"
  shows "node2string h (Some a) =
    (if n_type (h ! a) = TEXT_NODE \<or> n_type (h ! a) = ATTRIBUTE_NODE then map_option Some (n_content (h ! a))
     else Some (Some (forest_text h ks @ forest_text h ts)))"
  using assms add_node_str_forest[OF assms, of "[]"] by (simp add: node2string_def)

text \<open>\<open><a><b/>t<b>u</b></a>\<close>: the document node, \<open>a\<close>, its children 2 to 4 and the text below the last one.\<close>

definition mk_node :: "nodetype \<Rightarrow> cstring option \<Rightarrow> cstring option \<Rightarrow> ref option \<Rightarrow> ref option \<Rightarrow> ref option \<Rightarrow>
    ref option \<Rightarrow> xmlnode" where
  "mk_node ty name content par kids pv nx = null_node\<lparr>n_type := ty, n_name := name, n_content := content,
     n_parent := par, n_children := kids, n_prev := pv, n_next := nx\<rparr>"

definition doc1 :: heap where
  "doc1 = [
     mk_node EMPTY_NODE (Some ''root'') None None (Some 1) None None,
     mk_node ELEMENT_NODE (Some ''a'') None (Some 0) (Some 2) None None,
     mk_node ELEMENT_NODE (Some ''b'') None (Some 1) None None (Some 3),
     mk_node TEXT_NODE None (Some ''t'') (Some 1) None (Some 2) (Some 4),
     mk_node ELEMENT_NODE (Some ''b'') None (Some 1) (Some 5) (Some 3) None,
     mk_node TEXT_NODE None (Some ''u'') (Some 4) None None None]"

lemma doc1_length [simp]: "length doc1 = 6"
  by (simp add: doc1_def)

lemma doc1_nth [simp]:
  "doc1 ! 0 = mk_node EMPTY_NODE (Some ''root'') None None (Some 1) None None"
  "doc1 ! Suc 0 = mk_node ELEMENT_NODE (Some ''a'') None (Some 0) (Some 2) None None"
  "doc1 ! 2 = mk_node ELEMENT_NODE (Some ''b'') None (Some 1) None None (Some 3)"
  "doc1 ! 3 = mk_node TEXT_NODE None (Some ''t'') (Some 1) None (Some 2) (Some 4)"
  "doc1 ! 4 = mk_node ELEMENT_NODE (Some ''b'') None (Some 1) (Some 5) (Some 3) None"
  "doc1 ! 5 = mk_node TEXT_NODE None (Some ''u'') (Some 4) None None None"
  by (simp_all add: doc1_def numeral_eq_Suc)

lemma mk_node_sel [simp]:
  "n_type (mk_node ty name c par kids pv nx) = ty" "n_name (mk_node ty name c par kids pv nx) = name"
  "n_content (mk_node ty name c par kids pv nx) = c" "n_parent (mk_node ty name c par kids pv nx) = par"
  "n_children (mk_node ty name c par kids pv nx) = kids" "n_prev (mk_node ty name c par kids pv nx) = pv"
  "n_next (mk_node ty name c par kids pv nx) = nx" "n_original (mk_node ty name c par kids pv nx) = None"
  "n_attributes (mk_node ty name c par kids pv nx) = None"
  by (simp_all add: mk_node_def null_node_def)

definition test_b :: "(nodetype \<times> cstring option) option" where
  "test_b = Some (EMPTY_NODE, Some ''b'')"

lemma test_b_simps [simp]:
  "kind_defined test_b" "matches_kind test_b n \<longleftrightarrow> n_type n = ELEMENT_NODE \<and> n_name n = Some ''b''"
  by (simp_all add: test_b_def kind_defined_def matches_kind_def xpath_node_kind_def str_equals_def)

theorem xpath_get_child_selects_witness:
  "\<exists>p h'. xpath_get_child doc1 (Some 1) test_b = Some (p, h') \<and> selected doc1 h' p [2, 4]"
  using xpath_get_child_selects[of 1 doc1 "[2, 3, 4]" test_b] by simp

theorem xpath_get_descendant_selects_witness:
  "\<exists>p h'. xpath_get_descendant doc1 (Some 0) test_b = Some (p, h') \<and> selected doc1 h' p [2, 4]"
  using xpath_get_descendant_selects[of 0 doc1 "[XT 1 [XT 2 [], XT 3 [], XT 4 [XT 5 []]]]" test_b] by simp

theorem xpath_get_siblings_select_witness:
  "\<exists>p h'. xpath_get_preceding_sibling doc1 (Some 4) test_b = Some (p, h') \<and> selected doc1 h' p [2]"
  using xpath_get_siblings_select[of 4 doc1 test_b "[]" "[3, 2]"] by simp

theorem xpath_get_ancestor_selects_witness:
  "\<exists>p h'. xpath_get_ancestor doc1 (Some 5) None = Some (p, h') \<and> selected doc1 h' p [4, 1]"
  using xpath_get_ancestor_selects[of 5 doc1 "[4, 1, 0]" None]
  by (simp add: kind_defined_def matches_kind_def xpath_node_kind_def xsl_s_root_def)

theorem node2string_text_witness:
  "node2string doc1 (Some 1) = Some (Some ''tu'') \<and> node2string doc1 (Some 3) = Some (Some ''t'') \<and>
   node2string doc1 (Some 2) = Some (Some ''tu'')"
  using node2string_text[of doc1 1 "[XT 2 [], XT 3 [], XT 4 [XT 5 []]]" "[]"]
    node2string_text[of doc1 3 "[]" "[XT 4 [XT 5 []]]"] node2string_text[of doc1 2 "[]" "[XT 3 [], XT 4 [XT 5 []]]"] by simp

text \<open>
  An element of the document that is itself named \<open>root\<close> is taken for the document node: the
  parent axis of its children is empty, although the node test admits every element.
\<close>

theorem element_named_root_has_no_children_back:
  "let h = doc1[1 := mk_node ELEMENT_NODE (Some ''root'') None (Some 0) (Some 2) None None]
   in xpath_get_parent h (Some 2) None = Some (None, h) \<and> xpath_get_parent doc1 (Some 2) None \<noteq> Some (None, doc1)"
proof -
  have "deref doc1 (Some (Suc 0)) = Some (mk_node ELEMENT_NODE (Some ''a'') None (Some 0) (Some 2) None None)" by simp
  then show ?thesis
    by (simp add: xpath_get_parent_def str_equals_def xsl_s_root_def xpath_node_kind_def add_to_selection_def
        xml_new_node_def)
qed

end
