(* ===== verification/Tx_Rvalue.thy ===== *)
theory Tx_Rvalue
  imports Tx_Axes
begin

text \<open>
  rvalue.c: conversion of XPath values and their comparison. The conversions take the value
  they convert out of its structure (the type becomes \<open>VAL_NULL\<close>), and no caller looks at it
  again; they are functions of the heap and the value here. The outer \<open>None\<close> is a crash, a loop without end or a
  conversion that C leaves undefined.
\<close>

subsection \<open>Conversions\<close>

definition rval_init :: rvalue where
  "rval_init = VAL_NULL"

definition rval_free :: "rvalue \<Rightarrow> rvalue" where
  "rval_free rv = VAL_NULL"

fun rval2bool :: "rvalue \<Rightarrow> bool" where
  "rval2bool VAL_NULL = False"
| "rval2bool (VAL_INT i) = (i \<noteq> 0)"
| "rval2bool (VAL_BOOL i) = (i \<noteq> 0)"
| "rval2bool (VAL_NUMBER d) = (\<not> d_eq d d_zero)"
| "rval2bool (VAL_STRING s) = (case s of None \<Rightarrow> False | Some c \<Rightarrow> c \<noteq> [])"
| "rval2bool (VAL_NODESET p) = (p \<noteq> None)"

text \<open>A number without a fraction is printed through \<open>long\<close>.\<close>

definition number2string :: "double \<Rightarrow> cstring option" where
  "number2string d =
     (if d_eq (fst (d_modf (d_abs d))) d_zero then map_option show_long (d_to_long (d_round d))
      else Some (show_f d))"

definition nodeset2string :: "heap \<Rightarrow> ref option \<Rightarrow> cstring option option" where
  "nodeset2string h p =
     (case p of
        None \<Rightarrow> Some None
      | Some _ \<Rightarrow> do {
          n \<leftarrow> deref h p;
          if n_type n = EMPTY_NODE then nodes2string h p else node2string h p
        })"

fun rval2string :: "heap \<Rightarrow> rvalue \<Rightarrow> cstring option option" where
  "rval2string h VAL_NULL = Some None"
| "rval2string h (VAL_INT i) = Some (Some (show_long i))"
| "rval2string h (VAL_BOOL i) = Some (Some (if i \<noteq> 0 then ''true'' else ''false''))"
| "rval2string h (VAL_NUMBER d) = map_option Some (number2string d)"
| "rval2string h (VAL_STRING s) = Some s"
| "rval2string h (VAL_NODESET p) = nodeset2string h p"

definition string2number :: "cstring option \<Rightarrow> double" where
  "string2number s =
     (case s of
        None \<Rightarrow> d_zero
      | Some c \<Rightarrow>
          (let n = dropWhile x_is_ws c; p = (if peek n = CHR ''-'' then tl n else n)
           in if peek p = CHR ''.'' \<or> is_digit_char (peek p) then strtod n else d_quiet_nan))"

fun rval2number :: "heap \<Rightarrow> rvalue \<Rightarrow> double option" where
  "rval2number h VAL_NULL = Some d_quiet_nan"
| "rval2number h (VAL_BOOL i) = Some (d_of_int (if i \<noteq> 0 then 1 else 0))"
| "rval2number h (VAL_INT i) = Some (d_of_int i)"
| "rval2number h (VAL_NUMBER d) = Some d"
| "rval2number h (VAL_STRING s) = Some (string2number s)"
| "rval2number h (VAL_NODESET p) =
     (case p of
        None \<Rightarrow> Some d_quiet_nan
      | Some a \<Rightarrow> do {
          n \<leftarrow> deref h p;
          s \<leftarrow> node2string h (case n_children n of None \<Rightarrow> p | Some c \<Rightarrow> Some c);
          Some (case s of None \<Rightarrow> d_quiet_nan | Some c \<Rightarrow> string2number (Some c))
        })"

subsection \<open>Order\<close>

definition rval_compare :: "heap \<Rightarrow> rvalue \<Rightarrow> rvalue \<Rightarrow> double option" where
  "rval_compare h left right =
     (if left = VAL_NULL then Some (if right = VAL_NULL then d_zero else d_of_int (-1))
      else if right = VAL_NULL then Some (d_of_int 1)
      else do {
        ld \<leftarrow> rval2number h left;
        rd \<leftarrow> rval2number h right;
        Some (if d_isnan ld \<or> d_isnan rd then d_quiet_nan
              else if d_less ld rd then d_of_int (-1)
              else if d_less rd ld then d_of_int 1
              else d_zero)
      })"

definition rval_less :: "heap \<Rightarrow> rvalue \<Rightarrow> rvalue \<Rightarrow> bool option" where
  "rval_less h left right = do {
     r \<leftarrow> rval_compare h left right; Some (if d_isnan r then False else d_less r d_zero)
   }"

definition rval_less_or_equal :: "heap \<Rightarrow> rvalue \<Rightarrow> rvalue \<Rightarrow> bool option" where
  "rval_less_or_equal h left right = do {
     r \<leftarrow> rval_compare h left right; Some (if d_isnan r then False else d_less r d_zero \<or> d_eq r d_zero)
   }"

definition rval_greater :: "heap \<Rightarrow> rvalue \<Rightarrow> rvalue \<Rightarrow> bool option" where
  "rval_greater h left right = do {
     r \<leftarrow> rval_compare h left right; Some (if d_isnan r then False else d_less d_zero r)
   }"

definition rval_greater_or_equal :: "heap \<Rightarrow> rvalue \<Rightarrow> rvalue \<Rightarrow> bool option" where
  "rval_greater_or_equal h left right = do {
     r \<leftarrow> rval_compare h left right; Some (if d_isnan r then False else d_less d_zero r \<or> d_eq r d_zero)
   }"

subsection \<open>Equality\<close>

text \<open>A loop over a list that ends with the first node for which the test holds.\<close>

fun exists_loop :: "nat \<Rightarrow> heap \<Rightarrow> (ref \<Rightarrow> bool option) \<Rightarrow> ref option \<Rightarrow> bool option" where
  "exists_loop k h test None = Some False"
| "exists_loop 0 h test (Some a) = None"
| "exists_loop (Suc k) h test (Some a) = do {
     b \<leftarrow> test a;
     if b then Some True else do { n \<leftarrow> deref h (Some a); exists_loop k h test (n_next n) }
   }"

text \<open>\<open>eq ? a == b : a != b\<close>\<close>

definition eq_or_ne :: "bool \<Rightarrow> bool \<Rightarrow> bool" where
  "eq_or_ne eq b = (if eq then b else \<not> b)"

fun nodeset_equal_test :: "heap \<Rightarrow> rvalue \<Rightarrow> bool \<Rightarrow> ref \<Rightarrow> bool option" where
  "nodeset_equal_test h (VAL_NUMBER a) eq p =
     do { b \<leftarrow> rval2number h (VAL_NODESET (Some p)); Some (eq_or_ne eq (d_eq a b)) }"
| "nodeset_equal_test h (VAL_INT i) eq p =
     do { b \<leftarrow> rval2number h (VAL_NODESET (Some p)); Some (eq_or_ne eq (d_eq (d_of_int i) b)) }"
| "nodeset_equal_test h (VAL_STRING s) eq p =
     do { t \<leftarrow> rval2string h (VAL_NODESET (Some p)); Some (eq_or_ne eq (xml_strcmp s t = 0)) }"
| "nodeset_equal_test h v eq p = Some False"

definition nodeset_equal_common :: "heap \<Rightarrow> rvalue \<Rightarrow> ref option \<Rightarrow> bool \<Rightarrow> bool option" where
  "nodeset_equal_common h v nodeset eq =
     (case nodeset of
        None \<Rightarrow> Some False
      | Some a \<Rightarrow> do {
          n \<leftarrow> deref h nodeset;
          exists_loop (length h) h (nodeset_equal_test h v eq)
            (if n_type n = EMPTY_NODE \<and> n_children n \<noteq> None then n_children n else nodeset)
        })"

definition nodesets_equal :: "heap \<Rightarrow> ref option \<Rightarrow> ref option \<Rightarrow> bool \<Rightarrow> bool option" where
  "nodesets_equal h left right eq =
     exists_loop (length h) h (\<lambda>ln. do {
       l \<leftarrow> node2string h (Some ln);
       exists_loop (length h) h (\<lambda>rn. do {
         r \<leftarrow> node2string h (Some rn);
         Some (eq_or_ne eq (xml_strcmp l r = 0))
       }) right
     }) left"

definition rval_equal :: "heap \<Rightarrow> rvalue \<Rightarrow> rvalue \<Rightarrow> bool \<Rightarrow> bool option" where
  "rval_equal h left right eq =
     (case (left, right) of
        (VAL_NULL, _) \<Rightarrow> Some False
      | (_, VAL_NULL) \<Rightarrow> Some False
      | (VAL_BOOL _, _) \<Rightarrow> Some (eq_or_ne eq (rval2bool left = rval2bool right))
      | (_, VAL_BOOL _) \<Rightarrow> Some (eq_or_ne eq (rval2bool left = rval2bool right))
      | (VAL_NODESET l, VAL_NODESET r) \<Rightarrow> nodesets_equal h l r eq
      | (VAL_NODESET l, _) \<Rightarrow> nodeset_equal_common h right l eq
      | (_, VAL_NODESET r) \<Rightarrow> nodeset_equal_common h left r eq
      | (VAL_STRING l, VAL_STRING r) \<Rightarrow> Some (eq_or_ne eq (xml_strcmp l r = 0))
      | _ \<Rightarrow> do {
          ld \<leftarrow> rval2number h left;
          rd \<leftarrow> rval2number h right;
          Some (eq_or_ne eq (d_eq ld rd))
        })"

subsection \<open>Properties\<close>

lemma d_const_order [simp]:
  "d_less (d_of_int (- 1)) d_zero" "\<not> d_less d_zero (d_of_int (- 1))" "\<not> d_eq (d_of_int (- 1)) d_zero"
  "d_less d_zero (d_of_int 1)" "\<not> d_less (d_of_int 1) d_zero" "\<not> d_eq (d_of_int 1) d_zero"
  "d_eq d_zero d_zero" "\<not> d_less d_zero d_zero"
  "\<not> d_isnan (d_of_int (- 1))" "\<not> d_isnan (d_of_int 1)" "\<not> d_isnan d_zero" "d_isnan d_quiet_nan"
  by (simp_all add: d_of_int_exact d_zero_def d_quiet_nan_def sval_def)

lemma d_less_asym: "d_less x y \<Longrightarrow> \<not> d_less y x"
  by (cases "(x, y)" rule: d_less.cases) auto

lemmas rval_order_defs = rval_compare_def rval_less_def rval_less_or_equal_def rval_greater_def
  rval_greater_or_equal_def

text \<open>
  The four order tests are two tests and their converses: \<open>left < right\<close> is \<open>right > left\<close> and
  \<open>left <= right\<close> is \<open>right >= left\<close>, for all values, NaN, NULL and nodesets included.
\<close>

theorem rval_order_dual:
  "rval_less h left right = rval_greater h right left \<and>
   rval_less_or_equal h left right = rval_greater_or_equal h right left"
  by (intro conjI; cases "rval2number h left"; cases "rval2number h right";
      auto simp: rval_order_defs dest: d_less_asym split: if_splits)

lemma integer_string:
  assumes "rval2string h (VAL_INT i) = Some s"
  shows "rval2number h (VAL_STRING s) = rval2number h (VAL_INT i)"
    and "\<bar>i\<bar> \<le> 2 ^ 53 \<longrightarrow> rval2string h (VAL_NUMBER (d_of_int i)) = Some s"
proof -
  obtain d r where d: "d < 10" "show_nat (nat \<bar>i\<bar>) = digit_char d # r" using show_nat_hd by blast
  have ws: "\<not> x_is_ws (digit_char d)" using digit_char_props(3)[OF d(1)]
    by (auto simp: x_is_ws_def is_space_def char_between_def)
  have neg: "\<not> x_is_ws CHR ''-''" by (simp add: x_is_ws_def)
  have "string2number (Some (show_long i)) = strtod (show_long i)"
    using d digit_char_props[OF d(1)] ws neg by (auto simp: string2number_def show_long_def)
  with assms show "rval2number h (VAL_STRING s) = rval2number h (VAL_INT i)" by (auto simp: strtod_show_long)
  show "\<bar>i\<bar> \<le> 2 ^ 53 \<longrightarrow> rval2string h (VAL_NUMBER (d_of_int i)) = Some s"
  proof
    assume i: "\<bar>i\<bar> \<le> 2 ^ 53"
    have "(of_int \<bar>i\<bar> + 1 / 2 :: rat) = of_int \<bar>i\<bar> + 1 / 2" ..
    moreover have "\<lfloor>(of_int \<bar>i\<bar> + 1 / 2 :: rat)\<rfloor> = \<bar>i\<bar>" by (rule floor_unique) simp_all
    ultimately have "d_to_long (d_round (d_of_int i)) = Some i"
      using i by (auto simp: d_of_int_exact d_to_long_def Let_def simp del: of_int_abs)
    with i assms show "rval2string h (VAL_NUMBER (d_of_int i)) = Some s"
      by (auto simp: number2string_def d_of_int_exact d_zero_def sval_def)
  qed
qed

text \<open>
  Integers survive \<open>number(string(i))\<close>: the decimal text an integer is printed to is read back as
  the same number, and a number that is an integer of at most 53 bits is printed as that integer.
\<close>

theorem integer_string_roundtrip:
  assumes "rval2string h (VAL_INT i) = Some s"
  shows "rval2number h (VAL_STRING s) = rval2number h (VAL_INT i) \<and>
    (\<bar>i\<bar> \<le> 2 ^ 53 \<longrightarrow> rval2string h (VAL_NUMBER (d_of_int i)) = Some s)"
  using integer_string[OF assms] by blast

text \<open>
  The strings that a comparison sees for the nodes of a list: the content of a text or attribute node; for another node
  the text of everything from it to the end of the list.
\<close>

fun list_strings :: "heap \<Rightarrow> xtree list \<Rightarrow> cstring list" where
  "list_strings h [] = []"
| "list_strings h (XT a ks # ts) =
     (if n_type (h ! a) = TEXT_NODE \<or> n_type (h ! a) = ATTRIBUTE_NODE then (case n_content (h ! a) of None \<Rightarrow> [] | Some c \<Rightarrow> c)
      else forest_text h (XT a ks # ts)) # list_strings h ts"

text \<open>No grouping node in the list, and texts and attributes have contents.\<close>

fun list_valued :: "heap \<Rightarrow> xtree list \<Rightarrow> bool" where
  "list_valued h [] = True"
| "list_valued h (XT a ks # ts) \<longleftrightarrow> n_type (h ! a) \<noteq> EMPTY_NODE \<and>
     (n_type (h ! a) = TEXT_NODE \<or> n_type (h ! a) = ATTRIBUTE_NODE \<longrightarrow> n_content (h ! a) \<noteq> None) \<and> list_valued h ts"

lemma string_test:
  assumes "forest_at h (Some a) (XT a ks # ts)" "list_valued h (XT a ks # ts)"
  shows "nodeset_equal_test h (VAL_STRING s) eq a = Some ((Some (hd (list_strings h (XT a ks # ts))) = s) = eq)"
proof -
  have "(xml_strcmp s t = 0) = (t = s)" for t by (cases s; cases t; auto simp: strcmp_eq_0)
  then show ?thesis using assms add_node_str_forest[OF assms(1), of "[]"]
    by (auto simp: nodeset2string_def node2string_def eq_or_ne_def split: if_splits)
qed

lemma string_tests:
  "forest_at h p ts \<Longrightarrow> list_valued h ts \<Longrightarrow> length ts \<le> k \<Longrightarrow>
   exists_loop k h (nodeset_equal_test h (VAL_STRING s) eq) p = Some (\<exists>t\<in>set (list_strings h ts). (Some t = s) = eq)"
proof (induction h p ts arbitrary: k rule: forest_at.induct)
  case (2 h p a ks ts)
  then obtain k' where k: "k = Suc k'" by (cases k) auto
  have "nodeset_equal_test h (VAL_STRING s) eq a = Some ((Some (hd (list_strings h (XT a ks # ts))) = s) = eq)"
    using 2(3,4) by (intro string_test) auto
  with 2 k show ?case by auto
qed simp

text \<open>
  C30: Comparing a nodeset with a string, on either side: \<open>=\<close> holds when some node of the list gives that string and
  \<open>!=\<close> when some node gives another one, so that both may hold. The string that a text or attribute node gives is its
  content. That of an element is not its string value but the text from it to the end of the list, since the nodes of a
  selection are still linked when they are converted: \<open>=\<close> with the text of an element that is not the last fails.
\<close>

theorem nodeset_string_equality:
  assumes "forest_at h (Some a) ts" "list_valued h ts"
  shows "rval_equal h (VAL_NODESET (Some a)) (VAL_STRING s) eq = Some (\<exists>t\<in>set (list_strings h ts). (Some t = s) = eq) \<and>
    rval_equal h (VAL_STRING s) (VAL_NODESET (Some a)) eq = Some (\<exists>t\<in>set (list_strings h ts). (Some t = s) = eq)"
proof -
  obtain ks us where ts: "ts = XT a ks # us" using assms(1) by (cases "(h, Some a, ts)" rule: forest_at.cases) auto
  have "length ts \<le> length h" using linked_length[OF forest_linked[OF assms(1)]] by simp
  from string_tests[OF assms this] show ?thesis using assms
    by (simp add: rval_equal_def nodeset_equal_common_def ts)
qed

theorem integer_string_roundtrip_witness:
  "rval2number doc1 (VAL_STRING (Some ''-7'')) = rval2number doc1 (VAL_INT (-7))"
proof -
  have "rval2string doc1 (VAL_INT (-7)) = Some (Some ''-7'')"
    by (simp add: show_long_def show_nat.simps[of 7] digit_char_def)
  from integer_string_roundtrip[OF this] show ?thesis by blast
qed

text \<open>The selection of two elements \<open><a>x</a><a>y</a>\<close>: it is \<open>'xy'\<close> and \<open>'y'\<close> but not \<open>'x'\<close>.\<close>

definition doc2 :: heap where
  "doc2 = [
     mk_node ELEMENT_NODE (Some ''a'') None None (Some 1) None (Some 2),
     mk_node TEXT_NODE None (Some ''x'') (Some 0) None None None,
     mk_node ELEMENT_NODE (Some ''a'') None None (Some 3) (Some 0) None,
     mk_node TEXT_NODE None (Some ''y'') (Some 2) None None None]"

theorem nodeset_string_equality_witness:
  "rval_equal doc2 (VAL_NODESET (Some 0)) (VAL_STRING (Some ''xy'')) True = Some True \<and>
   rval_equal doc2 (VAL_STRING (Some ''y'')) (VAL_NODESET (Some 0)) True = Some True \<and>
   rval_equal doc2 (VAL_NODESET (Some 0)) (VAL_STRING (Some ''x'')) True = Some False"
proof -
  let ?t = "[XT 0 [XT 1 []], XT 2 [XT 3 []]]"
  have doc: "forest_at doc2 (Some 0) ?t" "list_valued doc2 ?t" "list_strings doc2 ?t = [''xy'', ''y'']"
    by (simp_all add: doc2_def numeral_eq_Suc)
  from nodeset_string_equality[OF doc(1,2)] show ?thesis unfolding doc(3) by simp
qed

end
