(* ===== verification/Tx_XPathParse.thy ===== *)
theory Tx_XPathParse
  imports Tx_Nodes
begin

text \<open>
  xpath.c 986-1605: the XPath compiler, a recursive descent over the text. A parser takes the
  text from the current position and returns the tree it built (or a NULL pointer, \<open>None\<close>) with the rest of the
  text. The outer \<open>None\<close> stands for a NULL dereference or an access behind the end of the text,
  and for a run that uses up the fuel.
\<close>

type_synonym parser = "cstring \<Rightarrow> (xpath_expr option \<times> cstring) option"

definition new_expr :: "nodetype \<Rightarrow> cstring option \<Rightarrow> xpath_expr list \<Rightarrow> xpath_expr" where
  "new_expr ty name kids = XE ty name None 0 None kids"

definition opt_list :: "'a option \<Rightarrow> 'a list" where
  "opt_list p = (case p of None \<Rightarrow> [] | Some x \<Rightarrow> [x])"

subsection \<open>Scanning\<close>

definition skip_ws :: "cstring \<Rightarrow> cstring" where
  "skip_ws s = dropWhile x_is_ws s"

text \<open>
  \<open>match\<close>: whether the text starts with the pattern, and the text behind it. A space of the pattern
  also matches any white space and an opening parenthesis.
\<close>

fun match :: "cstring \<Rightarrow> cstring \<Rightarrow> cstring option" where
  "match s [] = Some s"
| "match s (c # pat) =
     (if peek s = c \<or> c = CHR '' '' \<and> (x_is_ws (peek s) \<or> peek s = CHR ''('') then match (tl s) pat else None)"

text \<open>
  \<open>for(e = p+1; *e && x_is_namechar( *e); ++e)\<close>: the name takes its first character unseen; at
  the end of the text the loop starts behind the terminating NUL.
\<close>

definition scan_name :: "cstring \<Rightarrow> (cstring \<times> cstring) option" where
  "scan_name s = (case s of [] \<Rightarrow> None | c # r \<Rightarrow> Some (c # takeWhile x_is_namechar r, dropWhile x_is_namechar r))"

definition do_var_expr :: "nodetype \<Rightarrow> parser" where
  "do_var_expr t s = do {
     (name, s1) \<leftarrow> scan_name s;
     Some (Some (new_expr t (Some name) []), skip_ws s1)
   }"

subsection \<open>Steps of a location path\<close>

definition axis_names :: "(cstring \<times> nodetype) list" where
  "axis_names =
     [(''child::'', XPATH_NODE_SELECT), (''descendant::'', XPATH_NODE_DESCENDANT), (''attribute::'', XPATH_NODE_ATTR),
      (''self::'', XPATH_NODE_SELF), (''descendant-or-self::'', XPATH_NODE_DESCENDANT_OR_SELF),
      (''following-sibling::'', XPATH_NODE_FOLLOWING_SIBLING), (''following::'', XPATH_NODE_FOLLOWING),
      (''parent::'', XPATH_NODE_PARENT), (''ancestor::'', XPATH_NODE_ANCESTOR),
      (''preceding-sibling::'', XPATH_NODE_PRECEDING_SIBLING), (''preceding::'', XPATH_NODE_PRECEDING),
      (''ancestor-or-self::'', XPATH_NODE_ANCESTOR_OR_SELF)]"

fun match_axis :: "(cstring \<times> nodetype) list \<Rightarrow> cstring \<Rightarrow> (nodetype \<times> cstring) option" where
  "match_axis [] s = None"
| "match_axis ((pat, ty) # r) s = (case match s pat of Some s1 \<Rightarrow> Some (ty, s1) | None \<Rightarrow> match_axis r s)"

text \<open>\<open>while ( *string->p != ')') ++(string->p);\<close>\<close>

fun find_close :: "cstring \<Rightarrow> cstring option" where
  "find_close [] = None"
| "find_close (c # r) = (if c = CHR '')'' then Some (c # r) else find_close r)"

definition axis_step :: "nodetype \<Rightarrow> parser" where
  "axis_step ty s =
     (if peek s = CHR ''*'' then Some (Some (new_expr ty None []), tl s)
      else do {
        (name, s1) \<leftarrow> scan_name s;
        if peek s1 = CHR ''(''
        then do {
          s2 \<leftarrow> find_close s1;
          Some (Some (XE ty None None 0 (Some (XPATH_NODE_CALL, Some name)) []), s2)
        }
        else Some (Some (XE ty (Some name) None 0 (Some (EMPTY_NODE, Some name)) []), s1)
      })"

text \<open>The arguments of a call, from behind the opening parenthesis or a comma.\<close>

fun call_args :: "nat \<Rightarrow> parser \<Rightarrow> xpath_expr list \<Rightarrow> cstring \<Rightarrow> (xpath_expr list \<times> cstring) option" where
  "call_args 0 do_or args s = None"
| "call_args (Suc k) do_or args s =
     (let s1 = skip_ws s in
      if peek s1 = CHR '')'' then Some (args, tl s1)
      else do {
        (argument, s2) \<leftarrow> do_or s1;
        let s3 = skip_ws s2;
        call_args k do_or (args @ opt_list argument) (if peek s3 = CHR '','' then tl s3 else s3)
      })"

text \<open>The end of \<open>do_select_expr\<close>: a name, or a call when a parenthesis follows.\<close>

definition name_step :: "nat \<Rightarrow> parser \<Rightarrow> bool \<Rightarrow> parser" where
  "name_step k do_or attr s = do {
     (name, s1) \<leftarrow> scan_name s;
     let s2 = skip_ws s1;
     if peek s2 = CHR ''(''
     then do {
       (args, s3) \<leftarrow> call_args k do_or [] (tl s2);
       Some (Some (new_expr XPATH_NODE_CALL (Some name) args), s3)
     }
     else Some (Some (if attr then new_expr XPATH_NODE_ATTR (Some name) []
                      else XE XPATH_NODE_SELECT (Some name) None 0 (Some (EMPTY_NODE, Some name)) []), s2)
   }"

definition do_select_expr :: "nat \<Rightarrow> parser \<Rightarrow> parser" where
  "do_select_expr k do_or str =
     (let s = skip_ws str in
      if peek s = CHR ''*'' then Some (Some (new_expr XPATH_NODE_ALL None []), tl s)
      else if peek s = CHR ''.'' then
        (if peek (tl s) = CHR ''.'' then Some (Some (new_expr XPATH_NODE_PARENT None []), tl (tl s))
         else Some (Some (new_expr XPATH_NODE_SELF None []), tl s))
      else if peek s = CHR ''/'' then
        Some (Some (new_expr XPATH_NODE_DESCENDANT None []), if peek (tl s) = CHR ''*'' then tl (tl s) else s)
      else if peek s = CHR ''@'' then
        (if peek (tl s) = CHR ''*'' then Some (Some (new_expr XPATH_NODE_ATTR_ALL None []), tl (tl s))
         else name_step k do_or True (tl s))
      else (case match_axis axis_names s of
          Some (ty, s1) \<Rightarrow> axis_step ty s1
        | None \<Rightarrow> name_step k do_or False s))"

subsection \<open>Primary expressions\<close>

definition set_children :: "xpath_expr \<Rightarrow> xpath_expr list \<Rightarrow> xpath_expr" where
  "set_children e kids = XE (xe_type e) (xe_name e) (xe_content e) (xe_int e) (xe_kind e) kids"

text \<open>The characters of a number: the first one unseen, digits, an optional point, digits.\<close>

definition scan_number :: "cstring \<Rightarrow> cstring \<times> bool \<times> cstring" where
  "scan_number s =
     (let p1 = take 1 s @ takeWhile is_digit_char (tl s); r1 = dropWhile is_digit_char (tl s);
          point = (peek r1 = CHR ''.''); r2 = (if point then tl r1 else r1)
      in (p1 @ (if point then ''.'' else []) @ takeWhile is_digit_char r2, point, dropWhile is_digit_char r2))"

definition do_node2_expr :: "nat \<Rightarrow> parser \<Rightarrow> parser" where
  "do_node2_expr k do_or str =
     (let s = skip_ws str in
      if peek s = CHR 0x27 then
        (let q = takeWhile (\<lambda>c. c \<noteq> CHR 0x27) (tl s); r = dropWhile (\<lambda>c. c \<noteq> CHR 0x27) (tl s)
         in Some (Some (XE TEXT_NODE None (Some q) 0 None []), skip_ws (tl r)))
      else if peek s = CHR ''('' then do {
        (node1, s1) \<leftarrow> do_or (tl s);
        let s2 = skip_ws s1;
        Some (node1, if peek s2 = CHR '')'' then skip_ws (tl s2) else s2)
      }
      else if x_can_number s then
        (let (number, point, r) = scan_number s
         in Some (Some (if point then XE TEXT_NODE None (Some number) 0 None []
                        else XE XPATH_NODE_INT None None (atol number) None []), skip_ws r))
      else if peek s = CHR ''$'' then do_var_expr XPATH_NODE_VAR (tl s)
      else if peek s = CHR ''@'' then
        (if peek (tl s) = CHR ''*'' then Some (Some (new_expr XPATH_NODE_ATTR_ALL None []), tl (tl s))
         else do_var_expr XPATH_NODE_ATTR (tl s))
      else if x_is_selchar (peek s) then do {
        let (nt, s1) = (if peek s = CHR ''/'' then (XPATH_NODE_ROOT, tl s) else (XPATH_NODE_CONTEXT, s));
        (node, s2) \<leftarrow> do_select_expr k do_or s1;
        node1 \<leftarrow> node;
        Some (Some (if xe_type node1 = XPATH_NODE_SELECT \<or> xe_type node1 = XPATH_NODE_DESCENDANT
                    then set_children node1 [new_expr nt None []] else node1), s2)
      }
      else Some (None, s))"

text \<open>Steps and predicates behind a primary expression. A predicate on a NULL pointer is a crash.\<close>

fun node_loop :: "nat \<Rightarrow> parser \<Rightarrow> xpath_expr option \<Rightarrow> parser" where
  "node_loop 0 do_or node1 s = None"
| "node_loop (Suc k) do_or node1 str =
     (let s = skip_ws str in
      if peek s = CHR ''/'' then do {
        (node, s1) \<leftarrow> do_select_expr k do_or (tl s);
        node2 \<leftarrow> node;
        node_loop k do_or (Some (set_children node2 (opt_list node1))) s1
      }
      else if peek s = CHR ''['' then do {
        (node2, s1) \<leftarrow> do_or (tl s);
        let s2 = skip_ws s1;
        n1 \<leftarrow> node1;
        node_loop k do_or (Some (new_expr XPATH_NODE_FILTER None (n1 # opt_list node2)))
          (if peek s2 = CHR '']'' then tl s2 else s2)
      }
      else Some (node1, s))"

definition do_node_expr :: "nat \<Rightarrow> parser \<Rightarrow> parser" where
  "do_node_expr k do_or s = do {
     (node1, s1) \<leftarrow> do_node2_expr k do_or s;
     node_loop k do_or node1 s1
   }"

subsection \<open>Operators\<close>

text \<open>
  \<open>do { node1->next = ..; node1 = node1->next; .. } while(node1 && match(.., pattern))\<close> behind the first
  operand and the first operator.
\<close>

fun nary_loop :: "nat \<Rightarrow> cstring \<Rightarrow> parser \<Rightarrow> xpath_expr list \<Rightarrow> cstring \<Rightarrow> (xpath_expr list \<times> cstring) option" where
  "nary_loop 0 pat operand nodes s = None"
| "nary_loop (Suc k) pat operand nodes s = do {
     (node1, s1) \<leftarrow> operand s;
     let s2 = skip_ws s1;
     (case node1 of
        None \<Rightarrow> Some (nodes, s2)
      | Some n \<Rightarrow>
          (case match s2 pat of
             Some s3 \<Rightarrow> nary_loop k pat operand (nodes @ [n]) s3
           | None \<Rightarrow> Some (nodes @ [n], s2)))
   }"

definition nary_expr :: "nat \<Rightarrow> nodetype \<Rightarrow> cstring \<Rightarrow> parser \<Rightarrow> parser" where
  "nary_expr k ty pat operand s = do {
     (node1, s1) \<leftarrow> operand s;
     let s2 = skip_ws s1;
     (case match s2 pat of
        None \<Rightarrow> Some (node1, s2)
      | Some s3 \<Rightarrow> do {
          n \<leftarrow> node1;
          (nodes, s4) \<leftarrow> nary_loop k pat operand [n] (skip_ws s3);
          Some (Some (new_expr ty None nodes), s4)
        })
   }"

text \<open>The loops of the left associative operators; \<open>op\<close> recognises an operator.\<close>

fun binary_loop :: "nat \<Rightarrow> (cstring \<Rightarrow> (nodetype \<times> cstring) option) \<Rightarrow> parser \<Rightarrow> xpath_expr option \<Rightarrow> parser" where
  "binary_loop 0 op operand node1 s = None"
| "binary_loop (Suc k) op operand node1 str =
     (let s = skip_ws str in
      case op s of
        None \<Rightarrow> Some (node1, s)
      | Some (ty, s1) \<Rightarrow> do {
          (node2, s2) \<leftarrow> operand (skip_ws s1);
          n1 \<leftarrow> node1;
          binary_loop k op operand (Some (new_expr ty None (n1 # opt_list node2))) s2
        })"

definition do_union_expr :: "nat \<Rightarrow> parser \<Rightarrow> parser" where
  "do_union_expr k do_or s = nary_expr k XPATH_NODE_UNION ''|'' (do_node_expr k do_or) (skip_ws s)"

fun do_not_expr :: "nat \<Rightarrow> parser \<Rightarrow> parser" where
  "do_not_expr 0 do_or s = None"
| "do_not_expr (Suc k) do_or str =
     (let s = skip_ws str in
      case match s ''not'' of
        Some s1 \<Rightarrow>
          (if peek s1 = CHR ''('' \<or> x_is_ws (peek s1)
           then do {
             (node, s2) \<leftarrow> do_not_expr k do_or (skip_ws s1);
             Some (Some (new_expr XPATH_NODE_NOT None (opt_list node)), s2)
           }
           else do_union_expr k do_or s)
      | None \<Rightarrow> do_union_expr k do_or s)"

definition mul_op :: "cstring \<Rightarrow> (nodetype \<times> cstring) option" where
  "mul_op s =
     (if peek s = CHR ''*'' then Some (XPATH_NODE_MUL, tl s)
      else case match s ''div '' of
        Some s1 \<Rightarrow> Some (XPATH_NODE_DIV, s1)
      | None \<Rightarrow> map_option (Pair XPATH_NODE_MOD) (match s ''mod ''))"

definition do_mul_expr :: "nat \<Rightarrow> parser \<Rightarrow> parser" where
  "do_mul_expr k do_or s = do {
     (node1, s1) \<leftarrow> do_not_expr k do_or s;
     binary_loop k mul_op (do_not_expr k do_or) node1 s1
   }"

definition add_op :: "cstring \<Rightarrow> (nodetype \<times> cstring) option" where
  "add_op s =
     (if peek s = CHR ''+'' then Some (XPATH_NODE_ADD, tl s)
      else if peek s = CHR ''-'' then Some (XPATH_NODE_SUB, tl s) else None)"

definition do_add_expr :: "nat \<Rightarrow> parser \<Rightarrow> parser" where
  "do_add_expr k do_or s = do {
     (node1, s1) \<leftarrow> do_mul_expr k do_or s;
     binary_loop k add_op (do_mul_expr k do_or) node1 s1
   }"

definition rel_op :: "cstring \<Rightarrow> (nodetype \<times> cstring) option" where
  "rel_op s =
     (case match s ''<='' of Some s1 \<Rightarrow> Some (XPATH_NODE_LE, s1)
      | None \<Rightarrow> (case match s ''>='' of Some s1 \<Rightarrow> Some (XPATH_NODE_GE, s1)
      | None \<Rightarrow> (case match s ''<'' of Some s1 \<Rightarrow> Some (XPATH_NODE_LT, s1)
      | None \<Rightarrow> map_option (Pair XPATH_NODE_GT) (match s ''>''))))"

definition do_rel_expr :: "nat \<Rightarrow> parser \<Rightarrow> parser" where
  "do_rel_expr k do_or s = do {
     (node1, s1) \<leftarrow> do_add_expr k do_or s;
     binary_loop k rel_op (do_add_expr k do_or) node1 s1
   }"

definition eq_op :: "cstring \<Rightarrow> (nodetype \<times> cstring) option" where
  "eq_op s =
     (if peek s = CHR ''='' then Some (XPATH_NODE_EQ, tl s)
      else if peek s = CHR ''!'' \<and> peek (tl s) = CHR ''='' then Some (XPATH_NODE_NE, tl (tl s)) else None)"

definition do_eq_expr :: "nat \<Rightarrow> parser \<Rightarrow> parser" where
  "do_eq_expr k do_or s = do {
     (node1, s1) \<leftarrow> do_rel_expr k do_or s;
     binary_loop k eq_op (do_rel_expr k do_or) node1 s1
   }"

definition do_and_expr :: "nat \<Rightarrow> parser \<Rightarrow> parser" where
  "do_and_expr k do_or s = nary_expr k XPATH_NODE_AND ''and '' (do_eq_expr k do_or) s"

primrec do_or_expr :: "nat \<Rightarrow> parser" where
  "do_or_expr 0 s = None"
| "do_or_expr (Suc k) s = nary_expr k XPATH_NODE_OR ''or '' (do_and_expr k (do_or_expr k)) (skip_ws s)"

definition xpath_compile :: "nat \<Rightarrow> cstring \<Rightarrow> xpath_expr option option" where
  "xpath_compile fuel expr = map_option fst (do_or_expr fuel expr)"

end
