(* ===== verification/Tx_XPathPrint.thy ===== *)
theory Tx_XPathPrint
  imports Tx_XPathParse
begin

text \<open>
  The compiler against a printer: operator expressions written with all their parentheses compile
  to the tree that was written. The fuel that is enough is the nesting depth plus 3.
\<close>

datatype operator = O_or | O_and | O_eq | O_ne | O_lt | O_le | O_gt | O_ge | O_add | O_sub | O_mul | O_div | O_mod

fun op_text :: "operator \<Rightarrow> cstring" where
  "op_text O_or = ''or ''"
| "op_text O_and = ''and ''"
| "op_text O_eq = ''= ''"
| "op_text O_ne = ''!= ''"
| "op_text O_lt = ''< ''"
| "op_text O_le = ''<= ''"
| "op_text O_gt = ''> ''"
| "op_text O_ge = ''>= ''"
| "op_text O_add = ''+ ''"
| "op_text O_sub = ''- ''"
| "op_text O_mul = ''* ''"
| "op_text O_div = ''div ''"
| "op_text O_mod = ''mod ''"

fun op_type :: "operator \<Rightarrow> nodetype" where
  "op_type O_or = XPATH_NODE_OR"
| "op_type O_and = XPATH_NODE_AND"
| "op_type O_eq = XPATH_NODE_EQ"
| "op_type O_ne = XPATH_NODE_NE"
| "op_type O_lt = XPATH_NODE_LT"
| "op_type O_le = XPATH_NODE_LE"
| "op_type O_gt = XPATH_NODE_GT"
| "op_type O_ge = XPATH_NODE_GE"
| "op_type O_add = XPATH_NODE_ADD"
| "op_type O_sub = XPATH_NODE_SUB"
| "op_type O_mul = XPATH_NODE_MUL"
| "op_type O_div = XPATH_NODE_DIV"
| "op_type O_mod = XPATH_NODE_MOD"

datatype formula = F_int nat | F_str cstring | F_not formula | F_op operator formula formula

text \<open>Integers fit \<open>long\<close>, strings contain no quote (there is no escape for it).\<close>

fun printable :: "formula \<Rightarrow> bool" where
  "printable (F_int n) \<longleftrightarrow> n < 2 ^ 63"
| "printable (F_str s) \<longleftrightarrow> list_all (\<lambda>c. c \<noteq> CHR 0x27) s"
| "printable (F_not e) \<longleftrightarrow> printable e"
| "printable (F_op f l r) \<longleftrightarrow> printable l \<and> printable r"

fun show_formula :: "formula \<Rightarrow> cstring" where
  "show_formula (F_int n) = show_nat n"
| "show_formula (F_str s) = CHR 0x27 # s @ [CHR 0x27]"
| "show_formula (F_not e) = ''not('' @ show_formula e @ '')''"
| "show_formula (F_op f l r) =
     ''('' @ show_formula l @ '') '' @ op_text f @ ''('' @ show_formula r @ '')''"

fun tree_of :: "formula \<Rightarrow> xpath_expr" where
  "tree_of (F_int n) = XE XPATH_NODE_INT None None (int n) None []"
| "tree_of (F_str s) = XE TEXT_NODE None (Some s) 0 None []"
| "tree_of (F_not e) = new_expr XPATH_NODE_NOT None [tree_of e]"
| "tree_of (F_op f l r) = new_expr (op_type f) None [tree_of l, tree_of r]"

fun formula_depth :: "formula \<Rightarrow> nat" where
  "formula_depth (F_int n) = 0"
| "formula_depth (F_str s) = 0"
| "formula_depth (F_not e) = Suc (formula_depth e)"
| "formula_depth (F_op f l r) = Suc (max (formula_depth l) (formula_depth r))"

text \<open>What may follow an expression: nothing, or a closing parenthesis.\<close>

definition stop :: "cstring \<Rightarrow> bool" where
  "stop r \<longleftrightarrow> r = [] \<or> (\<exists>r'. r = CHR '')'' # r')"

lemma stop_simps [simp]: "stop []" "stop (CHR '')'' # r)"
  by (auto simp: stop_def)

lemma skip_ws_simps [simp]:
  "skip_ws [] = []" "x_is_ws c \<Longrightarrow> skip_ws (c # s) = skip_ws s" "\<not> x_is_ws c \<Longrightarrow> skip_ws (c # s) = c # s"
  by (simp_all add: skip_ws_def)

lemma skip_ws_idem [simp]: "skip_ws (skip_ws s) = skip_ws s"
  by (induction s) (auto simp: skip_ws_def)

lemma skip_ws_stop: "stop r \<Longrightarrow> skip_ws r = r"
  by (auto simp: stop_def x_is_ws_def)

lemma op_stop:
  assumes "stop r"
  shows "mul_op r = None" "add_op r = None" "rel_op r = None" "eq_op r = None"
    "match r ''and '' = None" "match r ''or '' = None" "match r ''|'' = None"
  using assms by (auto simp: stop_def mul_op_def add_op_def rel_op_def eq_op_def)

text \<open>A primary expression \<open>A\<close> of the tree \<open>t\<close> in front of \<open>r\<close>.\<close>

definition atom :: "nat \<Rightarrow> parser \<Rightarrow> cstring \<Rightarrow> xpath_expr \<Rightarrow> cstring \<Rightarrow> bool" where
  "atom k do_or A t r \<longleftrightarrow> do_not_expr k do_or A = Some (Some t, r) \<and> skip_ws A = A \<and> skip_ws r = r"

lemma binary_loop_stop: "skip_ws r = r \<Longrightarrow> op r = None \<Longrightarrow> binary_loop (Suc k) op operand n r = Some (n, r)"
  by simp

lemma binary_loop_op:
  assumes "skip_ws r = r" "op r = Some (ty, B)" "operand (skip_ws B) = Some (Some t2, r2)" "skip_ws r2 = r2" "op r2 = None"
  shows "binary_loop (Suc (Suc k)) op operand (Some t1) r = Some (Some (new_expr ty None [t1, t2]), r2)"
  using assms by (simp add: opt_list_def)

text \<open>The operators of the levels below \<open>or\<close>, tried on the text behind an operand.\<close>

definition no_op :: "cstring \<Rightarrow> bool" where
  "no_op r \<longleftrightarrow> mul_op r = None \<and> add_op r = None \<and> rel_op r = None \<and> eq_op r = None \<and>
     match r ''and '' = None \<and> match r ''or '' = None"

lemma no_op_stop: "stop r \<Longrightarrow> no_op r"
  unfolding no_op_def using op_stop by blast

lemma level_mul: "atom (Suc k) f A t r \<Longrightarrow> mul_op r = None \<Longrightarrow> do_mul_expr (Suc k) f A = Some (Some t, r)"
  by (simp add: do_mul_expr_def atom_def del: do_not_expr.simps)

lemma level_mul2:
  assumes "atom (Suc (Suc k)) f A t1 r" "mul_op r = Some (ty, B)" "atom (Suc (Suc k)) f (skip_ws B) t2 r2" "mul_op r2 = None"
  shows "do_mul_expr (Suc (Suc k)) f A = Some (Some (new_expr ty None [t1, t2]), r2)"
  using assms binary_loop_op[of r mul_op ty B "do_not_expr (Suc (Suc k)) f" t2 r2 k t1]
  by (simp add: do_mul_expr_def atom_def del: do_not_expr.simps binary_loop.simps)

lemma level_add:
  "do_mul_expr (Suc k) f A = Some (Some t, r) \<Longrightarrow> skip_ws r = r \<Longrightarrow> add_op r = None \<Longrightarrow>
   do_add_expr (Suc k) f A = Some (Some t, r)"
  by (simp add: do_add_expr_def)

lemma level_add2:
  assumes "do_mul_expr (Suc (Suc k)) f A = Some (Some t1, r)" "skip_ws r = r" "add_op r = Some (ty, B)"
    "do_mul_expr (Suc (Suc k)) f (skip_ws B) = Some (Some t2, r2)" "skip_ws r2 = r2" "add_op r2 = None"
  shows "do_add_expr (Suc (Suc k)) f A = Some (Some (new_expr ty None [t1, t2]), r2)"
  using assms binary_loop_op[of r add_op ty B "do_mul_expr (Suc (Suc k)) f" t2 r2 k t1]
  by (simp add: do_add_expr_def del: binary_loop.simps)

lemma level_rel:
  "do_add_expr (Suc k) f A = Some (Some t, r) \<Longrightarrow> skip_ws r = r \<Longrightarrow> rel_op r = None \<Longrightarrow>
   do_rel_expr (Suc k) f A = Some (Some t, r)"
  by (simp add: do_rel_expr_def)

lemma level_rel2:
  assumes "do_add_expr (Suc (Suc k)) f A = Some (Some t1, r)" "skip_ws r = r" "rel_op r = Some (ty, B)"
    "do_add_expr (Suc (Suc k)) f (skip_ws B) = Some (Some t2, r2)" "skip_ws r2 = r2" "rel_op r2 = None"
  shows "do_rel_expr (Suc (Suc k)) f A = Some (Some (new_expr ty None [t1, t2]), r2)"
  using assms binary_loop_op[of r rel_op ty B "do_add_expr (Suc (Suc k)) f" t2 r2 k t1]
  by (simp add: do_rel_expr_def del: binary_loop.simps)

lemma level_eq:
  "do_rel_expr (Suc k) f A = Some (Some t, r) \<Longrightarrow> skip_ws r = r \<Longrightarrow> eq_op r = None \<Longrightarrow>
   do_eq_expr (Suc k) f A = Some (Some t, r)"
  by (simp add: do_eq_expr_def)

lemma level_eq2:
  assumes "do_rel_expr (Suc (Suc k)) f A = Some (Some t1, r)" "skip_ws r = r" "eq_op r = Some (ty, B)"
    "do_rel_expr (Suc (Suc k)) f (skip_ws B) = Some (Some t2, r2)" "skip_ws r2 = r2" "eq_op r2 = None"
  shows "do_eq_expr (Suc (Suc k)) f A = Some (Some (new_expr ty None [t1, t2]), r2)"
  using assms binary_loop_op[of r eq_op ty B "do_rel_expr (Suc (Suc k)) f" t2 r2 k t1]
  by (simp add: do_eq_expr_def del: binary_loop.simps)

lemma nary_one:
  "operand A = Some (Some t, r) \<Longrightarrow> skip_ws r = r \<Longrightarrow> match r pat = None \<Longrightarrow> nary_expr k ty pat operand A = Some (Some t, r)"
  by (simp add: nary_expr_def)

lemma nary_two:
  assumes "operand A = Some (Some t1, r)" "skip_ws r = r" "match r pat = Some B"
    "operand (skip_ws B) = Some (Some t2, r2)" "skip_ws r2 = r2" "match r2 pat = None"
  shows "nary_expr (Suc k) ty pat operand A = Some (Some (new_expr ty None [t1, t2]), r2)"
  using assms by (simp add: nary_expr_def)

lemma add_of_atom:
  assumes "atom (Suc k) f A t r" "mul_op r = None" "add_op r = None"
  shows "do_add_expr (Suc k) f A = Some (Some t, r)"
  using assms level_add[OF level_mul[OF assms(1,2)]] by (simp add: atom_def)

lemma rel_of_atom:
  assumes "atom (Suc k) f A t r" "mul_op r = None" "add_op r = None" "rel_op r = None"
  shows "do_rel_expr (Suc k) f A = Some (Some t, r)"
  using level_rel[OF add_of_atom[OF assms(1-3)]] assms by (simp add: atom_def)

lemma eq_of_atom:
  assumes "atom (Suc k) f A t r" "mul_op r = None" "add_op r = None" "rel_op r = None" "eq_op r = None"
  shows "do_eq_expr (Suc k) f A = Some (Some t, r)"
  using level_eq[OF rel_of_atom[OF assms(1-4)]] assms by (simp add: atom_def)

lemma and_of_atom:
  assumes "atom (Suc k) f A t r" "mul_op r = None" "add_op r = None" "rel_op r = None" "eq_op r = None"
    "match r ''and '' = None"
  shows "do_and_expr (Suc k) f A = Some (Some t, r)"
  unfolding do_and_expr_def
  by (rule nary_one[where operand = "do_eq_expr (Suc k) f", OF eq_of_atom[OF assms(1-5)] _ assms(6)])
    (use assms(1) in \<open>simp add: atom_def\<close>)

lemma or_of_and:
  assumes "do_and_expr k (do_or_expr k) A = Some (Some t, r)" "skip_ws A = A" "stop r"
  shows "do_or_expr (Suc k) A = Some (Some t, r)"
  using assms(2) nary_one[where operand = "do_and_expr k (do_or_expr k)", OF assms(1) skip_ws_stop[OF assms(3)]
      op_stop(6)[OF assms(3)]] by simp

lemma or_of_eq:
  assumes "do_eq_expr k (do_or_expr k) A = Some (Some t, r)" "skip_ws A = A" "stop r"
  shows "do_or_expr (Suc k) A = Some (Some t, r)"
  by (rule or_of_and[OF _ assms(2,3)])
    (simp only: do_and_expr_def nary_one[where operand = "do_eq_expr k (do_or_expr k)", OF assms(1)
      skip_ws_stop[OF assms(3)] op_stop(5)[OF assms(3)]])

lemma or_of_rel:
  assumes "do_rel_expr (Suc k) (do_or_expr (Suc k)) A = Some (Some t, r)" "skip_ws A = A" "stop r"
  shows "do_or_expr (Suc (Suc k)) A = Some (Some t, r)"
  by (rule or_of_eq[OF level_eq[OF assms(1) skip_ws_stop[OF assms(3)] op_stop(4)[OF assms(3)]] assms(2,3)])

lemma or_of_add:
  assumes "do_add_expr (Suc k) (do_or_expr (Suc k)) A = Some (Some t, r)" "skip_ws A = A" "stop r"
  shows "do_or_expr (Suc (Suc k)) A = Some (Some t, r)"
  by (rule or_of_rel[OF level_rel[OF assms(1) skip_ws_stop[OF assms(3)] op_stop(3)[OF assms(3)]] assms(2,3)])

lemma or_of_mul:
  assumes "do_mul_expr (Suc k) (do_or_expr (Suc k)) A = Some (Some t, r)" "skip_ws A = A" "stop r"
  shows "do_or_expr (Suc (Suc k)) A = Some (Some t, r)"
  by (rule or_of_add[OF level_add[OF assms(1) skip_ws_stop[OF assms(3)] op_stop(2)[OF assms(3)]] assms(2,3)])

lemma or_of_atom:
  assumes "atom (Suc k) (do_or_expr (Suc k)) A t r" "stop r"
  shows "do_or_expr (Suc (Suc k)) A = Some (Some t, r)"
  using or_of_mul[OF level_mul[OF assms(1) op_stop(1)[OF assms(2)]] _ assms(2)] assms(1) by (simp add: atom_def)

text \<open>An operator between two primary expressions, level by level.\<close>

lemma operator_or:
  assumes A: "atom (Suc (Suc k)) (do_or_expr (Suc (Suc k))) A t1 (op_text f @ B)"
    and B: "atom (Suc (Suc k)) (do_or_expr (Suc (Suc k))) B t2 r" and r: "stop r"
  shows "do_or_expr (Suc (Suc (Suc k))) A = Some (Some (new_expr (op_type f) None [t1, t2]), r)"
proof -
  let ?f = "do_or_expr (Suc (Suc k))"
  note st = op_stop[OF r] skip_ws_stop[OF r]
  have A': "skip_ws A = A" "skip_ws (op_text f @ B) = op_text f @ B" and B': "skip_ws B = B"
    using A B by (simp_all add: atom_def)
  have sp: "skip_ws (CHR '' '' # B) = B" using B' by (simp add: x_is_ws_def)
  note Bm = level_mul[OF B st(1)] note Ba = add_of_atom[OF B st(1,2)]
  note Br = rel_of_atom[OF B st(1-3)] note Be = eq_of_atom[OF B st(1-4)] note Bn = and_of_atom[OF B st(1-5)]
  show ?thesis
  proof (cases f)
    case O_or
    have "do_and_expr (Suc (Suc k)) ?f A = Some (Some t1, op_text f @ B)"
      by (rule and_of_atom[OF A]) (simp_all add: O_or mul_op_def add_op_def rel_op_def eq_op_def)
    from nary_two[where operand = "do_and_expr (Suc (Suc k)) ?f", OF this A'(2) _ _ st(8) st(6), of B t2 "Suc k" XPATH_NODE_OR] A' B' Bn show ?thesis by (simp add: O_or)
  next
    case O_and
    have "do_eq_expr (Suc (Suc k)) ?f A = Some (Some t1, op_text f @ B)"
      by (rule eq_of_atom[OF A]) (simp_all add: O_and mul_op_def add_op_def rel_op_def eq_op_def)
    from nary_two[where operand = "do_eq_expr (Suc (Suc k)) ?f", OF this A'(2) _ _ st(8) st(5), of B t2 "Suc k" XPATH_NODE_AND] B' Be
    have "do_and_expr (Suc (Suc k)) ?f A = Some (Some (new_expr (op_type f) None [t1, t2]), r)"
      by (simp add: O_and do_and_expr_def)
    then show ?thesis by (rule or_of_and[OF _ A'(1) r])
  next
    case O_eq
    have "do_rel_expr (Suc (Suc k)) ?f A = Some (Some t1, op_text f @ B)"
      by (rule rel_of_atom[OF A]) (simp_all add: O_eq mul_op_def add_op_def rel_op_def)
    from level_eq2[OF this A'(2) _ _ st(8) st(4), of XPATH_NODE_EQ "CHR '' '' # B" t2] Br
    show ?thesis by (intro or_of_eq[OF _ A'(1) r]) (simp add: O_eq eq_op_def sp)
  next
    case O_ne
    have "do_rel_expr (Suc (Suc k)) ?f A = Some (Some t1, op_text f @ B)"
      by (rule rel_of_atom[OF A]) (simp_all add: O_ne mul_op_def add_op_def rel_op_def)
    from level_eq2[OF this A'(2) _ _ st(8) st(4), of XPATH_NODE_NE "CHR '' '' # B" t2] Br
    show ?thesis by (intro or_of_eq[OF _ A'(1) r]) (simp add: O_ne eq_op_def sp)
  next
    case O_lt
    have "do_add_expr (Suc (Suc k)) ?f A = Some (Some t1, op_text f @ B)"
      by (rule add_of_atom[OF A]) (simp_all add: O_lt mul_op_def add_op_def)
    from level_rel2[OF this A'(2) _ _ st(8) st(3), of XPATH_NODE_LT "CHR '' '' # B" t2] Ba
    show ?thesis by (intro or_of_rel[OF _ A'(1) r]) (simp add: O_lt rel_op_def sp)
  next
    case O_le
    have "do_add_expr (Suc (Suc k)) ?f A = Some (Some t1, op_text f @ B)"
      by (rule add_of_atom[OF A]) (simp_all add: O_le mul_op_def add_op_def)
    from level_rel2[OF this A'(2) _ _ st(8) st(3), of XPATH_NODE_LE "CHR '' '' # B" t2] Ba
    show ?thesis by (intro or_of_rel[OF _ A'(1) r]) (simp add: O_le rel_op_def sp)
  next
    case O_gt
    have "do_add_expr (Suc (Suc k)) ?f A = Some (Some t1, op_text f @ B)"
      by (rule add_of_atom[OF A]) (simp_all add: O_gt mul_op_def add_op_def)
    from level_rel2[OF this A'(2) _ _ st(8) st(3), of XPATH_NODE_GT "CHR '' '' # B" t2] Ba
    show ?thesis by (intro or_of_rel[OF _ A'(1) r]) (simp add: O_gt rel_op_def sp)
  next
    case O_ge
    have "do_add_expr (Suc (Suc k)) ?f A = Some (Some t1, op_text f @ B)"
      by (rule add_of_atom[OF A]) (simp_all add: O_ge mul_op_def add_op_def)
    from level_rel2[OF this A'(2) _ _ st(8) st(3), of XPATH_NODE_GE "CHR '' '' # B" t2] Ba
    show ?thesis by (intro or_of_rel[OF _ A'(1) r]) (simp add: O_ge rel_op_def sp)
  next
    case O_add
    have "do_mul_expr (Suc (Suc k)) ?f A = Some (Some t1, op_text f @ B)"
      by (rule level_mul[OF A]) (simp_all add: O_add mul_op_def)
    from level_add2[OF this A'(2) _ _ st(8) st(2), of XPATH_NODE_ADD "CHR '' '' # B" t2] Bm
    show ?thesis by (intro or_of_add[OF _ A'(1) r]) (simp add: O_add add_op_def sp)
  next
    case O_sub
    have "do_mul_expr (Suc (Suc k)) ?f A = Some (Some t1, op_text f @ B)"
      by (rule level_mul[OF A]) (simp_all add: O_sub mul_op_def)
    from level_add2[OF this A'(2) _ _ st(8) st(2), of XPATH_NODE_SUB "CHR '' '' # B" t2] Bm
    show ?thesis by (intro or_of_add[OF _ A'(1) r]) (simp add: O_sub add_op_def sp)
  next
    case O_mul
    from level_mul2[OF A, of XPATH_NODE_MUL "CHR '' '' # B" t2 r] B st
    show ?thesis by (intro or_of_mul[OF _ A'(1) r]) (simp add: O_mul mul_op_def sp)
  next
    case O_div
    from level_mul2[OF A, of XPATH_NODE_DIV B t2 r] B st
    show ?thesis by (intro or_of_mul[OF _ A'(1) r]) (simp add: O_div mul_op_def B')
  next
    case O_mod
    from level_mul2[OF A, of XPATH_NODE_MOD B t2 r] B st
    show ?thesis by (intro or_of_mul[OF _ A'(1) r]) (simp add: O_mod mul_op_def B')
  qed
qed

subsection \<open>Primary expressions\<close>

definition no_step :: "cstring \<Rightarrow> bool" where
  "no_step r \<longleftrightarrow> skip_ws r = r \<and> peek r \<notin> {CHR ''/'', CHR ''['', CHR ''|''}"

lemma no_step_stop: "stop r \<Longrightarrow> no_step r"
  by (auto simp: no_step_def stop_def x_is_ws_def)

lemma no_step_op: "no_step (op_text f @ B)"
  by (cases f) (simp_all add: no_step_def x_is_ws_def)

lemma union_of_node2:
  assumes "do_node2_expr (Suc k) f A = Some (Some t, r)" "skip_ws A = A" "no_step r"
  shows "do_union_expr (Suc k) f A = Some (Some t, r)"
proof -
  have "do_node_expr (Suc k) f A = Some (Some t, r)"
    using assms by (simp add: do_node_expr_def no_step_def)
  from nary_one[where operand = "do_node_expr (Suc k) f", OF this] assms show ?thesis
    by (simp add: do_union_expr_def no_step_def)
qed

lemma atom_of_node2:
  assumes "do_node2_expr (Suc k) f A = Some (Some t, r)" "skip_ws A = A" "no_step r" "match A ''not'' = None"
  shows "atom (Suc (Suc k)) f A t r"
  using union_of_node2[OF assms(1-3)] assms by (simp add: atom_def no_step_def)

lemma atom_paren:
  assumes "f (A @ CHR '')'' # R) = Some (Some t, CHR '')'' # R)" "no_step (skip_ws R)"
  shows "atom (Suc (Suc k)) f (CHR ''('' # A @ CHR '')'' # R) t (skip_ws R)"
proof (rule atom_of_node2)
  show "do_node2_expr (Suc k) f (CHR ''('' # A @ CHR '')'' # R) = Some (Some t, skip_ws R)"
    using assms(1) by (simp add: do_node2_expr_def x_is_ws_def)
qed (use assms(2) in \<open>simp_all add: x_is_ws_def\<close>)

lemma atom_not:
  assumes "atom k f (CHR ''('' # A) t r"
  shows "atom (Suc k) f (''not('' @ A) (new_expr XPATH_NODE_NOT None [t]) r"
  using assms by (simp add: atom_def x_is_ws_def opt_list_def)

lemma atom_str:
  assumes "list_all (\<lambda>c. c \<noteq> CHR 0x27) q" "stop R"
  shows "atom (Suc (Suc k)) f (CHR 0x27 # q @ CHR 0x27 # R) (XE TEXT_NODE None (Some q) 0 None []) R"
proof (rule atom_of_node2)
  have "takeWhile (\<lambda>c. c \<noteq> CHR 0x27) (q @ CHR 0x27 # R) = q" "dropWhile (\<lambda>c. c \<noteq> CHR 0x27) (q @ CHR 0x27 # R) = CHR 0x27 # R"
    using assms(1) by (induction q) auto
  then show "do_node2_expr (Suc k) f (CHR 0x27 # q @ CHR 0x27 # R) = Some (Some (XE TEXT_NODE None (Some q) 0 None []), R)"
    using skip_ws_stop[OF assms(2)] by (simp add: do_node2_expr_def x_is_ws_def)
qed (use no_step_stop[OF assms(2)] in \<open>simp_all add: x_is_ws_def\<close>)

lemma scan_number_digits:
  assumes "stop R" "is_digit_char c" "list_all is_digit_char ds"
  shows "scan_number (c # ds @ R) = (c # ds, False, R)"
proof -
  have R: "takeWhile is_digit_char R = []" "dropWhile is_digit_char R = R" "peek R \<noteq> CHR ''.''"
    using assms(1) by (auto simp: stop_def is_digit_char_def char_between_def)
  then have "takeWhile is_digit_char (ds @ R) = ds" "dropWhile is_digit_char (ds @ R) = R"
    using assms(3) by (induction ds) auto
  with R show ?thesis by (simp add: scan_number_def)
qed

lemma is_digit_not:
  assumes "is_digit_char c"
  shows "c \<notin> {CHR 0x27, CHR ''('', CHR ''n'', CHR ''-'', CHR ''.'', NUL}" "\<not> x_is_ws c"
  using assms by (auto simp: is_digit_char_def char_between_def x_is_ws_def)

lemma atom_int:
  assumes "n < 2 ^ 63" "stop R"
  shows "atom (Suc (Suc k)) f (show_nat n @ R) (XE XPATH_NODE_INT None None (int n) None []) R"
proof -
  obtain d ds where d: "d < 10" "show_nat n = digit_char d # ds" "list_all is_digit_char ds" using show_nat_hd by blast
  note dc = digit_char_props(1)[OF d(1)] is_digit_not[OF digit_char_props(1)[OF d(1)]]
  have "atol (show_nat n) = int n" using atol_show_long[of "int n"] assms(1) by (simp add: show_long_def)
  then have "do_node2_expr (Suc k) f (show_nat n @ R) = Some (Some (XE XPATH_NODE_INT None None (int n) None []), R)"
    using d dc skip_ws_stop[OF assms(2)] scan_number_digits[OF assms(2) dc(1) d(3)]
    by (simp add: do_node2_expr_def x_can_number_def is_digit_char_def)
  then show ?thesis using d dc no_step_stop[OF assms(2)] by (intro atom_of_node2) auto
qed

subsection \<open>Compiling what was printed\<close>

lemma operator_formula:
  assumes l: "do_or_expr (Suc (Suc k)) (show_formula l @ CHR '')'' # CHR '' '' # op_text f @ CHR ''('' # show_formula e @ CHR '')'' # R)
      = Some (Some (tree_of l), CHR '')'' # CHR '' '' # op_text f @ CHR ''('' # show_formula e @ CHR '')'' # R)"
    and e: "do_or_expr (Suc (Suc k)) (show_formula e @ CHR '')'' # R) = Some (Some (tree_of e), CHR '')'' # R)"
    and R: "stop R"
  shows "do_or_expr (Suc (Suc (Suc k))) (show_formula (F_op f l e) @ R) = Some (Some (tree_of (F_op f l e)), R)"
proof -
  let ?B = "CHR ''('' # show_formula e @ CHR '')'' # R"
  have s: "skip_ws (CHR '' '' # op_text f @ ?B) = op_text f @ ?B"
    using no_step_op[of f ?B] by (simp add: no_step_def x_is_ws_def)
  have A: "atom (Suc (Suc k)) (do_or_expr (Suc (Suc k)))
      (CHR ''('' # show_formula l @ CHR '')'' # CHR '' '' # op_text f @ ?B) (tree_of l) (op_text f @ ?B)"
    using atom_paren[where R = "CHR '' '' # op_text f @ ?B" and k = k and f = "do_or_expr (Suc (Suc k))"
      and A = "show_formula l", OF l] no_step_op[of f ?B] s by simp
  have B: "atom (Suc (Suc k)) (do_or_expr (Suc (Suc k))) ?B (tree_of e) R"
    using atom_paren[where R = R and k = k and f = "do_or_expr (Suc (Suc k))" and A = "show_formula e", OF e] no_step_stop[OF R] skip_ws_stop[OF R] by simp
  from operator_or[OF A B R] show ?thesis by simp
qed

lemma compile_formula:
  "printable e \<Longrightarrow> stop R \<Longrightarrow> formula_depth e \<le> k \<Longrightarrow>
   do_or_expr (Suc (Suc (Suc k))) (show_formula e @ R) = Some (Some (tree_of e), R)"
proof (induction e arbitrary: R k)
  case (F_int n)
  then show ?case using or_of_atom[OF atom_int] by simp
next
  case (F_str q)
  then show ?case using or_of_atom[OF atom_str, of q R] by simp
next
  case (F_not e)
  then obtain k' where k: "k = Suc k'" "formula_depth e \<le> k'" by (cases k) auto
  from F_not.IH[OF _ _ k(2), of "CHR '')'' # R"] F_not.prems
  have "do_or_expr (Suc (Suc (Suc k'))) (show_formula e @ CHR '')'' # R) = Some (Some (tree_of e), CHR '')'' # R)" by simp
  from atom_paren[where R = R and k = k' and f = "do_or_expr (Suc (Suc (Suc k')))" and A = "show_formula e", OF this] no_step_stop[OF F_not.prems(2)] skip_ws_stop[OF F_not.prems(2)]
  have "atom (Suc (Suc (Suc k'))) (do_or_expr (Suc (Suc (Suc k')))) (''not('' @ show_formula e @ CHR '')'' # R)
      (tree_of (F_not e)) R"
    using atom_not by simp
  from or_of_atom[OF this F_not.prems(2)] show ?case by (simp add: k)
next
  case (F_op f l e)
  then obtain k' where k: "k = Suc k'" "formula_depth l \<le> k'" "formula_depth e \<le> k'" by (cases k) auto
  show ?case unfolding k(1)
    by (rule operator_formula) (use F_op k in auto)
qed

lemma compile_printed:
  assumes "printable e" "formula_depth e + 3 \<le> fuel"
  shows "xpath_compile fuel (show_formula e) = Some (Some (tree_of e))"
proof -
  obtain k where k: "fuel = Suc (Suc (Suc k))" "formula_depth e \<le> k"
    using assms(2) by (metis add.commute add_le_cancel_left le_Suc_ex numeral_3_eq_3 plus_nat.simps)
  from compile_formula[OF assms(1), of "[]" k] k show ?thesis by (simp add: xpath_compile_def)
qed

text \<open>
  C5: Operator expressions round-trip through the compiler: written with all their parentheses,
  integers, quoted strings, \<open>not\<close> and the thirteen binary operators at any nesting compile, without a crash and
  within a fuel of the depth plus 3, to exactly the tree that was written.
\<close>

theorem xpath_compile_roundtrip:
  assumes "printable e" "formula_depth e + 3 \<le> fuel"
  shows "xpath_compile fuel (show_formula e) = Some (Some (tree_of e))"
  by (rule compile_printed[OF assms])

theorem xpath_compile_roundtrip_witness:
  "xpath_compile 5 ''(6) div (not(2))'' = Some (Some (new_expr XPATH_NODE_DIV None
     [XE XPATH_NODE_INT None None 6 None [],
      new_expr XPATH_NODE_NOT None [XE XPATH_NODE_INT None None 2 None []]]))"
  using xpath_compile_roundtrip[of "F_op O_div (F_int 6) (F_not (F_int 2))" 5]
  by (simp add: show_nat.simps[of 6] show_nat.simps[of 2] digit_char_def)

subsection \<open>Where the compiler departs from the grammar\<close>

text \<open>
  A parenthesis that directly follows \<open>div\<close> (or \<open>mod\<close>, \<open>and\<close>, \<open>or\<close>) is taken for the space that ends the
  operator's name: \<open>6 div(1 + 2)\<close> compiles to the tree of \<open>(6 div 1) + 2\<close>, and \<open>a and(b or c)\<close> to that of \<open>(a and b) or c\<close>.
\<close>

theorem operator_name_swallows_parenthesis:
  "xpath_compile 6 ''6 div(1 + 2)'' = Some (Some (new_expr XPATH_NODE_ADD None
     [new_expr XPATH_NODE_DIV None [XE XPATH_NODE_INT None None 6 None [], XE XPATH_NODE_INT None None 1 None []],
      XE XPATH_NODE_INT None None 2 None []])) \<and>
   xpath_compile 6 ''a and(b or c)'' = xpath_compile 6 ''(a and b) or c''"
  by (intro conjI; code_simp)

text \<open>
  A node test with parentheses behind an explicit axis ends the expression: its closing parenthesis is not
  consumed, so \<open>count(child::text()) + 1\<close> compiles to the tree of \<open>count(child::text())\<close>.
\<close>

theorem axis_node_test_ends_expression:
  "xpath_compile 6 ''count(child::text()) + 1'' = xpath_compile 6 ''count(child::text())'' \<and>
   xpath_compile 6 ''child::text()/a'' = Some (Some (XE XPATH_NODE_SELECT None None 0
     (Some (XPATH_NODE_CALL, Some ''text'')) [new_expr XPATH_NODE_CONTEXT None []]))"
  by (intro conjI; code_simp)

lemma binary_loop_None: "op [] = None \<Longrightarrow> binary_loop k op operand None [] \<in> {None, Some (None, [])}"
  by (cases k) auto

lemma nary_Nil:
  "operand [] \<in> {None, Some (None, [])} \<Longrightarrow> match [] pat = None \<Longrightarrow> nary_expr k ty pat operand [] \<in> {None, Some (None, [])}"
  by (auto simp: nary_expr_def)

lemma do_node2_Nil: "do_node2_expr k f [] = Some (None, [])"
  by (simp add: do_node2_expr_def x_can_number_def x_is_selchar_def x_is_namechar_def char_between_def)

lemma do_not_Nil: "do_not_expr k f [] \<in> {None, Some (None, [])}"
proof (cases k)
  case (Suc k')
  have "do_node_expr k' f [] \<in> {None, Some (None, [])}" by (cases k') (simp_all add: do_node_expr_def do_node2_Nil)
  then have "do_union_expr k' f [] \<in> {None, Some (None, [])}"
    unfolding do_union_expr_def by (simp only: skip_ws_simps) (rule nary_Nil; simp)
  with Suc show ?thesis by simp
qed simp

lemma binary_level_Nil:
  "operand [] \<in> {None, Some (None, [])} \<Longrightarrow> op [] = None \<Longrightarrow>
   (do { (n, s1) \<leftarrow> operand []; binary_loop k op operand2 n s1 }) \<in> {None, Some (None, [])}"
  using binary_loop_None[of op k operand2] by auto

lemma do_or_Nil: "do_or_expr k [] \<in> {None, Some (None, [])}"
proof (cases k)
  case (Suc k')
  let ?f = "do_or_expr k'"
  have "do_mul_expr k' ?f [] \<in> {None, Some (None, [])}"
    unfolding do_mul_expr_def by (rule binary_level_Nil[where operand = "do_not_expr k' ?f", OF do_not_Nil]) (simp add: mul_op_def)
  then have "do_add_expr k' ?f [] \<in> {None, Some (None, [])}"
    unfolding do_add_expr_def by (rule binary_level_Nil) (simp add: add_op_def)
  then have "do_rel_expr k' ?f [] \<in> {None, Some (None, [])}"
    unfolding do_rel_expr_def by (rule binary_level_Nil) (simp add: rel_op_def)
  then have "do_eq_expr k' ?f [] \<in> {None, Some (None, [])}"
    unfolding do_eq_expr_def by (rule binary_level_Nil) (simp add: eq_op_def)
  then have "do_and_expr k' ?f [] \<in> {None, Some (None, [])}"
    unfolding do_and_expr_def by (rule nary_Nil) simp
  from nary_Nil[where operand = "do_and_expr k' ?f", OF this, of "''or ''"] Suc show ?thesis by simp
qed simp

lemma call_args_Nil: "call_args k (do_or_expr m) args [] = None"
  using do_or_Nil[of m] by (induction k arbitrary: args) (auto simp: opt_list_def)

text \<open>
  C31: An unclosed function call never compiles: for \<open>f(\<close> no amount of steps is enough, since the
  loop over the arguments goes on at the end of the text.
\<close>

theorem unclosed_call_never_returns: "xpath_compile fuel ''f('' = None"
proof (cases fuel)
  case (Suc k)
  let ?f = "do_or_expr k"
  have node2: "do_node2_expr j ?f ''f('' = None" for j
    by (simp add: do_node2_expr_def x_can_number_def x_is_selchar_def x_is_namechar_def char_between_def x_is_ws_def
        do_select_expr_def axis_names_def name_step_def scan_name_def call_args_Nil)
  have "do_not_expr j ?f ''f('' = None" for j
    by (cases j) (simp_all add: do_union_expr_def nary_expr_def do_node_expr_def node2 x_is_ws_def)
  with Suc show ?thesis
    by (simp add: xpath_compile_def nary_expr_def do_and_expr_def do_eq_expr_def do_rel_expr_def do_add_expr_def
        do_mul_expr_def x_is_ws_def)
qed (simp add: xpath_compile_def)

end
