(* ===== verification/Tx_Context.thy ===== *)
theory Tx_Context
  imports Tx_Rvalue Tx_XPathParse "HOL-Library.AList"
begin

text \<open>
  What an XPath evaluation works on: the transformation context (\<open>TRANSFORM_CONTEXT\<close> with
  its global data), the state it changes (the node heap, the cache of compiled expressions, the table of
  URLs), the concurrent dictionary of concurrent_dictionary.c and the variables of variables.c.
\<close>

subsection \<open>concurrent_dictionary.c\<close>

text \<open>
  The hash table behind a concurrent dictionary is a library of its own (\<open>ck_ht\<close>). Its documented
  behaviour, a byte string map whose \<open>put\<close> refuses a key that is present, is the interface \<open>byte_map\<close>. The
  dictionary hands it the key with a length that is cut to 16 bits.
\<close>

definition ht_key :: "cstring \<Rightarrow> cstring" where
  "ht_key key = take (length key mod 2 ^ 16) key"

definition concurrent_dictionary_find :: "('t \<Rightarrow> cstring \<Rightarrow> 'v option) \<Rightarrow> 't \<Rightarrow> cstring \<Rightarrow> 'v option" where
  "concurrent_dictionary_find get d key = get d (ht_key key)"

definition concurrent_dictionary_add ::
  "('t \<Rightarrow> cstring \<Rightarrow> 'v \<Rightarrow> bool \<times> 't) \<Rightarrow> 't \<Rightarrow> cstring \<Rightarrow> 'v \<Rightarrow> bool \<times> 't" where
  "concurrent_dictionary_add put d key value = put d (ht_key key) value"

lemma ht_key_short: "length key < 2 ^ 16 \<Longrightarrow> ht_key key = key"
  by (simp add: ht_key_def)

locale byte_map =
  fixes get :: "'t \<Rightarrow> cstring \<Rightarrow> 'v option"
    and put :: "'t \<Rightarrow> cstring \<Rightarrow> 'v \<Rightarrow> bool \<times> 't"
  assumes put_new: "get t k = None \<Longrightarrow> fst (put t k v) \<and> get (snd (put t k v)) = (get t)(k \<mapsto> v)"
    and put_old: "get t k \<noteq> None \<Longrightarrow> put t k v = (False, t)"
begin

lemma find_after_add:
  "concurrent_dictionary_find get (snd (concurrent_dictionary_add put d key v)) k =
     (if ht_key k = ht_key key \<and> concurrent_dictionary_find get d key = None then Some v
      else concurrent_dictionary_find get d k)"
  using put_new[of d "ht_key key" v] put_old[of d "ht_key key" v]
  by (cases "get d (ht_key key)") (auto simp: concurrent_dictionary_find_def concurrent_dictionary_add_def)

lemma add_reports: "fst (concurrent_dictionary_add put d key v) \<longleftrightarrow> concurrent_dictionary_find get d key = None"
  using put_new[of d "ht_key key" v] put_old[of d "ht_key key" v]
  by (cases "get d (ht_key key)") (auto simp: concurrent_dictionary_find_def concurrent_dictionary_add_def)

end

text \<open>The table as the model's evaluations carry it.\<close>

type_synonym 'v ht = "(cstring \<times> 'v) list"

definition ht_get :: "'v ht \<Rightarrow> cstring \<Rightarrow> 'v option" where
  "ht_get t k = map_of t k"

definition ht_put :: "'v ht \<Rightarrow> cstring \<Rightarrow> 'v \<Rightarrow> bool \<times> 'v ht" where
  "ht_put t k v = (case map_of t k of None \<Rightarrow> (True, (k, v) # t) | Some _ \<Rightarrow> (False, t))"

interpretation cd: byte_map ht_get ht_put
  by unfold_locales (auto simp: ht_get_def ht_put_def split: option.split)

subsection \<open>Context and state\<close>

text \<open>
  The constant part of a context during a transformation. The functions of the second half are
  code outside the program: the Perl callbacks, the external cache, the document loader, the message catalogue
  and the addresses the allocator gave to the nodes.
\<close>

record xenv =
  e_root_node :: "ref option"
  e_stylesheet :: "ref option"
  e_keys :: "ref option"
  e_formats :: "ref option"
  e_locals :: "ref option"
  e_vars :: "(cstring option \<times> rvalue) list"
  e_user_rights :: "(cstring \<Rightarrow> bool) option"
  e_revisions :: "cstring \<Rightarrow> cstring option"
  e_url_parameters :: "cstring \<Rightarrow> cstring option"
  e_cache_key_prefix :: "cstring option"
  e_url_local_prefix :: "cstring option"
  e_perl_names :: "cstring list"
  e_perl_call :: "(cstring \<Rightarrow> cstring list \<Rightarrow> cstring option) option"
  e_perl_urlcode :: "(cstring \<Rightarrow> cstring option) option"
  e_cache_get :: "cstring \<Rightarrow> cstring option"
  e_parse_string :: "heap \<Rightarrow> cstring option \<Rightarrow> (ref option \<times> heap) option"
  e_parse_file :: "heap \<Rightarrow> cstring \<Rightarrow> (ref option \<times> heap) option"
  e_message :: "(cstring \<Rightarrow> cstring option) option"
  e_message_plural :: "cstring \<Rightarrow> int \<Rightarrow> cstring option"
  e_address :: "ref \<Rightarrow> nat"
  e_thread_id :: cstring

text \<open>An environment without callbacks, variables and catalogues.\<close>

definition plain_env :: xenv where
  "plain_env = \<lparr>e_root_node = None, e_stylesheet = None, e_keys = None, e_formats = None, e_locals = None, e_vars = [],
     e_user_rights = None, e_revisions = (\<lambda>_. None), e_url_parameters = (\<lambda>_. None), e_cache_key_prefix = None,
     e_url_local_prefix = None, e_perl_names = [], e_perl_call = None, e_perl_urlcode = None, e_cache_get = (\<lambda>_. None),
     e_parse_string = (\<lambda>h s. Some (None, h)), e_parse_file = (\<lambda>h s. Some (None, h)), e_message = None,
     e_message_plural = (\<lambda>s i. None), e_address = (\<lambda>a. a), e_thread_id = ''0''\<rparr>"

record xstate =
  x_heap :: heap
  x_expressions :: "xpath_expr option ht"
  x_urldict :: "cstring option ht"

type_synonym evaluator = "xpath_expr option \<Rightarrow> ref option \<Rightarrow> xstate \<Rightarrow> (rvalue \<times> xstate) option"

text \<open>A pointer value found in a dictionary; a stored NULL reads like an absent key.\<close>

definition find_ptr :: "'v option ht \<Rightarrow> cstring \<Rightarrow> 'v option" where
  "find_ptr t key = (case concurrent_dictionary_find ht_get t key of None \<Rightarrow> None | Some v \<Rightarrow> v)"

text \<open>xpath.c 39-53: compiled expressions are cached by their text.\<close>

definition xpath_find_expr :: "nat \<Rightarrow> xstate \<Rightarrow> cstring option \<Rightarrow> (xpath_expr option \<times> xstate) option" where
  "xpath_find_expr fuel st expr =
     (case expr of
        None \<Rightarrow> Some (None, st)
      | Some text \<Rightarrow>
          (case find_ptr (x_expressions st) text of
             Some e \<Rightarrow> Some (Some e, st)
           | None \<Rightarrow> do {
               compiled \<leftarrow> xpath_compile fuel text;
               Some (compiled, st\<lparr>x_expressions := snd (concurrent_dictionary_add ht_put (x_expressions st) text compiled)\<rparr>)
             }))"

subsection \<open>variables.c\<close>

text \<open>A table of variables: the array with its capacity. The names may be NULL pointers.\<close>

record var_table =
  vt_max :: nat
  vt_vars :: "(cstring option \<times> rvalue) list"

definition vt_empty :: var_table where
  "vt_empty = \<lparr>vt_max = 0, vt_vars = []\<rparr>"

definition vt_grow :: "var_table \<Rightarrow> var_table" where
  "vt_grow t =
     (if vt_max t = 0 then \<lparr>vt_max = 200, vt_vars = []\<rparr>
      else if vt_max t \<le> length (vt_vars t) then t\<lparr>vt_max := vt_max t + 100\<rparr> else t)"

text \<open>The index of the first variable of that name, or the number of variables.\<close>

fun find_var :: "(cstring option \<times> rvalue) list \<Rightarrow> cstring option \<Rightarrow> nat" where
  "find_var [] name = 0"
| "find_var ((n, v) # r) name = (if xml_strcmp n name = 0 then 0 else Suc (find_var r name))"

text \<open>The result is the index of the variable; \<open>None\<close> is a write behind the end of the array.\<close>

definition create_variable :: "var_table \<Rightarrow> cstring option \<Rightarrow> (nat \<times> var_table) option" where
  "create_variable t0 name =
     (let t = vt_grow t0; i = find_var (vt_vars t) name in
      if i < length (vt_vars t) then Some (i, t)
      else if length (vt_vars t) < vt_max t
           then Some (i, t\<lparr>vt_vars := vt_vars t @ [(name, VAL_NULL)]\<rparr>) else None)"

definition set_extra :: "var_table \<Rightarrow> nat \<Rightarrow> rvalue \<Rightarrow> var_table" where
  "set_extra t i v = t\<lparr>vt_vars := (vt_vars t)[i := (fst (vt_vars t ! i), v)]\<rparr>"

definition set_ctx_global_var :: "var_table \<Rightarrow> cstring option \<Rightarrow> cstring option \<Rightarrow> var_table option" where
  "set_ctx_global_var t name content = do {
     (i, t1) \<leftarrow> create_variable t name;
     Some (set_extra t1 i (VAL_STRING content))
   }"

definition set_global_var :: "var_table \<Rightarrow> cstring option \<Rightarrow> cstring option \<Rightarrow> var_table option" where
  "set_global_var t0 name content =
     (let t = vt_grow t0; i = find_var (vt_vars t) name in
      if i < length (vt_vars t) then Some (set_extra t i (VAL_STRING content))
      else if length (vt_vars t) < vt_max t
           then Some (t\<lparr>vt_vars := vt_vars t @ [(name, VAL_STRING content)]\<rparr>) else None)"

definition rval_copy :: "heap \<Rightarrow> rvalue \<Rightarrow> (rvalue \<times> heap) option" where
  "rval_copy h src =
     (case src of
        VAL_NODESET p \<Rightarrow> do { (q, h') \<leftarrow> xpath_nodeset_copy h p; Some (VAL_NODESET q, h') }
      | _ \<Rightarrow> Some (src, h))"

text \<open>The first local variable of that name, else the first global one.\<close>

definition get_variable_rv :: "xenv \<Rightarrow> cstring option \<Rightarrow> xstate \<Rightarrow> (rvalue \<times> xstate) option" where
  "get_variable_rv env name st = do {
     let h = x_heap st;
     found \<leftarrow> (case e_locals env of
         None \<Rightarrow> Some None
       | Some _ \<Rightarrow> do { l \<leftarrow> deref h (e_locals env); first_node (\<lambda>v. str_equals name (n_name v)) h (n_attributes l) });
     (rv, h') \<leftarrow> (case found of
         Some a \<Rightarrow> rval_copy h (n_extra (h ! a))
       | None \<Rightarrow> do {
           let i = find_var (e_vars env) name;
           if e_vars env \<noteq> [] \<and> name = None then None
           else if i < length (e_vars env) then rval_copy h (snd (e_vars env ! i)) else Some (VAL_NULL, h)
         });
     Some (rv, st\<lparr>x_heap := h'\<rparr>)
   }"

definition add_local_var :: "heap \<Rightarrow> ref option \<Rightarrow> cstring option \<Rightarrow> ref option \<Rightarrow> heap option" where
  "add_local_var h vars name params = do {
     found \<leftarrow> first_node (\<lambda>p. str_equals name (n_name p)) h params;
     (case found of
        None \<Rightarrow> Some h
      | Some a \<Rightarrow> do {
          let (tmp, h1) = xml_new_node h name ATTRIBUTE_NODE;
          v \<leftarrow> deref h1 vars;
          h2 \<leftarrow> upd h1 (Some tmp) (\<lambda>n. n\<lparr>n_next := n_attributes v\<rparr>);
          h3 \<leftarrow> upd h2 vars (\<lambda>n. n\<lparr>n_attributes := Some tmp\<rparr>);
          (rv, h4) \<leftarrow> rval_copy h3 (n_extra (h3 ! a));
          upd h4 (Some tmp) (\<lambda>n. n\<lparr>n_extra := rv\<rparr>)
        })
   }"

text \<open>\<open>copy_variables\<close>: the copies are put in front of one another, so their order is reversed.\<close>

fun copy_variables_loop :: "heap \<Rightarrow> ref \<Rightarrow> ref list \<Rightarrow> heap option" where
  "copy_variables_loop h result [] = Some h"
| "copy_variables_loop h result (v # r) = do {
     n \<leftarrow> deref h (Some v);
     let (copy, h1) = xml_new_node h (n_name n) ATTRIBUTE_NODE;
     res \<leftarrow> deref h1 (Some result);
     h2 \<leftarrow> upd h1 (Some copy) (\<lambda>m. m\<lparr>n_extra := n_extra n, n_next := n_attributes res\<rparr>);
     h3 \<leftarrow> upd h2 (Some result) (\<lambda>m. m\<lparr>n_attributes := Some copy\<rparr>);
     copy_variables_loop h3 result r
   }"

definition copy_variables :: "heap \<Rightarrow> ref option \<Rightarrow> (ref \<times> heap) option" where
  "copy_variables h variables = do {
     let (result, h1) = xml_new_node h None EMPTY_NODE;
     (case variables of
        None \<Rightarrow> Some (result, h1)
      | Some _ \<Rightarrow> do {
          v \<leftarrow> deref h1 variables;
          vs \<leftarrow> walk n_next h1 (n_attributes v);
          h2 \<leftarrow> copy_variables_loop h1 result vs;
          Some (result, h2)
        })
   }"

text \<open>
  The name is assembled in a buffer of 200 bytes. The result is read from the string member
  of the variable's union, so the value has to be a string.
\<close>

fun string_member :: "rvalue \<Rightarrow> cstring option option" where
  "string_member (VAL_STRING s) = Some s"
| "string_member v = None"

definition xsl_get_global_key ::
  "(cstring option \<times> rvalue) list \<Rightarrow> (cstring option \<times> rvalue) list \<Rightarrow> cstring \<Rightarrow> cstring option \<Rightarrow> cstring option option" where
  "xsl_get_global_key vars gvars first second =
     (let fullname = ''@'' @ first @ (case second of None \<Rightarrow> [] | Some s \<Rightarrow> ''@'' @ s);
          i = find_var vars (Some fullname); j = find_var gvars (Some fullname)
      in if 200 \<le> length fullname then None
         else if i < length vars then string_member (snd (vars ! i))
         else if j < length gvars then string_member (snd (gvars ! j))
         else Some None)"

subsection \<open>Properties of the variables\<close>

definition var_inv :: "var_table \<Rightarrow> bool" where
  "var_inv t \<longleftrightarrow> length (vt_vars t) \<le> vt_max t \<and> distinct (map fst (vt_vars t))"

lemma var_inv_empty [simp]: "var_inv vt_empty"
  by (simp add: var_inv_def vt_empty_def)

lemma vt_grow_inv: "var_inv t \<Longrightarrow> var_inv (vt_grow t) \<and> vt_vars (vt_grow t) = vt_vars t \<and> length (vt_vars t) < vt_max (vt_grow t)"
  by (auto simp: vt_grow_def var_inv_def)

lemma xml_strcmp_0 [simp]: "xml_strcmp a b = 0 \<longleftrightarrow> a = b"
  by (cases a; cases b; simp add: strcmp_eq_0)

lemma find_var_le: "find_var vs name \<le> length vs"
  by (induction vs name rule: find_var.induct) auto

lemma find_var_less: "find_var vs name < length vs \<longleftrightarrow> name \<in> fst ` set vs"
  by (induction vs name rule: find_var.induct) auto

lemma find_var_nth: "find_var vs name < length vs \<Longrightarrow> fst (vs ! find_var vs name) = name"
  by (induction vs name rule: find_var.induct) auto

lemma map_of_find_var: "find_var vs name < length vs \<Longrightarrow> map_of vs name = Some (snd (vs ! find_var vs name))"
  by (induction vs name rule: find_var.induct) auto

lemma map_of_update_find_var:
  "find_var vs name < length vs \<Longrightarrow> distinct (map fst vs) \<Longrightarrow>
   map_of (vs[find_var vs name := (name, v)]) = (map_of vs)(name \<mapsto> v)"
  by (induction vs name rule: find_var.induct) (auto simp: fun_eq_iff)

lemma map_fst_update: "i < length vs \<Longrightarrow> fst (vs ! i) = n \<Longrightarrow> map fst (vs[i := (n, v)]) = map fst vs"
  by (metis fst_conv list_update_id map_update nth_map)

lemma set_var_facts:
  assumes "var_inv t"
  shows "\<exists>t'. set_global_var t name content = Some t' \<and> var_inv t' \<and>
      map_of (vt_vars t') = (map_of (vt_vars t))(name \<mapsto> VAL_STRING content)"
    and "\<exists>t'. set_ctx_global_var t name content = Some t' \<and> var_inv t' \<and>
      map_of (vt_vars t') = (map_of (vt_vars t))(name \<mapsto> VAL_STRING content)"
proof -
  let ?i = "find_var (vt_vars t) name"
  note g = vt_grow_inv[OF assms]
  have upd: "?i < length (vt_vars t) \<Longrightarrow> set_extra (vt_grow t) ?i v = (vt_grow t)\<lparr>vt_vars := (vt_vars t)[?i := (name, v)]\<rparr>" for v
    using g find_var_nth by (simp add: set_extra_def)
  have new: "\<not> ?i < length (vt_vars t) \<Longrightarrow> ?i = length (vt_vars t) \<and> name \<notin> fst ` set (vt_vars t)"
    using find_var_le[of "vt_vars t" name] find_var_less by (metis le_neq_implies_less)
  note facts = upd g map_of_update_find_var map_fst_update find_var_nth
  have old_inv: "?i < length (vt_vars t) \<Longrightarrow> var_inv ((vt_grow t)\<lparr>vt_vars := (vt_vars t)[?i := (name, v)]\<rparr>)" for v
    using g assms by (simp add: var_inv_def map_fst_update find_var_nth)
  have new_inv: "name \<notin> fst ` set (vt_vars t) \<Longrightarrow> var_inv ((vt_grow t)\<lparr>vt_vars := vt_vars t @ [(name, v)]\<rparr>)" for v
    using g assms by (auto simp: var_inv_def)
  have new_map: "name \<notin> fst ` set (vt_vars t) \<Longrightarrow> map_of (vt_vars t @ [(name, v)]) = (map_of (vt_vars t))(name \<mapsto> v)" for v
    using map_of_eq_None_iff[of "vt_vars t" name] by (auto simp: map_add_def fun_eq_iff split: option.split)
  show "\<exists>t'. set_global_var t name content = Some t' \<and> var_inv t' \<and>
      map_of (vt_vars t') = (map_of (vt_vars t))(name \<mapsto> VAL_STRING content)"
    using facts old_inv new new_inv new_map assms
    by (cases "?i < length (vt_vars t)") (auto simp: set_global_var_def Let_def var_inv_def)
  show "\<exists>t'. set_ctx_global_var t name content = Some t' \<and> var_inv t' \<and>
      map_of (vt_vars t') = (map_of (vt_vars t))(name \<mapsto> VAL_STRING content)"
  proof (cases "?i < length (vt_vars t)")
    case True
    then show ?thesis using facts old_inv assms
      by (auto simp: set_ctx_global_var_def create_variable_def Let_def var_inv_def)
  next
    case False
    then have "set_extra ((vt_grow t)\<lparr>vt_vars := vt_vars t @ [(name, VAL_NULL)]\<rparr>) ?i v =
        (vt_grow t)\<lparr>vt_vars := vt_vars t @ [(name, v)]\<rparr>" for v
      using new by (simp add: set_extra_def)
    with False new[OF False] g new_inv new_map show ?thesis
      by (auto simp: set_ctx_global_var_def create_variable_def Let_def)
  qed
qed

text \<open>
  Setting a global variable, from the context or from the global data, is an update of a finite
  map by name: it succeeds without leaving the array, whatever its fill, keeps the names distinct,
  and afterwards the variable has the new value and every other one its old value.
\<close>

theorem set_global_var_updates:
  assumes "var_inv t"
  shows "(\<exists>t'. set_global_var t name content = Some t' \<and> var_inv t' \<and>
      map_of (vt_vars t') = (map_of (vt_vars t))(name \<mapsto> VAL_STRING content)) \<and>
    (\<exists>t'. set_ctx_global_var t name content = Some t' \<and> var_inv t' \<and>
      map_of (vt_vars t') = (map_of (vt_vars t))(name \<mapsto> VAL_STRING content))"
  using set_var_facts[OF assms] by blast

theorem set_global_var_updates_witness:
  "\<exists>t'. set_global_var vt_empty (Some ''a'') (Some ''1'') = Some t' \<and>
     map_of (vt_vars t') (Some ''a'') = Some (VAL_STRING (Some ''1''))"
  using set_global_var_updates[of vt_empty "Some ''a''" "Some ''1''"] by auto

end
