(* ===== verification/Tx_Md5.thy ===== *)
theory Tx_Md5
  imports Tx_Prelude
begin

unbundle bit_operations_syntax

text \<open>
  md5.c: the digest, computed in pieces. A host of little-endian words, so that \<open>SWAP\<close> is the identity.
  \<open>None\<close> is a write behind the buffer of the state. The reference is the algorithm of RFC 1321.
\<close>

subsection \<open>One block\<close>

type_synonym md5_regs = "u32 \<times> u32 \<times> u32 \<times> u32"

datatype md5_fun = FF | FG | FH | FI

text \<open>The macros of md5_loc.h.\<close>

fun md5_f :: "md5_fun \<Rightarrow> u32 \<Rightarrow> u32 \<Rightarrow> u32 \<Rightarrow> u32" where
  "md5_f FF b c d = d XOR (b AND (c XOR d))"
| "md5_f FG b c d = c XOR (d AND (b XOR c))"
| "md5_f FH b c d = b XOR c XOR d"
| "md5_f FI b c d = c XOR (b OR NOT d)"

definition cyclic :: "u32 \<Rightarrow> nat \<Rightarrow> u32" where
  "cyclic w s = push_bit s w OR drop_bit (32 - s) w"

text \<open>
  The operations in the order of the code: function, word of the block, shift and constant. The code names the
  registers (A, B, C, D), (D, A, B, C), (C, D, A, B), (B, C, D, A) in turn; here the names stay and the values
  move on by one place after each operation.
\<close>

definition md5_ops :: "(md5_fun \<times> nat \<times> nat \<times> u32) list" where
  "md5_ops =
    [(FF, 0, 7, 0xd76aa478), (FF, 1, 12, 0xe8c7b756), (FF, 2, 17, 0x242070db), (FF, 3, 22, 0xc1bdceee),
     (FF, 4, 7, 0xf57c0faf), (FF, 5, 12, 0x4787c62a), (FF, 6, 17, 0xa8304613), (FF, 7, 22, 0xfd469501),
     (FF, 8, 7, 0x698098d8), (FF, 9, 12, 0x8b44f7af), (FF, 10, 17, 0xffff5bb1), (FF, 11, 22, 0x895cd7be),
     (FF, 12, 7, 0x6b901122), (FF, 13, 12, 0xfd987193), (FF, 14, 17, 0xa679438e), (FF, 15, 22, 0x49b40821),
     (FG, 1, 5, 0xf61e2562), (FG, 6, 9, 0xc040b340), (FG, 11, 14, 0x265e5a51), (FG, 0, 20, 0xe9b6c7aa),
     (FG, 5, 5, 0xd62f105d), (FG, 10, 9, 0x02441453), (FG, 15, 14, 0xd8a1e681), (FG, 4, 20, 0xe7d3fbc8),
     (FG, 9, 5, 0x21e1cde6), (FG, 14, 9, 0xc33707d6), (FG, 3, 14, 0xf4d50d87), (FG, 8, 20, 0x455a14ed),
     (FG, 13, 5, 0xa9e3e905), (FG, 2, 9, 0xfcefa3f8), (FG, 7, 14, 0x676f02d9), (FG, 12, 20, 0x8d2a4c8a),
     (FH, 5, 4, 0xfffa3942), (FH, 8, 11, 0x8771f681), (FH, 11, 16, 0x6d9d6122), (FH, 14, 23, 0xfde5380c),
     (FH, 1, 4, 0xa4beea44), (FH, 4, 11, 0x4bdecfa9), (FH, 7, 16, 0xf6bb4b60), (FH, 10, 23, 0xbebfbc70),
     (FH, 13, 4, 0x289b7ec6), (FH, 0, 11, 0xeaa127fa), (FH, 3, 16, 0xd4ef3085), (FH, 6, 23, 0x04881d05),
     (FH, 9, 4, 0xd9d4d039), (FH, 12, 11, 0xe6db99e5), (FH, 15, 16, 0x1fa27cf8), (FH, 2, 23, 0xc4ac5665),
     (FI, 0, 6, 0xf4292244), (FI, 7, 10, 0x432aff97), (FI, 14, 15, 0xab9423a7), (FI, 5, 21, 0xfc93a039),
     (FI, 12, 6, 0x655b59c3), (FI, 3, 10, 0x8f0ccc92), (FI, 10, 15, 0xffeff47d), (FI, 1, 21, 0x85845dd1),
     (FI, 8, 6, 0x6fa87e4f), (FI, 15, 10, 0xfe2ce6e0), (FI, 6, 15, 0xa3014314), (FI, 13, 21, 0x4e0811a1),
     (FI, 4, 6, 0xf7537e82), (FI, 11, 10, 0xbd3af235), (FI, 2, 15, 0x2ad7d2bb), (FI, 9, 21, 0xeb86d391)]"

definition md5_op :: "u32 list \<Rightarrow> md5_fun \<times> nat \<times> nat \<times> u32 \<Rightarrow> md5_regs \<Rightarrow> md5_regs" where
  "md5_op X op r = (case op of (f, k, s, t) \<Rightarrow> case r of (a, b, c, d) \<Rightarrow>
     (d, cyclic (a + (md5_f f b c d + X ! k + t)) s + b, b, c))"

text \<open>A word of four bytes in memory.\<close>

definition word_of_bytes :: "byte list \<Rightarrow> u32" where
  "word_of_bytes bs = foldr (\<lambda>b n. of_char b + 256 * n) bs 0"

definition correct_words :: "byte list \<Rightarrow> u32 list" where
  "correct_words bs = map (\<lambda>i. word_of_bytes (take 4 (drop (4 * i) bs))) [0..<16]"

definition md5_rounds :: "byte list \<Rightarrow> md5_regs \<Rightarrow> md5_regs" where
  "md5_rounds bs r = (case fold (md5_op (correct_words bs)) md5_ops r of (a, b, c, d) \<Rightarrow>
     case r of (a', b', c', d') \<Rightarrow> (a + a', b + b', c + c', d + d'))"

text \<open>The blocks of 64 bytes; a block that is not complete is read behind its end.\<close>

function process_loop :: "byte list \<Rightarrow> md5_regs \<Rightarrow> md5_regs option" where
  "process_loop bs r =
     (if length bs div 4 = 0 then Some r
      else if length bs < 64 then None
      else process_loop (drop 64 bs) (md5_rounds (take 64 bs) r))"
  by pat_completeness auto
termination
  by (relation "measure (\<lambda>(bs, r). length bs)") auto

declare process_loop.simps [simp del]

subsection \<open>The state\<close>

record md5_t =
  md_regs :: md5_regs
  md_total0 :: u32
  md_total1 :: u32
  md_buf_len :: nat
  md_buffer :: "byte list"

definition MD5_BLOCK_SIZE :: nat where
  "MD5_BLOCK_SIZE = 64"

text \<open>The two words of the byte count.\<close>

definition add_total :: "nat \<Rightarrow> md5_t \<Rightarrow> md5_t" where
  "add_total n s =
     (if 0xFFFFFFFF - of_nat n < md_total0 s
      then s\<lparr>md_total1 := md_total1 s + 1, md_total0 := md_total0 s - (0xFFFFFFFF + 1 - of_nat n)\<rparr>
      else s\<lparr>md_total0 := md_total0 s + of_nat n\<rparr>)"

definition process_block :: "md5_t \<Rightarrow> byte list \<Rightarrow> md5_t option" where
  "process_block s bs = map_option (\<lambda>r. (add_total (length bs) s)\<lparr>md_regs := r\<rparr>) (process_loop bs (md_regs s))"

text \<open>\<open>memcpy(md_buffer + i, bs, length bs)\<close>\<close>

definition buffer_write :: "nat \<Rightarrow> byte list \<Rightarrow> md5_t \<Rightarrow> md5_t option" where
  "buffer_write i bs s =
     (if length (md_buffer s) < i + length bs then None
      else Some (s\<lparr>md_buffer := take i (md_buffer s) @ bs @ drop (i + length bs) (md_buffer s)\<rparr>))"

text \<open>The registers in the order A, B, C, D; the bytes of the buffer are arbitrary.\<close>

definition md5_init :: "byte list \<Rightarrow> md5_t" where
  "md5_init buf = \<lparr>md_regs = (0x67452301, 0xefcdab89, 0x98badcfe, 0x10325476), md_total0 = 0, md_total1 = 0, md_buf_len = 0,
     md_buffer = buf\<rparr>"

text \<open>\<open>n & ~BLOCK_SIZE_MASK\<close> is the part of complete blocks, \<open>n & BLOCK_SIZE_MASK\<close> the rest.\<close>

abbreviation whole_blocks :: "nat \<Rightarrow> nat" where
  "whole_blocks n \<equiv> n - n mod 64"

text \<open>The complete blocks of the buffer are worked off, the rest moves to its front.\<close>

definition flush_buffer :: "nat \<Rightarrow> md5_t \<Rightarrow> md5_t option" where
  "flush_buffer in_block s = do {
     s3 \<leftarrow> process_block s (take (whole_blocks in_block) (md_buffer s));
     s4 \<leftarrow> buffer_write 0 (take (in_block mod 64) (drop (whole_blocks in_block) (md_buffer s3))) s3;
     Some (s4\<lparr>md_buf_len := in_block mod 64\<rparr>)
   }"

text \<open>The bytes that the buffer takes, and the rest of the input.\<close>

definition fill_buffer :: "md5_t \<Rightarrow> byte list \<Rightarrow> (byte list \<times> md5_t) option" where
  "fill_buffer s bs =
     (if md_buf_len s = 0 then Some (bs, s)
      else do {
        let add = (if 128 < uint_wrap (md_buf_len s + length bs) then 128 - md_buf_len s else length bs);
        s1 \<leftarrow> buffer_write (md_buf_len s) (take add bs) s;
        let in_block = md_buf_len s + add;
        let s2 = s1\<lparr>md_buf_len := in_block\<rparr>;
        s3 \<leftarrow> (if MD5_BLOCK_SIZE < in_block then flush_buffer in_block s2 else Some s2);
        Some (drop add bs, s3)
      })"

definition md5_process :: "md5_t \<Rightarrow> byte list \<Rightarrow> md5_t option" where
  "md5_process s bs0 = do {
     (bs, s1) \<leftarrow> fill_buffer s bs0;
     (rest, s2) \<leftarrow> (if MD5_BLOCK_SIZE < length bs then do {
         s2 \<leftarrow> process_block s1 (take (whole_blocks (length bs)) bs);
         Some (drop (whole_blocks (length bs)) bs, s2)
       } else Some (bs, s1));
     if rest = [] then Some s2
     else do {
       s3 \<leftarrow> buffer_write 0 rest s2;
       Some (s3\<lparr>md_buf_len := length rest\<rparr>)
     }
   }"

fun le_bytes :: "nat \<Rightarrow> nat \<Rightarrow> byte list" where
  "le_bytes 0 n = []"
| "le_bytes (Suc k) n = char_of (n mod 256) # le_bytes k (n div 256)"

abbreviation word_bytes :: "u32 \<Rightarrow> byte list" where
  "word_bytes w \<equiv> le_bytes 4 (unat w)"

definition md5_get_result :: "md5_regs \<Rightarrow> byte list" where
  "md5_get_result r = (case r of (a, b, c, d) \<Rightarrow> word_bytes a @ word_bytes b @ word_bytes c @ word_bytes d)"

text \<open>The length of the padding, which is at least one byte.\<close>

definition md5_pad :: "nat \<Rightarrow> nat" where
  "md5_pad bytes = (if int 64 - 8 - int bytes \<le> 0 then nat (64 - 8 - int bytes + 64) else nat (64 - 8 - int bytes))"

definition md5_finish :: "md5_t \<Rightarrow> byte list option" where
  "md5_finish s0 = do {
     let bytes = md_buf_len s0;
     let s = add_total bytes s0;
     let pad = md5_pad bytes;
     s1 \<leftarrow> buffer_write bytes (char_of (0x80::nat) # replicate (pad - 1) NUL) s;
     let low = push_bit 3 (md_total0 s AND 0x1FFFFFFF);
     let high = push_bit 3 (md_total1 s) OR drop_bit 29 (md_total0 s AND 0xE0000000);
     s2 \<leftarrow> buffer_write (bytes + pad) (word_bytes low) s1;
     s3 \<leftarrow> buffer_write (bytes + pad + 4) (word_bytes high) s2;
     s4 \<leftarrow> process_block s3 (take (bytes + pad + 8) (md_buffer s3));
     Some (md5_get_result (md_regs s4))
   }"

definition md5_buffer :: "byte list \<Rightarrow> byte list \<Rightarrow> byte list option" where
  "md5_buffer stack bs = do { s \<leftarrow> md5_process (md5_init stack) bs; md5_finish s }"

definition md5_digit :: "nat \<Rightarrow> byte" where
  "md5_digit n = ''0123456789abcdef'' ! n"

text \<open>
  The bytes that are written to a buffer of \<open>n\<close> characters: the digits that fit, then NUL where there is room left.
\<close>

fun md5_sig_to_string :: "byte list \<Rightarrow> nat \<Rightarrow> byte list" where
  "md5_sig_to_string [] n = (if 0 < n then [NUL] else [])"
| "md5_sig_to_string (b # bs) n =
     (if n < 2 then (if 0 < n then [NUL] else [])
      else md5_digit (of_char b div 16) # md5_digit (of_char b mod 16) # md5_sig_to_string bs (n - 2))"


subsection \<open>The reference: RFC 1321\<close>

definition rfc_function :: "nat \<Rightarrow> u32 \<Rightarrow> u32 \<Rightarrow> u32 \<Rightarrow> u32" where
  "rfc_function i b c d =
     (if i < 16 then (b AND c) OR (NOT b AND d)
      else if i < 32 then (b AND d) OR (c AND NOT d)
      else if i < 48 then b XOR c XOR d
      else c XOR (b OR NOT d))"

definition rfc_word :: "nat \<Rightarrow> nat" where
  "rfc_word i =
     (if i < 16 then i else if i < 32 then (5 * i + 1) mod 16 else if i < 48 then (3 * i + 5) mod 16 else (7 * i) mod 16)"

definition rfc_shift :: "nat \<Rightarrow> nat" where
  "rfc_shift i = [7, 12, 17, 22, 5, 9, 14, 20, 4, 11, 16, 23, 6, 10, 15, 21] ! (4 * (i div 16) + i mod 4)"

text \<open>The integer part of 4294967296 times abs(sin(i + 1)).\<close>

definition rfc_table :: "u32 list" where
  "rfc_table =
    [0xd76aa478, 0xe8c7b756, 0x242070db, 0xc1bdceee, 0xf57c0faf, 0x4787c62a, 0xa8304613, 0xfd469501,
     0x698098d8, 0x8b44f7af, 0xffff5bb1, 0x895cd7be, 0x6b901122, 0xfd987193, 0xa679438e, 0x49b40821,
     0xf61e2562, 0xc040b340, 0x265e5a51, 0xe9b6c7aa, 0xd62f105d, 0x02441453, 0xd8a1e681, 0xe7d3fbc8,
     0x21e1cde6, 0xc33707d6, 0xf4d50d87, 0x455a14ed, 0xa9e3e905, 0xfcefa3f8, 0x676f02d9, 0x8d2a4c8a,
     0xfffa3942, 0x8771f681, 0x6d9d6122, 0xfde5380c, 0xa4beea44, 0x4bdecfa9, 0xf6bb4b60, 0xbebfbc70,
     0x289b7ec6, 0xeaa127fa, 0xd4ef3085, 0x04881d05, 0xd9d4d039, 0xe6db99e5, 0x1fa27cf8, 0xc4ac5665,
     0xf4292244, 0x432aff97, 0xab9423a7, 0xfc93a039, 0x655b59c3, 0x8f0ccc92, 0xffeff47d, 0x85845dd1,
     0x6fa87e4f, 0xfe2ce6e0, 0xa3014314, 0x4e0811a1, 0xf7537e82, 0xbd3af235, 0x2ad7d2bb, 0xeb86d391]"

definition rfc_step :: "u32 list \<Rightarrow> nat \<Rightarrow> md5_regs \<Rightarrow> md5_regs" where
  "rfc_step X i r = (case r of (a, b, c, d) \<Rightarrow>
     (d, b + word_rotl (rfc_shift i) (a + rfc_function i b c d + X ! rfc_word i + rfc_table ! i), b, c))"

definition rfc_block :: "byte list \<Rightarrow> md5_regs \<Rightarrow> md5_regs" where
  "rfc_block bs r = (case fold (rfc_step (correct_words bs)) [0..<64] r of (a, b, c, d) \<Rightarrow>
     case r of (a', b', c', d') \<Rightarrow> (a + a', b + b', c + c', d + d'))"

definition rfc_blocks :: "nat \<Rightarrow> byte list \<Rightarrow> md5_regs \<Rightarrow> md5_regs" where
  "rfc_blocks n bs r = fold (\<lambda>i. rfc_block (take 64 (drop (64 * i) bs))) [0..<n] r"

definition rfc_init :: md5_regs where
  "rfc_init = (0x67452301, 0xefcdab89, 0x98badcfe, 0x10325476)"

text \<open>A one bit, zeros up to 8 bytes below a multiple of 64, and the number of bits modulo 2 to the power 64.\<close>

definition rfc_pad :: "byte list \<Rightarrow> byte list" where
  "rfc_pad m = m @ char_of (0x80::nat) # replicate (nat ((55 - int (length m)) mod 64)) NUL @ le_bytes 8 (8 * length m mod 2 ^ 64)"

definition rfc_md5 :: "byte list \<Rightarrow> byte list" where
  "rfc_md5 m = md5_get_result (rfc_blocks (length (rfc_pad m) div 64) (rfc_pad m) rfc_init)"

subsection \<open>The operations are those of the reference\<close>

lemma cyclic_rotl: "0 < s \<Longrightarrow> s < 32 \<Longrightarrow> cyclic w s = word_rotl s w"
proof (rule bit_word_eqI)
  fix n assume s: "0 < s" "s < 32" and n: "n < LENGTH(32)"
  show "bit (cyclic w s) n \<longleftrightarrow> bit (word_rotl s w) n"
  proof (cases "n < s")
    case True
    have "bit (cyclic w s) n \<longleftrightarrow> bit w (32 - s + n)"
      using s n True by (simp add: cyclic_def bit_push_bit_iff bit_drop_bit_eq bit_or_iff)
    moreover have "bit (word_rotl s w) n \<longleftrightarrow> bit w ((n + (32 - s)) mod 32)" using s n by (simp add: bit_word_rotl_iff)
    moreover have "(n + (32 - s)) mod 32 = 32 - s + n" using s True by simp
    ultimately show ?thesis by simp
  next
    case False
    then have "(n + (32 - s)) mod 32 = n - s" using s n by (simp add: mod_if)
    moreover have "\<not> bit w (32 - s + n)" using bit_imp_le_length[of w "32 - s + n"] False s by auto
    ultimately show ?thesis using s n False by (auto simp: cyclic_def bit_word_rotl_iff bit_push_bit_iff bit_drop_bit_eq bit_or_iff)
  qed
qed

definition rfc_op :: "nat \<Rightarrow> md5_fun \<times> nat \<times> nat \<times> u32" where
  "rfc_op i = (if i < 16 then FF else if i < 32 then FG else if i < 48 then FH else FI, rfc_word i, rfc_shift i, rfc_table ! i)"

lemma md5_ops_rfc: "md5_ops = map rfc_op [0..<64]"
  by code_simp

lemma rfc_shift_range: "i < 64 \<Longrightarrow> 0 < rfc_shift i \<and> rfc_shift i < 32"
proof -
  have "list_all (\<lambda>i. 0 < rfc_shift i \<and> rfc_shift i < 32) [0..<64]" by code_simp
  then show "i < 64 \<Longrightarrow> 0 < rfc_shift i \<and> rfc_shift i < 32" by (simp add: list_all_iff)
qed

lemma md5_op_rfc: "i < 64 \<Longrightarrow> md5_op X (rfc_op i) r = rfc_step X i r"
proof -
  assume i: "i < 64"
  have ff: "d XOR (b AND (c XOR d)) = (b AND c) OR (NOT b AND d)" for b c d :: u32
    by (rule bit_word_eqI) (auto simp: bit_and_iff bit_or_iff bit_xor_iff bit_not_iff)
  have fg: "c XOR (d AND (b XOR c)) = (b AND d) OR (c AND NOT d)" for b c d :: u32
    by (rule bit_word_eqI) (auto simp: bit_and_iff bit_or_iff bit_xor_iff bit_not_iff)
  show ?thesis
    using cyclic_rotl rfc_shift_range[OF i]
    by (cases r) (simp add: md5_op_def rfc_op_def rfc_step_def rfc_function_def ff fg ac_simps)
qed

lemma md5_rounds_rfc: "md5_rounds bs r = rfc_block bs r"
proof -
  have "fold (md5_op X) (map rfc_op [0..<64]) r = fold (rfc_step X) [0..<64] r" for X
    unfolding fold_map by (rule fold_cong) (auto simp: md5_op_rfc)
  then show ?thesis by (simp add: md5_rounds_def rfc_block_def md5_ops_rfc)
qed


subsection \<open>Blocks and counts\<close>

lemma blocks_append: "64 * n \<le> length m \<Longrightarrow> rfc_blocks n (m @ x) r = rfc_blocks n m r"
  unfolding rfc_blocks_def by (rule fold_cong) auto

lemma blocks_add: "rfc_blocks (n + k) m r = rfc_blocks k (drop (64 * n) m) (rfc_blocks n m r)"
proof -
  have "[0..<n + k] = [0..<n] @ map (\<lambda>i. i + n) [0..<k]"
    using upt_add_eq_append[of 0 n k] by (simp add: map_add_upt add.commute)
  then show ?thesis unfolding rfc_blocks_def by (simp add: fold_map o_def algebra_simps)
qed

lemma blocks_Suc: "rfc_blocks (Suc n) m r = rfc_blocks n (drop 64 m) (rfc_block (take 64 m) r)"
  using blocks_add[of 1 n m r] by (simp add: rfc_blocks_def)

lemma process_loop_blocks: "length bs = 64 * n \<Longrightarrow> process_loop bs r = Some (rfc_blocks n bs r)"
proof (induction n arbitrary: bs r)
  case 0
  then show ?case by (subst process_loop.simps) (simp add: rfc_blocks_def)
next
  case (Suc n)
  then show ?case by (subst process_loop.simps) (simp add: md5_rounds_rfc blocks_Suc)
qed

definition md5_count :: "md5_t \<Rightarrow> nat" where
  "md5_count s = unat (md_total0 s) + 2 ^ 32 * unat (md_total1 s)"

lemma add_total_total:
  assumes "n < 2 ^ 32"
  shows "md5_count (add_total n s) = (md5_count s + n) mod 2 ^ 64"
proof -
  let ?a = "md_total0 s" and ?b = "md_total1 s" and ?n = "of_nat n :: u32"
  have un: "unat ?n = n" using assms by (simp add: unat_of_nat take_bit_nat_eq_self)
  have le: "?n \<le> 0xFFFFFFFF" using assms by (simp add: word_le_nat_alt un)
  have um: "unat (0xFFFFFFFF - ?n) = 2 ^ 32 - 1 - n" using le un by (simp add: unat_sub)
  have ab: "unat ?a < 2 ^ 32" "unat ?b < 2 ^ 32" using unsigned_less[of ?a] unsigned_less[of ?b] by simp_all
  have carry: "0xFFFFFFFF - ?n < ?a \<longleftrightarrow> 2 ^ 32 \<le> unat ?a + n"
    using um ab assms by (simp add: word_less_nat_alt) linarith
  have sum: "unat (?a + ?n) = (unat ?a + n) mod 2 ^ 32" using un by (simp add: unat_word_ariths)
  have b1: "unat (?b + 1) = (unat ?b + 1) mod 2 ^ 32" by (simp add: unat_word_ariths)
  have "(4294967296 :: u32) = 0" unfolding word_unat_eq_iff by simp
  then have sub: "?a - (4294967296 - ?n) = ?a + ?n" by simp
  show ?thesis
  proof (cases "2 ^ 32 \<le> unat ?a + n")
    case True
    then have "(unat ?a + n) mod 2 ^ 32 = unat ?a + n - 2 ^ 32" using ab assms by (simp add: mod_if)
    moreover have "(md5_count s + n) mod 2 ^ 64 = unat ?a + n - 2 ^ 32 + 2 ^ 32 * ((unat ?b + 1) mod 2 ^ 32)"
    proof (cases "unat ?b + 1 = 2 ^ 32")
      case t: True
      then have "md5_count s + n = unat ?a + n - 2 ^ 32 + 2 ^ 64" using True by (simp add: md5_count_def)
      then have "(md5_count s + n) mod 2 ^ 64 = (unat ?a + n - 2 ^ 32) mod 2 ^ 64" by (simp only: mod_add_self2)
      also have "\<dots> = unat ?a + n - 2 ^ 32" by (rule mod_less) (use ab assms in simp)
      finally show ?thesis using t by simp
    next
      case False
      then have "unat ?b + 1 < 2 ^ 32" using ab by simp
      then show ?thesis using True ab assms by (simp add: md5_count_def)
    qed
    ultimately show ?thesis using True carry sum b1 by (simp add: add_total_def md5_count_def sub)
  next
    case False
    then show ?thesis using carry sum ab by (simp add: add_total_def md5_count_def)
  qed
qed

lemma add_total_fields [simp]:
  "md_regs (add_total n s) = md_regs s" "md_buf_len (add_total n s) = md_buf_len s" "md_buffer (add_total n s) = md_buffer s"
  by (simp_all add: add_total_def)

lemma md5_count_fields [simp]:
  "md5_count (s\<lparr>md_regs := r\<rparr>) = md5_count s" "md5_count (s\<lparr>md_buf_len := l\<rparr>) = md5_count s" "md5_count (s\<lparr>md_buffer := b\<rparr>) = md5_count s"
  by (simp_all add: md5_count_def)


subsection \<open>The state stands for the bytes so far\<close>

definition md5_inv :: "md5_t \<Rightarrow> byte list \<Rightarrow> bool" where
  "md5_inv s m \<longleftrightarrow> (\<exists>n. length m = 64 * n + md_buf_len s \<and> md_buf_len s \<le> 64 \<and> length (md_buffer s) = 128 \<and>
     take (md_buf_len s) (md_buffer s) = drop (64 * n) m \<and> md_regs s = rfc_blocks n m rfc_init \<and> md5_count s = 64 * n mod 2 ^ 64)"

lemma process_block_blocks:
  assumes "length bs = 64 * k" "64 * k < 2 ^ 32"
  shows "\<exists>s'. process_block s bs = Some s' \<and> md_regs s' = rfc_blocks k bs (md_regs s) \<and> md5_count s' = (md5_count s + 64 * k) mod 2 ^ 64 \<and>
    md_buffer s' = md_buffer s \<and> md_buf_len s' = md_buf_len s"
  using assms add_total_total[of "64 * k" s] process_loop_blocks[OF assms(1)] by (simp add: process_block_def)

lemma buffer_write_ok:
  "length (md_buffer s) = 128 \<Longrightarrow> i + length bs \<le> 128 \<Longrightarrow>
    buffer_write i bs s = Some (s\<lparr>md_buffer := take i (md_buffer s) @ bs @ drop (i + length bs) (md_buffer s)\<rparr>)"
  by (simp add: buffer_write_def)

lemma flush_ok:
  assumes "length m = 64 * n + l" "l \<le> 128" "length (md_buffer s) = 128" "take l (md_buffer s) = drop (64 * n) m"
    "md_regs s = rfc_blocks n m rfc_init" "md5_count s = 64 * n mod 2 ^ 64"
  shows "\<exists>s'. flush_buffer l s = Some s' \<and> md5_inv s' m \<and> md_buf_len s' = l mod 64"
proof -
  define k where "k = l div 64"
  have w: "whole_blocks l = 64 * k" "l = 64 * k + l mod 64" by (simp_all add: k_def minus_mod_eq_mult_div)
  have k: "64 * k \<le> l" using w(2) by linarith
  have "length (take (64 * k) (md_buffer s)) = 64 * k" using assms(2,3) k by simp
  from process_block_blocks[OF this, of s] assms(2) k obtain s3 where
    s3: "process_block s (take (64 * k) (md_buffer s)) = Some s3" "md_regs s3 = rfc_blocks k (take (64 * k) (md_buffer s)) (md_regs s)"
      "md5_count s3 = (md5_count s + 64 * k) mod 2 ^ 64" "md_buffer s3 = md_buffer s" by auto
  have bl: "rfc_blocks k (take (64 * k) (md_buffer s)) r = rfc_blocks k (drop (64 * n) m) r" for r
  proof -
    have "take (64 * k) (drop (64 * n) m) = take (64 * k) (md_buffer s)"
      using arg_cong[OF assms(4), of "take (64 * k)"] k by (simp add: min_def)
    moreover have "rfc_blocks k y r = rfc_blocks k (take (64 * k) y) r" if "64 * k \<le> length y" for y
      using blocks_append[of k "take (64 * k) y" "drop (64 * k) y" r] that by simp
    ultimately show ?thesis using assms(1) k by simp
  qed
  have regs: "md_regs s3 = rfc_blocks (n + k) m rfc_init" using s3(2) bl assms(5) by (simp add: blocks_add)
  let ?r = "take (l mod 64) (drop (64 * k) (md_buffer s3))"
  have lr: "length ?r = l mod 64" using w(2) s3(4) assms(2,3) by simp
  have rest: "?r = drop (64 * (n + k)) m"
  proof -
    have "drop (64 * k) (take l (md_buffer s)) = drop (64 * k) (drop (64 * n) m)" using assms(4) by simp
    moreover have "drop (64 * k) (take l (md_buffer s)) = take (l - 64 * k) (drop (64 * k) (md_buffer s))" by (simp add: drop_take)
    moreover have "l - 64 * k = l mod 64" using w(2) by linarith
    ultimately show ?thesis using s3(4) by (simp add: add.commute distrib_left)
  qed
  have bw: "buffer_write 0 ?r s3 = Some (s3\<lparr>md_buffer := ?r @ drop (l mod 64) (md_buffer s3)\<rparr>)"
    using buffer_write_ok[of s3 0 ?r] s3(4) assms(3) lr by simp
  have "md5_count s3 = 64 * (n + k) mod 2 ^ 64" using s3(3) assms(6) by (simp add: mod_add_left_eq distrib_left)
  moreover have "length m = 64 * (n + k) + l mod 64" using assms(1) w(2) by presburger
  moreover have "length (?r @ drop (l mod 64) (md_buffer s3)) = 128" using lr s3(4) assms(3) by simp
  ultimately have "md5_inv ((s3\<lparr>md_buffer := ?r @ drop (l mod 64) (md_buffer s3)\<rparr>)\<lparr>md_buf_len := l mod 64\<rparr>) m"
    unfolding md5_inv_def using regs rest lr by (intro exI[of _ "n + k"]) simp
  then show ?thesis using s3(1) bw w(1) by (simp add: flush_buffer_def)
qed


lemma fill_buffer_ok:
  assumes "md5_inv s m" "length bs + 128 < 2 ^ 32"
  shows "\<exists>rest s' used. fill_buffer s bs = Some (rest, s') \<and> bs = used @ rest \<and> md5_inv s' (m @ used) \<and>
    (rest = [] \<or> md_buf_len s' = 0)"
proof -
  from assms(1) obtain n where n: "length m = 64 * n + md_buf_len s" "md_buf_len s \<le> 64" "length (md_buffer s) = 128"
    "take (md_buf_len s) (md_buffer s) = drop (64 * n) m" "md_regs s = rfc_blocks n m rfc_init" "md5_count s = 64 * n mod 2 ^ 64"
    by (auto simp: md5_inv_def)
  show ?thesis
  proof (cases "md_buf_len s = 0")
    case True
    with assms(1) show ?thesis by (simp add: fill_buffer_def)
  next
    case False
    define add where "add = (if 128 < md_buf_len s + length bs then 128 - md_buf_len s else length bs)"
    have ab: "add \<le> length bs" "md_buf_len s + add \<le> 128" "128 < md_buf_len s + length bs \<longrightarrow> md_buf_len s + add = 128"
      using n(2) by (auto simp: add_def)
    have wrap: "uint_wrap (md_buf_len s + length bs) = md_buf_len s + length bs" using n(2) assms(2) by simp
    define buf where "buf = take (md_buf_len s) (md_buffer s) @ take add bs @ drop (md_buf_len s + add) (md_buffer s)"
    define s2 where "s2 = s\<lparr>md_buffer := buf, md_buf_len := md_buf_len s + add\<rparr>"
    have bw: "buffer_write (md_buf_len s) (take add bs) s = Some (s\<lparr>md_buffer := buf\<rparr>)"
      using buffer_write_ok[of s "md_buf_len s" "take add bs"] n(3) ab by (simp add: buf_def min_def)
    have lb: "length buf = 128" using n(2,3) ab by (simp add: buf_def)
    let ?m = "m @ take add bs"
    have tb: "take (md_buf_len s + add) buf = drop (64 * n) ?m" using n(1,2,3,4) ab by (simp add: buf_def)
    have lm: "length ?m = 64 * n + (md_buf_len s + add)" using n(1) ab by simp
    have regs: "md_regs s = rfc_blocks n ?m rfc_init" using n(1,5) by (simp add: blocks_append)
    have fb: "fill_buffer s bs = (do {
        s3 \<leftarrow> (if MD5_BLOCK_SIZE < md_buf_len s + add then flush_buffer (md_buf_len s + add) s2 else Some s2);
        Some (drop add bs, s3) })"
      unfolding fill_buffer_def wrap add_def[symmetric] using False bw by (simp add: s2_def Let_def)
    show ?thesis
    proof (cases "64 < md_buf_len s + add")
      case True
      have "\<exists>s'. flush_buffer (md_buf_len s + add) s2 = Some s' \<and> md5_inv s' ?m \<and> md_buf_len s' = (md_buf_len s + add) mod 64"
        by (rule flush_ok[OF lm ab(2)]) (use lb tb regs n(6) in \<open>simp_all add: s2_def md5_count_def\<close>)
      then obtain s' where s': "fill_buffer s bs = Some (drop add bs, s')" "md5_inv s' ?m" "md_buf_len s' = (md_buf_len s + add) mod 64"
        using fb True by (auto simp: MD5_BLOCK_SIZE_def)
      have "drop add bs = [] \<or> md_buf_len s' = 0" using s'(3) ab(3) by (auto simp: add_def)
      with s' show ?thesis by (intro exI[of _ "drop add bs"] exI[of _ s'] exI[of _ "take add bs"]) simp
    next
      case small: False
      then have "add = length bs" using ab(3) by (auto simp: add_def)
      moreover have "md5_inv s2 ?m" unfolding md5_inv_def
        using lm lb tb regs n(6) small by (intro exI[of _ n]) (simp add: s2_def md5_count_def)
      ultimately show ?thesis using fb small by (intro exI[of _ "[]"] exI[of _ s2] exI[of _ bs]) (simp add: MD5_BLOCK_SIZE_def)
    qed
  qed
qed


lemma md5_process_inv:
  assumes "md5_inv s m" "length bs + 128 < 2 ^ 32"
  shows "\<exists>s'. md5_process s bs = Some s' \<and> md5_inv s' (m @ bs)"
proof -
  from fill_buffer_ok[OF assms] obtain rest s1 used where
    f: "fill_buffer s bs = Some (rest, s1)" "bs = used @ rest" "md5_inv s1 (m @ used)" "rest = [] \<or> md_buf_len s1 = 0" by blast
  show ?thesis
  proof (cases "rest = []")
    case True
    then show ?thesis using f by (simp add: md5_process_def MD5_BLOCK_SIZE_def)
  next
    case False
    from f(3,4) False obtain n where n: "length (m @ used) = 64 * n" "md_buf_len s1 = 0" "length (md_buffer s1) = 128"
      "md_regs s1 = rfc_blocks n (m @ used) rfc_init" "md5_count s1 = 64 * n mod 2 ^ 64" by (auto simp: md5_inv_def)
    define k where "k = (if 64 < length rest then length rest div 64 else 0)"
    have k: "64 * k \<le> length rest" "length rest - 64 * k \<le> 64" "64 < length rest \<longrightarrow> whole_blocks (length rest) = 64 * k"
      by (auto simp: k_def minus_mod_eq_mult_div)
    have "\<exists>s2. (if MD5_BLOCK_SIZE < length rest then do {
         s2 \<leftarrow> process_block s1 (take (whole_blocks (length rest)) rest);
         Some (drop (whole_blocks (length rest)) rest, s2)
       } else Some (rest, s1)) = Some (drop (64 * k) rest, s2) \<and> md_regs s2 = rfc_blocks k (take (64 * k) rest) (md_regs s1) \<and>
       md5_count s2 = (md5_count s1 + 64 * k) mod 2 ^ 64 \<and> md_buffer s2 = md_buffer s1 \<and> md_buf_len s2 = md_buf_len s1"
    proof (cases "64 < length rest")
      case True
      have "length (take (64 * k) rest) = 64 * k" "64 * k < 2 ^ 32" using k(1) assms(2) f(2) by simp_all
      from process_block_blocks[OF this, of s1] show ?thesis using True k(3) by (auto simp: MD5_BLOCK_SIZE_def)
    next
      case small: False
      then show ?thesis using n(5) by (simp add: k_def MD5_BLOCK_SIZE_def rfc_blocks_def)
    qed
    then obtain s2 where s2: "md5_process s bs = (if drop (64 * k) rest = [] then Some s2
        else do { s3 \<leftarrow> buffer_write 0 (drop (64 * k) rest) s2; Some (s3\<lparr>md_buf_len := length (drop (64 * k) rest)\<rparr>) })"
      "md_regs s2 = rfc_blocks k (take (64 * k) rest) (md_regs s1)" "md5_count s2 = (md5_count s1 + 64 * k) mod 2 ^ 64"
      "md_buffer s2 = md_buffer s1" "md_buf_len s2 = 0"
      using f(1) n(2) by (auto simp: md5_process_def)
    let ?r = "drop (64 * k) rest" and ?m = "m @ bs"
    have d: "drop (64 * (n + k)) ?m = ?r"
      using n(1) f(2) by (simp add: distrib_left flip: append_assoc drop_drop)
    have b1: "rfc_blocks k rest r = rfc_blocks k (take (64 * k) rest) r" for r
      using blocks_append[of k "take (64 * k) rest" "drop (64 * k) rest" r] k(1) by simp
    have b2: "rfc_blocks n (m @ used @ rest) r = rfc_blocks n (m @ used) r" for r
      using blocks_append[of n "m @ used" rest r] n(1) by simp
    have dr: "drop (64 * n) (m @ used @ rest) = rest" using n(1) by (metis append_assoc append_eq_conv_conj)
    have regs: "md_regs s2 = rfc_blocks (n + k) ?m rfc_init"
      unfolding f(2) blocks_add b2 dr using s2(2) n(4) b1 by simp
    have tot: "md5_count s2 = 64 * (n + k) mod 2 ^ 64" using s2(3) n(5) by (simp add: mod_add_left_eq distrib_left)
    have len: "length ?m = 64 * (n + k) + length ?r" using n(1) f(2) k(1) by simp
    show ?thesis
    proof (cases "?r = []")
      case True
      then have "md5_inv s2 ?m" unfolding md5_inv_def using len d regs tot s2(4,5) n(3) by (intro exI[of _ "n + k"]) simp
      then show ?thesis using s2(1) True by simp
    next
      case False
      have lr: "length ?r \<le> 64" using k(2) by simp
      have bw: "buffer_write 0 ?r s2 = Some (s2\<lparr>md_buffer := ?r @ drop (length ?r) (md_buffer s2)\<rparr>)"
        using buffer_write_ok[of s2 0 ?r] lr n(3) s2(4) by simp
      have "md5_inv (s2\<lparr>md_buffer := ?r @ drop (length ?r) (md_buffer s2), md_buf_len := length ?r\<rparr>) ?m"
        unfolding md5_inv_def using len d regs tot s2(4) n(3) lr by (intro exI[of _ "n + k"]) (simp add: md5_count_def)
      then show ?thesis using s2(1) bw False by simp
    qed
  qed
qed

lemma md5_init_inv: "length buf = 128 \<Longrightarrow> md5_inv (md5_init buf) []"
  by (simp add: md5_inv_def md5_init_def rfc_blocks_def rfc_init_def md5_count_def)


subsection \<open>The end of the message\<close>

lemma le_bytes_add: "le_bytes (j + k) n = le_bytes j n @ le_bytes k (n div 256 ^ j)"
  by (induction j arbitrary: n) (simp_all add: div_mult2_eq)

lemma le_bytes_mod: "le_bytes k (n mod 256 ^ k) = le_bytes k n"
proof (induction k arbitrary: n)
  case (Suc k)
  have "n mod 256 ^ Suc k mod 256 = n mod 256" by (simp add: mod_mod_cancel)
  moreover have "n mod 256 ^ Suc k div 256 = n div 256 mod 256 ^ k" by (simp add: mod_mult2_eq)
  ultimately show ?case using Suc[of "n div 256"] by simp
qed simp

lemma length_le_bytes [simp]: "length (le_bytes k n) = k"
  by (induction k arbitrary: n) auto

lemma bit_count_bytes:
  "word_bytes (push_bit 3 (md_total0 s AND 0x1FFFFFFF)) @
     word_bytes (push_bit 3 (md_total1 s) OR drop_bit 29 (md_total0 s AND 0xE0000000)) = le_bytes 8 (8 * md5_count s mod 2 ^ 64)"
proof -
  let ?a = "md_total0 s" and ?b = "md_total1 s"
  have a: "unat ?a < 2 ^ 32" using unsigned_less[of ?a] by simp
  have m1: "(0x1FFFFFFF :: u32) = mask 29" by (simp add: mask_eq_exp_minus_1)
  have low: "unat (push_bit 3 (?a AND 0x1FFFFFFF)) = 8 * unat ?a mod 2 ^ 32"
  proof -
    have "unat (?a AND 0x1FFFFFFF) = unat ?a mod 2 ^ 29"
      unfolding m1 take_bit_eq_mask[symmetric] unsigned_take_bit_eq by (rule take_bit_eq_mod)
    then have "unat (push_bit 3 (?a AND 0x1FFFFFFF)) = (8 * (unat ?a mod 2 ^ 29)) mod 2 ^ 32"
      by (simp add: push_bit_eq_mult unat_word_ariths mult.commute)
    also have "\<dots> = 8 * unat ?a mod 2 ^ 32" by (simp add: mult_mod_right)
    finally show ?thesis .
  qed
  have dis: "push_bit 3 ?b OR drop_bit 29 (?a AND 0xE0000000) = push_bit 3 ?b + drop_bit 29 ?a"
  proof -
    have "drop_bit 29 (?a AND 0xE0000000) = drop_bit 29 ?a"
    proof (rule bit_word_eqI)
      fix n assume "n < LENGTH(32)"
      have m2: "(0xE0000000 :: u32) = NOT (mask 29)" by (simp add: mask_eq_exp_minus_1 not_eq_complement)
      show "bit (drop_bit 29 (?a AND 0xE0000000)) n \<longleftrightarrow> bit (drop_bit 29 ?a) n"
        unfolding m2 using bit_imp_le_length[of ?a "29 + n"]
        by (auto simp: bit_drop_bit_eq bit_and_iff bit_not_iff bit_mask_iff)
    qed
    moreover have "push_bit 3 ?b OR drop_bit 29 ?a = push_bit 3 ?b + drop_bit 29 ?a"
    proof (rule disjunctive_add[symmetric])
      fix n show "\<not> bit (push_bit 3 ?b) n \<or> \<not> bit (drop_bit 29 ?a) n"
        using bit_imp_le_length[of ?a "29 + n"] by (auto simp: bit_push_bit_iff bit_drop_bit_eq)
    qed
    ultimately show ?thesis by simp
  qed
  have high: "unat (push_bit 3 ?b OR drop_bit 29 (?a AND 0xE0000000)) = (8 * md5_count s mod 2 ^ 64) div 2 ^ 32"
  proof -
    have "unat (push_bit 3 ?b + drop_bit 29 ?a) = (8 * unat ?b + unat ?a div 2 ^ 29) mod 2 ^ 32"
      by (simp add: unat_word_ariths push_bit_eq_mult unat_drop_bit_eq drop_bit_eq_div mult.commute mod_add_left_eq mod_add_right_eq)
    also have "8 * unat ?b + unat ?a div 2 ^ 29 = 8 * md5_count s div 2 ^ 32" by (simp add: md5_count_def)
    also have "(8 * md5_count s div 2 ^ 32) mod 2 ^ 32 = (8 * md5_count s mod 2 ^ 64) div 2 ^ 32"
      using mod_mult2_eq[of "8 * md5_count s" "2 ^ 32" "2 ^ 32"] by simp
    finally show ?thesis unfolding dis .
  qed
  have "8 * unat ?a mod 2 ^ 32 = (8 * md5_count s mod 2 ^ 64) mod 2 ^ 32"
  proof -
    have "(8 * md5_count s mod 2 ^ 64) mod 2 ^ 32 = 8 * md5_count s mod (2 ^ 32 :: nat)" by (rule mod_mod_cancel) (simp add: le_imp_power_dvd)
    moreover have "8 * md5_count s = 8 * unat ?a + 2 ^ 32 * (8 * unat ?b)" by (simp add: md5_count_def)
    then have "8 * md5_count s mod 2 ^ 32 = 8 * unat ?a mod 2 ^ 32" by (simp only: mod_mult_self2)
    ultimately show ?thesis by (simp only:)
  qed
  then show ?thesis
    using le_bytes_add[of 4 4 "8 * md5_count s mod 2 ^ 64"] le_bytes_mod[of 4 "8 * md5_count s mod 2 ^ 64"] low high by simp
qed


lemma pad_zeros:
  assumes "l \<le> 64" "len = 64 * n + l"
  shows "md5_pad l = Suc (nat ((55 - int len) mod 64))" "\<exists>k\<le>2. l + md5_pad l + 8 = 64 * k"
proof -
  have e: "(55 - int len) mod 64 = (55 - int l) mod 64"
    using mod_mult_self2[of "55 - int l" 64 "- int n"] by (simp add: assms(2) algebra_simps)
  have "md5_pad l = Suc (nat ((55 - int len) mod 64)) \<and> (\<exists>k\<le>2. l + md5_pad l + 8 = 64 * k)"
  proof (cases "l < 56")
    case True
    then have "md5_pad l = 56 - l" "(55 - int l) mod 64 = 55 - int l" by (auto simp: md5_pad_def)
    with True e show ?thesis by (intro conjI exI[of _ 1]) auto
  next
    case False
    then have p: "md5_pad l = 120 - l" using assms(1) by (auto simp: md5_pad_def)
    have "(55 - int l) mod 64 = (55 - int l + 64) mod 64" by (rule mod_add_self2[symmetric])
    also have "\<dots> = 119 - int l" using False assms(1) by (subst mod_pos_pos_trivial) auto
    finally show ?thesis using e p False assms(1) by (intro conjI exI[of _ 2]) auto
  qed
  then show "md5_pad l = Suc (nat ((55 - int len) mod 64))" "\<exists>k\<le>2. l + md5_pad l + 8 = 64 * k" by auto
qed

lemma md5_finish_rfc:
  assumes "md5_inv s0 m"
  shows "md5_finish s0 = Some (rfc_md5 m)"
proof -
  from assms obtain n where n: "length m = 64 * n + md_buf_len s0" "md_buf_len s0 \<le> 64" "length (md_buffer s0) = 128"
    "take (md_buf_len s0) (md_buffer s0) = drop (64 * n) m" "md_regs s0 = rfc_blocks n m rfc_init" "md5_count s0 = 64 * n mod 2 ^ 64"
    by (auto simp: md5_inv_def)
  define l where "l = md_buf_len s0"
  define s where "s = add_total l s0"
  define pad where "pad = md5_pad l"
  define z where "z = char_of (0x80::nat) # replicate (pad - 1) NUL"
  define low where "low = push_bit 3 (md_total0 s AND 0x1FFFFFFF)"
  define high where "high = push_bit 3 (md_total1 s) OR drop_bit 29 (md_total0 s AND 0xE0000000)"
  from pad_zeros[OF n(2)[folded l_def] n(1)[folded l_def]] obtain k where
    k: "l + pad + 8 = 64 * k" "k \<le> 2" "pad = Suc (nat ((55 - int (length m)) mod 64))" by (auto simp: pad_def)
  have lz: "length z = pad" using k(3) by (simp add: z_def)
  have lw: "length (word_bytes w) = 4" for w by simp
  have le: "l + pad + 8 \<le> 128" using k(1,2) by simp
  define b1 where "b1 = take l (md_buffer s0) @ z @ drop (l + pad) (md_buffer s0)"
  define b2 where "b2 = take (l + pad) b1 @ word_bytes low @ drop (l + pad + 4) b1"
  define b3 where "b3 = take (l + pad + 4) b2 @ word_bytes high @ drop (l + pad + 8) b2"
  have len: "length b1 = 128" "length b2 = 128" "length b3 = 128" using n(3) le lz lw by (simp_all add: b1_def b2_def b3_def)
  have "md5_count s = length m mod 2 ^ 64"
    using add_total_total[of l s0] n(1,2,6) by (simp add: s_def l_def mod_add_left_eq)
  then have cnt: "word_bytes low @ word_bytes high = le_bytes 8 (8 * length m mod 2 ^ 64)"
    using bit_count_bytes[of s] by (simp add: low_def high_def mod_mult_right_eq)
  have t1: "take (l + pad) b1 = drop (64 * n) m @ z" using n(1,3,4) lz le by (simp add: b1_def l_def)
  then have "take (l + pad + 4) b2 = drop (64 * n) m @ z @ word_bytes low"
    using len(1) le lw[of low] n(1) lz by (simp add: b2_def l_def)
  then have "take (64 * k) b3 = drop (64 * n) m @ z @ word_bytes low @ word_bytes high"
    using len(2) le lw n(1) lz unfolding k(1)[symmetric] b3_def by (simp add: l_def)
  then have t3: "take (64 * k) b3 = drop (64 * n) (rfc_pad m)"
    using cnt n(1) k(3) by (simp add: rfc_pad_def z_def)
  have "length (take (64 * k) b3) = 64 * k" using len(3) k(2) by simp
  from process_block_blocks[OF this, of "s\<lparr>md_buffer := b3\<rparr>"] k(2) obtain s4 where
    s4: "process_block (s\<lparr>md_buffer := b3\<rparr>) (take (64 * k) b3) = Some s4" "md_regs s4 = rfc_blocks k (take (64 * k) b3) (md_regs s0)"
    by (auto simp: s_def)
  have w1: "buffer_write l z s = Some (s\<lparr>md_buffer := b1\<rparr>)"
    using buffer_write_ok[of s l z] n(3) lz le by (simp add: b1_def s_def)
  have w2: "buffer_write (l + pad) (word_bytes low) (s\<lparr>md_buffer := b1\<rparr>) = Some (s\<lparr>md_buffer := b2\<rparr>)"
    using buffer_write_ok[of "s\<lparr>md_buffer := b1\<rparr>" "l + pad" "word_bytes low"] len(1) lw[of low] le by (simp add: b2_def)
  have w3: "buffer_write (l + pad + 4) (word_bytes high) (s\<lparr>md_buffer := b2\<rparr>) = Some (s\<lparr>md_buffer := b3\<rparr>)"
    using buffer_write_ok[of "s\<lparr>md_buffer := b2\<rparr>" "l + pad + 4" "word_bytes high"] len(2) lw[of high] le by (simp add: b3_def ac_simps)
  have fin: "md5_finish s0 = Some (md5_get_result (md_regs s4))"
    unfolding md5_finish_def Let_def l_def[symmetric] s_def[symmetric] pad_def[symmetric] z_def[symmetric] low_def[symmetric] high_def[symmetric]
    using w1 w2 w3 s4(1) k(1) by simp
  have "length (rfc_pad m) = 64 * (n + k)"
    using n(1) k(1,3) lz by (simp add: rfc_pad_def l_def)
  moreover have "rfc_blocks n (rfc_pad m) r = rfc_blocks n m r" for r using n(1) by (simp add: rfc_pad_def blocks_append)
  ultimately have "rfc_md5 m = md5_get_result (rfc_blocks k (drop (64 * n) (rfc_pad m)) (rfc_blocks n m rfc_init))"
    by (simp add: rfc_md5_def blocks_add)
  then show ?thesis using fin s4(2) t3 n(5) by simp
qed


text \<open>The pieces one after the other.\<close>

fun md5_pieces :: "md5_t \<Rightarrow> byte list list \<Rightarrow> md5_t option" where
  "md5_pieces s [] = Some s"
| "md5_pieces s (x # xs) = do { s1 \<leftarrow> md5_process s x; md5_pieces s1 xs }"

lemma md5_pieces_inv:
  "md5_inv s m \<Longrightarrow> list_all (\<lambda>x. length x + 128 < 2 ^ 32) xs \<Longrightarrow> \<exists>s'. md5_pieces s xs = Some s' \<and> md5_inv s' (m @ concat xs)"
proof (induction xs arbitrary: s m)
  case (Cons x xs)
  from md5_process_inv[OF Cons.prems(1), of x] Cons.prems(2) obtain s1 where
    s1: "md5_process s x = Some s1" "md5_inv s1 (m @ x)" by auto
  from Cons.IH[OF s1(2)] Cons.prems(2) s1(1) show ?case by auto
qed simp

lemma md5_buffer_rfc: "length stack = 128 \<Longrightarrow> length bs + 128 < 2 ^ 32 \<Longrightarrow> md5_buffer stack bs = Some (rfc_md5 bs)"
  using md5_process_inv[OF md5_init_inv, of stack bs] md5_finish_rfc by (auto simp: md5_buffer_def)

text \<open>
  C23: the digest computed in pieces of any sizes is the MD5 of RFC 1321 of their concatenation, whatever the
  buffer of the state held before; no write leaves the buffer.
\<close>

theorem md5_pieces_rfc:
  assumes "length stack = 128" "list_all (\<lambda>x. length x + 128 < 2 ^ 32) xs"
  shows "(\<exists>s. md5_pieces (md5_init stack) xs = Some s \<and> md5_finish s = Some (rfc_md5 (concat xs)))"
  using md5_pieces_inv[OF md5_init_inv[OF assms(1)] assms(2)] md5_finish_rfc by auto

theorem md5_pieces_rfc_witness:
  "\<exists>s. md5_pieces (md5_init (replicate 128 NUL)) [''ab'', ''c''] = Some s \<and> md5_finish s = Some (rfc_md5 ''abc'')"
  using md5_pieces_rfc[of "replicate 128 NUL" "[''ab'', ''c'']"] by simp

subsection \<open>Hexadecimal digests\<close>

text \<open>\<open>strchr(hex, c) - hex\<close>: the NUL is found at the end, any other character leaves a difference with the NULL pointer.\<close>

definition hex_value :: "byte \<Rightarrow> nat option" where
  "hex_value c =
     (if c = NUL then Some 16
      else let i = length (takeWhile (\<lambda>d. d \<noteq> c) ''0123456789abcdef'') in if i < 16 then Some i else None)"

text \<open>The first \<open>k\<close> bytes of a signature; the code reads all 16. \<open>None\<close> also is a read behind the string.\<close>

fun md5_sig_from_string :: "nat \<Rightarrow> byte list \<Rightarrow> byte list option" where
  "md5_sig_from_string 0 s = Some []"
| "md5_sig_from_string (Suc k) (c # d # s) = do {
     high \<leftarrow> hex_value c;
     low \<leftarrow> hex_value d;
     r \<leftarrow> md5_sig_from_string k s;
     Some (char_of (high * 16 + low) # r)
   }"
| "md5_sig_from_string (Suc k) s = None"

lemma md5_digit_value: "n < 16 \<Longrightarrow> hex_value (md5_digit n) = Some n \<and> md5_digit n \<noteq> NUL"
proof -
  have "list_all (\<lambda>n. hex_value (md5_digit n) = Some n \<and> md5_digit n \<noteq> NUL) [0..<16]" by code_simp
  then show "n < 16 \<Longrightarrow> hex_value (md5_digit n) = Some n \<and> md5_digit n \<noteq> NUL" by (simp add: list_all_iff)
qed

lemma nibbles: "(of_char (b :: byte) :: nat) div 16 < 16" "(of_char b :: nat) mod 16 < 16"
proof -
  have "(of_char b :: nat) < 256" by simp
  then show "(of_char b :: nat) div 16 < 16" by linarith
qed simp

lemma sig_roundtrip: "2 * length sig \<le> n \<Longrightarrow> md5_sig_from_string (length sig) (md5_sig_to_string sig n) = Some sig"
  by (induction sig arbitrary: n) (use nibbles in \<open>auto simp: md5_digit_value\<close>)

text \<open>A buffer with room for the NUL holds a string of two digits for each byte.\<close>

lemma sig_string:
  "2 * length sig < n \<Longrightarrow>
     \<exists>s. md5_sig_to_string sig n = s @ [NUL] \<and> NUL \<notin> set s \<and> length s = 2 * length sig"
proof (induction sig arbitrary: n)
  case (Cons b sig)
  then have "2 * length sig < n - 2" by simp
  from Cons.IH[OF this] obtain s where
    "md5_sig_to_string sig (n - 2) = s @ [NUL]" "NUL \<notin> set s" "length s = 2 * length sig" by blast
  with Cons.prems md5_digit_value[OF nibbles(1)[of b]] md5_digit_value[OF nibbles(2)[of b]] show ?case by auto
qed simp

lemma sig_from_prefix: "length s = 2 * k \<Longrightarrow> md5_sig_from_string k (s @ t) = md5_sig_from_string k s"
proof (induction k arbitrary: s)
  case (Suc k)
  then obtain c d r where "s = c # d # r" by (auto simp: length_Suc_conv)
  with Suc show ?case by simp
qed simp

text \<open>The string in the buffer: two digits for each byte, from which the bytes can be read.\<close>

lemma sig_digits:
  assumes "2 * length sig < n"
  shows "\<exists>s. takeWhile (\<lambda>c. c \<noteq> NUL) (md5_sig_to_string sig n) = s \<and> length s = 2 * length sig \<and>
    md5_sig_from_string (length sig) s = Some sig"
proof -
  from sig_string[OF assms] obtain s where
    s: "md5_sig_to_string sig n = s @ [NUL]" "NUL \<notin> set s" "length s = 2 * length sig" by blast
  have "takeWhile (\<lambda>c. c \<noteq> NUL) (s @ [NUL]) = s" using s(2) by (auto simp: takeWhile_append2 takeWhile_append)
  with s sig_from_prefix[OF s(3), of "[NUL]"] sig_roundtrip[of sig n] assms show ?thesis by simp
qed

lemma length_rfc_md5 [simp]: "length (rfc_md5 m) = 16"
  by (simp add: rfc_md5_def md5_get_result_def split: prod.split)

text \<open>What \<open>ltr:md5\<close> makes of a message: the string in a buffer of 33 characters.\<close>

definition md5_hex :: "byte list \<Rightarrow> cstring \<Rightarrow> cstring option" where
  "md5_hex stack msg =
     map_option (\<lambda>s. takeWhile (\<lambda>c. c \<noteq> NUL) (md5_sig_to_string s 33)) (md5_buffer stack (take (uint_wrap (length msg)) msg))"

text \<open>The 32 digits of the digest, whatever was on the stack.\<close>

lemma md5_hex_digits:
  assumes "length stack = 128" "length msg + 128 < 2 ^ 32"
  shows "\<exists>s. md5_hex stack msg = Some s \<and> length s = 32 \<and> md5_sig_from_string 16 s = Some (rfc_md5 msg)"
  using sig_digits[of "rfc_md5 msg" 33] md5_buffer_rfc[OF assms] assms(2) by (simp add: md5_hex_def)

end
