(* ===== verification/Tx_Functions.thy ===== *)
theory Tx_Functions
  imports Tx_Context Tx_Utf8 Tx_Md5
begin

text \<open>
  functions.c: the function library of XPath expressions. Every function gets the evaluator as a parameter, the
  list of its argument trees, the context node and the state. \<open>fuel\<close> bounds the compilation of the expressions
  that \<open>key()\<close> builds. Strings are the C strings of the code; where it decodes UTF-8 the model does.
\<close>

type_synonym xf = "xenv \<Rightarrow> nat \<Rightarrow> evaluator \<Rightarrow> xpath_expr list \<Rightarrow> ref option \<Rightarrow> xstate \<Rightarrow> (rvalue \<times> xstate) option"

text \<open>\<open>args\<close> as a pointer, and \<open>args->next\<close> (a crash at the NULL pointer).\<close>

definition arg_ptr :: "xpath_expr list \<Rightarrow> xpath_expr option" where
  "arg_ptr args = (case args of [] \<Rightarrow> None | a # r \<Rightarrow> Some a)"

definition arg_next :: "xpath_expr list \<Rightarrow> xpath_expr list option" where
  "arg_next args = (case args of [] \<Rightarrow> None | a # r \<Rightarrow> Some r)"

definition eval_string :: "evaluator \<Rightarrow> xpath_expr list \<Rightarrow> ref option \<Rightarrow> xstate \<Rightarrow> (cstring option \<times> xstate) option" where
  "eval_string ev args current st = do {
     (rv, st1) \<leftarrow> ev (arg_ptr args) current st;
     s \<leftarrow> rval2string (x_heap st1) rv;
     Some (s, st1)
   }"

definition eval_number :: "evaluator \<Rightarrow> xpath_expr list \<Rightarrow> ref option \<Rightarrow> xstate \<Rightarrow> (double \<times> xstate) option" where
  "eval_number ev args current st = do {
     (rv, st1) \<leftarrow> ev (arg_ptr args) current st;
     d \<leftarrow> rval2number (x_heap st1) rv;
     Some (d, st1)
   }"

subsection \<open>Escaping\<close>

definition is_alnum :: "char \<Rightarrow> bool" where
  "is_alnum c \<longleftrightarrow> is_digit_char c \<or> char_between CHR ''a'' CHR ''z'' c \<or> char_between CHR ''A'' CHR ''Z'' c"

definition hex_digit :: "nat \<Rightarrow> char" where
  "hex_digit d = ''0123456789ABCDEF'' ! d"

definition url_encode_char :: "char \<Rightarrow> cstring" where
  "url_encode_char c =
     (if is_alnum c \<or> c \<in> {CHR ''-'', CHR ''.'', CHR ''_'', CHR ''~''} then [c]
      else [CHR ''%'', hex_digit (of_char c div 16), hex_digit (of_char c mod 16)])"

definition url_encode :: "cstring \<Rightarrow> cstring" where
  "url_encode url = concat (map url_encode_char url)"

definition js_escape_char :: "char \<Rightarrow> cstring" where
  "js_escape_char c =
     (if c \<in> {CHR 0x27, CHR 0x22, CHR 0x5C, CHR ''/''} then [CHR 0x5C, c]
      else if c = CHR 0x0D \<or> c = CHR 0x0A then [CHR 0x5C, CHR ''n'']
      else [c])"

definition js_escape :: "cstring \<Rightarrow> cstring" where
  "js_escape s = concat (map js_escape_char s)"

definition xf_strescape :: xf where
  "xf_strescape env fuel ev args current st = do {
     (str, st1) \<leftarrow> eval_string ev args current st;
     (case str of
        None \<Rightarrow> Some (VAL_STRING None, st1)
      | Some s \<Rightarrow> do {
          next \<leftarrow> arg_next args;
          (mode, st2) \<leftarrow> (if next \<noteq> [] then eval_string ev next current st1 else Some (Some ''js'', st1));
          Some (VAL_STRING (if mode = Some ''js'' then Some (js_escape s)
                            else if mode = Some ''url'' then Some (url_encode s) else None), st2)
        })
   }"

definition xf_urlenc :: xf where
  "xf_urlenc env fuel ev args current st =
     (if args = [] then Some (VAL_STRING None, st)
      else do {
        (str, st1) \<leftarrow> eval_string ev args current st;
        Some (VAL_STRING (map_option url_encode str), st1)
      })"

subsection \<open>The context node\<close>

fun show_hex :: "nat \<Rightarrow> cstring" where
  "show_hex n = (if n < 16 then [''0123456789abcdef'' ! n] else show_hex (n div 16) @ [''0123456789abcdef'' ! (n mod 16)])"

declare show_hex.simps [simp del]

text \<open>\<open>%x\<close> prints the low 32 bits of the address.\<close>

definition xf_getid :: xf where
  "xf_getid env fuel ev args current st = do {
     (node, st1) \<leftarrow> (if args = [] then Some (current, st)
       else do {
         (rv, st') \<leftarrow> ev (arg_ptr args) current st;
         Some (case rv of VAL_NODESET p \<Rightarrow> p | _ \<Rightarrow> None, st')
       });
     (case node of
        None \<Rightarrow> Some (VAL_NULL, st1)
      | Some _ \<Rightarrow> do {
          n \<leftarrow> deref (x_heap st1) node;
          let address = (case n_uid n of None \<Rightarrow> 0 | Some u \<Rightarrow> e_address env u mod 2 ^ 32);
          Some (VAL_STRING (Some (''id_'' @ show_hex address)), st1)
        })
   }"

definition xf_current :: xf where
  "xf_current env fuel ev args current st = do {
     l \<leftarrow> deref (x_heap st) (e_locals env);
     (p, pos, h) \<leftarrow> add_to_selection (x_heap st) None (n_parent l) 0;
     Some (VAL_NODESET p, st\<lparr>x_heap := h\<rparr>)
   }"

definition xf_true :: xf where
  "xf_true env fuel ev args current st = Some (VAL_BOOL 1, st)"

definition xf_false :: xf where
  "xf_false env fuel ev args current st = Some (VAL_BOOL 0, st)"

definition xf_last :: xf where
  "xf_last env fuel ev args current st =
     (case current of
        None \<Rightarrow> Some (VAL_INT 1, st)
      | Some a \<Rightarrow> do {
          l \<leftarrow> last_node (x_heap st) a;
          n \<leftarrow> deref (x_heap st) (Some l);
          Some (VAL_INT (uint (n_position n)), st)
        })"

definition xf_position :: xf where
  "xf_position env fuel ev args current st = do {
     n \<leftarrow> deref (x_heap st) current;
     Some (VAL_INT (uint (n_position n)), st)
   }"

definition xf_name :: xf where
  "xf_name env fuel ev args current st = do {
     (node, st1) \<leftarrow> (if args = [] then Some (current, st)
       else do {
         (rv, st') \<leftarrow> ev (arg_ptr args) current st;
         Some (case rv of VAL_NODESET p \<Rightarrow> p | _ \<Rightarrow> None, st')
       });
     (case node of
        None \<Rightarrow> Some (VAL_STRING (Some []), st1)
      | Some _ \<Rightarrow> do {
          n \<leftarrow> deref (x_heap st1) node;
          Some (VAL_STRING (Some (case n_name n of None \<Rightarrow> [] | Some s \<Rightarrow> s)), st1)
        })
   }"

text \<open>\<open>strchr(name, ':')\<close>: what follows the first colon, or the whole name.\<close>

definition local_part :: "cstring \<Rightarrow> cstring" where
  "local_part s = (if CHR '':'' \<in> set s then tl (dropWhile (\<lambda>c. c \<noteq> CHR '':'') s) else s)"

definition xf_local_name :: xf where
  "xf_local_name env fuel ev args current st = do {
     (node, st1) \<leftarrow> (if args = [] then Some (current, st)
       else do {
         (rv, st') \<leftarrow> ev (arg_ptr args) current st;
         Some (case rv of VAL_NODESET p \<Rightarrow> p | _ \<Rightarrow> None, st')
       });
     (case node of
        None \<Rightarrow> Some (VAL_STRING (Some []), st1)
      | Some _ \<Rightarrow> do {
          n \<leftarrow> deref (x_heap st1) node;
          Some (VAL_STRING (Some (case n_name n of None \<Rightarrow> [] | Some s \<Rightarrow> local_part s)), st1)
        })
   }"

text \<open>The text children, and all children, of the context node.\<close>

definition select_children :: "heap \<Rightarrow> ref option \<Rightarrow> nodetype option \<Rightarrow> (ref option \<times> heap) option" where
  "select_children h current ty = do {
     n \<leftarrow> deref h current;
     s \<leftarrow> select_loop (length h) n_next
       (Some (XPATH_NODE_CALL, Some (if ty = Some TEXT_NODE then ''text'' else ''node''))) (new_selection h) (n_children n);
     Some (sel_result s)
   }"

definition xf_text :: xf where
  "xf_text env fuel ev args current st = do {
     (p, h) \<leftarrow> select_children (x_heap st) current (Some TEXT_NODE);
     Some (VAL_NODESET p, st\<lparr>x_heap := h\<rparr>)
   }"

definition xf_node :: xf where
  "xf_node env fuel ev args current st = do {
     (p, h) \<leftarrow> select_children (x_heap st) current None;
     Some (VAL_NODESET p, st\<lparr>x_heap := h\<rparr>)
   }"

subsection \<open>Conversions and numbers\<close>

definition xf_tostr :: xf where
  "xf_tostr env fuel ev args current st = do {
     (s, st1) \<leftarrow> eval_string ev args current st; Some (VAL_STRING s, st1)
   }"

definition xf_tonum :: xf where
  "xf_tonum env fuel ev args current st = do {
     (d, st1) \<leftarrow> eval_number ev args current st; Some (VAL_NUMBER d, st1)
   }"

definition xf_tobool :: xf where
  "xf_tobool env fuel ev args current st = do {
     (rv, st1) \<leftarrow> ev (arg_ptr args) current st; Some (VAL_BOOL (if rval2bool rv then 1 else 0), st1)
   }"

definition xf_round :: xf where
  "xf_round env fuel ev args current st = do {
     (d, st1) \<leftarrow> eval_number ev args current st;
     Some (VAL_NUMBER (d_floor (d_add d (d_of_rat (1 / 2)))), st1)
   }"

definition xf_floor :: xf where
  "xf_floor env fuel ev args current st = do {
     (d, st1) \<leftarrow> eval_number ev args current st; Some (VAL_NUMBER (d_floor d), st1)
   }"

definition xf_ceil :: xf where
  "xf_ceil env fuel ev args current st = do {
     (d, st1) \<leftarrow> eval_number ev args current st; Some (VAL_NUMBER (d_ceil d), st1)
   }"

fun sum_nodes :: "heap \<Rightarrow> ref list \<Rightarrow> double \<Rightarrow> double option" where
  "sum_nodes h [] d = Some d"
| "sum_nodes h (a # r) d = do {
     t \<leftarrow> node2string h (Some a);
     s \<leftarrow> t;
     sum_nodes h r (d_add d (strtod s))
   }"

fun sum_args :: "evaluator \<Rightarrow> xpath_expr list \<Rightarrow> ref option \<Rightarrow> xstate \<Rightarrow> double \<Rightarrow> (double \<times> xstate) option" where
  "sum_args ev [] current st d = Some (d, st)"
| "sum_args ev (e # r) current st d = do {
     (rv, st1) \<leftarrow> ev (Some e) current st;
     d1 \<leftarrow> (case rv of
         VAL_NODESET p \<Rightarrow> do { nodes \<leftarrow> walk n_next (x_heap st1) p; sum_nodes (x_heap st1) nodes d }
       | _ \<Rightarrow> do { t \<leftarrow> rval2number (x_heap st1) rv; Some (d_add d t) });
     sum_args ev r current st1 d1
   }"

definition xf_sum :: xf where
  "xf_sum env fuel ev args current st = do {
     (d, st1) \<leftarrow> sum_args ev args current st d_zero; Some (VAL_NUMBER d, st1)
   }"

text \<open>A node of type \<open>EMPTY_NODE\<close> counts as its children. The counter is an \<open>unsigned\<close>.\<close>

fun count_nodes :: "heap \<Rightarrow> ref list \<Rightarrow> u32 \<Rightarrow> u32 option" where
  "count_nodes h [] n = Some n"
| "count_nodes h (a # r) n =
     (if n_type (h ! a) = EMPTY_NODE
      then do { kids \<leftarrow> walk n_next h (n_children (h ! a)); count_nodes h r (n + of_nat (length kids)) }
      else count_nodes h r (n + 1))"

definition xf_count :: xf where
  "xf_count env fuel ev args current st = do {
     (rv, st1) \<leftarrow> ev (arg_ptr args) current st;
     n \<leftarrow> (case rv of
         VAL_NODESET p \<Rightarrow> do { nodes \<leftarrow> walk n_next (x_heap st1) p; count_nodes (x_heap st1) nodes 0 }
       | _ \<Rightarrow> Some 0);
     Some (VAL_INT (uint n), st1)
   }"

subsection \<open>Strings\<close>

text \<open>A NULL string before the first non-NULL one is forgotten, later ones are skipped.\<close>

fun concat_args :: "evaluator \<Rightarrow> xpath_expr list \<Rightarrow> ref option \<Rightarrow> xstate \<Rightarrow> cstring option \<Rightarrow> (cstring option \<times> xstate) option" where
  "concat_args ev [] current st s = Some (s, st)"
| "concat_args ev (e # r) current st s = do {
     (rv, st1) \<leftarrow> ev (Some e) current st;
     t \<leftarrow> rval2string (x_heap st1) rv;
     concat_args ev r current st1
       (case s of None \<Rightarrow> t | Some c \<Rightarrow> (case t of None \<Rightarrow> s | Some d \<Rightarrow> Some (c @ d)))
   }"

definition xf_concat :: xf where
  "xf_concat env fuel ev args current st = do {
     (s, st1) \<leftarrow> concat_args ev args current st None; Some (VAL_STRING s, st1)
   }"

text \<open>The conversion of an \<open>int\<close> to \<open>size_t\<close>, and the sum of two \<open>int\<close>s, which wraps.\<close>

definition int_to_size :: "int \<Rightarrow> int" where
  "int_to_size i = i mod 2 ^ 64"

definition int_add :: "int \<Rightarrow> int \<Rightarrow> int" where
  "int_add a b = (a + b + 2 ^ 31) mod 2 ^ 32 - 2 ^ 31"

text \<open>The loop of \<open>substring\<close>: the units whose number \<open>p + 1\<close> lies between the bounds, both as \<open>size_t\<close>.\<close>

definition substr_units :: "int \<Rightarrow> int \<Rightarrow> u16 list \<Rightarrow> u16 list" where
  "substr_units start len ws =
     map snd (filter (\<lambda>(p, w). int_to_size start \<le> int p + 1 \<and> int p + 1 < int_to_size (int_add start len))
       (enumerate 0 ws))"

definition encode_units :: "u16 list \<Rightarrow> cstring" where
  "encode_units ws = concat (map (\<lambda>w. utf8_bytes (short_to_unsigned w)) ws)"

definition xf_substr :: xf where
  "xf_substr env fuel ev args current st = do {
     (s, st1) \<leftarrow> eval_string ev args current st;
     (case s of
        None \<Rightarrow> Some (VAL_STRING None, st1)
      | Some _ \<Rightarrow> do {
          args2 \<leftarrow> arg_next args;
          (d, st2) \<leftarrow> eval_number ev args2 current st1;
          start \<leftarrow> d_to_int (d_floor d);
          args3 \<leftarrow> arg_next args2;
          if args3 = []
          then do {
            ws \<leftarrow> utf2ws s;
            units \<leftarrow> ws;
            Some (VAL_STRING (Some (encode_units (substr_units start (2 ^ 31 - 1) units))), st2)
          }
          else do {
            (l, st3) \<leftarrow> eval_number ev args3 current st2;
            len \<leftarrow> d_to_int (d_floor l);
            if len < 0 then Some (VAL_STRING None, st3)
            else do {
              ws \<leftarrow> utf2ws s;
              units \<leftarrow> ws;
              Some (VAL_STRING (Some (encode_units (substr_units start len units))), st3)
            }
          }
        })
   }"

fun strstr :: "cstring \<Rightarrow> cstring \<Rightarrow> nat option" where
  "strstr s p =
     (if starts_with p s then Some 0
      else case s of [] \<Rightarrow> None | c # r \<Rightarrow> map_option Suc (strstr r p))"

declare strstr.simps [simp del]

text \<open>Two string arguments.\<close>

definition eval_two :: "evaluator \<Rightarrow> xpath_expr list \<Rightarrow> ref option \<Rightarrow> xstate \<Rightarrow> (cstring option \<times> cstring option \<times> xstate) option" where
  "eval_two ev args current st = do {
     (s, st1) \<leftarrow> eval_string ev args current st;
     args2 \<leftarrow> arg_next args;
     (p, st2) \<leftarrow> eval_string ev args2 current st1;
     Some (s, p, st2)
   }"

definition xf_contains :: xf where
  "xf_contains env fuel ev args current st = do {
     (s, p, st1) \<leftarrow> eval_two ev args current st;
     Some (VAL_BOOL (case (s, p) of (Some a, Some b) \<Rightarrow> if strstr a b \<noteq> None then 1 else 0 | _ \<Rightarrow> 0), st1)
   }"

definition xf_starts :: xf where
  "xf_starts env fuel ev args current st = do {
     (s, p, st1) \<leftarrow> eval_two ev args current st;
     Some (VAL_BOOL (case (s, p) of (Some a, Some b) \<Rightarrow> if strstr a b = Some 0 then 1 else 0 | _ \<Rightarrow> 0), st1)
   }"

definition substring_before :: "cstring option \<Rightarrow> cstring option \<Rightarrow> cstring option" where
  "substring_before s p =
     (case (s, p) of
        (Some a, Some b) \<Rightarrow> if b = [] then None else map_option (\<lambda>i. take i a) (strstr a b)
      | _ \<Rightarrow> None)"

definition substring_after :: "cstring option \<Rightarrow> cstring option \<Rightarrow> cstring option" where
  "substring_after s p =
     (case (s, p) of
        (Some a, Some b) \<Rightarrow> if b = [] then None else map_option (\<lambda>i. drop (i + length b) a) (strstr a b)
      | _ \<Rightarrow> None)"

definition xf_sub_before :: xf where
  "xf_sub_before env fuel ev args current st = do {
     (s, p, st1) \<leftarrow> eval_two ev args current st; Some (VAL_STRING (substring_before s p), st1)
   }"

definition xf_sub_after :: xf where
  "xf_sub_after env fuel ev args current st = do {
     (s, p, st1) \<leftarrow> eval_two ev args current st; Some (VAL_STRING (substring_after s p), st1)
   }"

text \<open>The copying loop of \<open>normalize-space\<close> keeps the first character of a run of white space.\<close>

function squeeze_ws :: "cstring \<Rightarrow> cstring" where
  "squeeze_ws [] = []"
| "squeeze_ws (c # r) = c # squeeze_ws (if x_is_ws c then dropWhile x_is_ws r else r)"
  by pat_completeness auto
termination
  by (relation "measure length") (auto simp: less_Suc_eq_le length_dropWhile_le)

definition strip_trailing :: "cstring \<Rightarrow> cstring" where
  "strip_trailing s = rev (dropWhile x_is_ws (rev s))"

definition normalize_space :: "cstring \<Rightarrow> cstring" where
  "normalize_space s = strip_trailing (squeeze_ws (dropWhile x_is_ws s))"

definition xf_normalize :: xf where
  "xf_normalize env fuel ev args current st = do {
     (s, st1) \<leftarrow> eval_string ev args current st; Some (VAL_STRING (map_option normalize_space s), st1)
   }"

text \<open>The bytes that do not continue a UTF-8 sequence.\<close>

definition utf8_length :: "cstring \<Rightarrow> nat" where
  "utf8_length s = length (filter (\<lambda>c. w8 c AND 0xC0 \<noteq> 0x80) s)"

definition xf_strlen :: xf where
  "xf_strlen env fuel ev args current st = do {
     (s, st1) \<leftarrow> eval_string ev args current st;
     Some (VAL_INT (case s of None \<Rightarrow> 0 | Some c \<Rightarrow> int (utf8_length c)), st1)
   }"

text \<open>
  The inner loop of \<open>translate\<close>: it does not stop at a match, so a replaced unit is compared
  with the rest of the pattern. Reading \<open>sub\<close> behind its terminator is undefined.
\<close>

definition unit_at :: "u16 list \<Rightarrow> nat \<Rightarrow> u16 option" where
  "unit_at ws j = (if j < length ws then Some (ws ! j) else if j = length ws then Some 0 else None)"

fun translate_unit :: "u16 list \<Rightarrow> nat \<Rightarrow> u16 list \<Rightarrow> u16 \<Rightarrow> u16 option" where
  "translate_unit [] j sub v = Some v"
| "translate_unit (p # ps) j sub v = do {
     v1 \<leftarrow> (if v = p then unit_at sub j else Some v);
     translate_unit ps (Suc j) sub v1
   }"

fun translate_units :: "u16 list \<Rightarrow> u16 list \<Rightarrow> u16 list \<Rightarrow> u16 list option" where
  "translate_units pat sub [] = Some []"
| "translate_units pat sub (v # r) = do {
     v1 \<leftarrow> translate_unit pat 0 sub v;
     vs \<leftarrow> translate_units pat sub r;
     Some (if v1 = 0 then vs else v1 # vs)
   }"

text \<open>A NULL pattern or replacement is a crash as soon as it is read.\<close>

definition translate_string :: "cstring \<Rightarrow> cstring option \<Rightarrow> cstring option \<Rightarrow> cstring option" where
  "translate_string s pattern replacement = do {
     src \<leftarrow> utf2ws (Some s);
     pat \<leftarrow> utf2ws pattern;
     sub \<leftarrow> utf2ws replacement;
     units \<leftarrow> src;
     (if units = [] then Some []
      else do {
        ps \<leftarrow> pat;
        (if sub = None \<and> (\<exists>v\<in>set units. v \<in> set ps) then None
         else map_option encode_units (translate_units ps (case sub of None \<Rightarrow> [] | Some w \<Rightarrow> w) units))
      })
   }"

definition xf_translate :: xf where
  "xf_translate env fuel ev args current st = do {
     (s, st1) \<leftarrow> eval_string ev args current st;
     (case s of
        None \<Rightarrow> Some (VAL_STRING None, st1)
      | Some c \<Rightarrow>
          (case args of
             _ # b # d # r \<Rightarrow> do {
               (p, st2) \<leftarrow> eval_string ev [b] current st1;
               (q, st3) \<leftarrow> eval_string ev [d] current st2;
               t \<leftarrow> translate_string c p q;
               Some (VAL_STRING (Some t), st3)
             }
           | _ \<Rightarrow> if args = [] then None else Some (VAL_STRING None, st1)))
   }"

subsection \<open>Documents, rights and addresses\<close>

definition xf_check :: xf where
  "xf_check env fuel ev args current st =
     (case e_user_rights env of
        None \<Rightarrow> Some (VAL_BOOL 0, st)
      | Some rights \<Rightarrow>
          if args = [] then Some (VAL_BOOL 0, st)
          else do {
            (str, st1) \<leftarrow> eval_string ev args current st;
            Some (VAL_BOOL (case str of None \<Rightarrow> 0 | Some s \<Rightarrow> if rights s then 1 else 0), st1)
          })"

definition xf_exists :: xf where
  "xf_exists env fuel ev args current st = Some (VAL_INT 1, st)"

fun md5_args :: "evaluator \<Rightarrow> xpath_expr list \<Rightarrow> ref option \<Rightarrow> xstate \<Rightarrow> cstring \<Rightarrow> (cstring \<times> xstate) option" where
  "md5_args ev [] current st msg = Some (msg, st)"
| "md5_args ev (e # r) current st msg = do {
     (str, st1) \<leftarrow> eval_string ev [e] current st;
     md5_args ev r current st1 (msg @ (case str of None \<Rightarrow> [] | Some s \<Rightarrow> s))
   }"

text \<open>The buffer of the digest is on the stack; its contents do not matter (\<open>md5_hex_digits\<close>), here they are NULs.\<close>

definition xf_md5 :: xf where
  "xf_md5 env fuel ev args current st = do {
     (msg, st1) \<leftarrow> md5_args ev args current st [];
     h \<leftarrow> md5_hex (replicate 128 NUL) msg;
     Some (VAL_STRING (Some h), st1)
   }"

definition xf_base64 :: xf where
  "xf_base64 env fuel ev args current st = Some (VAL_STRING (Some ''Aa3b24455632+30h''), st)"

definition xf_banner :: xf where
  "xf_banner env fuel ev args current st = Some (VAL_STRING None, st)"

definition xf_thread_id :: xf where
  "xf_thread_id env fuel ev args current st = Some (VAL_STRING (Some (e_thread_id env)), st)"

definition xf_stub :: xf where
  "xf_stub env fuel ev args current st = Some (VAL_NULL, st)"

text \<open>transform.c 185-198: a name is relative to the directory of the file the node comes from.\<close>

definition get_absolute_path :: "heap \<Rightarrow> ref option \<Rightarrow> cstring \<Rightarrow> cstring option" where
  "get_absolute_path h node name = do {
     n \<leftarrow> deref h node;
     file \<leftarrow> n_file n;
     Some (if CHR ''/'' \<in> set file then rev (dropWhile (\<lambda>c. c \<noteq> CHR ''/'') (rev file)) @ name else name)
   }"

definition xf_document :: xf where
  "xf_document env fuel ev args current st = do {
     (docname, st1) \<leftarrow> eval_string ev args current st;
     name \<leftarrow> docname;
     (doc, h) \<leftarrow> (if name = [] then
         do { (d, pos, h) \<leftarrow> add_to_selection (x_heap st1) None (e_stylesheet env) 0; Some (d, h) }
       else do {
         abs \<leftarrow> get_absolute_path (x_heap st1) (e_stylesheet env) name;
         (d, h1) \<leftarrow> e_parse_file env (x_heap st1) abs;
         (d', pos, h2) \<leftarrow> add_to_selection h1 None d 0;
         Some (d', h2)
       });
     Some (case doc of None \<Rightarrow> VAL_NULL | Some _ \<Rightarrow> VAL_NODESET doc, st1\<lparr>x_heap := h\<rparr>)
   }"

definition xf_exnodeset :: xf where
  "xf_exnodeset env fuel ev args current st = do {
     (rv, st1) \<leftarrow> ev (arg_ptr args) current st;
     (case rv of
        VAL_NODESET p \<Rightarrow> Some (VAL_NODESET p, st1)
      | VAL_STRING s \<Rightarrow> do {
          (p, h) \<leftarrow> e_parse_string env (x_heap st1) s;
          Some (VAL_NODESET p, st1\<lparr>x_heap := h\<rparr>)
        }
      | _ \<Rightarrow> Some (VAL_NODESET None, st1))
   }"

definition create_veristat_url :: "xenv \<Rightarrow> cstring \<Rightarrow> cstring" where
  "create_veristat_url env url =
     ''/static/'' @ url @ (case e_revisions env url of None \<Rightarrow> [] | Some revision \<Rightarrow> ''?'' @ revision)"

definition xf_veristat :: xf where
  "xf_veristat env fuel ev args current st =
     (if args = [] then Some (VAL_STRING None, st)
      else do {
        (url, st1) \<leftarrow> eval_string ev args current st;
        Some (VAL_STRING (map_option (create_veristat_url env) url), st1)
      })"

definition xf_veristat_local :: xf where
  "xf_veristat_local env fuel ev args current st =
     (if args = [] then Some (VAL_STRING None, st)
      else do {
        (rv, st1) \<leftarrow> ev (arg_ptr args) current st;
        Some (case rv of
            VAL_STRING (Some url) \<Rightarrow>
              VAL_STRING (Some (create_veristat_url env
                ((case e_url_local_prefix env of None \<Rightarrow> [] | Some p \<Rightarrow> p) @ url)))
          | _ \<Rightarrow> VAL_STRING None, st1)
      })"

text \<open>
  \<open>ltr:url_code\<close>: the key is put together from the arguments, an argument that starts with a dash
  naming a parameter. The URL comes from the table of the process, the external cache or the Perl callback, and is
  entered into the table.
\<close>

fun urlcode_args :: "xenv \<Rightarrow> evaluator \<Rightarrow> xpath_expr list \<Rightarrow> ref option \<Rightarrow> xstate \<Rightarrow> cstring \<Rightarrow> (cstring \<times> xstate) option" where
  "urlcode_args env ev [] current st buffer = Some (buffer, st)"
| "urlcode_args env ev (e # r) current st buffer = do {
     (str, st1) \<leftarrow> eval_string ev [e] current st;
     let comma = (if r \<noteq> [] then '','' else []);
     urlcode_args env ev r current st1
       (case str of
          None \<Rightarrow> buffer @ comma
        | Some s \<Rightarrow>
            if peek s = CHR ''-''
            then (case e_url_parameters env (tl s) of
                    None \<Rightarrow> buffer
                  | Some v \<Rightarrow> buffer @ tl s @ '','' @ v @ comma)
            else buffer @ s @ comma)
   }"

definition xf_urlcode :: xf where
  "xf_urlcode env fuel ev args current st =
     (if args = [] then Some (VAL_STRING (Some ''/''), st)
      else (case e_perl_urlcode env of
          None \<Rightarrow> Some (VAL_STRING (Some ''/''), st)
        | Some perl_urlcode \<Rightarrow> do {
            (buffer, st1) \<leftarrow> urlcode_args env ev args current st [];
            if buffer = [] then Some (VAL_STRING (Some ''/''), st1)
            else do {
              let cache_key = (case e_cache_key_prefix env of None \<Rightarrow> buffer | Some prefix \<Rightarrow> prefix @ buffer);
              (case find_ptr (x_urldict st1) cache_key of
                 Some p \<Rightarrow> Some (VAL_STRING (Some p), st1)
               | None \<Rightarrow> do {
                   let p = (case e_cache_get env cache_key of Some p \<Rightarrow> Some p | None \<Rightarrow> perl_urlcode buffer);
                   Some (VAL_STRING p,
                     st1\<lparr>x_urldict := snd (concurrent_dictionary_add ht_put (x_urldict st1) cache_key p)\<rparr>)
                 })
            }
          }))"

subsection \<open>Keys\<close>

text \<open>
  \<open>snprintf(buffer, n, format, value)\<close> for the formats that have one \<open>%s\<close>; other conversions, and a
  second \<open>%s\<close>, have no argument.
\<close>

fun printf_s :: "cstring \<Rightarrow> cstring option \<Rightarrow> cstring option" where
  "printf_s [] v = Some []"
| "printf_s (c # r) v =
     (if c = CHR ''%'' then
        (if peek r = CHR ''%'' then map_option (Cons c) (printf_s (tl r) v)
         else if peek r = CHR ''s'' then do { s \<leftarrow> v; t \<leftarrow> printf_s (tl r) None; Some (s @ t) }
         else None)
      else map_option (Cons c) (printf_s r v))"

text \<open>xpath.c 951-964: the evaluation of a selection notes the context node in the locals.\<close>

definition set_locals_parent :: "xenv \<Rightarrow> ref option \<Rightarrow> xstate \<Rightarrow> xstate option" where
  "set_locals_parent env current st = do {
     h \<leftarrow> upd (x_heap st) (e_locals env) (\<lambda>l. l\<lparr>n_parent := current\<rparr>);
     Some (st\<lparr>x_heap := h\<rparr>)
   }"

definition xpath_eval_selection :: "xenv \<Rightarrow> evaluator \<Rightarrow> ref option \<Rightarrow> xpath_expr option \<Rightarrow> xstate \<Rightarrow> (ref option \<times> xstate) option" where
  "xpath_eval_selection env ev current etree st =
     (case etree of
        None \<Rightarrow> Some (None, st)
      | Some _ \<Rightarrow> do {
          st1 \<leftarrow> set_locals_parent env current st;
          (rv, st2) \<leftarrow> ev etree current st1;
          Some (case rv of VAL_NODESET p \<Rightarrow> p | _ \<Rightarrow> None, st2)
        })"

text \<open>The loop over the declarations; a declaration without a name is a crash.\<close>

fun named_node_fuel :: "nat \<Rightarrow> heap \<Rightarrow> cstring \<Rightarrow> ref option \<Rightarrow> ref option option" where
  "named_node_fuel k h name None = Some None"
| "named_node_fuel 0 h name (Some a) = None"
| "named_node_fuel (Suc k) h name (Some a) = do {
     n \<leftarrow> deref h (Some a);
     s \<leftarrow> n_name n;
     if s = name then Some (Some a) else named_node_fuel k h name (n_next n)
   }"

definition xf_key :: xf where
  "xf_key env fuel ev args current st = do {
     (key_name, st1) \<leftarrow> eval_string ev args current st;
     (case key_name of
        None \<Rightarrow> Some (VAL_NODESET None, st1)
      | Some name \<Rightarrow> do {
          args2 \<leftarrow> arg_next args;
          if args2 = [] then Some (VAL_NODESET None, st1)
          else do {
            (key_value, st2) \<leftarrow> eval_string ev args2 current st1;
            (case key_value of
               None \<Rightarrow> Some (VAL_NODESET None, st2)
             | Some v \<Rightarrow> do {
                 key \<leftarrow> named_node_fuel (length (x_heap st2)) (x_heap st2) name (e_keys env);
                 (case key of
                    None \<Rightarrow> Some (VAL_NODESET None, st2)
                  | Some a \<Rightarrow> do {
                      format \<leftarrow> n_content (x_heap st2 ! a);
                      predicate \<leftarrow> printf_s format (Some v);
                      if predicate = [] then Some (VAL_NODESET None, st2)
                      else do {
                        (expression, st3) \<leftarrow> xpath_find_expr fuel st2 (Some predicate);
                        (p, st4) \<leftarrow> xpath_eval_selection env ev current expression st3;
                        Some (VAL_NODESET p, st4)
                      }
                    })
               })
          }
        })
   }"

subsection \<open>Localization\<close>

text \<open>All occurrences of the placeholder, from the left, are replaced.\<close>

function replace_all :: "cstring \<Rightarrow> cstring \<Rightarrow> cstring \<Rightarrow> cstring" where
  "replace_all pat v s =
     (case strstr s pat of
        None \<Rightarrow> s
      | Some i \<Rightarrow> take i s @ v @ (if pat = [] then drop i s else replace_all pat v (drop (i + length pat) s)))"
  by pat_completeness auto

lemma strstr_bound: "strstr s p = Some i \<Longrightarrow> i + length p \<le> length s"
proof (induction s arbitrary: i)
  case Nil
  then show ?case by (subst (asm) strstr.simps) (auto simp: starts_with_iff split: if_splits)
next
  case (Cons c s)
  show ?case
  proof (cases "starts_with p (c # s)")
    case True
    then have "length p \<le> length (c # s)" unfolding starts_with_iff by (metis length_append le_add1)
    with True Cons.prems show ?thesis by (simp add: strstr.simps[of "c # s"])
  next
    case False
    with Cons show ?thesis by (auto simp: strstr.simps[of "c # s"])
  qed
qed

termination replace_all
proof (relation "measure (\<lambda>(p, v, s). length s)")
  fix pat v s :: cstring and i
  assume "strstr s pat = Some i" "pat \<noteq> []"
  with strstr_bound[of s pat i] have "i + length pat \<le> length s" "0 < length pat" by auto
  then have "length s - (i + length pat) < length s" by linarith
  then show "((pat, v, drop (i + length pat) s), pat, v, s) \<in> measure (\<lambda>(p, v, s). length s)" by simp
qed simp

text \<open>Pairs of a name and a value; the values are NULL-safe, a NULL name prints as \<open>(null)\<close>.\<close>

fun placeholder_args :: "nat \<Rightarrow> evaluator \<Rightarrow> xpath_expr list \<Rightarrow> ref option \<Rightarrow> xstate \<Rightarrow> cstring \<Rightarrow> (cstring \<times> xstate) option" where
  "placeholder_args k ev [] current st s = Some (s, st)"
| "placeholder_args 0 ev args current st s = None"
| "placeholder_args (Suc k) ev [e] current st s = None"
| "placeholder_args (Suc k) ev (e # f # r) current st s = do {
     (name, st1) \<leftarrow> eval_string ev [e] current st;
     (v, st2) \<leftarrow> eval_string ev [f] current st1;
     let pat = ''{'' @ (case name of None \<Rightarrow> ''(null)'' | Some c \<Rightarrow> c) @ ''}'';
     placeholder_args k ev r current st2 (replace_all pat (case v of None \<Rightarrow> [] | Some c \<Rightarrow> c) s)
   }"

definition xf_localization_base :: "bool \<Rightarrow> xf" where
  "xf_localization_base plural env fuel ev args current st = do {
     (id, st1) \<leftarrow> eval_string ev args current st;
     (case id of
        None \<Rightarrow> Some (VAL_STRING None, st1)
      | Some i \<Rightarrow> do {
          p \<leftarrow> arg_next args;
          (string, rest, st2) \<leftarrow> (case e_message env of
              None \<Rightarrow> Some (i, p, st1)
            | Some message \<Rightarrow>
                if \<not> plural then Some (case message i of None \<Rightarrow> i | Some m \<Rightarrow> m, p, st1)
                else do {
                  p1 \<leftarrow> arg_next p;
                  (d, st') \<leftarrow> eval_number ev p1 current st1;
                  n \<leftarrow> d_to_int d;
                  p2 \<leftarrow> arg_next p1;
                  Some (case e_message_plural env i n of None \<Rightarrow> i | Some m \<Rightarrow> m, p2, st')
                });
          (s, st3) \<leftarrow> placeholder_args (length rest) ev rest current st2 string;
          Some (VAL_STRING (Some s), st3)
        })
   }"

definition xf_localization :: xf where
  "xf_localization = xf_localization_base False"

definition xf_localization_plural :: xf where
  "xf_localization_plural = xf_localization_base True"

end
