(* ===== verification/Tx_Format.thy ===== *)
theory Tx_Format
  imports Tx_Functions
begin

text \<open>
  functions.c 451-711 (\<open>format-number\<close>) and 1279-1437 (the function table, the callbacks and
  the dispatcher). The fixed buffers of \<open>format-number\<close> keep their sizes: a write behind the end of one is undefined, as are
  the conversions of numbers that do not fit.
\<close>

subsection \<open>format-number\<close>

record symbols =
  y_decimal :: cstring
  y_grouping :: cstring
  y_percent :: cstring
  y_zero :: cstring
  y_digit :: cstring
  y_separator :: cstring
  y_infinity :: cstring
  y_nan :: cstring
  y_minus :: cstring

definition default_symbols :: symbols where
  "default_symbols = \<lparr>y_decimal = ''.'', y_grouping = '','', y_percent = ''%'', y_zero = ''0'', y_digit = ''#'',
     y_separator = '';'', y_infinity = ''Infinity'', y_nan = ''NaN'', y_minus = ''-''\<rparr>"

text \<open>The attributes of a decimal format override the defaults one by one.\<close>

definition override :: "heap \<Rightarrow> ref option \<Rightarrow> cstring \<Rightarrow> cstring \<Rightarrow> cstring option" where
  "override h node attr old = do {
     v \<leftarrow> xml_get_attr h node (Some attr); Some (case v of None \<Rightarrow> old | Some s \<Rightarrow> s)
   }"

definition read_symbols :: "heap \<Rightarrow> ref option \<Rightarrow> symbols option" where
  "read_symbols h node = do {
     dec \<leftarrow> override h node ''decimal-separator'' (y_decimal default_symbols);
     grp \<leftarrow> override h node ''grouping-separator'' (y_grouping default_symbols);
     per \<leftarrow> override h node ''percent'' (y_percent default_symbols);
     zer \<leftarrow> override h node ''zero-digit'' (y_zero default_symbols);
     dig \<leftarrow> override h node ''digit'' (y_digit default_symbols);
     sep \<leftarrow> override h node ''pattern-separator'' (y_separator default_symbols);
     inf \<leftarrow> override h node ''infinity'' (y_infinity default_symbols);
     nan \<leftarrow> override h node ''NaN'' (y_nan default_symbols);
     mns \<leftarrow> override h node ''minus-sign'' (y_minus default_symbols);
     Some \<lparr>y_decimal = dec, y_grouping = grp, y_percent = per, y_zero = zer, y_digit = dig,
       y_separator = sep, y_infinity = inf, y_nan = nan, y_minus = mns\<rparr>
   }"

text \<open>A loop over the integer part from right to left: required digits, places, group size.\<close>

fun integer_mask :: "symbols \<Rightarrow> cstring \<Rightarrow> nat \<times> nat \<times> nat \<Rightarrow> nat \<times> nat \<times> nat" where
  "integer_mask y [] (mn, mx, gsize) = (mn, mx, gsize)"
| "integer_mask y (c # r) (mn, mx, gsize) =
     (let mn1 = (if c = peek (y_zero y) then mn + 1 else mn);
          mx1 = (if c = peek (y_zero y) then mx + 1 else mx);
          mx2 = (if c = peek (y_digit y) then mx1 + 1 else mx1)
      in integer_mask y r (mn1, mx2, if c = peek (y_grouping y) \<and> gsize = 0 then mx2 else gsize))"

text \<open>The decimal digits from the lowest one.\<close>

fun low_digits :: "nat \<Rightarrow> nat \<Rightarrow> cstring" where
  "low_digits 0 n = []"
| "low_digits (Suc k) n = digit_char (n mod 10) # low_digits k (n div 10)"

text \<open>\<open>number_string\<close> holds 32 characters.\<close>

definition push :: "cstring \<Rightarrow> char \<Rightarrow> cstring option" where
  "push buf c = (if length buf < 32 then Some (buf @ [c]) else None)"

text \<open>The loop over the decimals: \<open>i\<close> runs while it is at most \<open>mx\<close>.\<close>

fun fraction_digits :: "nat \<Rightarrow> nat \<Rightarrow> nat \<Rightarrow> double \<Rightarrow> cstring \<Rightarrow> cstring option" where
  "fraction_digits 0 i mn fr buf = Some buf"
| "fraction_digits (Suc left) i mn fr buf = do {
     n \<leftarrow> d_to_int (d_floor (d_mul (d_of_rat (10 ^ (i + 1))) fr));
     let digit = n mod 10;
     buf1 \<leftarrow> push buf (digit_char (nat digit));
     if digit = 0 \<and> i = mn then Some buf1 else fraction_digits left (Suc i) mn fr buf1
   }"

text \<open>Rounding up, on the reversed digits; whether a carry left the top digit.\<close>

fun round_up :: "char \<Rightarrow> cstring \<Rightarrow> cstring \<times> bool" where
  "round_up sep [] = ([], False)"
| "round_up sep (c # r) =
     (if c = sep then (let (t, b) = round_up sep r in (c # t, b))
      else if c = CHR ''9'' then
        (if r = [] then ([CHR ''0''], True) else (let (t, b) = round_up sep r in (CHR ''0'' # t, b)))
      else (char_of ((of_char c :: nat) + 1) # r, False))"

text \<open>The output with the group separators; \<open>i\<close> is the index of the character.\<close>

fun group_digits :: "char \<Rightarrow> nat \<Rightarrow> nat \<Rightarrow> nat \<Rightarrow> cstring \<Rightarrow> cstring" where
  "group_digits sep gsize precision i [] = []"
| "group_digits sep gsize precision i (c # r) =
     (if i < precision \<and> 0 < gsize \<and> gsize < precision \<and> (precision - i) mod gsize = 0 then [sep] else [])
     @ c # group_digits sep gsize precision (Suc i) r"

definition format_finite :: "symbols \<Rightarrow> cstring \<Rightarrow> double \<Rightarrow> cstring option" where
  "format_finite y pat number = do {
     let (ipart, fpart) = (case strstr pat (y_decimal y) of
         Some i \<Rightarrow> (take i pat, drop (i + 1) pat) | None \<Rightarrow> (pat, []));
     if 64 < length ipart \<or> 64 < length fpart then None
     else do {
       let (fr, t) = d_modf (d_abs number);
       n \<leftarrow> d_to_uint (d_floor t);
       if n = 0 then None
       else do {
         let (mn0, mx0, gsize) = integer_mask y (rev ipart) (0, 0, 0);
         let precision = max (length (show_nat (nat n))) (if mn0 = 0 then 1 else mn0);
         if 32 < precision then None
         else do {
           let buf0 = rev (low_digits precision (nat n));
           (buf, prec) \<leftarrow> (if fpart = [] then Some (buf0, precision)
             else do {
               let mn = length (filter (\<lambda>c. c = peek (y_zero y)) fpart);
               let mx = mn + length (filter (\<lambda>c. c = peek (y_digit y)) fpart);
               buf1 \<leftarrow> push buf0 (peek (y_decimal y));
               buf2 \<leftarrow> fraction_digits (Suc mx) 0 mn fr buf1;
               if (of_char CHR ''5'' :: nat) \<le> of_char (last buf2)
               then do {
                 let (rev_digits, carry) = round_up (peek (y_decimal y)) (tl (rev buf2));
                 if carry
                 then (if length buf2 < 32 then Some (CHR ''1'' # rev rev_digits, precision + 1) else None)
                 else Some (rev rev_digits @ [NUL], precision)
               }
               else Some (butlast buf2 @ [NUL], precision)
             });
           Some (cstr_of ((case number of D_num True m \<Rightarrow> [peek (y_minus y)] | _ \<Rightarrow> []) @
             group_digits (peek (y_grouping y)) gsize prec 0 buf))
         }
       }
     }
   }"

definition format_number :: "symbols \<Rightarrow> cstring \<Rightarrow> double \<Rightarrow> cstring option option" where
  "format_number y pat number =
     (if strstr pat (y_separator y) \<noteq> None then Some None
      else if strstr pat (y_percent y) \<noteq> None then Some None
      else (case number of
          D_nan s \<Rightarrow> Some (Some (y_nan y))
        | D_inf s \<Rightarrow> Some (Some (y_infinity y))
        | D_num s m \<Rightarrow> map_option Some (format_finite y pat number)))"

definition xf_format :: xf where
  "xf_format env fuel ev args current st = do {
     (number, st1) \<leftarrow> eval_number ev args current st;
     args2 \<leftarrow> arg_next args;
     (pattern, st2) \<leftarrow> eval_string ev args2 current st1;
     pat \<leftarrow> pattern;
     if 120 < length pat then Some (VAL_STRING None, st2)
     else do {
       args3 \<leftarrow> arg_next args2;
       if args3 = [] then do { r \<leftarrow> format_number default_symbols pat number; Some (VAL_STRING r, st2) }
       else do {
         (format_name, st3) \<leftarrow> eval_string ev args3 current st2;
         format \<leftarrow> (case format_name of
             Some name \<Rightarrow> named_node_fuel (length (x_heap st3)) (x_heap st3) name (e_formats env)
           | None \<Rightarrow> (if e_formats env = None then Some None else None));
         (case format of
            None \<Rightarrow> Some (VAL_STRING None, st3)
          | Some a \<Rightarrow> do {
              y \<leftarrow> read_symbols (x_heap st3) (n_children (x_heap st3 ! a));
              r \<leftarrow> format_number y pat number;
              Some (VAL_STRING r, st3)
            })
       }
     }
   }"

subsection \<open>The table of functions\<close>

definition xpath_functions :: "(cstring \<times> xf) list" where
  "xpath_functions =
     [(''ltr:url_code'', xf_urlcode), (''ltr:veristat_local'', xf_veristat_local), (''position'', xf_position),
      (''count'', xf_count), (''chk:check_rights'', xf_check), (''substring'', xf_substr), (''name'', xf_name),
      (''normalize-space'', xf_normalize), (''last'', xf_last), (''string-length'', xf_strlen),
      (''concat'', xf_concat), (''number'', xf_tonum), (''ltr:veristat'', xf_veristat),
      (''format-number'', xf_format), (''contains'', xf_contains), (''round'', xf_round), (''ceiling'', xf_ceil),
      (''sum'', xf_sum), (''translate'', xf_translate), (''true'', xf_true), (''substring-before'', xf_sub_before),
      (''substring-after'', xf_sub_after), (''false'', xf_false), (''generate-id'', xf_getid), (''current'', xf_current),
      (''floor'', xf_floor), (''key'', xf_key), (''ltr:str_escape'', xf_strescape), (''text'', xf_text),
      (''ltr:baner_code'', xf_banner), (''ltr:url_encode'', xf_urlenc), (''boolean'', xf_tobool),
      (''ltr:md5_hex'', xf_md5), (''document'', xf_document), (''ltr:encode_base64'', xf_base64),
      (''exsl:node-set'', xf_exnodeset), (''starts-with'', xf_starts), (''local-name'', xf_local_name),
      (''node'', xf_node), (''string'', xf_tostr), (''system-property'', xf_stub), (''ltr:existsOnHost'', xf_exists),
      (''ltr:thread-id'', xf_thread_id), (''ltr:__l'', xf_localization), (''ltr:__ln'', xf_localization_plural)]"

text \<open>At most 29 arguments are handed to a Perl callback; NULL strings become empty ones.\<close>

fun callback_args :: "nat \<Rightarrow> evaluator \<Rightarrow> xpath_expr list \<Rightarrow> ref option \<Rightarrow> xstate \<Rightarrow> (cstring list \<times> xstate) option" where
  "callback_args 0 ev args current st = Some ([], st)"
| "callback_args (Suc k) ev [] current st = Some ([], st)"
| "callback_args (Suc k) ev (e # r) current st = do {
     (s, st1) \<leftarrow> eval_string ev [e] current st;
     (ss, st2) \<leftarrow> callback_args k ev r current st1;
     Some ((case s of None \<Rightarrow> [] | Some c \<Rightarrow> c) # ss, st2)
   }"

definition do_callback :: "xenv \<Rightarrow> evaluator \<Rightarrow> cstring \<Rightarrow> xpath_expr list \<Rightarrow> ref option \<Rightarrow> xstate \<Rightarrow> (rvalue \<times> xstate) option" where
  "do_callback env ev fname args current st = do {
     (f_arg, st1) \<leftarrow> callback_args 29 ev args current st;
     Some (VAL_STRING (case e_perl_call env of None \<Rightarrow> None | Some call \<Rightarrow> call fname f_arg), st1)
   }"

definition xpath_call_dispatcher ::
  "xenv \<Rightarrow> nat \<Rightarrow> evaluator \<Rightarrow> cstring \<Rightarrow> xpath_expr list \<Rightarrow> ref option \<Rightarrow> xstate \<Rightarrow> (rvalue \<times> xstate) option" where
  "xpath_call_dispatcher env fuel ev fname args current st =
     (if e_perl_call env \<noteq> None \<and> fname \<in> set (e_perl_names env) then do_callback env ev fname args current st
      else (case map_of xpath_functions fname of
          Some f \<Rightarrow> f env fuel ev args current st
        | None \<Rightarrow> Some (VAL_NULL, st)))"

end
