(* ===== verification/Tx_XPathEval.thy ===== *)
theory Tx_XPathEval
  imports Tx_Format
begin

text \<open>
  xpath.c 176-227 and 371-984: the XPath evaluator. \<open>xpath_execute_scalar\<close> recurses with a fuel; each case
  of its switch is a definition over the evaluator for the operands. \<open>None\<close> is a crash, an
  undefined conversion, a loop without end, or fuel that runs out.
\<close>

subsection \<open>Predicates\<close>

text \<open>\<open>tmp = add_to_selection(tmp, nodeset, &pos); if(!node) node = tmp;\<close> on the state of an evaluation.\<close>

definition st_sel_add :: "xstate \<Rightarrow> selection \<Rightarrow> ref \<Rightarrow> (selection \<times> xstate) option" where
  "st_sel_add st s a = do {
     s1 \<leftarrow> sel_add (s\<lparr>s_heap := x_heap st\<rparr>) a;
     Some (s1, st\<lparr>x_heap := s_heap s1\<rparr>)
   }"

text \<open>Whether the value of the predicate keeps a node: an integer is compared with the position.\<close>

definition keeps_node :: "xmlnode \<Rightarrow> rvalue \<Rightarrow> bool" where
  "keeps_node n rv = (case rv of VAL_INT i \<Rightarrow> uint (n_position n) = i | _ \<Rightarrow> rval2bool rv)"

fun filter_loop :: "nat \<Rightarrow> (ref \<Rightarrow> xstate \<Rightarrow> (rvalue \<times> xstate) option) \<Rightarrow> selection \<Rightarrow> ref option \<Rightarrow> xstate \<Rightarrow>
    (selection \<times> xstate) option" where
  "filter_loop k ev s None st = Some (s, st)"
| "filter_loop 0 ev s (Some a) st = None"
| "filter_loop (Suc k) ev s (Some a) st = do {
     (rv, st1) \<leftarrow> ev a st;
     n \<leftarrow> deref (x_heap st1) (Some a);
     (s1, st2) \<leftarrow> (if keeps_node n rv then st_sel_add st1 s a else Some (s, st1));
     m \<leftarrow> deref (x_heap st2) (Some a);
     filter_loop k ev s1 (n_next m) st2
   }"

definition xpath_filter :: "nat \<Rightarrow> evaluator \<Rightarrow> ref option \<Rightarrow> xpath_expr option \<Rightarrow> xstate \<Rightarrow> (ref option \<times> xstate) option" where
  "xpath_filter k ev nodeset expr st =
     (case nodeset of
        None \<Rightarrow> Some (None, st)
      | Some _ \<Rightarrow> do {
          n \<leftarrow> deref (x_heap st) nodeset;
          let first = (if n_type n = EMPTY_NODE then n_children n else nodeset);
          e \<leftarrow> expr;
          (s, st1) \<leftarrow> filter_loop k
            (if xe_type e = XPATH_NODE_INT then (\<lambda>a st. Some (VAL_INT (xe_int e), st)) else (\<lambda>a st. ev expr (Some a) st))
            (new_selection (x_heap st)) first st;
          Some (s_head s, st1)
        })"

subsection \<open>Sorting\<close>

text \<open>One pass of the exchange sort over the keys with their nodes; whether anything was exchanged.\<close>

fun sort_pass :: "('k \<Rightarrow> 'k \<Rightarrow> bool) \<Rightarrow> ('k \<times> ref) list \<Rightarrow> ('k \<times> ref) list \<times> bool" where
  "sort_pass gt (x # y # r) =
     (if gt (fst x) (fst y) then (y # fst (sort_pass gt (x # r)), True)
      else (let (t, b) = sort_pass gt (y # r) in (x # t, b)))"
| "sort_pass gt xs = (xs, False)"

text \<open>\<open>for(again=1; again;)\<close>: the passes, up to one that exchanges nothing.\<close>

fun sort_passes :: "nat \<Rightarrow> ('k \<Rightarrow> 'k \<Rightarrow> bool) \<Rightarrow> ('k \<times> ref) list \<Rightarrow> ('k \<times> ref) list option" where
  "sort_passes 0 gt xs = None"
| "sort_passes (Suc k) gt xs = (let (ys, again) = sort_pass gt xs in if again then sort_passes k gt ys else Some ys)"

text \<open>The keys, computed node by node; the nodes are not relinked meanwhile.\<close>

fun sort_keys_loop :: "(ref \<Rightarrow> xstate \<Rightarrow> (cstring option \<times> xstate) option) \<Rightarrow> ref list \<Rightarrow> xstate \<Rightarrow>
    ((cstring option \<times> ref) list \<times> xstate) option" where
  "sort_keys_loop key [] st = Some ([], st)"
| "sort_keys_loop key (a # r) st = do {
     (k, st1) \<leftarrow> key a st;
     (ks, st2) \<leftarrow> sort_keys_loop key r st1;
     Some ((k, a) # ks, st2)
   }"

text \<open>The relinking of the sorted nodes, with their positions from 1.\<close>

fun relink :: "heap \<Rightarrow> ref option \<Rightarrow> nat \<Rightarrow> ref list \<Rightarrow> heap" where
  "relink h pv i [] = h"
| "relink h pv i (a # r) =
     relink (set_node h a (\<lambda>n. n\<lparr>n_prev := pv, n_next := (case r of [] \<Rightarrow> None | b # _ \<Rightarrow> Some b),
       n_position := of_nat (Suc i)\<rparr>)) (Some a) (Suc i) r"

text \<open>
  \<open>gt\<close> is the test that exchanges two neighbours: \<open>backward_sort * (left - right) > 0\<close> on
  numbers, \<open>backward_sort * xml_strcasecmp(left, right) > 0\<close> on strings.
\<close>

definition numeric_gt :: "bool \<Rightarrow> double \<Rightarrow> double \<Rightarrow> bool" where
  "numeric_gt backward x y = d_less d_zero (d_mul (d_of_int (if backward then -1 else 1)) (d_minus x y))"

definition string_gt :: "bool \<Rightarrow> cstring option \<Rightarrow> cstring option \<Rightarrow> bool" where
  "string_gt backward x y = (if backward then xml_strcasecmp x y < 0 else xml_strcasecmp x y > 0)"

text \<open>A missing key sorts as the number -9999999999.\<close>

definition numeric_key :: "cstring option \<Rightarrow> double" where
  "numeric_key k = (case k of Some s \<Rightarrow> strtod s | None \<Rightarrow> d_of_int (-9999999999))"

definition xpath_sort_selection :: "nat \<Rightarrow> bool \<Rightarrow> bool \<Rightarrow> (ref \<Rightarrow> xstate \<Rightarrow> (cstring option \<times> xstate) option) \<Rightarrow>
    ref option \<Rightarrow> xstate \<Rightarrow> (ref option \<times> xstate) option" where
  "xpath_sort_selection k numeric backward key selection st =
     (case selection of
        None \<Rightarrow> Some (None, st)
      | Some _ \<Rightarrow> do {
          nodes \<leftarrow> walk n_next (x_heap st) selection;
          if length nodes < 2 then Some (selection, st)
          else do {
            (keys, st1) \<leftarrow> sort_keys_loop key nodes st;
            sorted \<leftarrow> (if numeric
              then map_option (map snd) (sort_passes k (numeric_gt backward) (map (\<lambda>(s, a). (numeric_key s, a)) keys))
              else map_option (map snd) (sort_passes k (string_gt backward) keys));
            Some (Some (hd sorted), st1\<lparr>x_heap := relink (x_heap st1) None 0 sorted\<rparr>)
          }
        })"

subsection \<open>The cases of the evaluator\<close>

definition first_child :: "xpath_expr \<Rightarrow> xpath_expr option" where
  "first_child e = arg_ptr (xe_children e)"

text \<open>\<open>etree->children->next\<close>\<close>

definition second_child :: "xpath_expr \<Rightarrow> xpath_expr option option" where
  "second_child e = (case xe_children e of [] \<Rightarrow> None | _ # r \<Rightarrow> Some (arg_ptr r))"

definition xpath_select_common :: "evaluator \<Rightarrow> xpath_expr \<Rightarrow> ref option \<Rightarrow> selector \<Rightarrow> xstate \<Rightarrow> (rvalue \<times> xstate) option" where
  "xpath_select_common ev etree current sel st =
     (if xe_children etree \<noteq> [] then do {
        (rv, st1) \<leftarrow> ev (first_child etree) current st;
        (case rv of
           VAL_NODESET p \<Rightarrow> do {
             (q, h) \<leftarrow> xpath_apply_selector sel (x_heap st1) p (xe_kind etree);
             Some (VAL_NODESET q, st1\<lparr>x_heap := h\<rparr>)
           }
         | _ \<Rightarrow> Some (VAL_NODESET None, st1))
      }
      else do {
        (q, h) \<leftarrow> sel (x_heap st) current (xe_kind etree);
        Some (VAL_NODESET q, st\<lparr>x_heap := h\<rparr>)
      })"

text \<open>A union: selections are chained, other values become text nodes.\<close>

fun union_loop :: "evaluator \<Rightarrow> xpath_expr list \<Rightarrow> ref option \<Rightarrow> ref option \<Rightarrow> u32 \<Rightarrow> ref option \<Rightarrow> xstate \<Rightarrow>
    (rvalue \<times> xstate) option" where
  "union_loop ev [] current tmp pos selection st = Some (VAL_NODESET selection, st)"
| "union_loop ev (e # r) current tmp pos selection st = do {
     (rv, st1) \<leftarrow> ev (Some e) current st;
     (case rv of
        VAL_NODESET p \<Rightarrow> do {
          (tmp1, pos1, sel1, h) \<leftarrow> xml_add_siblings (x_heap st1) tmp p pos selection;
          union_loop ev r current tmp1 pos1 sel1 (st1\<lparr>x_heap := h\<rparr>)
        }
      | _ \<Rightarrow> do {
          name \<leftarrow> rval2string (x_heap st1) rv;
          (case name of
             None \<Rightarrow> union_loop ev r current tmp pos selection st1
           | Some _ \<Rightarrow> do {
               let (a, h1) = xml_new_node (x_heap st1) None TEXT_NODE;
               h2 \<leftarrow> upd h1 (Some a) (\<lambda>n. n\<lparr>n_content := name\<rparr>);
               (tmp1, pos1, sel1, h3) \<leftarrow> xml_add_siblings h2 tmp (Some a) pos selection;
               union_loop ev r current tmp1 pos1 sel1 (st1\<lparr>x_heap := h3\<rparr>)
             })
        })
   }"

definition exec_attr_all :: "evaluator \<Rightarrow> xpath_expr \<Rightarrow> ref option \<Rightarrow> xstate \<Rightarrow> (rvalue \<times> xstate) option" where
  "exec_attr_all ev etree current st =
     (if xe_children etree \<noteq> [] then do {
        (rv, st1) \<leftarrow> ev (first_child etree) current st;
        (case rv of
           VAL_NODESET p \<Rightarrow> do {
             (q, h) \<leftarrow> xpath_get_attrs (x_heap st1) p;
             Some (VAL_NODESET q, st1\<lparr>x_heap := h\<rparr>)
           }
         | _ \<Rightarrow> Some (VAL_NODESET None, st1))
      }
      else do {
        (c, pos, h1) \<leftarrow> add_to_selection (x_heap st) None current 0;
        (q, h2) \<leftarrow> xpath_get_attrs h1 c;
        Some (VAL_NODESET q, st\<lparr>x_heap := h2\<rparr>)
      })"

definition exec_select_node :: "ref option \<Rightarrow> xstate \<Rightarrow> (rvalue \<times> xstate) option" where
  "exec_select_node node st = do {
     (p, pos, h) \<leftarrow> add_to_selection (x_heap st) None node 0;
     Some (VAL_NODESET p, st\<lparr>x_heap := h\<rparr>)
   }"

definition exec_filter :: "nat \<Rightarrow> evaluator \<Rightarrow> xpath_expr \<Rightarrow> ref option \<Rightarrow> xstate \<Rightarrow> (rvalue \<times> xstate) option" where
  "exec_filter k ev etree current st = do {
     (rv, st1) \<leftarrow> ev (first_child etree) current st;
     (case rv of
        VAL_NODESET p \<Rightarrow> do {
          expr \<leftarrow> second_child etree;
          (q, st2) \<leftarrow> xpath_filter k ev p expr st1;
          Some (VAL_NODESET q, st2)
        }
      | _ \<Rightarrow> Some (VAL_NODESET None, st1))
   }"

text \<open>\<open>or\<close> and \<open>and\<close>: the operands from the left up to one that decides.\<close>

fun bool_loop :: "evaluator \<Rightarrow> bool \<Rightarrow> xpath_expr list \<Rightarrow> ref option \<Rightarrow> xstate \<Rightarrow> (rvalue \<times> xstate) option" where
  "bool_loop ev decides [] current st = Some (VAL_BOOL (if decides then 0 else 1), st)"
| "bool_loop ev decides (e # r) current st = do {
     (rv, st1) \<leftarrow> ev (Some e) current st;
     if rval2bool rv = decides then Some (VAL_BOOL (if decides then 1 else 0), st1)
     else bool_loop ev decides r current st1
   }"

definition eval_operands :: "evaluator \<Rightarrow> xpath_expr \<Rightarrow> ref option \<Rightarrow> xstate \<Rightarrow> (rvalue \<times> rvalue \<times> xstate) option" where
  "eval_operands ev etree current st = do {
     (rv, st1) \<leftarrow> ev (first_child etree) current st;
     e2 \<leftarrow> second_child etree;
     (rv1, st2) \<leftarrow> ev e2 current st1;
     Some (rv, rv1, st2)
   }"

definition exec_test :: "(heap \<Rightarrow> rvalue \<Rightarrow> rvalue \<Rightarrow> bool option) \<Rightarrow> evaluator \<Rightarrow> xpath_expr \<Rightarrow> ref option \<Rightarrow> xstate \<Rightarrow>
    (rvalue \<times> xstate) option" where
  "exec_test test ev etree current st = do {
     (l, r, st1) \<leftarrow> eval_operands ev etree current st;
     b \<leftarrow> test (x_heap st1) l r;
     Some (VAL_BOOL (if b then 1 else 0), st1)
   }"

definition exec_arith :: "(double \<Rightarrow> double \<Rightarrow> double option) \<Rightarrow> evaluator \<Rightarrow> xpath_expr \<Rightarrow> ref option \<Rightarrow> xstate \<Rightarrow>
    (rvalue \<times> xstate) option" where
  "exec_arith op ev etree current st = do {
     (rv, rv1, st1) \<leftarrow> eval_operands ev etree current st;
     l \<leftarrow> rval2number (x_heap st1) rv;
     r \<leftarrow> rval2number (x_heap st1) rv1;
     d \<leftarrow> op l r;
     Some (VAL_NUMBER d, st1)
   }"

text \<open>\<open>%\<close> on \<open>long\<close>: the sign of the left operand; division by zero and overflow trap.\<close>

definition long_rem :: "int \<Rightarrow> int \<Rightarrow> int option" where
  "long_rem a b =
     (if b = 0 \<or> (a = - (2 ^ 63) \<and> b = -1) then None
      else Some (if a < 0 then - (\<bar>a\<bar> mod \<bar>b\<bar>) else \<bar>a\<bar> mod \<bar>b\<bar>))"

definition d_mod :: "double \<Rightarrow> double \<Rightarrow> double option" where
  "d_mod l r = do {
     ll \<leftarrow> d_to_long (d_trunc l);
     lr \<leftarrow> d_to_long (d_trunc r);
     m \<leftarrow> long_rem ll lr;
     Some (d_of_int m)
   }"

text \<open>The attribute nodes of that name for the nodes of a set, one fresh node for each.\<close>

fun attr_loop :: "nat \<Rightarrow> cstring option \<Rightarrow> selection \<Rightarrow> ref option \<Rightarrow> selection option" where
  "attr_loop k name s None = Some s"
| "attr_loop 0 name s (Some a) = None"
| "attr_loop (Suc k) name s (Some a) = do {
     v \<leftarrow> xml_get_attr (s_heap s) (Some a) name;
     s1 \<leftarrow> (case v of
         None \<Rightarrow> Some s
       | Some _ \<Rightarrow> do {
           let (b, h1) = xml_new_node (s_heap s) None ATTRIBUTE_NODE;
           h2 \<leftarrow> upd h1 (Some b) (\<lambda>n. n\<lparr>n_content := v\<rparr>);
           sel_add (s\<lparr>s_heap := h2\<rparr>) b
         });
     n \<leftarrow> deref (s_heap s1) (Some a);
     attr_loop k name s1 (n_next n)
   }"

definition exec_attr :: "evaluator \<Rightarrow> xpath_expr \<Rightarrow> ref option \<Rightarrow> xstate \<Rightarrow> (rvalue \<times> xstate) option" where
  "exec_attr ev etree current st =
     (if xe_children etree \<noteq> [] then do {
        (rv, st1) \<leftarrow> ev (first_child etree) current st;
        (case rv of
           VAL_NODESET p \<Rightarrow> do {
             s \<leftarrow> attr_loop (length (x_heap st1)) (xe_name etree) (new_selection (x_heap st1)) p;
             Some (VAL_NODESET (s_head s), st1\<lparr>x_heap := s_heap s\<rparr>)
           }
         | _ \<Rightarrow> Some (VAL_NULL, st1))
      }
      else do {
        v \<leftarrow> (case current of None \<Rightarrow> Some None | Some _ \<Rightarrow> xml_get_attr (x_heap st) current (xe_name etree));
        (case v of
           None \<Rightarrow> Some (VAL_NULL, st)
         | Some _ \<Rightarrow> do {
             let (b, h1) = xml_new_node (x_heap st) None ATTRIBUTE_NODE;
             h2 \<leftarrow> upd h1 (Some b) (\<lambda>n. n\<lparr>n_content := v\<rparr>);
             Some (VAL_NODESET (Some b), st\<lparr>x_heap := h2\<rparr>)
           })
      })"

text \<open>The axes of the switch.\<close>

fun axis_selector :: "nodetype \<Rightarrow> selector option" where
  "axis_selector XPATH_NODE_ALL = Some xpath_get_all"
| "axis_selector XPATH_NODE_SELECT = Some xpath_get_child"
| "axis_selector XPATH_NODE_PARENT = Some xpath_get_parent"
| "axis_selector XPATH_NODE_SELF = Some xpath_get_self"
| "axis_selector XPATH_NODE_DESCENDANT = Some xpath_get_descendant"
| "axis_selector XPATH_NODE_DESCENDANT_OR_SELF = Some xpath_get_descendant_or_self"
| "axis_selector XPATH_NODE_ANCESTOR = Some xpath_get_ancestor"
| "axis_selector XPATH_NODE_ANCESTOR_OR_SELF = Some xpath_get_ancestor_or_self"
| "axis_selector XPATH_NODE_PRECEDING_SIBLING = Some xpath_get_preceding_sibling"
| "axis_selector XPATH_NODE_PRECEDING = Some xpath_get_preceding"
| "axis_selector XPATH_NODE_FOLLOWING_SIBLING = Some xpath_get_following_sibling"
| "axis_selector XPATH_NODE_FOLLOWING = Some xpath_get_following"
| "axis_selector _ = None"

definition execute_step :: "xenv \<Rightarrow> nat \<Rightarrow> evaluator \<Rightarrow> xpath_expr \<Rightarrow> ref option \<Rightarrow> xstate \<Rightarrow> (rvalue \<times> xstate) option" where
  "execute_step env k ev etree current st =
     (case axis_selector (xe_type etree) of
        Some sel \<Rightarrow> xpath_select_common ev etree current sel st
      | None \<Rightarrow>
          (case xe_type etree of
             XPATH_NODE_INT \<Rightarrow> Some (VAL_INT (xe_int etree), st)
           | XPATH_NODE_UNION \<Rightarrow> union_loop ev (xe_children etree) current None 0 None st
           | XPATH_NODE_ATTR_ALL \<Rightarrow> exec_attr_all ev etree current st
           | XPATH_NODE_ROOT \<Rightarrow> exec_select_node (e_root_node env) st
           | XPATH_NODE_CONTEXT \<Rightarrow> exec_select_node current st
           | XPATH_NODE_FILTER \<Rightarrow> exec_filter k ev etree current st
           | XPATH_NODE_OR \<Rightarrow> bool_loop ev True (xe_children etree) current st
           | XPATH_NODE_AND \<Rightarrow> bool_loop ev False (xe_children etree) current st
           | XPATH_NODE_EQ \<Rightarrow> exec_test (\<lambda>h l r. rval_equal h l r True) ev etree current st
           | XPATH_NODE_NE \<Rightarrow> exec_test (\<lambda>h l r. rval_equal h l r False) ev etree current st
           | XPATH_NODE_LT \<Rightarrow> exec_test rval_less ev etree current st
           | XPATH_NODE_LE \<Rightarrow> exec_test rval_less_or_equal ev etree current st
           | XPATH_NODE_GT \<Rightarrow> exec_test rval_greater ev etree current st
           | XPATH_NODE_GE \<Rightarrow> exec_test rval_greater_or_equal ev etree current st
           | XPATH_NODE_ADD \<Rightarrow> exec_arith (\<lambda>l r. Some (d_add l r)) ev etree current st
           | XPATH_NODE_SUB \<Rightarrow> exec_arith (\<lambda>l r. Some (d_minus l r)) ev etree current st
           | XPATH_NODE_MUL \<Rightarrow> exec_arith (\<lambda>l r. Some (d_mul l r)) ev etree current st
           | XPATH_NODE_DIV \<Rightarrow> exec_arith (\<lambda>l r. Some (d_div l r)) ev etree current st
           | XPATH_NODE_MOD \<Rightarrow> exec_arith d_mod ev etree current st
           | XPATH_NODE_NOT \<Rightarrow> do {
               (rv, st1) \<leftarrow> ev (first_child etree) current st;
               Some (VAL_BOOL (if rval2bool rv then 0 else 1), st1)
             }
           | TEXT_NODE \<Rightarrow> do { c \<leftarrow> xe_content etree; Some (VAL_STRING (Some c), st) }
           | XPATH_NODE_CALL \<Rightarrow> do {
               name \<leftarrow> xe_name etree;
               xpath_call_dispatcher env k ev name (xe_children etree) current st
             }
           | XPATH_NODE_ATTR \<Rightarrow> exec_attr ev etree current st
           | XPATH_NODE_VAR \<Rightarrow>
               (if current = None then Some (VAL_NULL, st) else get_variable_rv env (xe_name etree) st)
           | _ \<Rightarrow> Some (VAL_NULL, st)))"

primrec xpath_execute_scalar :: "xenv \<Rightarrow> nat \<Rightarrow> evaluator" where
  "xpath_execute_scalar env 0 etree current st = None"
| "xpath_execute_scalar env (Suc k) etree current st =
     (case etree of
        None \<Rightarrow> Some (VAL_NULL, st)
      | Some e \<Rightarrow> execute_step env k (xpath_execute_scalar env k) e current st)"

subsection \<open>xpath.c 909-984: the entry points\<close>

definition xpath_eval_boolean :: "xenv \<Rightarrow> nat \<Rightarrow> ref option \<Rightarrow> xpath_expr option \<Rightarrow> xstate \<Rightarrow> (bool \<times> xstate) option" where
  "xpath_eval_boolean env k current etree st =
     (if etree = None then Some (False, st)
      else do {
        st1 \<leftarrow> set_locals_parent env current st;
        (rv, st2) \<leftarrow> xpath_execute_scalar env k etree current st1;
        Some (rval2bool rv, st2)
      })"

definition xpath_eval_string :: "xenv \<Rightarrow> nat \<Rightarrow> ref option \<Rightarrow> xpath_expr option \<Rightarrow> xstate \<Rightarrow> (cstring option \<times> xstate) option" where
  "xpath_eval_string env k current etree st =
     (if etree = None then Some (None, st)
      else do {
        st1 \<leftarrow> set_locals_parent env current st;
        (rv, st2) \<leftarrow> xpath_execute_scalar env k etree current st1;
        s \<leftarrow> rval2string (x_heap st2) rv;
        Some (s, st2)
      })"

definition xpath_eval_expression :: "xenv \<Rightarrow> nat \<Rightarrow> ref option \<Rightarrow> cstring option \<Rightarrow> xstate \<Rightarrow> (rvalue \<times> xstate) option" where
  "xpath_eval_expression env k current expr st = do {
     (etree, st1) \<leftarrow> xpath_find_expr k st expr;
     if etree = None then Some (VAL_NULL, st1)
     else do {
       st2 \<leftarrow> set_locals_parent env current st1;
       xpath_execute_scalar env k etree current st2
     }
   }"

definition xpath_eval_node :: "xenv \<Rightarrow> nat \<Rightarrow> ref option \<Rightarrow> cstring option \<Rightarrow> xstate \<Rightarrow> (rvalue \<times> xstate) option" where
  "xpath_eval_node env k current expr st = xpath_eval_expression env k current expr st"

subsection \<open>strings.c 49-88: attribute value templates\<close>

text \<open>
  The text between the braces is cut out in place: without a closing brace the rest of the string is
  evaluated and the loop ends.
\<close>

fun process_string_loop :: "(cstring \<Rightarrow> xstate \<Rightarrow> (cstring option \<times> xstate) option) \<Rightarrow> nat \<Rightarrow> cstring \<Rightarrow> cstring \<Rightarrow> xstate \<Rightarrow>
    (cstring \<times> xstate) option" where
  "process_string_loop eval 0 s res st = None"
| "process_string_loop eval (Suc k) s res st =
     (case s of
        [] \<Rightarrow> Some (res, st)
      | c # r \<Rightarrow>
          if c = CHR ''{'' then
            (if peek r = CHR ''{'' then process_string_loop eval k (tl r) (res @ [CHR ''{'']) st
             else do {
               (v, st1) \<leftarrow> eval (takeWhile (\<lambda>d. d \<noteq> CHR ''}'') r) st;
               let res1 = res @ (case v of None \<Rightarrow> [] | Some t \<Rightarrow> t);
               if CHR ''}'' \<in> set r
               then process_string_loop eval k (tl (dropWhile (\<lambda>d. d \<noteq> CHR ''}'') r)) res1 st1
               else Some (res1, st1)
             })
          else if c = CHR ''}'' \<and> peek r = CHR ''}'' then process_string_loop eval k (tl r) (res @ [CHR ''}'']) st
          else process_string_loop eval k r (res @ [c]) st)"

definition xml_process_string :: "xenv \<Rightarrow> nat \<Rightarrow> ref option \<Rightarrow> cstring option \<Rightarrow> xstate \<Rightarrow> (cstring option \<times> xstate) option" where
  "xml_process_string env k current string st =
     (case string of
        None \<Rightarrow> Some (None, st)
      | Some s \<Rightarrow>
          if CHR ''{'' \<notin> set s \<and> CHR ''}'' \<notin> set s then Some (Some s, st)
          else do {
            (r, st1) \<leftarrow> process_string_loop
              (\<lambda>text st. do { (e, st1) \<leftarrow> xpath_find_expr k st (Some text); xpath_eval_string env k current e st1 })
              (Suc (length s)) s [] st;
            Some (Some r, st1)
          })"

end
