(* ===== verification/Tx_Paths.thy ===== *)
theory Tx_Paths
  imports Tx_XPathEval
begin

text \<open>
  Location paths end to end: for a document with finite trees, the evaluator returns for a path of
  child and descendant steps the nodes of a reference semantics on the document (\<open>path_nodes\<close>), in its order, for every
  fuel above the number of steps.
\<close>

subsection \<open>Reference semantics\<close>

definition children_of :: "heap \<Rightarrow> ref \<Rightarrow> ref list" where
  "children_of h a = (case walk n_next h (n_children (h ! a)) of Some xs \<Rightarrow> xs | None \<Rightarrow> [])"

fun build_forest :: "nat \<Rightarrow> heap \<Rightarrow> ref option \<Rightarrow> xtree list option" where
  "build_forest k h None = Some []"
| "build_forest 0 h (Some a) = None"
| "build_forest (Suc k) h (Some a) = do {
     n \<leftarrow> deref h (Some a);
     ks \<leftarrow> build_forest k h (n_children n);
     ts \<leftarrow> build_forest k h (n_next n);
     Some (XT a ks # ts)
   }"

definition descendants_of :: "heap \<Rightarrow> ref \<Rightarrow> ref list" where
  "descendants_of h a =
     (case build_forest (length h) h (n_children (h ! a)) of Some ts \<Rightarrow> forest_nodes h ts | None \<Rightarrow> [])"

definition axis_nodes :: "heap \<Rightarrow> nodetype \<Rightarrow> (nodetype \<times> cstring option) option \<Rightarrow> ref \<Rightarrow> ref list" where
  "axis_nodes h ty kind a =
     matching h kind (if ty = XPATH_NODE_DESCENDANT then descendants_of h a else children_of h a)"

type_synonym step = "nodetype \<times> cstring option \<times> (nodetype \<times> cstring option) option"

text \<open>The last step comes first in the list, as in the tree.\<close>

fun path_nodes :: "heap \<Rightarrow> ref \<Rightarrow> step list \<Rightarrow> ref list" where
  "path_nodes h a [] = [a]"
| "path_nodes h a ((ty, name, kind) # r) = concat (map (axis_nodes h ty kind) (path_nodes h a r))"

fun path_expr :: "nodetype \<Rightarrow> step list \<Rightarrow> xpath_expr" where
  "path_expr start [] = new_expr start None []"
| "path_expr start ((ty, name, kind) # r) = XE ty name None 0 kind [path_expr start r]"

definition step_ok :: "step \<Rightarrow> bool" where
  "step_ok s = (case s of (ty, name, kind) \<Rightarrow>
     (ty = XPATH_NODE_SELECT \<or> ty = XPATH_NODE_ALL \<or> ty = XPATH_NODE_DESCENDANT) \<and> kind_defined kind)"

text \<open>A document: below every node there is a finite forest.\<close>

definition doc_ok :: "heap \<Rightarrow> bool" where
  "doc_ok h \<longleftrightarrow> list_all (\<lambda>n. build_forest (length h) h (n_children n) \<noteq> None) h"

lemma build_forest_sound: "build_forest k h p = Some ts \<Longrightarrow> forest_at h p ts"
  by (induction k h p arbitrary: ts rule: build_forest.induct) (auto split: bind_splits)

lemma build_forest_complete: "forest_at h p ts \<Longrightarrow> forest_depth ts \<le> k \<Longrightarrow> build_forest k h p = Some ts"
proof (induction h p ts arbitrary: k rule: forest_at.induct)
  case (2 h p a ks ts)
  then obtain k' where "k = Suc k'" by (cases k) auto
  with 2 show ?case by simp
qed simp

lemma doc_forest:
  assumes "doc_ok h" "a < length h"
  obtains ts where "forest_at h (n_children (h ! a)) ts" "descendants_of h a = forest_nodes h ts"
    "children_of h a = map (\<lambda>t. case t of XT b ks \<Rightarrow> b) ts"
proof -
  from assms obtain ts where ts: "build_forest (length h) h (n_children (h ! a)) = Some ts"
    by (auto simp: doc_ok_def list_all_length)
  note f = build_forest_sound[OF ts]
  from ts have "descendants_of h a = forest_nodes h ts" by (simp add: descendants_of_def)
  moreover have "children_of h a = map (\<lambda>t. case t of XT b ks \<Rightarrow> b) ts"
    using forest_linked[OF f] by (simp add: children_of_def walk_iff[THEN iffD2])
  ultimately show ?thesis using f that by blast
qed

lemma forest_nodes_bound: "forest_at h p ts \<Longrightarrow> set (forest_nodes h ts) \<subseteq> {..<length h}"
  by (induction h p ts rule: forest_at.induct) auto

lemma axis_nodes_bound:
  assumes "doc_ok h" "a < length h"
  shows "set (axis_nodes h ty kind a) \<subseteq> {..<length h}"
proof -
  from doc_forest[OF assms] obtain ts where ts: "forest_at h (n_children (h ! a)) ts"
    "descendants_of h a = forest_nodes h ts" "children_of h a = map (\<lambda>t. case t of XT b ks \<Rightarrow> b) ts" by blast
  from forest_nodes_bound[OF ts(1)] linked_bound[OF forest_linked[OF ts(1)]]
  have "set (descendants_of h a) \<subseteq> {..<length h}" "set (children_of h a) \<subseteq> {..<length h}" by (simp_all only: ts)
  then show ?thesis by (auto simp: axis_nodes_def split: if_splits)
qed

lemma path_nodes_bound: "doc_ok h \<Longrightarrow> a < length h \<Longrightarrow> set (path_nodes h a r) \<subseteq> {..<length h}"
proof (induction r)
  case (Cons s r)
  obtain ty name kind where s: "s = (ty, name, kind)" by (cases s) auto
  from Cons have "set (path_nodes h a r) \<subseteq> {..<length h}" by blast
  with axis_nodes_bound[OF Cons.prems(1)] show ?case by (auto simp: s)
qed simp

subsection \<open>Selections that stand for nodes of a document\<close>

definition stands_for :: "heap \<Rightarrow> xmlnode \<Rightarrow> ref \<Rightarrow> bool" where
  "stands_for h0 d x \<longleftrightarrow> x < length h0 \<and> n_original d = Some x \<and> n_type d = n_type (h0 ! x) \<and>
     n_name d = n_name (h0 ! x) \<and> n_content d = n_content (h0 ! x) \<and> n_children d = n_children (h0 ! x) \<and>
     n_attributes d = n_attributes (h0 ! x) \<and> n_parent d = n_parent (h0 ! x)"

definition denotes_by :: "heap \<Rightarrow> heap \<Rightarrow> ref option \<Rightarrow> ref list \<Rightarrow> ref list \<Rightarrow> bool" where
  "denotes_by h0 h p ds xs \<longleftrightarrow> linked n_next h p ds \<and> (\<forall>d\<in>set ds. length h0 \<le> d) \<and>
     list_all2 (\<lambda>d x. stands_for h0 (h ! d) x) ds xs"

definition denotes :: "heap \<Rightarrow> heap \<Rightarrow> ref option \<Rightarrow> ref list \<Rightarrow> bool" where
  "denotes h0 h p xs \<longleftrightarrow> extends h0 h \<and> (\<exists>ds. denotes_by h0 h p ds xs)"

lemma selected_denotes_by:
  assumes sel: "selected h h' p xs" and ext: "extends h0 h" and xs: "set xs \<subseteq> {..<length h0}"
  shows "\<exists>ds. denotes_by h0 h' p ds xs \<and> (\<forall>d\<in>set ds. length h \<le> d)"
proof -
  from sel obtain ds where ds: "linked n_next h' p ds" "\<forall>d\<in>set ds. length h \<le> d"
    "map (\<lambda>d. unlinked (h' ! d)) ds = selection_copies h 0 xs" by (auto simp: selected_def selects_def)
  have "list_all2 (\<lambda>n x. stands_for h0 n x) (selection_copies h i xs) xs" for i
    using xs
  proof (induction xs arbitrary: i)
    case (Cons x xs)
    then show ?case using extends_nth[OF ext] by (auto simp: stands_for_def selection_copy_def)
  qed simp
  from this[of 0] have "list_all2 (\<lambda>n x. stands_for h0 n x) (map (\<lambda>d. unlinked (h' ! d)) ds) xs"
    by (simp only: ds(3))
  then have "list_all2 (\<lambda>d x. stands_for h0 (h' ! d) x) ds xs"
    by (simp add: list_all2_map1 stands_for_def unlinked_def)
  with ds ext show ?thesis using extends_length[OF ext] by (force simp: denotes_by_def)
qed

text \<open>A change of fresh nodes that keeps what they stand for and the links of the list.\<close>

lemma linked_join:
  assumes "linked n_next h p (us @ [l])" "linked n_next h q vs" "q \<noteq> None" "l \<notin> set us" "l \<notin> set vs"
  shows "linked n_next (set_node h l (\<lambda>m. m\<lparr>n_next := q\<rparr>)) p (us @ l # vs)"
  using assms
proof (induction us arbitrary: p)
  case Nil
  have "linked n_next (set_node h l (\<lambda>m. m\<lparr>n_next := q\<rparr>)) q vs"
    using Nil.prems(2,5) linked_bound[OF Nil.prems(2)]
    by (intro linked_frame[OF Nil.prems(2)]) (auto simp: nth_set_node)
  with Nil show ?case by (auto simp: nth_set_node)
next
  case (Cons u us)
  then show ?case by (auto simp: nth_set_node)
qed

lemma stands_for_next [simp]: "stands_for h0 (d\<lparr>n_next := q\<rparr>) x = stands_for h0 d x"
  by (simp add: stands_for_def)

lemma stands_for_set_next:
  "d < length h \<Longrightarrow> stands_for h0 (set_node h l (\<lambda>m. m\<lparr>n_next := q\<rparr>) ! d) x = stands_for h0 (h ! d) x"
  by (auto simp: nth_set_node)

lemma list_all2_stands_set:
  "list_all2 (\<lambda>d x. stands_for h0 (h ! d) x) ds xs \<Longrightarrow> set ds \<subseteq> {..<length h} \<Longrightarrow>
   list_all2 (\<lambda>d x. stands_for h0 (set_node h l (\<lambda>m. m\<lparr>n_next := q\<rparr>) ! d) x) ds xs"
  by (auto simp: list_all2_conv_all_nth stands_for_set_next subset_iff)

text \<open>What \<open>xpath_apply_selector\<close> needs of a selector: on a node that stands for \<open>x\<close> it yields \<open>F x\<close> in fresh nodes.\<close>

definition selects_for :: "heap \<Rightarrow> selector \<Rightarrow> (nodetype \<times> cstring option) option \<Rightarrow> (ref \<Rightarrow> ref list) \<Rightarrow> bool" where
  "selects_for h0 sel kind F \<longleftrightarrow> (\<forall>h d x. extends h0 h \<longrightarrow> d < length h \<longrightarrow> x < length h0 \<longrightarrow>
     n_children (h ! d) = n_children (h0 ! x) \<longrightarrow>
     (\<exists>p h'. sel h (Some d) kind = Some (p, h') \<and> extends h h' \<and>
        (\<exists>ds. denotes_by h0 h' p ds (F x) \<and> (\<forall>e\<in>set ds. length h \<le> e))))"

text \<open>The accumulated list: \<open>es\<close> from the head to the tail, none of them among the nodes still to come.\<close>

definition acc_ok :: "heap \<Rightarrow> heap \<Rightarrow> ref option \<Rightarrow> ref option \<Rightarrow> ref list \<Rightarrow> ref list \<Rightarrow> bool" where
  "acc_ok h0 h head tail es ys \<longleftrightarrow> denotes_by h0 h head es ys \<and> tail = last_or None es"

lemma denotes_by_extends:
  assumes "denotes_by h0 h p ds xs" "extends h h'"
  shows "denotes_by h0 h' p ds xs"
proof -
  from assms(1) have l: "linked n_next h p ds" by (simp add: denotes_by_def)
  have "set ds \<subseteq> {..<length h}" using linked_bound[OF l] .
  then have "list_all2 (\<lambda>d x. stands_for h0 (h' ! d) x) ds xs"
    using assms by (auto simp: denotes_by_def list_all2_conv_all_nth extends_nth subset_iff)
  with assms linked_extends[OF l assms(2)] show ?thesis by (simp add: denotes_by_def)
qed

lemma append_result_acc:
  assumes acc: "acc_ok h0 h head tail es ys" and t: "denotes_by h0 h (Some t) ts xs"
    and dis: "set es \<inter> set ts = {}"
  shows "\<exists>head' tail' h'. append_result h head tail t = Some (head', tail', h') \<and>
    acc_ok h0 h' head' tail' (es @ ts) (ys @ xs) \<and> length h' = length h \<and>
    (\<forall>a<length h. a \<notin> set es \<longrightarrow> h' ! a = h ! a)"
proof -
  from t have tl: "linked n_next h (Some t) ts" "ts \<noteq> []" by (auto simp: denotes_by_def)
  show ?thesis
  proof (cases es rule: rev_cases)
    case Nil
    with acc have "head = None" "tail = None" "ys = []" by (auto simp: acc_ok_def denotes_by_def)
    with Nil t tl last_node_chain[OF tl(1)] show ?thesis
      by (auto simp: append_result_def acc_ok_def last_or_def)
  next
    case (snoc us l)
    let ?h' = "set_node h l (\<lambda>m. m\<lparr>n_next := Some t\<rparr>)"
    from acc snoc have e: "linked n_next h head (us @ [l])" "tail = Some l" "\<forall>d\<in>set es. length h0 \<le> d"
      "list_all2 (\<lambda>d x. stands_for h0 (h ! d) x) es ys" by (auto simp: acc_ok_def denotes_by_def)
    from e(1) have l: "l < length h" "head \<noteq> None" using linked_bound by (fastforce, cases us, auto)
    have "l \<notin> set us" using linked_distinct[OF e(1)] by simp
    with linked_join[OF e(1) tl(1)] dis snoc have j: "linked n_next ?h' head (us @ l # ts)" by simp
    have last: "last_node ?h' l = Some (last ts)"
      using last_node_chain[OF linked_suffix[OF j]] tl(2) by simp
    have "list_all2 (\<lambda>d x. stands_for h0 (?h' ! d) x) es ys" "list_all2 (\<lambda>d x. stands_for h0 (?h' ! d) x) ts xs"
      using list_all2_stands_set e(4) t linked_bound[OF e(1)] linked_bound[OF tl(1)] snoc
      by (auto simp: denotes_by_def)
    then have "list_all2 (\<lambda>d x. stands_for h0 (?h' ! d) x) (es @ ts) (ys @ xs)" by (rule list_all2_appendI)
    then have "acc_ok h0 ?h' head (Some (last ts)) (es @ ts) (ys @ xs)"
      using j e t snoc tl(2) by (auto simp: acc_ok_def denotes_by_def last_or_def)
    moreover have "append_result h head tail t = Some (head, Some (last ts), ?h')"
      using l e(2) last by (auto simp: append_result_def)
    ultimately show ?thesis using snoc by (auto simp: nth_set_node)
  qed
qed

lemma extendsI_nth: "length h0 \<le> length h \<Longrightarrow> (\<And>a. a < length h0 \<Longrightarrow> h ! a = h0 ! a) \<Longrightarrow> extends h0 h"
  unfolding extends_def by (intro exI[of _ "drop (length h0) h"] nth_equalityI) (auto simp: nth_append)

lemma apply_selector_loop_denotes:
  assumes "selects_for h0 sel kind F" "extends h0 h" "linked n_next h p ds"
    "list_all2 (\<lambda>d x. stands_for h0 (h ! d) x) ds xs" "acc_ok h0 h head tail es ys" "set es \<inter> set ds = {}"
    "length ds \<le> k"
  shows "\<exists>q h'. apply_selector_loop k sel kind h head tail p = Some (q, h') \<and> extends h0 h' \<and>
    (\<exists>es'. denotes_by h0 h' q es' (ys @ concat (map F xs)))"
  using assms(2-)
proof (induction ds arbitrary: k h p xs head tail es ys)
  case Nil
  then show ?case by (auto simp: acc_ok_def)
next
  case (Cons d ds)
  from Cons.prems(6) obtain k' where k: "k = Suc k'" "length ds \<le> k'" by (cases k) auto
  from Cons.prems(3) obtain x xs' where x: "xs = x # xs'" "stands_for h0 (h ! d) x"
    "list_all2 (\<lambda>d x. stands_for h0 (h ! d) x) ds xs'" by (auto simp: list_all2_Cons1)
  from Cons.prems(2) have d: "p = Some d" "d < length h" "linked n_next h (n_next (h ! d)) ds" by auto
  have dist: "distinct (d # ds)" using linked_distinct[OF Cons.prems(2)] .
  have dsb: "set (d # ds) \<subseteq> {..<length h}" using linked_bound[OF Cons.prems(2)] .
  from assms(1)[unfolded selects_for_def, rule_format, OF Cons.prems(1) d(2), of x] x(2)
  obtain tmp h1 ts where s: "sel h (Some d) kind = Some (tmp, h1)" "extends h h1" "denotes_by h0 h1 tmp ts (F x)"
    "\<forall>e\<in>set ts. length h \<le> e" by (auto simp: stands_for_def)
  have esb: "set es \<subseteq> {..<length h}"
    using Cons.prems(4) linked_bound[of n_next h head es] by (simp add: acc_ok_def denotes_by_def)
  have acc1: "acc_ok h0 h1 head tail es ys"
    using Cons.prems(4) denotes_by_extends[OF _ s(2)] by (auto simp: acc_ok_def)
  obtain head2 tail2 h2 where r: "(case tmp of None \<Rightarrow> Some (head, tail, h1) | Some t \<Rightarrow> append_result h1 head tail t)
      = Some (head2, tail2, h2)" "acc_ok h0 h2 head2 tail2 (es @ ts) (ys @ F x)" "length h2 = length h1"
      "\<forall>a<length h1. a \<notin> set es \<longrightarrow> h2 ! a = h1 ! a"
  proof (cases tmp)
    case None
    with s(3) have "ts = []" "F x = []" by (cases ts; auto simp: denotes_by_def)+
    with that[of head tail h1] None acc1 show ?thesis by simp
  next
    case (Some t)
    have "set es \<inter> set ts = {}" using esb s(4) by fastforce
    from append_result_acc[OF acc1 s(3)[unfolded Some] this] that Some show ?thesis by auto
  qed
  have es0: "\<forall>e\<in>set es. length h0 \<le> e" using Cons.prems(4) by (auto simp: acc_ok_def denotes_by_def)
  have ext01: "extends h0 h1" using Cons.prems(1) s(2) extends_trans by blast
  have ext2: "extends h0 h2"
    using r(3,4) es0 extends_length[OF ext01] extends_nth[OF ext01]
    by (intro extendsI_nth) (auto simp: not_le[symmetric])
  have same: "h2 ! e = h ! e" if "e \<in> set (d # ds)" for e
  proof -
    have "e < length h" "e \<notin> set es" using that dsb Cons.prems(5) by auto
    then show ?thesis using r(4) extends_nth[OF s(2)] extends_length[OF s(2)] by auto
  qed
  have rest: "linked n_next h2 (n_next (h2 ! d)) ds"
    using same r(3) extends_length[OF s(2)] by (auto intro!: linked_frame[OF d(3)])
  have rest2: "list_all2 (\<lambda>d x. stands_for h0 (h2 ! d) x) ds xs'"
    using x(3) same by (auto simp: list_all2_conv_all_nth)
  have dis2: "set (es @ ts) \<inter> set ds = {}" using Cons.prems(5) dsb s(4) by fastforce
  from Cons.IH[OF ext2 rest rest2 r(2) dis2 k(2)]
  have "\<exists>q h'. apply_selector_loop k' sel kind h2 head2 tail2 (n_next (h2 ! d)) = Some (q, h') \<and> extends h0 h' \<and>
      (\<exists>es'. denotes_by h0 h' q es' (ys @ concat (map F xs)))" by (simp add: x(1))
  moreover have "d < length h2" using d(2) r(3) extends_length[OF s(2)] by simp
  ultimately show ?case using s(1) r(1) by (auto simp: k(1) d(1))
qed

lemma xpath_apply_selector_denotes:
  assumes "selects_for h0 sel kind F" "denotes h0 h p xs"
  shows "\<exists>q h'. xpath_apply_selector sel h p kind = Some (q, h') \<and> denotes h0 h' q (concat (map F xs))"
proof -
  from assms(2) obtain ds where ds: "extends h0 h" "linked n_next h p ds" "list_all2 (\<lambda>d x. stands_for h0 (h ! d) x) ds xs"
    by (auto simp: denotes_def denotes_by_def)
  have "acc_ok h0 h None None [] []" by (simp add: acc_ok_def denotes_by_def)
  from apply_selector_loop_denotes[OF assms(1) ds this _ linked_length[OF ds(2)]]
  show ?thesis by (simp add: xpath_apply_selector_def denotes_def)
qed

subsection \<open>The child and descendant steps\<close>

lemma matching_extends:
  assumes "extends h0 h" "set xs \<subseteq> {..<length h0}"
  shows "matching h kind xs = matching h0 kind xs"
  using assms by (intro filter_cong) (auto simp: extends_nth subset_iff)

lemma forest_nodes_extends:
  "forest_at h0 p ts \<Longrightarrow> extends h0 h \<Longrightarrow> forest_nodes h ts = forest_nodes h0 ts"
  by (induction h0 p ts rule: forest_at.induct) (auto simp: extends_nth)

lemma selects_for_by:
  assumes "\<And>h d x. extends h0 h \<Longrightarrow> d < length h \<Longrightarrow> x < length h0 \<Longrightarrow> n_children (h ! d) = n_children (h0 ! x) \<Longrightarrow>
      \<exists>p h'. sel h (Some d) kind = Some (p, h') \<and> selected h h' p (F x)"
    and "\<And>x. x < length h0 \<Longrightarrow> set (F x) \<subseteq> {..<length h0}"
  shows "selects_for h0 sel kind F"
  unfolding selects_for_def
proof (intro allI impI)
  fix h d x
  assume a: "extends h0 h" "d < length h" "x < length h0" "n_children (h ! d) = n_children (h0 ! x)"
  from assms(1)[OF a] obtain p h' where "sel h (Some d) kind = Some (p, h')" "selected h h' p (F x)" by blast
  with selected_denotes_by[OF this(2) a(1) assms(2)[OF a(3)]] selected_extends
  show "\<exists>p h'. sel h (Some d) kind = Some (p, h') \<and> extends h h' \<and>
      (\<exists>ds. denotes_by h0 h' p ds (F x) \<and> (\<forall>e\<in>set ds. length h \<le> e))" by blast
qed

lemma child_selects_for:
  assumes "doc_ok h0" "kind_defined kind" "ty \<noteq> XPATH_NODE_DESCENDANT"
  shows "selects_for h0 xpath_get_child kind (axis_nodes h0 ty kind)"
proof (rule selects_for_by)
  fix h d x
  assume a: "extends h0 h" "d < length h" "x < length h0" "n_children (h ! d) = n_children (h0 ! x)"
  from doc_forest[OF assms(1) a(3)] obtain ts where f: "forest_at h0 (n_children (h0 ! x)) ts"
    "children_of h0 x = map (\<lambda>t. case t of XT b ks \<Rightarrow> b) ts" by blast
  note l = forest_linked[OF f(1), folded f(2)]
  from child_axis[OF a(2) _ assms(2), of "children_of h0 x"] linked_extends[OF l a(1)] a(4)
    matching_extends[OF a(1) linked_bound[OF l]]
  show "\<exists>p h'. xpath_get_child h (Some d) kind = Some (p, h') \<and> selected h h' p (axis_nodes h0 ty kind x)"
    using assms(3) by (simp add: axis_nodes_def)
qed (rule axis_nodes_bound[OF assms(1)])

lemma descendant_selects_for:
  assumes "doc_ok h0" "kind_defined kind"
  shows "selects_for h0 xpath_get_descendant kind (axis_nodes h0 XPATH_NODE_DESCENDANT kind)"
proof (rule selects_for_by)
  fix h d x
  assume a: "extends h0 h" "d < length h" "x < length h0" "n_children (h ! d) = n_children (h0 ! x)"
  from doc_forest[OF assms(1) a(3)] obtain ts where f: "forest_at h0 (n_children (h0 ! x)) ts"
    "descendants_of h0 x = forest_nodes h0 ts" by blast
  have "forest_at h (n_children (h ! d)) ts" using forest_extends[OF f(1) a(1)] a(4) by simp
  from descendant_axis[OF a(2) this assms(2)] forest_nodes_extends[OF f(1) a(1)]
    matching_extends[OF a(1) forest_nodes_bound[OF f(1)]]
  show "\<exists>p h'. xpath_get_descendant h (Some d) kind = Some (p, h') \<and>
      selected h h' p (axis_nodes h0 XPATH_NODE_DESCENDANT kind x)"
    by (simp add: axis_nodes_def f(2))
qed (rule axis_nodes_bound[OF assms(1)])

lemma step_selector:
  assumes "doc_ok h0" "step_ok (ty, name, kind)"
  shows "\<exists>sel. axis_selector ty = Some sel \<and> selects_for h0 sel kind (axis_nodes h0 ty kind)"
  using assms child_selects_for[OF assms(1), of kind ty] descendant_selects_for[OF assms(1), of kind]
  by (auto simp: step_ok_def xpath_get_all_def[abs_def])

lemma add_to_selection_denotes:
  assumes "extends h0 h" "a < length h0"
  shows "\<exists>p pos h'. add_to_selection h None (Some a) 0 = Some (p, pos, h') \<and> denotes h0 h' p [a]"
proof -
  from sel_add_inv[OF new_selection_inv[of h], of a] assms extends_length[OF assms(1)]
  obtain s where s: "sel_add (new_selection h) a = Some s" "sel_inv h s [a]" by auto
  then obtain t pos h' where t: "add_to_selection h None (Some a) 0 = Some (t, pos, h')" "s_head s = t" "s_heap s = h'"
    by (auto simp: sel_add_def new_selection_def split: bind_splits)
  have "selected h h' t [a]" using sel_result_selected[OF s(2)] t by simp
  from selected_denotes_by[OF this assms(1)] assms(2) selected_extends[OF this] extends_trans[OF assms(1)] t(1)
  show ?thesis by (auto simp: denotes_def)
qed

lemma path_execute:
  assumes "doc_ok h0" "a < length h0" "start = XPATH_NODE_CONTEXT \<and> current = Some a \<or> start = XPATH_NODE_ROOT \<and> e_root_node env = Some a"
  shows "extends h0 (x_heap st) \<Longrightarrow> list_all step_ok r \<Longrightarrow> length r < k \<Longrightarrow>
    \<exists>p st'. xpath_execute_scalar env k (Some (path_expr start r)) current st = Some (VAL_NODESET p, st') \<and>
      denotes h0 (x_heap st') p (path_nodes h0 a r)"
proof (induction r arbitrary: k)
  case Nil
  then obtain k' where k: "k = Suc k'" by (cases k) auto
  from add_to_selection_denotes[OF Nil(1) assms(2)] assms(3) show ?case
    by (auto simp: k execute_step_def new_expr_def exec_select_node_def)
next
  case (Cons s r)
  then obtain k' where k: "k = Suc k'" "length r < k'" by (cases k) auto
  obtain ty name kind where s: "s = (ty, name, kind)" by (cases s) auto
  from Cons.prems(2) s have ok: "step_ok (ty, name, kind)" "list_all step_ok r" by auto
  from Cons.IH[OF Cons.prems(1) ok(2) k(2)] obtain p st' where
    p: "xpath_execute_scalar env k' (Some (path_expr start r)) current st = Some (VAL_NODESET p, st')"
      "denotes h0 (x_heap st') p (path_nodes h0 a r)" by blast
  from step_selector[OF assms(1) ok(1)] obtain sel where
    sel: "axis_selector ty = Some sel" "selects_for h0 sel kind (axis_nodes h0 ty kind)" by blast
  from xpath_apply_selector_denotes[OF sel(2) p(2)] p(1) sel(1) show ?case
    by (auto simp: s k(1) execute_step_def xpath_select_common_def first_child_def arg_ptr_def)
qed

text \<open>
  C2: Evaluating a location path of child and descendant steps is correct against the
  reference semantics: on a document with finite trees, from a context node or from the root, the evaluator returns (for
  every fuel above the number of steps) a nodeset whose nodes stand, in this order, for exactly
  the nodes of the path, and leaves the document unchanged.
\<close>

theorem location_path_correct:
  assumes "doc_ok (x_heap st)" "a < length (x_heap st)" "list_all step_ok steps" "length steps < k"
    and "start = XPATH_NODE_CONTEXT \<and> current = Some a \<or> start = XPATH_NODE_ROOT \<and> e_root_node env = Some a"
  shows "\<exists>p st' ds. xpath_execute_scalar env k (Some (path_expr start steps)) current st = Some (VAL_NODESET p, st') \<and>
    linked n_next (x_heap st') p ds \<and>
    map (\<lambda>d. n_original (x_heap st' ! d)) ds = map Some (path_nodes (x_heap st) a steps) \<and>
    take (length (x_heap st)) (x_heap st') = x_heap st"
proof -
  from path_execute[OF assms(1,2,5) extends_refl assms(3,4)] obtain p st' where
    r: "xpath_execute_scalar env k (Some (path_expr start steps)) current st = Some (VAL_NODESET p, st')"
      "denotes (x_heap st) (x_heap st') p (path_nodes (x_heap st) a steps)" by blast
  from r(2) obtain ds where ds: "linked n_next (x_heap st') p ds"
    "list_all2 (\<lambda>d x. stands_for (x_heap st) (x_heap st' ! d) x) ds (path_nodes (x_heap st) a steps)"
    by (auto simp: denotes_def denotes_by_def)
  from ds(2) have "map (\<lambda>d. n_original (x_heap st' ! d)) ds = map Some (path_nodes (x_heap st) a steps)"
    by (auto simp: list_all2_conv_all_nth stands_for_def intro: nth_equalityI)
  moreover have "take (length (x_heap st)) (x_heap st') = x_heap st" using r(2) by (auto simp: denotes_def extends_def)
  ultimately show ?thesis using r(1) ds(1) by blast
qed

definition steps_b :: "step list" where
  "steps_b = [(XPATH_NODE_SELECT, Some ''b'', test_b), (XPATH_NODE_SELECT, Some ''a'', Some (EMPTY_NODE, Some ''a''))]"

text \<open>What the compiler makes of \<open>a//b\<close>.\<close>

definition steps_slashes :: "step list" where
  "steps_slashes = [(XPATH_NODE_SELECT, Some ''b'', test_b), (XPATH_NODE_DESCENDANT, None, None),
     (XPATH_NODE_SELECT, Some ''a'', Some (EMPTY_NODE, Some ''a''))]"

lemma doc1_ok: "doc_ok doc1"
proof -
  have f: "forest_at doc1 (Some 5) [XT 5 []]" "forest_at doc1 (Some 2) [XT 2 [], XT 3 [], XT 4 [XT 5 []]]"
    "forest_at doc1 (Some 1) [XT 1 [XT 2 [], XT 3 [], XT 4 [XT 5 []]]]" by simp_all
  note b = build_forest_complete[OF f(1) forest_depth_bound[OF f(1)]] build_forest_complete[OF f(2) forest_depth_bound[OF f(2)]]
    build_forest_complete[OF f(3) forest_depth_bound[OF f(3)]]
  have "build_forest (length doc1) doc1 p \<noteq> None" if "p \<in> {None, Some 1, Some 2, Some 5}" for p
    using that b by auto
  moreover have "n_children (doc1 ! n) \<in> {None, Some 1, Some 2, Some 5}" if "n < 6" for n
  proof -
    from that have "n \<in> {0, 1, 2, 3, 4, 5}" by auto
    then show ?thesis by auto
  qed
  ultimately show ?thesis by (simp only: doc_ok_def list_all_length doc1_length) blast
qed

lemma doc1_axes [simp]:
  "children_of doc1 0 = [1]" "children_of doc1 (Suc 0) = [2, 3, 4]" "children_of doc1 2 = []" "children_of doc1 4 = [5]"
  "descendants_of doc1 (Suc 0) = [2, 3, 4, 5]"
proof -
  have "forest_at doc1 (Some 2) [XT 2 [], XT 3 [], XT 4 [XT 5 []]]" by simp
  from build_forest_complete[OF this forest_depth_bound[OF this]]
  show "descendants_of doc1 (Suc 0) = [2, 3, 4, 5]" by (simp add: descendants_of_def)
qed (simp_all add: children_of_def walk_iff[THEN iffD2, of _ doc1 _ "[1]"] walk_iff[THEN iffD2, of _ doc1 _ "[2, 3, 4]"]
    walk_iff[THEN iffD2, of _ doc1 _ "[5]"] walk_iff[THEN iffD2, of _ doc1 _ "[]"])

theorem location_path_correct_witness:
  "\<forall>env. \<exists>p st' ds. xpath_execute_scalar env 3 (Some (path_expr XPATH_NODE_CONTEXT steps_b)) (Some 0)
      \<lparr>x_heap = doc1, x_expressions = [], x_urldict = []\<rparr> = Some (VAL_NODESET p, st') \<and>
    linked n_next (x_heap st') p ds \<and> map (\<lambda>d. n_original (x_heap st' ! d)) ds = [Some 2, Some 4]"
proof
  fix env
  let ?st = "\<lparr>x_heap = doc1, x_expressions = [], x_urldict = []\<rparr> :: xstate"
  have "list_all step_ok steps_b"
    by (simp add: steps_b_def step_ok_def kind_defined_def test_b_def)
  then have "doc_ok (x_heap ?st)" "(0::nat) < length (x_heap ?st)" "list_all step_ok steps_b" "length steps_b < 3"
    "path_nodes (x_heap ?st) 0 steps_b = [2, 4]"
    by (simp_all add: doc1_ok steps_b_def step_ok_def kind_defined_def axis_nodes_def matches_kind_def[of "Some p" for p]
        xpath_node_kind_def str_equals_def)
  from location_path_correct[OF this(1-4), of XPATH_NODE_CONTEXT "Some 0" env]
  obtain p st' ds where "xpath_execute_scalar env 3 (Some (path_expr XPATH_NODE_CONTEXT steps_b)) (Some 0) ?st
      = Some (VAL_NODESET p, st')" "linked n_next (x_heap st') p ds"
    "map (\<lambda>d. n_original (x_heap st' ! d)) ds = map Some (path_nodes (x_heap ?st) 0 steps_b)" by blast
  with \<open>path_nodes (x_heap ?st) 0 steps_b = [2, 4]\<close> 
  show "\<exists>p st' ds. xpath_execute_scalar env 3 (Some (path_expr XPATH_NODE_CONTEXT steps_b)) (Some 0) ?st
      = Some (VAL_NODESET p, st') \<and> linked n_next (x_heap st') p ds \<and>
      map (\<lambda>d. n_original (x_heap st' ! d)) ds = [Some 2, Some 4]" by (metis list.simps(8,9))
qed

text \<open>
  The abbreviation \<open>//\<close> compiles to a descendant step in place of descendant-or-self: \<open>a//b\<close> is the path
  child a, any descendant element, child b. In a document where \<open>b\<close> is a child of \<open>a\<close> the path \<open>a/b\<close> has the two
  nodes and \<open>a//b\<close> has none.
\<close>

theorem double_slash_misses_children:
  "xpath_compile 6 ''a//b'' = Some (Some (path_expr XPATH_NODE_CONTEXT steps_slashes)) \<and>
   xpath_compile 6 ''a/b'' = Some (Some (path_expr XPATH_NODE_CONTEXT steps_b)) \<and>
   path_nodes doc1 0 steps_slashes = [] \<and> path_nodes doc1 0 steps_b = [2, 4]"
proof (intro conjI)
  show "xpath_compile 6 ''a//b'' = Some (Some (path_expr XPATH_NODE_CONTEXT steps_slashes))"
    "xpath_compile 6 ''a/b'' = Some (Some (path_expr XPATH_NODE_CONTEXT steps_b))"
    by code_simp+
  show "path_nodes doc1 0 steps_slashes = []" "path_nodes doc1 0 steps_b = [2, 4]"
    by (simp_all add: steps_b_def steps_slashes_def axis_nodes_def matches_kind_def[of "Some p" for p]
        matches_kind_def[of None] xpath_node_kind_def str_equals_def)
qed

end
