(* ===== verification/Tx_Parse.thy ===== *)
theory Tx_Parse
  imports Tx_Select Tx_XPathParse Tx_Utf8
begin

text \<open>
  parse.c: the XML parser, a state machine over the text. \<open>parse_step\<close> is one turn of the
  main loop of \<open>do_parse\<close>; its state holds the local variables. \<open>None\<close> is an access behind the end of the
  text or through a NULL pointer, or a run that uses up the fuel. Positions in the text are
  the rest of the text; line numbers do not wrap around. The content of a node is the C string
  its readers see.
\<close>

datatype parse_state = INIT | OPEN | CLOSE | COMMENT | BODY | TEXT | XMLDECL | INSIDE_TAG | ATTR_VALUE | CDATA
  | DOCTYPE | ERROR

subsection \<open>Scanning\<close>

definition skip_spaces :: "cstring \<Rightarrow> nat \<Rightarrow> cstring \<times> nat" where
  "skip_spaces p lno = (dropWhile x_is_ws p, lno + length (filter (\<lambda>c. c = CHR 0x0A) (takeWhile x_is_ws p)))"

definition can_name :: "char \<Rightarrow> bool" where
  "can_name c \<longleftrightarrow> char_between CHR ''a'' CHR ''z'' c \<or> c \<in> {CHR ''-'', CHR ''_'', CHR '':''} \<or> is_digit_char c \<or>
     char_between CHR ''A'' CHR ''Z'' c"

text \<open>Behind the next occurrence of a pattern; a scan that finds none runs past the end.\<close>

fun skip_past :: "cstring \<Rightarrow> cstring \<Rightarrow> cstring option" where
  "skip_past pat [] = None"
| "skip_past pat (c # r) = (if starts_with pat (c # r) then Some (drop (length pat) (c # r)) else skip_past pat r)"

text \<open>The text up to the next occurrence of a pattern, or to the end.\<close>

fun upto_seq :: "cstring \<Rightarrow> cstring \<Rightarrow> cstring \<times> cstring" where
  "upto_seq pat [] = ([], [])"
| "upto_seq pat (c # r) =
     (if starts_with pat (c # r) then ([], c # r) else (let (t, q) = upto_seq pat r in (c # t, q)))"

text \<open>\<open>strtoul\<close> as in glibc: white space, a sign, the digits; without digits nothing is consumed.\<close>

definition strtoul :: "int \<Rightarrow> cstring \<Rightarrow> nat \<times> cstring" where
  "strtoul base str =
     (let (neg, s) = read_sign (dropWhile is_space str);
          hexp = (base = 16 \<and> (starts_with ''0x'' s \<or> starts_with ''0X'' s) \<and> is_hex_char (peek (drop 2 s)));
          s1 = (if hexp then drop 2 s else s);
          digit = (if base = 16 then is_hex_char else is_digit_char);
          ds = takeWhile digit s1;
          n = nat (read_base base (if base = 16 then hex_val else digit_val) ds)
      in if ds = [] then (0, str)
         else (if 2 ^ 64 \<le> n then 2 ^ 64 - 1 else if neg then (2 ^ 64 - n) mod 2 ^ 64 else n, dropWhile digit s1))"

text \<open>From behind an ampersand: the code point and the rest of the text.\<close>

definition decode_entity :: "cstring \<Rightarrow> u32 \<times> cstring" where
  "decode_entity s =
     (if peek s = CHR ''#'' then
        (let s1 = tl s;
             (n, s2) = (if peek s1 = CHR ''x'' \<or> peek s1 = CHR ''X'' then strtoul 16 (tl s1) else strtoul 10 s1)
         in if peek s2 = CHR '';'' then (of_nat n, tl s2) else (0x3F, s2))
      else (case match s ''amp;'' of Some r \<Rightarrow> (0x26, r)
        | None \<Rightarrow> (case match s ''quot;'' of Some r \<Rightarrow> (0x22, r)
        | None \<Rightarrow> (case match s ''lt;'' of Some r \<Rightarrow> (0x3C, r)
        | None \<Rightarrow> (case match s ''gt;'' of Some r \<Rightarrow> (0x3E, r)
        | None \<Rightarrow> (case match s ''apos;'' of Some r \<Rightarrow> (0x27, r)
        | None \<Rightarrow> (0x26, s)))))))"

lemma match_length: "match s pat = Some r \<Longrightarrow> length r \<le> length s"
  by (induction s pat rule: match.induct) (auto split: if_splits)

lemma length_strtoul: "length (snd (strtoul b s)) \<le> length s"
proof -
  have l: "length (dropWhile P (drop n (snd (read_sign t)))) \<le> length t" for P n t
    using length_dropWhile_le[of P "drop n (snd (read_sign t))"] by (auto simp: read_sign_def split: if_splits)
  show ?thesis
    using l[of _ 0 "dropWhile is_space s"] l[of _ 2 "dropWhile is_space s"] length_dropWhile_le[of is_space s]
    by (auto simp: strtoul_def Let_def split: prod.splits) (metis le_trans snd_conv drop_0)+
qed

lemma decode_entity_length: "length (snd (decode_entity s)) \<le> length s"
  using length_strtoul[of 10 "tl s"] length_strtoul[of 16 "tl (tl s)"]
  by (auto simp: decode_entity_def Let_def dest: match_length split: prod.splits option.splits)

text \<open>\<open>make_unescaped_string\<close>: the bytes appended to the buffer, and the C string they make.\<close>

function unescape_bytes :: "cstring \<Rightarrow> byte list" where
  "unescape_bytes [] = []"
| "unescape_bytes (c # r) =
     (if c = CHR ''&'' then (case decode_entity r of (u, r') \<Rightarrow> utf8_bytes u @ unescape_bytes r')
      else c # unescape_bytes r)"
  by pat_completeness auto
termination
  by (relation "measure length") (auto simp: less_Suc_eq_le dest!: arg_cong[of _ _ "\<lambda>x. length (snd x)"]
      intro: order_trans[OF _ decode_entity_length])

definition make_unescaped_string :: "cstring \<Rightarrow> cstring" where
  "make_unescaped_string s = cstr_of (unescape_bytes s)"

definition unescape_string :: "cstring \<Rightarrow> cstring" where
  "unescape_string s = make_unescaped_string s"

subsection \<open>The state machine\<close>

record pstate =
  ps_heap :: heap
  ps_ret :: "ref option"
  ps_current :: "ref option"
  ps_attr :: "ref option"
  ps_previous :: "ref option"
  ps_p :: cstring
  ps_c :: cstring
  ps_depth :: u32
  ps_ln :: nat
  ps_state :: parse_state

datatype parse_outcome = Parse_Step pstate | Parse_Null

text \<open>A new element or text node becomes the next sibling of \<open>previous\<close>, or the first child of \<open>ret\<close>.\<close>

definition link_node :: "ref \<Rightarrow> cstring option \<Rightarrow> nat \<Rightarrow> ref option \<Rightarrow> ref option \<Rightarrow> heap \<Rightarrow> heap option" where
  "link_node a uri lno previous ret h = do {
     h1 \<leftarrow> upd h (Some a) (\<lambda>n. n\<lparr>n_prev := previous, n_file := uri, n_line := lno\<rparr>);
     h2 \<leftarrow> (case previous of
         Some _ \<Rightarrow> upd h1 previous (\<lambda>n. n\<lparr>n_next := Some a\<rparr>)
       | None \<Rightarrow> upd h1 ret (\<lambda>n. n\<lparr>n_children := Some a\<rparr>));
     upd h2 (Some a) (\<lambda>n. n\<lparr>n_parent := ret, n_next := None\<rparr>)
   }"

definition parse_open :: "cstring option \<Rightarrow> pstate \<Rightarrow> parse_outcome option" where
  "parse_open uri s =
     (let p = ps_p s in
      if peek p = CHR ''?'' then Some (Parse_Step (s\<lparr>ps_p := tl p, ps_state := XMLDECL\<rparr>))
      else if starts_with ''!--'' p
        then Some (Parse_Step (s\<lparr>ps_p := drop 3 p, ps_depth := ps_depth s + 1, ps_state := COMMENT\<rparr>))
      else if starts_with ''![CDATA['' p then Some (Parse_Step (s\<lparr>ps_p := drop 8 p, ps_state := CDATA\<rparr>))
      else if starts_with ''!DOCTYPE'' p then Some (Parse_Step (s\<lparr>ps_p := drop 8 p, ps_state := DOCTYPE\<rparr>))
      else if peek p = CHR ''!'' then Some Parse_Null
      else if peek p = CHR ''/'' then Some (Parse_Step (s\<lparr>ps_p := tl p, ps_state := CLOSE\<rparr>))
      else do {
        let (p1, ln1) = skip_spaces p (ps_ln s);
        let (a, h1) = xml_new_node (ps_heap s) (Some (takeWhile can_name p1)) ELEMENT_NODE;
        h2 \<leftarrow> link_node a uri ln1 (ps_previous s) (ps_ret s) h1;
        let c = dropWhile can_name p1;
        let (p2, ln2) = skip_spaces c ln1;
        Some (Parse_Step (s\<lparr>ps_heap := h2, ps_current := Some a,
          ps_ret := (if ps_ret s = None then Some a else ps_ret s), ps_p := p2, ps_c := c, ps_ln := ln2,
          ps_state := INSIDE_TAG\<rparr>))
      })"

text \<open>A closing tag: its name has to be a prefix of the name of the open element (\<open>memcmp\<close> of its length).\<close>

definition parse_close :: "pstate \<Rightarrow> parse_outcome option" where
  "parse_close s = do {
     let (p, ln1) = skip_spaces (ps_p s) (ps_ln s);
     r \<leftarrow> deref (ps_heap s) (ps_ret s);
     name \<leftarrow> n_name r;
     let c = dropWhile can_name p;
     if starts_with (takeWhile can_name p) name
     then (case dropWhile (\<lambda>d. d \<noteq> CHR ''>'') c of
         [] \<Rightarrow> None
       | _ # q \<Rightarrow> Some (Parse_Step (s\<lparr>ps_p := q, ps_c := c, ps_ln := ln1, ps_state := TEXT,
           ps_previous := ps_ret s, ps_ret := n_parent r\<rparr>)))
     else Some (Parse_Step (s\<lparr>ps_p := p, ps_c := c, ps_ln := ln1, ps_state := ERROR\<rparr>))
   }"

definition newline :: "cstring \<Rightarrow> nat" where
  "newline p = (if peek p = CHR 0x0A then 1 else 0)"

definition parse_inside_tag :: "cstring option \<Rightarrow> pstate \<Rightarrow> parse_outcome option" where
  "parse_inside_tag uri s =
     (let p = ps_p s; ln1 = ps_ln s + newline p in
      if peek p = CHR ''>'' then Some (Parse_Step (s\<lparr>ps_p := tl p, ps_ln := ln1, ps_ret := ps_current s,
        ps_current := None, ps_previous := None, ps_state := TEXT\<rparr>))
      else if starts_with ''/>'' p then Some (Parse_Step (s\<lparr>ps_p := drop 2 p, ps_ln := ln1,
        ps_previous := ps_current s, ps_state := TEXT\<rparr>))
      else do {
        let (p1, ln2) = skip_spaces p ln1;
        let c = dropWhile can_name p1;
        cur \<leftarrow> deref (ps_heap s) (ps_current s);
        let (a, h1) = xml_new_node (ps_heap s) (Some (takeWhile can_name p1)) ATTRIBUTE_NODE;
        h2 \<leftarrow> upd h1 (Some a) (\<lambda>n. n\<lparr>n_file := uri, n_line := ln2, n_next := n_attributes cur, n_parent := ps_current s\<rparr>);
        h3 \<leftarrow> upd h2 (ps_current s) (\<lambda>n. n\<lparr>n_attributes := Some a\<rparr>);
        let (p2, ln3) = skip_spaces c ln2;
        let s1 = s\<lparr>ps_heap := h3, ps_attr := Some a, ps_c := c\<rparr>;
        if peek p2 = CHR ''=''
        then (let (p3, ln4) = skip_spaces (tl p2) ln3
              in Some (Parse_Step (s1\<lparr>ps_p := p3, ps_ln := ln4, ps_state := ATTR_VALUE\<rparr>)))
        else Some (Parse_Step (s1\<lparr>ps_p := p2, ps_ln := ln3\<rparr>))
      })"

text \<open>
  A value without a quote sets the state \<open>ERROR\<close>, which the end of the case overwrites at once: the text
  goes on behind the character at which the name of the attribute ended.
\<close>

definition parse_attr_value :: "pstate \<Rightarrow> parse_outcome option" where
  "parse_attr_value s = do {
     let q = peek (ps_p s);
     (h1, c) \<leftarrow> (if q \<in> {CHR 0x22, CHR 0x27, CHR 0x60}
       then do {
         let v = takeWhile (\<lambda>d. d \<noteq> q) (tl (ps_p s));
         let c = dropWhile (\<lambda>d. d \<noteq> q) (tl (ps_p s));
         if c = [] then None
         else do {
           h1 \<leftarrow> upd (ps_heap s) (ps_attr s) (\<lambda>n. n\<lparr>n_content := Some (make_unescaped_string v)\<rparr>);
           Some (h1, c)
         }
       }
       else Some (ps_heap s, ps_c s));
     if c = [] then None
     else (let (p1, ln1) = skip_spaces (tl c) (ps_ln s)
           in Some (Parse_Step (s\<lparr>ps_heap := h1, ps_c := c, ps_p := p1, ps_ln := ln1, ps_state := INSIDE_TAG\<rparr>)))
   }"

definition parse_text_node :: "cstring option \<Rightarrow> cstring \<Rightarrow> u32 \<Rightarrow> nat \<Rightarrow> pstate \<Rightarrow> pstate option" where
  "parse_text_node uri content flags lno s = do {
     let (a, h1) = xml_new_node (ps_heap s) None TEXT_NODE;
     h2 \<leftarrow> upd h1 (Some a) (\<lambda>n. n\<lparr>n_content := Some content, n_flags := flags\<rparr>);
     h3 \<leftarrow> link_node a uri lno (ps_previous s) (ps_ret s) h2;
     Some (s\<lparr>ps_heap := h3, ps_current := Some a, ps_previous := Some a\<rparr>)
   }"

definition parse_cdata :: "cstring option \<Rightarrow> pstate \<Rightarrow> parse_outcome option" where
  "parse_cdata uri s =
     (let (t, c) = upto_seq '']]>'' (ps_p s); lno = ps_ln s + length (filter (\<lambda>d. d = CHR 0x0A) t) in
      if t = [] then Some (Parse_Step (s\<lparr>ps_c := c, ps_ln := lno, ps_state := TEXT\<rparr>))
      else if c = [] then None
      else do {
        s1 \<leftarrow> parse_text_node uri t 2 lno s;
        Some (Parse_Step (s1\<lparr>ps_c := c, ps_p := drop 3 c, ps_ln := lno, ps_state := TEXT\<rparr>))
      })"

definition parse_text :: "cstring option \<Rightarrow> pstate \<Rightarrow> parse_outcome option" where
  "parse_text uri s =
     (let t = takeWhile (\<lambda>d. d \<noteq> CHR ''<'') (ps_p s); c = dropWhile (\<lambda>d. d \<noteq> CHR ''<'') (ps_p s);
          lno = ps_ln s + length (filter (\<lambda>d. d = CHR 0x0A) t) in
      if t = [] then Some (Parse_Step (s\<lparr>ps_c := c, ps_ln := lno, ps_state := INIT\<rparr>))
      else do {
        s1 \<leftarrow> parse_text_node uri (make_unescaped_string t) 0 lno s;
        Some (Parse_Step (s1\<lparr>ps_c := c, ps_p := c, ps_ln := lno, ps_state := INIT\<rparr>))
      })"

definition parse_comment :: "pstate \<Rightarrow> parse_outcome" where
  "parse_comment s =
     (let p = ps_p s; lno = ps_ln s + newline p in
      if starts_with ''-->'' p
      then Parse_Step (s\<lparr>ps_p := drop 3 p, ps_ln := lno, ps_depth := ps_depth s - 1,
        ps_state := (if ps_depth s - 1 = 0 then TEXT else COMMENT)\<rparr>)
      else Parse_Step (s\<lparr>ps_p := tl p, ps_ln := lno\<rparr>))"

definition parse_step :: "cstring option \<Rightarrow> pstate \<Rightarrow> parse_outcome option" where
  "parse_step uri s =
     (case ps_state s of
        INIT \<Rightarrow> Some (Parse_Step (s\<lparr>ps_p := tl (ps_p s), ps_ln := ps_ln s + newline (ps_p s),
          ps_state := (if peek (ps_p s) = CHR ''<'' then OPEN else INIT)\<rparr>))
      | XMLDECL \<Rightarrow> map_option (\<lambda>q. Parse_Step (s\<lparr>ps_p := q, ps_state := INIT\<rparr>)) (skip_past ''?>'' (ps_p s))
      | COMMENT \<Rightarrow> Some (parse_comment s)
      | OPEN \<Rightarrow> parse_open uri s
      | CLOSE \<Rightarrow> parse_close s
      | INSIDE_TAG \<Rightarrow> parse_inside_tag uri s
      | CDATA \<Rightarrow> parse_cdata uri s
      | DOCTYPE \<Rightarrow> map_option (\<lambda>q. Parse_Step (s\<lparr>ps_p := q, ps_state := TEXT\<rparr>)) (skip_past '']>'' (ps_p s))
      | TEXT \<Rightarrow> parse_text uri s
      | ATTR_VALUE \<Rightarrow> parse_attr_value s
      | BODY \<Rightarrow> Some (Parse_Step s)
      | ERROR \<Rightarrow> Some (Parse_Step s))"

fun parse_loop :: "nat \<Rightarrow> cstring option \<Rightarrow> pstate \<Rightarrow> (ref option \<times> heap) option" where
  "parse_loop 0 uri s = None"
| "parse_loop (Suc k) uri s =
     (if ps_p s = [] \<or> ps_state s = ERROR
      then Some (if ps_state s = ERROR then None else ps_ret s, ps_heap s)
      else (case parse_step uri s of
          None \<Rightarrow> None
        | Some Parse_Null \<Rightarrow> Some (None, ps_heap s)
        | Some (Parse_Step t) \<Rightarrow> parse_loop k uri t))"

definition do_parse :: "nat \<Rightarrow> cstring \<Rightarrow> cstring option \<Rightarrow> heap \<Rightarrow> (ref option \<times> heap) option" where
  "do_parse k document uri h = do {
     let (ret, h1) = xml_new_node h (Some xsl_s_root) EMPTY_NODE;
     h2 \<leftarrow> upd h1 (Some ret) (\<lambda>n. n\<lparr>n_file := uri\<rparr>);
     parse_loop k uri \<lparr>ps_heap = h2, ps_ret = Some ret, ps_current = None, ps_attr = None, ps_previous = None,
       ps_p = document, ps_c = [], ps_depth = 0, ps_ln = 0, ps_state = INIT\<rparr>
   }"

text \<open>The positions of the nodes that are not text, among their siblings from 1.\<close>

fun renumber_children :: "nat \<Rightarrow> u32 \<Rightarrow> heap \<Rightarrow> ref option \<Rightarrow> heap option" where
  "renumber_children k pos h None = Some h"
| "renumber_children 0 pos h (Some a) = None"
| "renumber_children (Suc k) pos h (Some a) = do {
     n \<leftarrow> deref h (Some a);
     if n_type n = TEXT_NODE then renumber_children k pos h (n_next n)
     else do {
       h1 \<leftarrow> upd h (Some a) (\<lambda>m. m\<lparr>n_position := pos\<rparr>);
       h2 \<leftarrow> renumber_children k 1 h1 (n_children n);
       m \<leftarrow> deref h2 (Some a);
       renumber_children k (pos + 1) h2 (n_next m)
     }
   }"

definition xml_parse_string :: "nat \<Rightarrow> cstring option \<Rightarrow> heap \<Rightarrow> (ref option \<times> heap) option" where
  "xml_parse_string k string h =
     (case string of
        None \<Rightarrow> Some (None, h)
      | Some s \<Rightarrow>
          (if s = [] then Some (None, h)
           else do {
             (ret, h1) \<leftarrow> do_parse k s (Some ''(string)'') h;
             (case ret of
                None \<Rightarrow> Some (None, h1)
              | Some _ \<Rightarrow> do {
                  h2 \<leftarrow> renumber_children (length h1) 1 h1 ret;
                  Some (ret, h2)
                })
           }))"

text \<open>
  The file system is a parameter: the contents of the files that can be read. When a text does
  not parse and the caller has an allocator, the NULL pointer in \<open>allocator\<close> is released, a crash.
\<close>

definition xml_parse_file :: "nat \<Rightarrow> (cstring \<Rightarrow> cstring option) \<Rightarrow> bool \<Rightarrow> cstring option \<Rightarrow> heap \<Rightarrow>
    (ref option \<times> heap) option" where
  "xml_parse_file k files has_allocator file h =
     (case file of
        None \<Rightarrow> Some (None, h)
      | Some f \<Rightarrow>
          (case files f of
             None \<Rightarrow> Some (None, h)
           | Some bytes \<Rightarrow>
               (if bytes = [] then Some (None, h)
                else do {
                  (ret, h1) \<leftarrow> do_parse k (cstr_of bytes) file h;
                  (case ret of
                     None \<Rightarrow> (if has_allocator then None else Some (None, h1))
                   | Some _ \<Rightarrow> do {
                       h2 \<leftarrow> renumber_children (length h1) 1 h1 ret;
                       Some (ret, h2)
                     })
                })))"

end
