(* ===== verification/Tx_Output.thy ===== *)
theory Tx_Output
  imports Tx_Select
begin

text \<open>
  output.c: the serialisation of a document. The buffer \<open>rtext\<close> is the bytes appended to it;
  \<open>rawout\<close>, the counter of the context that suspends escaping, is threaded through as the code
  does. A recursion deeper than its fuel, or a dangling pointer, is \<open>None\<close>.
\<close>

subsection \<open>Escaping\<close>

text \<open>An ampersand stays when a number sign follows it.\<close>

fun add_quoted_str :: "cstring \<Rightarrow> cstring \<Rightarrow> cstring" where
  "add_quoted_str rtext [] = rtext"
| "add_quoted_str rtext (c # s) =
     add_quoted_str (rtext @
       (if c = CHR ''<'' then ''&lt;''
        else if c = CHR ''>'' then ''&gt;''
        else if c = CHR ''&'' \<and> peek s \<noteq> CHR ''#'' then ''&amp;''
        else [c])) s"

fun quote_attribute :: "cstring \<Rightarrow> cstring \<Rightarrow> cstring" where
  "quote_attribute rtext [] = rtext"
| "quote_attribute rtext (c # s) =
     quote_attribute (rtext @
       (if c = CHR 0x22 then ''&quot;''
        else if c = CHR ''<'' then ''&lt;''
        else if c = CHR ''>'' then ''&gt;''
        else if c = CHR ''&'' \<and> peek s \<noteq> CHR ''#'' then ''&amp;''
        else [c])) s"

definition add_quoted_attribute_value :: "cstring \<Rightarrow> cstring option \<Rightarrow> cstring" where
  "add_quoted_attribute_value rtext v = (case v of None \<Rightarrow> rtext | Some s \<Rightarrow> quote_attribute rtext s)"

text \<open>\<open>xmls_append\<close> on the bytes: a NULL string adds nothing.\<close>

definition append_name :: "cstring \<Rightarrow> cstring option \<Rightarrow> cstring" where
  "append_name rtext v = (case v of None \<Rightarrow> rtext | Some s \<Rightarrow> rtext @ s)"

subsection \<open>Nodes\<close>

datatype output_mode = MODE_NONE | MODE_XML | MODE_HTML | MODE_TEXT

definition is_html_empty_tag :: "cstring option \<Rightarrow> bool" where
  "is_html_empty_tag name \<longleftrightarrow>
     name \<in> {Some ''img'', Some ''meta'', Some ''hr'', Some ''br'', Some ''link'', Some ''input''}"

fun output_attributes :: "nat \<Rightarrow> heap \<Rightarrow> cstring \<Rightarrow> ref option \<Rightarrow> cstring option" where
  "output_attributes k h rtext None = Some rtext"
| "output_attributes 0 h rtext (Some a) = None"
| "output_attributes (Suc k) h rtext (Some a) = do {
     n \<leftarrow> deref h (Some a);
     output_attributes k h
       (add_quoted_attribute_value (append_name (rtext @ '' '') (n_name n) @ [CHR ''='', CHR 0x22]) (n_content n) @ [CHR 0x22])
       (n_next n)
   }"

definition output_text :: "xmlnode \<Rightarrow> cstring \<Rightarrow> nat \<Rightarrow> cstring" where
  "output_text n rtext raw =
     (let r1 = (if n_flags n AND 1 \<noteq> 0 then rtext @ ''<![CDATA['' else rtext);
          r2 = (if n_flags n AND 2 \<noteq> 0 \<or> raw \<noteq> 0 then append_name r1 (n_content n)
                else (case n_content n of None \<Rightarrow> r1 | Some s \<Rightarrow> add_quoted_str r1 s))
      in if n_flags n AND 1 \<noteq> 0 then r2 @ '']]>'' else r2)"

text \<open>
  An element: the start tag, the children (\<open>rec\<close> is the recursion into them) and the end tag. The counter
  goes up on the way into raw output and down on the way out.
\<close>

definition output_element :: "output_mode \<Rightarrow> heap \<Rightarrow> (ref option \<Rightarrow> cstring \<Rightarrow> nat \<Rightarrow> (cstring \<times> nat) option) \<Rightarrow>
    xmlnode \<Rightarrow> cstring \<Rightarrow> nat \<Rightarrow> (cstring \<times> nat) option" where
  "output_element mode h rec n rtext raw = do {
     r1 \<leftarrow> output_attributes (length h) h (append_name (rtext @ ''<'') (n_name n)) (n_attributes n);
     if mode = MODE_HTML \<and> is_html_empty_tag (n_name n) then Some (r1 @ ''>'', raw)
     else if n_children n \<noteq> None then do {
       let raw1 = (if raw \<noteq> 0 \<or> mode = MODE_HTML \<and> n_name n = Some ''script'' then raw + 1 else raw);
       (r2, raw2) \<leftarrow> rec (n_children n) (r1 @ ''>'') raw1;
       Some (append_name (r2 @ ''</'') (n_name n) @ ''>'', if raw2 \<noteq> 0 then raw2 - 1 else raw2)
     }
     else Some (if mode = MODE_XML then r1 @ ''/>'' else append_name (r1 @ ''></'') (n_name n) @ ''>'', raw)
   }"

definition output_pi :: "xmlnode \<Rightarrow> cstring \<Rightarrow> cstring" where
  "output_pi n rtext = append_name (rtext @ ''<?'') (n_name n) @
     (case n_content n of None \<Rightarrow> [] | Some c \<Rightarrow> '' '' @ c) @ ''>''"

text \<open>The loop over a list of nodes.\<close>

fun output_node_rec :: "nat \<Rightarrow> output_mode \<Rightarrow> heap \<Rightarrow> ref option \<Rightarrow> cstring \<Rightarrow> nat \<Rightarrow> (cstring \<times> nat) option" where
  "output_node_rec 0 mode h p rtext raw = (if p = None then Some (rtext, raw) else None)"
| "output_node_rec (Suc k) mode h p rtext raw =
     (if p = None then Some (rtext, raw)
      else do {
        n \<leftarrow> deref h p;
        (r, raw1) \<leftarrow>
          (if n_type n = ELEMENT_NODE then output_element mode h (output_node_rec k mode h) n rtext raw
           else if n_type n = COMMENT_NODE then Some (append_name (rtext @ ''<!--'') (n_content n) @ ''-->'', raw)
           else if n_type n = PI_NODE then Some (output_pi n rtext, raw)
           else if n_type n = TEXT_NODE then Some (output_text n rtext raw, raw)
           else output_node_rec k mode h (n_children n) rtext raw);
        output_node_rec k mode h (n_next n) r raw1
      })"

subsection \<open>transform.c: the first node that is not a group\<close>

fun find_first_node :: "nat \<Rightarrow> heap \<Rightarrow> ref option \<Rightarrow> ref option option" where
  "find_first_node k h None = Some None"
| "find_first_node 0 h (Some a) = None"
| "find_first_node (Suc k) h (Some a) = do {
     n \<leftarrow> deref h (Some a);
     if n_type n \<noteq> EMPTY_NODE then Some (Some a)
     else do {
       t \<leftarrow> find_first_node k h (n_children n);
       if t \<noteq> None then Some t else find_first_node k h (n_next n)
     }
   }"

subsection \<open>Whole documents\<close>

record out_context =
  o_mode :: output_mode
  o_omit_desc :: bool
  o_standalone :: bool
  o_encoding :: "cstring option"
  o_doctype_public :: "cstring option"
  o_doctype_system :: "cstring option"
  o_rawout :: nat

definition xml_declaration :: "out_context \<Rightarrow> cstring" where
  "xml_declaration ctx =
     (if o_mode ctx = MODE_XML \<and> \<not> o_omit_desc ctx
      then ''<?xml version='' @ [CHR 0x22] @ ''1.0'' @ [CHR 0x22] @
        (if o_encoding ctx \<noteq> None then '' encoding='' @ [CHR 0x22] @ ''UTF-8'' @ [CHR 0x22] else []) @
        (if o_standalone ctx then '' standalone='' @ [CHR 0x22] @ ''yes'' @ [CHR 0x22] else []) @
        ''?>'' @ [CHR 0x0A]
      else [])"

definition XMLOutput :: "nat \<Rightarrow> out_context \<Rightarrow> heap \<Rightarrow> ref option \<Rightarrow> cstring option" where
  "XMLOutput k ctx h tree = do {
     doctype \<leftarrow> (case (o_doctype_public ctx, o_doctype_system ctx) of
         (Some pub, Some sys) \<Rightarrow> do {
           t \<leftarrow> find_first_node k h tree;
           Some (if t = None then []
             else ''<!DOCTYPE html PUBLIC '' @ [CHR 0x22] @ pub @ [CHR 0x22] @ '' '' @ [CHR 0x22] @ sys @ [CHR 0x22] @ ''>'' @ [CHR 0x0A])
         }
       | _ \<Rightarrow> Some []);
     (r, raw) \<leftarrow> output_node_rec k (o_mode ctx) h tree (xml_declaration ctx @ doctype) (o_rawout ctx);
     Some r
   }"

end
