(* ===== verification/Tx_XmlTree.thy ===== *)
theory Tx_XmlTree
  imports Tx_Parse Tx_Output
begin

text \<open>
  Documents as trees of elements and texts (\<open>doc_rep\<close>); the text that the serialiser prints for a tree
  (\<open>show_xml\<close>); unescaping inverts escaping; the trees whose text can be parsed back (\<open>wf_xml\<close>).
\<close>

subsection \<open>Documents as trees\<close>

datatype xml = X_elem cstring "(cstring \<times> cstring) list" "xml list" | X_text cstring

fun attrs_rep :: "nat \<Rightarrow> heap \<Rightarrow> ref option \<Rightarrow> (cstring \<times> cstring) list \<Rightarrow> bool" where
  "attrs_rep lo h p [] \<longleftrightarrow> p = None"
| "attrs_rep lo h p ((n, v) # as) \<longleftrightarrow> (\<exists>a. p = Some a \<and> lo \<le> a \<and> a < length h \<and> n_name (h ! a) = Some n \<and>
     n_content (h ! a) = Some v \<and> attrs_rep lo h (n_next (h ! a)) as)"

text \<open>The list of nodes at \<open>p\<close> is the forest; its nodes lie at \<open>lo\<close> or above.\<close>

fun doc_rep :: "nat \<Rightarrow> heap \<Rightarrow> ref option \<Rightarrow> xml list \<Rightarrow> bool" where
  "doc_rep lo h p [] \<longleftrightarrow> p = None"
| "doc_rep lo h p (X_text s # ts) \<longleftrightarrow> (\<exists>a. p = Some a \<and> lo \<le> a \<and> a < length h \<and> n_type (h ! a) = TEXT_NODE \<and>
     n_flags (h ! a) = 0 \<and> n_content (h ! a) = Some s \<and> doc_rep lo h (n_next (h ! a)) ts)"
| "doc_rep lo h p (X_elem n as ks # ts) \<longleftrightarrow> (\<exists>a. p = Some a \<and> lo \<le> a \<and> a < length h \<and> n_type (h ! a) = ELEMENT_NODE \<and>
     n_name (h ! a) = Some n \<and> attrs_rep lo h (n_attributes (h ! a)) as \<and> doc_rep lo h (n_children (h ! a)) ks \<and>
     doc_rep lo h (n_next (h ! a)) ts)"

fun xml_depth :: "xml list \<Rightarrow> nat" where
  "xml_depth [] = 0"
| "xml_depth (X_text s # ts) = Suc (xml_depth ts)"
| "xml_depth (X_elem n as ks # ts) = Suc (max (xml_depth ks) (xml_depth ts))"

text \<open>The document as the parser builds it: attributes in reverse order.\<close>

fun rev_attrs :: "xml list \<Rightarrow> xml list" where
  "rev_attrs [] = []"
| "rev_attrs (X_text s # ts) = X_text s # rev_attrs ts"
| "rev_attrs (X_elem n as ks # ts) = X_elem n (rev as) (rev_attrs ks) # rev_attrs ts"

lemma rev_attrs_Nil [simp]: "rev_attrs ts = [] \<longleftrightarrow> ts = []"
  by (cases ts rule: rev_attrs.cases) auto

lemma rev_attrs_twice: "rev_attrs (rev_attrs ts) = ts"
  by (induction ts rule: rev_attrs.induct) auto

lemma attrs_rep_frame:
  assumes "lo' \<le> lo" "length h \<le> length h'" "\<And>i. lo \<le> i \<Longrightarrow> i < length h \<Longrightarrow> h' ! i = h ! i"
  shows "attrs_rep lo h p as \<Longrightarrow> attrs_rep lo' h' p as"
  using assms by (induction as arbitrary: p) auto

lemma doc_rep_frame:
  assumes "lo' \<le> lo" "length h \<le> length h'" "\<And>i. lo \<le> i \<Longrightarrow> i < length h \<Longrightarrow> h' ! i = h ! i"
  shows "doc_rep lo h p ts \<Longrightarrow> doc_rep lo' h' p ts"
  using assms attrs_rep_frame[OF assms]
  by (induction ts arbitrary: p rule: rev_attrs.induct) auto

lemma doc_rep_None: "doc_rep lo h None ts \<longleftrightarrow> ts = []"
  by (cases ts rule: rev_attrs.cases) auto

subsection \<open>The serialiser prints the tree\<close>

definition quote_text :: "cstring \<Rightarrow> cstring" where
  "quote_text s = add_quoted_str [] s"

definition quote_value :: "cstring \<Rightarrow> cstring" where
  "quote_value s = quote_attribute [] s"

lemma add_quoted_str_append: "add_quoted_str r s = r @ quote_text s"
proof -
  have "add_quoted_str (q @ r) s = q @ add_quoted_str r s" for q r
    by (induction r s rule: add_quoted_str.induct) auto
  from this[of r "[]"] show ?thesis by (simp add: quote_text_def)
qed

lemma quote_attribute_append: "quote_attribute r s = r @ quote_value s"
proof -
  have "quote_attribute (q @ r) s = q @ quote_attribute r s" for q r
    by (induction r s rule: quote_attribute.induct) auto
  from this[of r "[]"] show ?thesis by (simp add: quote_value_def)
qed

lemma quote_text_simps [simp]:
  "quote_text [] = []"
  "quote_text (c # s) = (if c = CHR ''<'' then ''&lt;'' else if c = CHR ''>'' then ''&gt;''
     else if c = CHR ''&'' \<and> peek s \<noteq> CHR ''#'' then ''&amp;'' else [c]) @ quote_text s" (is "_ = ?e c s @ _")
proof -
  show "quote_text [] = []" by (simp only: quote_text_def add_quoted_str.simps)
  have "quote_text (c # s) = add_quoted_str ([] @ (?e c s)) s" by (simp only: quote_text_def add_quoted_str.simps)
  then show "quote_text (c # s) = ?e c s @ quote_text s" by (simp only: add_quoted_str_append append_Nil)
qed

lemma quote_value_simps [simp]:
  "quote_value [] = []"
  "quote_value (c # s) = (if c = CHR 0x22 then ''&quot;'' else if c = CHR ''<'' then ''&lt;''
     else if c = CHR ''>'' then ''&gt;'' else if c = CHR ''&'' \<and> peek s \<noteq> CHR ''#'' then ''&amp;'' else [c]) @ quote_value s" (is "_ = ?e c s @ _")
proof -
  show "quote_value [] = []" by (simp only: quote_value_def quote_attribute.simps)
  have "quote_value (c # s) = quote_attribute ([] @ (?e c s)) s" by (simp only: quote_value_def quote_attribute.simps)
  then show "quote_value (c # s) = ?e c s @ quote_value s" by (simp only: quote_attribute_append append_Nil)
qed

definition show_attr :: "cstring \<times> cstring \<Rightarrow> cstring" where
  "show_attr nv = '' '' @ fst nv @ [CHR ''='', CHR 0x22] @ quote_value (snd nv) @ [CHR 0x22]"

abbreviation show_attrs :: "(cstring \<times> cstring) list \<Rightarrow> cstring" where
  "show_attrs as \<equiv> concat (map show_attr as)"

fun show_xml :: "xml list \<Rightarrow> cstring" where
  "show_xml [] = []"
| "show_xml (X_text s # ts) = quote_text s @ show_xml ts"
| "show_xml (X_elem n as ks # ts) = ''<'' @ n @ show_attrs as @
     (if ks = [] then ''/>'' else ''>'' @ show_xml ks @ ''</'' @ n @ ''>'') @ show_xml ts"

lemma attrs_rep_linked: "attrs_rep lo h p as \<Longrightarrow> \<exists>xs. linked n_next h p xs \<and> length xs = length as"
proof (induction lo h p as rule: attrs_rep.induct)
  case (2 lo h p n v as)
  then obtain a where a: "p = Some a" "a < length h" "attrs_rep lo h (n_next (h ! a)) as" by auto
  from 2(1)[OF a(3)] obtain xs where "linked n_next h (n_next (h ! a)) xs" "length xs = length as" by blast
  with a show ?case by (intro exI[of _ "a # xs"]) simp
qed auto

lemma output_attributes_rep:
  "attrs_rep lo h p as \<Longrightarrow> length as \<le> k \<Longrightarrow> output_attributes k h r p = Some (r @ show_attrs as)"
proof (induction lo h p as arbitrary: k r rule: attrs_rep.induct)
  case (2 lo h p n v as)
  then obtain k' where "k = Suc k'" by (cases k) auto
  with 2 show ?case by (auto simp: append_name_def add_quoted_attribute_value_def quote_attribute_append show_attr_def)
qed simp

lemma output_node_rec_rep:
  "doc_rep lo h p ts \<Longrightarrow> xml_depth ts \<le> k \<Longrightarrow> output_node_rec k MODE_XML h p r 0 = Some (r @ show_xml ts, 0)"
proof (induction lo h p ts arbitrary: k r rule: doc_rep.induct)
  case (1 lo h p)
  then show ?case by (cases k) auto
next
  case (2 lo h p s ts)
  then obtain k' where "k = Suc k'" by (cases k) auto
  with 2 show ?case by (auto simp: output_text_def add_quoted_str_append)
next
  case (3 lo h p n as ks ts)
  then obtain k' where k: "k = Suc k'" by (cases k) auto
  from 3(3) obtain a where a: "p = Some a" "a < length h" "n_type (h ! a) = ELEMENT_NODE" "n_name (h ! a) = Some n"
    "attrs_rep lo h (n_attributes (h ! a)) as" "doc_rep lo h (n_children (h ! a)) ks" "doc_rep lo h (n_next (h ! a)) ts" by auto
  from attrs_rep_linked[OF a(5)] linked_length have "length as \<le> length h" by metis
  note at = output_attributes_rep[OF a(5) this]
  have "n_children (h ! a) \<noteq> None \<longleftrightarrow> ks \<noteq> []"
    using a(6) doc_rep_None by (cases ks) (auto, metis option.exhaust neq_Nil_conv)
  with 3 a k at show ?case by (auto simp: output_element_def append_name_def)
qed

subsection \<open>Unescaping inverts escaping\<close>

text \<open>The text that can be printed: no NUL, and no ampersand before a number sign.\<close>

fun printable_text :: "cstring \<Rightarrow> bool" where
  "printable_text [] = True"
| "printable_text (c # s) \<longleftrightarrow> c \<noteq> NUL \<and> \<not> (c = CHR ''&'' \<and> peek s = CHR ''#'') \<and> printable_text s"

lemma entity_bytes [simp]:
  "utf8_bytes 0x26 = ''&''" "utf8_bytes 0x22 = [CHR 0x22]" "utf8_bytes 0x3C = ''<''" "utf8_bytes 0x3E = ''>''"
  by (simp_all add: utf8_bytes_def byte_of_def) (code_simp)+

lemma decode_entities [simp]:
  "decode_entity (CHR ''a'' # CHR ''m'' # CHR ''p'' # CHR '';'' # r) = (0x26, r)"
  "decode_entity (CHR ''q'' # CHR ''u'' # CHR ''o'' # CHR ''t'' # CHR '';'' # r) = (0x22, r)"
  "decode_entity (CHR ''l'' # CHR ''t'' # CHR '';'' # r) = (0x3C, r)"
  "decode_entity (CHR ''g'' # CHR ''t'' # CHR '';'' # r) = (0x3E, r)"
  by (simp_all add: decode_entity_def)

lemma unescape_quote_text: "printable_text s \<Longrightarrow> unescape_bytes (quote_text s) = s"
  by (induction s) auto

lemma unescape_quote_value: "printable_text s \<Longrightarrow> unescape_bytes (quote_value s) = s"
  by (induction s) auto

lemma printable_cstr: "printable_text s \<Longrightarrow> cstr_of s = s"
  by (induction s) (auto simp: cstr_of_def)

lemma make_unescaped_quote [simp]:
  "printable_text s \<Longrightarrow> make_unescaped_string (quote_text s) = s"
  "printable_text s \<Longrightarrow> make_unescaped_string (quote_value s) = s"
  by (simp_all add: make_unescaped_string_def unescape_quote_text unescape_quote_value printable_cstr)

lemma quote_text_no_lt: "CHR ''<'' \<notin> set (quote_text s)"
  by (induction s) auto

lemma quote_value_no_quote: "CHR 0x22 \<notin> set (quote_value s)"
  by (induction s) auto

lemma quote_text_Nil [simp]: "quote_text s = [] \<longleftrightarrow> s = []"
  by (cases s) auto

lemma span_stop: "c \<notin> set s \<Longrightarrow> takeWhile (\<lambda>d. d \<noteq> c) (s @ c # r) = s \<and> dropWhile (\<lambda>d. d \<noteq> c) (s @ c # r) = c # r"
  by (induction s) auto

subsection \<open>Well-formed documents\<close>

definition xname_ok :: "cstring \<Rightarrow> bool" where
  "xname_ok n \<longleftrightarrow> n \<noteq> [] \<and> list_all can_name n"

fun starts_text :: "xml list \<Rightarrow> bool" where
  "starts_text (X_text s # ts) = True"
| "starts_text ts = False"

fun wf_xml :: "xml list \<Rightarrow> bool" where
  "wf_xml [] = True"
| "wf_xml (X_text s # ts) \<longleftrightarrow> s \<noteq> [] \<and> printable_text s \<and> \<not> starts_text ts \<and> wf_xml ts"
| "wf_xml (X_elem n as ks # ts) \<longleftrightarrow> xname_ok n \<and> list_all (\<lambda>(a, v). xname_ok a \<and> printable_text v) as \<and> wf_xml ks \<and> wf_xml ts"

lemma can_name_props:
  assumes "can_name c"
  shows "\<not> x_is_ws c" "c \<notin> {CHR ''<'', CHR ''>'', CHR ''/'', CHR ''='', CHR ''!'', CHR ''?'', CHR 0x0A, NUL, CHR '' ''}"
  using assms by (auto simp: can_name_def x_is_ws_def char_between_def is_digit_char_def)

lemma xname_ok_cases:
  assumes "xname_ok n"
  obtains c r where "n = c # r" "can_name c" "list_all can_name r"
  using assms by (cases n) (auto simp: xname_ok_def)

lemma span_name:
  assumes "list_all can_name n" "\<not> can_name (peek q)"
  shows "takeWhile can_name (n @ q) = n \<and> dropWhile can_name (n @ q) = q"
  using assms by (induction n) (cases q; auto)+

lemma skip_spaces_stop [simp]: "\<not> x_is_ws (peek q) \<Longrightarrow> skip_spaces q l = (q, l)"
  by (cases q) (auto simp: skip_spaces_def)

lemma name_stop [simp]:
  "\<not> can_name CHR ''>''" "\<not> can_name CHR ''/''" "\<not> can_name CHR ''=''" "\<not> can_name CHR '' ''" "\<not> can_name CHR ''<''"
  by (auto simp: can_name_def char_between_def is_digit_char_def)

end
