(* ===== verification/Tx_XmlSteps.thy ===== *)
theory Tx_XmlSteps
  imports Tx_XmlTree
begin

text \<open>
  Runs of the parser as sequences of steps, and the shape of the nodes it makes: a text has neither a name nor
  children, and it knows the node it is in.
\<close>

subsection \<open>Runs of the state machine\<close>

text \<open>Steps inside the document: there is an open node all the time.\<close>

inductive psteps :: "cstring option \<Rightarrow> nat \<Rightarrow> pstate \<Rightarrow> pstate \<Rightarrow> bool" for uri where
  refl: "psteps uri 0 s s"
| step: "ps_p s \<noteq> [] \<Longrightarrow> ps_state s \<noteq> ERROR \<Longrightarrow> ps_ret s \<noteq> None \<Longrightarrow> parse_step uri s = Some (Parse_Step t) \<Longrightarrow> psteps uri n t u \<Longrightarrow>
    psteps uri (Suc n) s u"

lemma psteps_loop: "psteps uri n s t \<Longrightarrow> parse_loop (n + k) uri s = parse_loop k uri t"
  by (induction rule: psteps.induct) auto

lemma psteps_trans: "psteps uri n s t \<Longrightarrow> psteps uri m t u \<Longrightarrow> psteps uri (n + m) s u"
  by (induction rule: psteps.induct) (auto intro: psteps.step)

lemma psteps_one:
  "ps_p s \<noteq> [] \<Longrightarrow> ps_state s \<noteq> ERROR \<Longrightarrow> ps_ret s \<noteq> None \<Longrightarrow> parse_step uri s = Some (Parse_Step t) \<Longrightarrow>
    psteps uri 1 s t"
  using psteps.step[OF _ _ _ _ psteps.refl] by simp

subsection \<open>The nodes that the parser makes\<close>

lemma set_node_append [simp]:
  "b < length h \<Longrightarrow> set_node (h @ xs) b f = set_node h b f @ xs"
  "set_node (h @ [x]) (length h) f = h @ [f x]"
  by (simp_all add: set_node_def list_update_append nth_append)

definition elem_ptr :: "nat \<Rightarrow> heap \<Rightarrow> ref option \<Rightarrow> bool" where
  "elem_ptr lo h p \<longleftrightarrow> (\<forall>a. p = Some a \<longrightarrow> lo \<le> a \<and> a < length h \<and> n_type (h ! a) \<noteq> TEXT_NODE)"

definition node_ok :: "nat \<Rightarrow> heap \<Rightarrow> xmlnode \<Rightarrow> bool" where
  "node_ok lo h n \<longleftrightarrow> elem_ptr lo h (n_parent n) \<and>
     (n_type n = TEXT_NODE \<longrightarrow> n_name n = None \<and> n_children n = None \<and> n_parent n \<noteq> None)"

definition nodes_ok :: "nat \<Rightarrow> heap \<Rightarrow> bool" where
  "nodes_ok lo h \<longleftrightarrow> (\<forall>i. lo \<le> i \<longrightarrow> i < length h \<longrightarrow> node_ok lo h (h ! i))"

lemma elem_ptr_mono: "elem_ptr lo h p \<Longrightarrow> length h \<le> length h' \<Longrightarrow> (\<And>i. i < length h \<Longrightarrow> n_type (h' ! i) = n_type (h ! i)) \<Longrightarrow> elem_ptr lo h' p"
  by (fastforce simp: elem_ptr_def)

lemma n_type_set: "n_type (f (h ! a)) = n_type (h ! a) \<Longrightarrow> n_type (set_node h a f ! i) = n_type (h ! i)"
  by (cases "a < length h") (auto simp: set_node_def nth_list_update list_update_beyond)

lemma elem_ptr_set: "n_type (f (h ! a)) = n_type (h ! a) \<Longrightarrow> elem_ptr lo h p \<Longrightarrow> elem_ptr lo (set_node h a f) p"
  by (erule elem_ptr_mono) (simp_all add: n_type_set)

lemma nodes_ok_set:
  assumes "nodes_ok lo h" "n_type (f (h ! a)) = n_type (h ! a)" "n_name (f (h ! a)) = n_name (h ! a)"
    "n_children (f (h ! a)) = n_children (h ! a) \<or> n_type (h ! a) \<noteq> TEXT_NODE"
    "n_parent (f (h ! a)) = n_parent (h ! a)"
  shows "nodes_ok lo (set_node h a f)"
proof -
  note ep = elem_ptr_set[where f = f, OF assms(2)]
  show ?thesis
    unfolding nodes_ok_def
  proof (intro allI impI)
    fix i assume i: "lo \<le> i" "i < length (set_node h a f)"
    with assms(1) have "node_ok lo h (h ! i)" by (simp add: nodes_ok_def)
    then show "node_ok lo (set_node h a f) (set_node h a f ! i)"
      using ep assms(2-5) i(2) by (cases "i = a") (auto simp: node_ok_def set_node_def)
  qed
qed

lemma nodes_ok_snoc:
  assumes "nodes_ok lo h" "node_ok lo h x"
  shows "nodes_ok lo (h @ [x])"
proof -
  have ep: "elem_ptr lo h p \<Longrightarrow> elem_ptr lo (h @ [x]) p" for p by (erule elem_ptr_mono) (auto simp: nth_append)
  then have "node_ok lo h n \<Longrightarrow> node_ok lo (h @ [x]) n" for n by (simp add: node_ok_def)
  then show ?thesis using assms by (auto simp: nodes_ok_def nth_append not_less less_Suc_eq)
qed

lemma link_node_shape:
  assumes "link_node (length h) uri l previous (Some r) (h @ [x]) = Some h3" "r < length h"
  shows "\<exists>g y. h3 = g @ [y] \<and> length g = length h \<and> y = x\<lparr>n_prev := previous, n_file := uri, n_line := l, n_parent := Some r, n_next := None\<rparr> \<and>
    (\<exists>b. g = set_node h b (\<lambda>n. n\<lparr>n_next := Some (length h)\<rparr>) \<or> g = set_node h r (\<lambda>n. n\<lparr>n_children := Some (length h)\<rparr>))"
proof (cases previous)
  case None
  with assms show ?thesis by (auto simp: link_node_def set_node_def list_update_append nth_append)
next
  case (Some b)
  show ?thesis
  proof (cases "b < length h")
    case True
    with assms Some show ?thesis by (auto simp: link_node_def set_node_def list_update_append nth_append)
  next
    case False
    with assms Some have "b = length h" by (auto simp: link_node_def upd_def split: if_splits)
    with assms Some have "h3 = h @ [x\<lparr>n_prev := previous, n_file := uri, n_line := l, n_parent := Some r, n_next := None\<rparr>]"
      by (auto simp: link_node_def set_node_def list_update_append nth_append)
    moreover have "h = set_node h b (\<lambda>n. n\<lparr>n_next := Some (length h)\<rparr>)" using False by (simp add: set_node_def list_update_beyond)
    ultimately show ?thesis by auto
  qed
qed

lemma link_node_ok:
  assumes "link_node (length h) uri l previous (Some r) (h @ [x]) = Some h3" "nodes_ok lo h" "elem_ptr lo h (Some r)"
    "n_type x = TEXT_NODE \<longrightarrow> n_name x = None \<and> n_children x = None"
  shows "nodes_ok lo h3 \<and> length h3 = Suc (length h) \<and> n_type (h3 ! length h) = n_type x \<and> (\<forall>p. elem_ptr lo h p \<longrightarrow> elem_ptr lo h3 p)"
proof -
  have r: "r < length h" "n_type (h ! r) \<noteq> TEXT_NODE" using assms(3) by (simp_all add: elem_ptr_def)
  from link_node_shape[OF assms(1) r(1)] obtain g y where g: "h3 = g @ [y]" "length g = length h"
    "y = x\<lparr>n_prev := previous, n_file := uri, n_line := l, n_parent := Some r, n_next := None\<rparr>"
    "\<exists>b. g = set_node h b (\<lambda>n. n\<lparr>n_next := Some (length h)\<rparr>) \<or> g = set_node h r (\<lambda>n. n\<lparr>n_children := Some (length h)\<rparr>)"
    by blast
  have ok: "nodes_ok lo g" "\<And>p. elem_ptr lo h p \<Longrightarrow> elem_ptr lo g p"
    using g(4) nodes_ok_set[OF assms(2)] elem_ptr_set r(2) by auto
  have "node_ok lo g y" using ok(2)[OF assms(3)] assms(4) g(3) by (simp add: node_ok_def)
  from nodes_ok_snoc[OF ok(1) this] have "nodes_ok lo h3" using g(1) by simp
  moreover have "elem_ptr lo h p \<Longrightarrow> elem_ptr lo h3 p" for p
    using elem_ptr_mono[OF ok(2), of p h3] g(1) by (auto simp: nth_append)
  ultimately show ?thesis using g(1-3) by (auto simp: nth_append)
qed

text \<open>The invariant of the parser while a node is open.\<close>

definition pstate_ok :: "nat \<Rightarrow> pstate \<Rightarrow> bool" where
  "pstate_ok lo s \<longleftrightarrow> lo \<le> length (ps_heap s) \<and> nodes_ok lo (ps_heap s) \<and> elem_ptr lo (ps_heap s) (ps_ret s) \<and>
     (ps_state s \<in> {INSIDE_TAG, ATTR_VALUE} \<longrightarrow> elem_ptr lo (ps_heap s) (ps_current s))"

lemma parse_open_ok:
  assumes "parse_open uri s = Some (Parse_Step t)" "ps_ret s = Some r" "pstate_ok lo s"
  shows "pstate_ok lo t"
proof (cases "ps_heap t = ps_heap s \<and> ps_ret t = ps_ret s \<and> ps_state t \<notin> {INSIDE_TAG, ATTR_VALUE}")
  case True
  with assms(3) show ?thesis by (auto simp: pstate_ok_def)
next
  case False
  with assms(1,2) obtain nm l h3 where
    h3: "link_node (length (ps_heap s)) uri l (ps_previous s) (Some r)
        (ps_heap s @ [null_node\<lparr>n_type := ELEMENT_NODE, n_name := nm, n_uid := Some (length (ps_heap s))\<rparr>]) = Some h3"
      "ps_heap t = h3" "ps_ret t = Some r" "ps_current t = Some (length (ps_heap s))"
    by (auto simp: parse_open_def Let_def xml_new_node_def split: if_splits prod.splits option.splits elim!: bind_eq_Some_conv[THEN iffD1, THEN exE])
  with link_node_ok[OF h3(1)] assms(2,3) show ?thesis
    by (auto simp: pstate_ok_def elem_ptr_def)
qed

lemma parse_close_ok:
  assumes "parse_close s = Some (Parse_Step t)" "ps_ret s = Some r" "pstate_ok lo s"
  shows "pstate_ok lo t"
proof -
  from assms(2,3) have "node_ok lo (ps_heap s) (ps_heap s ! r)" by (simp add: pstate_ok_def nodes_ok_def elem_ptr_def)
  moreover have "ps_heap t = ps_heap s \<and> ps_state t \<in> {TEXT, ERROR} \<and> (ps_ret t = ps_ret s \<or> ps_ret t = n_parent (ps_heap s ! r))"
  proof -
    obtain p l where p: "skip_spaces (ps_p s) (ps_ln s) = (p, l)" by fastforce
    from assms(1,2) p obtain nm where nm: "n_name (ps_heap s ! r) = Some nm" "r < length (ps_heap s)"
      by (cases "n_name (ps_heap s ! r)"; cases "r < length (ps_heap s)") (simp_all add: parse_close_def deref_def)
    show ?thesis
    proof (cases "starts_with (takeWhile can_name p) nm")
      case True
      with assms(1,2) p nm show ?thesis
        by (cases "dropWhile (\<lambda>d. d \<noteq> CHR ''>'') (dropWhile can_name p)") (auto simp: parse_close_def Let_def)
    next
      case False
      with assms(1,2) p nm show ?thesis by (auto simp: parse_close_def Let_def)
    qed
  qed
  ultimately show ?thesis using assms(3) by (auto simp: pstate_ok_def node_ok_def)
qed

lemma parse_text_node_ok:
  assumes "parse_text_node uri v fl l s = Some t" "ps_ret s = Some r" "pstate_ok lo s"
  shows "nodes_ok lo (ps_heap t) \<and> elem_ptr lo (ps_heap t) (ps_ret t) \<and> lo \<le> length (ps_heap t)"
proof -
  from assms(1,2) obtain h3 where
    h3: "link_node (length (ps_heap s)) uri l (ps_previous s) (Some r)
        (ps_heap s @ [null_node\<lparr>n_type := TEXT_NODE, n_name := None, n_uid := Some (length (ps_heap s)),
          n_content := Some v, n_flags := fl\<rparr>]) = Some h3"
      "ps_heap t = h3" "ps_ret t = Some r"
    by (auto simp: parse_text_node_def Let_def xml_new_node_def split: bind_splits)
  from link_node_ok[OF h3(1)] assms(2,3) h3(2,3) show ?thesis by (auto simp: pstate_ok_def null_node_def)
qed

lemma parse_inside_tag_ok:
  assumes "parse_inside_tag uri s = Some (Parse_Step t)" "ps_state s = INSIDE_TAG" "pstate_ok lo s"
  shows "pstate_ok lo t"
proof (cases "ps_heap t = ps_heap s")
  case True
  with assms show ?thesis
    by (auto simp: parse_inside_tag_def Let_def pstate_ok_def xml_new_node_def elem_ptr_def split: if_splits prod.splits bind_splits)
next
  case False
  let ?h = "ps_heap s"
  from False assms(1) have "deref ?h (ps_current s) \<noteq> None"
    by (auto simp: parse_inside_tag_def Let_def split: if_splits prod.splits bind_splits)
  then obtain c0 where c0: "ps_current s = Some c0" "c0 < length ?h" by (auto simp: deref_def split: option.splits if_splits)
  from False assms(1) c0 obtain x where
    c: "ps_heap t = set_node ?h c0 (\<lambda>n. n\<lparr>n_attributes := Some (length ?h)\<rparr>) @ [x]" "n_type x = ATTRIBUTE_NODE" "n_parent x = Some c0"
      "ps_ret t = ps_ret s" "ps_current t = Some c0"
    by (auto simp: parse_inside_tag_def Let_def xml_new_node_def null_node_def split: if_splits prod.splits bind_splits)
  from assms(2,3) c0(1) have cur: "elem_ptr lo ?h (Some c0)" by (simp add: pstate_ok_def)
  let ?g = "set_node ?h c0 (\<lambda>n. n\<lparr>n_attributes := Some (length ?h)\<rparr>)"
  have g: "nodes_ok lo ?g" "\<And>p. elem_ptr lo ?h p \<Longrightarrow> elem_ptr lo ?g p"
    using assms(3) by (auto simp: pstate_ok_def intro: nodes_ok_set elem_ptr_set)
  have "node_ok lo ?g x" using g(2)[OF cur] c(2,3) by (simp add: node_ok_def)
  from nodes_ok_snoc[OF g(1) this] have "nodes_ok lo (ps_heap t)" using c(1) by simp
  moreover have "elem_ptr lo ?h p \<Longrightarrow> elem_ptr lo (ps_heap t) p" for p
    using elem_ptr_mono[OF g(2), of p "ps_heap t"] c(1) by (auto simp: nth_append)
  ultimately show ?thesis using cur assms(3) c by (auto simp: pstate_ok_def)
qed

lemma parse_attr_value_ok:
  assumes "parse_attr_value s = Some (Parse_Step t)" "ps_state s = ATTR_VALUE" "pstate_ok lo s"
  shows "pstate_ok lo t"
proof (cases "ps_heap t = ps_heap s")
  case True
  moreover from assms(1) have "ps_ret t = ps_ret s" "ps_current t = ps_current s"
    by (auto simp: parse_attr_value_def Let_def split: if_splits prod.splits bind_splits)
  ultimately show ?thesis using assms(2,3) by (auto simp: pstate_ok_def)
next
  case False
  with assms(1) obtain a v where t: "ps_heap t = set_node (ps_heap s) a (\<lambda>n. n\<lparr>n_content := v\<rparr>)" "ps_ret t = ps_ret s"
    "ps_current t = ps_current s"
    by (auto simp: parse_attr_value_def Let_def upd_def split: if_splits prod.splits bind_splits option.splits)
  then show ?thesis using assms(2,3) nodes_ok_set[of lo "ps_heap s" "\<lambda>n. n\<lparr>n_content := v\<rparr>" a]
      elem_ptr_set[of "\<lambda>n. n\<lparr>n_content := v\<rparr>" "ps_heap s" a lo] by (auto simp: pstate_ok_def)
qed

lemma parse_step_ok:
  assumes "parse_step uri s = Some (Parse_Step t)" "ps_ret s \<noteq> None" "pstate_ok lo s"
  shows "pstate_ok lo t"
proof -
  obtain r where r: "ps_ret s = Some r" using assms(2) by auto
  show ?thesis
  proof (cases "ps_state s")
    case OPEN
    with assms(1,3) r show ?thesis using parse_open_ok by (simp add: parse_step_def)
  next
    case CLOSE
    with assms(1,3) r show ?thesis using parse_close_ok by (simp add: parse_step_def)
  next
    case INSIDE_TAG
    with assms(1,3) show ?thesis using parse_inside_tag_ok by (simp add: parse_step_def)
  next
    case ATTR_VALUE
    with assms(1,3) show ?thesis using parse_attr_value_ok by (simp add: parse_step_def)
  next
    case TEXT
    with assms(1,3) parse_text_node_ok[OF _ r assms(3)] show ?thesis
      by (auto simp: parse_step_def parse_text_def Let_def pstate_ok_def split: if_splits bind_splits)
  next
    case CDATA
    with assms(1,3) parse_text_node_ok[OF _ r assms(3)] show ?thesis
      by (auto simp: parse_step_def parse_cdata_def Let_def pstate_ok_def split: if_splits bind_splits prod.splits)
  next
    case COMMENT
    with assms(1,3) show ?thesis by (auto simp: parse_step_def parse_comment_def pstate_ok_def Let_def split: if_splits)
  next
    case INIT
    with assms(1,3) show ?thesis by (auto simp: parse_step_def pstate_ok_def split: if_splits)
  next
    case XMLDECL
    with assms(1,3) show ?thesis by (auto simp: parse_step_def pstate_ok_def simp del: skip_past.simps)
  next
    case DOCTYPE
    with assms(1,3) show ?thesis by (auto simp: parse_step_def pstate_ok_def simp del: skip_past.simps)
  qed (use assms in \<open>simp_all add: parse_step_def\<close>)
qed

lemma psteps_ok: "psteps uri n s t \<Longrightarrow> pstate_ok lo s \<Longrightarrow> pstate_ok lo t"
  by (induction rule: psteps.induct) (auto dest: parse_step_ok)

lemma nodes_ok_fields:
  assumes "nodes_ok lo h" "length h' = length h" "\<And>i. i < length h \<Longrightarrow> n_type (h' ! i) = n_type (h ! i) \<and> n_name (h' ! i) = n_name (h ! i) \<and>
    n_children (h' ! i) = n_children (h ! i) \<and> n_parent (h' ! i) = n_parent (h ! i)"
  shows "nodes_ok lo h'"
proof -
  have "elem_ptr lo h p \<Longrightarrow> elem_ptr lo h' p" for p by (erule elem_ptr_mono) (use assms(2,3) in auto)
  then show ?thesis using assms by (simp add: nodes_ok_def node_ok_def)
qed

end
