(* ===== verification/Tx_XmlRoundtrip.thy ===== *)
theory Tx_XmlRoundtrip
  imports Tx_XmlSteps
begin

text \<open>
  The parser inverts the serialiser: parsing the printed text of a document builds a document for the same
  tree, in which the attributes of every element are in reverse order. Then what the parser does with
  malformed documents.
\<close>

subsection \<open>New nodes\<close>

definition link_heap :: "heap \<Rightarrow> ref \<Rightarrow> ref option \<Rightarrow> ref option \<Rightarrow> heap" where
  "link_heap h r previous q = (case previous of
     Some b \<Rightarrow> set_node h b (\<lambda>n. n\<lparr>n_next := q\<rparr>) | None \<Rightarrow> set_node h r (\<lambda>n. n\<lparr>n_children := q\<rparr>))"

lemma length_link_heap [simp]: "length (link_heap h r previous q) = length h"
  by (simp add: link_heap_def split: option.split)

text \<open>The state between two nodes: the open element and the sibling before are there.\<close>

definition ready :: "pstate \<Rightarrow> ref \<Rightarrow> bool" where
  "ready s r \<longleftrightarrow> ps_ret s = Some r \<and> r < length (ps_heap s) \<and>
     (\<forall>b. ps_previous s = Some b \<longrightarrow> b < length (ps_heap s))"

lemma link_node_new:
  assumes "r < length h" "\<forall>b. previous = Some b \<longrightarrow> b < length h"
  shows "\<exists>n. link_node (length h) uri l previous (Some r) (h @ [x]) = Some (link_heap h r previous (Some (length h)) @ [n]) \<and>
    n_type n = n_type x \<and> n_name n = n_name x \<and> n_content n = n_content x \<and> n_flags n = n_flags x \<and>
    n_children n = n_children x \<and> n_attributes n = n_attributes x \<and> n_parent n = Some r \<and> n_next n = None"
proof -
  have [simp]: "set_node (link_heap h r pv q @ [y]) (length h) f = link_heap h r pv q @ [f y]" for pv q y f
    using set_node_append(2)[of "link_heap h r pv q"] by simp
  show ?thesis
    using assms by (cases previous) (simp_all add: link_node_def link_heap_def[symmetric]
        link_heap_def[of h r None, simplified, symmetric] link_heap_def[of h r "Some b" for b, simplified, symmetric])
qed

text \<open>A text node: one step.\<close>

lemma parse_text_step:
  assumes "ps_state s = TEXT" "ps_p s = quote_text v @ q" "q = [] \<or> peek q = CHR ''<''" "v \<noteq> []" "printable_text v" "ready s r"
  shows "\<exists>t n. psteps uri 1 s t \<and> ps_state t = INIT \<and> ps_p t = q \<and> ps_ret t = ps_ret s \<and> ps_previous t = Some (length (ps_heap s)) \<and>
    ps_heap t = link_heap (ps_heap s) r (ps_previous s) (Some (length (ps_heap s))) @ [n] \<and>
    n_type n = TEXT_NODE \<and> n_content n = Some v \<and> n_flags n = 0 \<and> n_next n = None"
proof -
  have sp: "takeWhile (\<lambda>d. d \<noteq> CHR ''<'') (ps_p s) = quote_text v" "dropWhile (\<lambda>d. d \<noteq> CHR ''<'') (ps_p s) = q"
  proof -
    have "takeWhile (\<lambda>d. d \<noteq> CHR ''<'') (quote_text v @ q) = quote_text v \<and> dropWhile (\<lambda>d. d \<noteq> CHR ''<'') (quote_text v @ q) = q"
    proof (cases q)
      case Nil
      have "\<forall>x\<in>set (quote_text v). x \<noteq> CHR ''<''" using quote_text_no_lt[of v] by blast
      with Nil show ?thesis by (simp add: takeWhile_eq_all_conv dropWhile_eq_Nil_conv del: quote_text_simps)
    next
      case (Cons c q')
      with assms(3) span_stop[OF quote_text_no_lt[of v], of q'] show ?thesis by simp
    qed
    with assms(2) show "takeWhile (\<lambda>d. d \<noteq> CHR ''<'') (ps_p s) = quote_text v" "dropWhile (\<lambda>d. d \<noteq> CHR ''<'') (ps_p s) = q"
      by simp_all
  qed
  let ?h = "ps_heap s"
  let ?x = "null_node\<lparr>n_type := TEXT_NODE, n_name := None, n_uid := Some (length ?h), n_content := Some v, n_flags := 0\<rparr>"
  define l where "l = ps_ln s + length (filter (\<lambda>d. d = CHR 0x0A) (quote_text v))"
  from assms(6) link_node_new[of r ?h "ps_previous s" uri l ?x] obtain n where
    n: "link_node (length ?h) uri l (ps_previous s) (Some r) (?h @ [?x]) = Some (link_heap ?h r (ps_previous s) (Some (length ?h)) @ [n])"
      "n_type n = TEXT_NODE" "n_content n = Some v" "n_flags n = 0" "n_next n = None"
    by (auto simp: ready_def)
  let ?t = "s\<lparr>ps_heap := link_heap ?h r (ps_previous s) (Some (length ?h)) @ [n], ps_current := Some (length ?h),
    ps_previous := Some (length ?h), ps_c := q, ps_p := q, ps_ln := l, ps_state := INIT\<rparr>"
  have "parse_step uri s = Some (Parse_Step ?t)"
    using assms(1,4,5,6) sp n(1) by (simp add: parse_step_def parse_text_def parse_text_node_def xml_new_node_def ready_def l_def)
  moreover have "ps_p s \<noteq> []" using assms(2,4) by simp
  ultimately have "psteps uri 1 s ?t" using assms(1,6) by (intro psteps_one) (auto simp: ready_def)
  with n show ?thesis by (intro exI[of _ ?t] exI[of _ n]) simp
qed

text \<open>The start of an element: \<open><\<close> and the name, two steps from the state \<open>INIT\<close>.\<close>

lemma parse_open_step:
  assumes "ps_state s = INIT" "ps_p s = CHR ''<'' # nm @ q" "xname_ok nm" "\<not> can_name (peek q)" "ready s r"
  shows "\<exists>t n. psteps uri 2 s t \<and> ps_state t = INSIDE_TAG \<and> ps_p t = dropWhile x_is_ws q \<and> ps_ret t = ps_ret s \<and>
    ps_current t = Some (length (ps_heap s)) \<and>
    ps_heap t = link_heap (ps_heap s) r (ps_previous s) (Some (length (ps_heap s))) @ [n] \<and>
    n_type n = ELEMENT_NODE \<and> n_name n = Some nm \<and> n_attributes n = None \<and> n_children n = None \<and>
    n_parent n = Some r \<and> n_next n = None"
proof -
  let ?h = "ps_heap s"
  let ?x = "null_node\<lparr>n_type := ELEMENT_NODE, n_name := Some nm, n_uid := Some (length ?h)\<rparr>"
  define l where "l = ps_ln s + newline (ps_p s)"
  let ?s1 = "s\<lparr>ps_p := nm @ q, ps_ln := l, ps_state := OPEN\<rparr>"
  from xname_ok_cases[OF assms(3)] obtain c nr where nr: "nm = c # nr" "can_name c" "list_all can_name nr" by metis
  note cn = can_name_props[OF nr(2)]
  have one: "psteps uri 1 s ?s1" using assms(1,2,5) by (intro psteps_one) (auto simp: parse_step_def l_def ready_def)
  from assms(5) link_node_new[of r ?h "ps_previous s" uri l ?x] obtain n where
    n: "link_node (length ?h) uri l (ps_previous s) (Some r) (?h @ [?x]) = Some (link_heap ?h r (ps_previous s) (Some (length ?h)) @ [n])"
      "n_type n = ELEMENT_NODE" "n_name n = Some nm" "n_attributes n = None" "n_children n = None" "n_parent n = Some r" "n_next n = None"
    by (auto simp: ready_def null_node_def)
  obtain p2 ln2 where p2: "skip_spaces q l = (p2, ln2)" "p2 = dropWhile x_is_ws q" by (simp add: skip_spaces_def)
  let ?t = "?s1\<lparr>ps_heap := link_heap ?h r (ps_previous s) (Some (length ?h)) @ [n], ps_current := Some (length ?h),
    ps_p := p2, ps_c := q, ps_ln := ln2, ps_state := INSIDE_TAG\<rparr>"
  have sp: "takeWhile can_name (nm @ q) = nm" "dropWhile can_name (nm @ q) = q"
    using span_name[OF _ assms(4), of nm] assms(3) by (simp_all add: xname_ok_def)
  have "skip_spaces (nm @ q) l = (nm @ q, l)" using nr cn by simp
  moreover have "\<not> starts_with ''!--'' (nm @ q)" "\<not> starts_with ''![CDATA['' (nm @ q)" "\<not> starts_with ''!DOCTYPE'' (nm @ q)"
    using nr cn by (simp_all add: starts_with_def)
  ultimately have "parse_open uri ?s1 = Some (Parse_Step ?t)"
    using assms(5) n(1) p2(1) sp nr(1) cn by (simp add: parse_open_def xml_new_node_def ready_def)
  then have "psteps uri 1 ?s1 ?t" using nr(1) assms(5) by (intro psteps_one) (auto simp: parse_step_def ready_def)
  from psteps_trans[OF one this] n p2(2) show ?thesis by (intro exI[of _ ?t] exI[of _ n]) (simp add: numeral_2_eq_2)
qed

text \<open>The attributes of the open tag, two steps each; they end up in front of those that are there.\<close>

lemma show_attrs_ws: "dropWhile x_is_ws (show_attrs ((a, v) # as) @ q) =
    dropWhile x_is_ws (a @ CHR ''='' # CHR 0x22 # quote_value v @ CHR 0x22 # show_attrs as @ q)"
  by (simp add: show_attr_def x_is_ws_def)

lemma parse_attr_step:
  assumes "ps_state s = INSIDE_TAG" "ps_p s = a @ CHR ''='' # CHR 0x22 # quote_value v @ CHR 0x22 # q" "xname_ok a" "printable_text v"
    "ps_current s = Some e" "e < length (ps_heap s)" "n_attributes (ps_heap s ! e) = old" "ps_ret s \<noteq> None"
  shows "\<exists>t n. psteps uri 2 s t \<and> ps_state t = INSIDE_TAG \<and> ps_p t = dropWhile x_is_ws q \<and> ps_ret t = ps_ret s \<and>
    ps_current t = Some e \<and>
    ps_heap t = set_node (ps_heap s) e (\<lambda>m. m\<lparr>n_attributes := Some (length (ps_heap s))\<rparr>) @ [n] \<and>
    n_name n = Some a \<and> n_content n = Some v \<and> n_next n = old"
proof -
  let ?h = "ps_heap s" and ?v = "quote_value v @ CHR 0x22 # q"
  from xname_ok_cases[OF assms(3)] obtain c nr where nr: "a = c # nr" "can_name c" "list_all can_name nr" by metis
  note cn = can_name_props[OF nr(2)]
  have sp: "takeWhile can_name (ps_p s) = a" "dropWhile can_name (ps_p s) = CHR ''='' # CHR 0x22 # ?v"
    using span_name[of a "CHR ''='' # CHR 0x22 # ?v"] assms(2,3) by (simp_all add: xname_ok_def)
  have pk: "peek (ps_p s) = c" using assms(2) nr(1) by simp
  define l where "l = ps_ln s"
  have sk: "skip_spaces (ps_p s) l = (ps_p s, l)" using cn pk by simp
  have eqs: "skip_spaces (CHR ''='' # r) l = (CHR ''='' # r, l)" "skip_spaces (CHR 0x22 # r) l = (CHR 0x22 # r, l)" for r
    by (simp_all add: x_is_ws_def)
  define n0 where "n0 = null_node\<lparr>n_type := ATTRIBUTE_NODE, n_name := Some a, n_uid := Some (length ?h),
    n_file := uri, n_line := l, n_next := old, n_parent := Some e\<rparr>"
  define h1 where "h1 = set_node ?h e (\<lambda>m. m\<lparr>n_attributes := Some (length ?h)\<rparr>)"
  have len: "length h1 = length ?h" by (simp add: h1_def)
  let ?t = "s\<lparr>ps_heap := h1 @ [n0], ps_attr := Some (length ?h), ps_c := CHR ''='' # CHR 0x22 # ?v, ps_p := CHR 0x22 # ?v,
    ps_ln := l, ps_state := ATTR_VALUE\<rparr>"
  have "newline (ps_p s) = 0" using cn pk by (simp add: newline_def)
  moreover have "\<not> starts_with ''/>'' (ps_p s)" using cn nr assms(2) by (auto simp: starts_with_def)
  moreover have "upd (?h @ [y]) (Some e) f = Some (set_node ?h e f @ [y])" for y f using assms(6) by simp
  moreover have "upd (?h @ [y]) (Some (length ?h)) f = Some (?h @ [f y])" for y f by simp
  ultimately have "parse_inside_tag uri s = Some (Parse_Step ?t)"
    using cn pk sp sk eqs assms(5,6,7)
    by (simp add: parse_inside_tag_def xml_new_node_def l_def[symmetric] h1_def n0_def del: upd_simps)
  then have one: "psteps uri 1 s ?t" using assms(1,2,8) by (intro psteps_one) (auto simp: parse_step_def)
  let ?n = "n0\<lparr>n_content := Some v\<rparr>"
  obtain p2 ln2 where p2: "skip_spaces q l = (p2, ln2)" "p2 = dropWhile x_is_ws q" by (simp add: skip_spaces_def)
  let ?u = "?t\<lparr>ps_heap := h1 @ [?n], ps_c := CHR 0x22 # q, ps_p := p2, ps_ln := ln2, ps_state := INSIDE_TAG\<rparr>"
  have sv: "takeWhile (\<lambda>d. d \<noteq> CHR 0x22) ?v = quote_value v" "dropWhile (\<lambda>d. d \<noteq> CHR 0x22) ?v = CHR 0x22 # q"
    using span_stop[OF quote_value_no_quote[of v], of q] by simp_all
  have "upd (h1 @ [n0]) (Some (length ?h)) f = Some (h1 @ [f n0])" for f
    using set_node_append(2)[of h1 n0 f] by (simp add: upd_def len)
  then have "parse_attr_value ?t = Some (Parse_Step ?u)"
    using sv p2 assms(4) by (simp add: parse_attr_value_def del: upd_simps)
  then have "psteps uri 1 ?t ?u" using assms(8) by (intro psteps_one) (auto simp: parse_step_def)
  from psteps_trans[OF one this] p2(2) assms(5) show ?thesis
    by (intro exI[of _ ?u] exI[of _ ?n]) (simp add: numeral_2_eq_2 h1_def n0_def)
qed

lemma set_node_twice: "set_node (set_node h e f) e g = set_node h e (\<lambda>n. g (f n))" if "e < length h"
  using that by (simp add: set_node_def)

lemma set_node_same: "f (h ! e) = h ! e \<Longrightarrow> set_node h e f = h"
  by (simp add: set_node_def list_update_same_conv)

lemma set_node_nth [simp]: "e < length h \<Longrightarrow> set_node h e f ! i = (if i = e then f (h ! e) else h ! i)"
  by (simp add: set_node_def nth_list_update)

lemma parse_attrs_ws:
  assumes "ps_state s = INSIDE_TAG" "ps_p s = dropWhile x_is_ws (show_attrs as @ q)"
    "list_all (\<lambda>(a, v). xname_ok a \<and> printable_text v) as" "ps_current s = Some e" "e < lo" "lo \<le> length (ps_heap s)"
    "attrs_rep lo (ps_heap s) (n_attributes (ps_heap s ! e)) old" "ps_ret s \<noteq> None"
  shows "\<exists>t p h2. psteps uri (2 * length as) s t \<and> ps_state t = INSIDE_TAG \<and> ps_p t = dropWhile x_is_ws q \<and> ps_ret t = ps_ret s \<and>
    ps_current t = Some e \<and> ps_heap t = set_node (ps_heap s) e (\<lambda>n. n\<lparr>n_attributes := p\<rparr>) @ h2 \<and>
    attrs_rep lo (ps_heap t) p (rev as @ old)"
  using assms
proof (induction as arbitrary: s old)
  case Nil
  have "set_node (ps_heap s) e (\<lambda>n. n\<lparr>n_attributes := n_attributes (ps_heap s ! e)\<rparr>) = ps_heap s"
    by (rule set_node_same) simp
  with Nil show ?case
    by (intro exI[of _ s] exI[of _ "n_attributes (ps_heap s ! e)"] exI[of _ "[]"]) (simp add: psteps.refl)
next
  case (Cons nv as)
  obtain a v where nv: "nv = (a, v)" by fastforce
  let ?h = "ps_heap s"
  from Cons.prems(3) nv have ok: "xname_ok a" "printable_text v" by auto
  from xname_ok_cases[OF ok(1)] obtain c nr where nr: "a = c # nr" "can_name c" by metis
  have p: "ps_p s = a @ CHR ''='' # CHR 0x22 # quote_value v @ CHR 0x22 # (show_attrs as @ q)"
    using Cons.prems(2) can_name_props(1)[OF nr(2)] nv nr(1) by (simp add: show_attr_def[of "(c # nr, v)"] x_is_ws_def)
  have e: "e < length ?h" using Cons.prems(5,6) by simp
  from parse_attr_step[OF Cons.prems(1) p ok Cons.prems(4) e HOL.refl Cons.prems(8), of uri] obtain t n where
    t: "psteps uri 2 s t" "ps_state t = INSIDE_TAG" "ps_p t = dropWhile x_is_ws (show_attrs as @ q)" "ps_ret t = ps_ret s"
      "ps_current t = Some e" "ps_heap t = set_node ?h e (\<lambda>m. m\<lparr>n_attributes := Some (length ?h)\<rparr>) @ [n]"
      "n_name n = Some a" "n_content n = Some v" "n_next n = n_attributes (?h ! e)" by blast
  have nth: "ps_heap t ! length ?h = n" "n_attributes (ps_heap t ! e) = Some (length ?h)"
    using t(6) e by (simp_all add: nth_append)
  have "attrs_rep lo (ps_heap t) (n_attributes (?h ! e)) old"
    using Cons.prems(5,6,7) t(6) e by (intro attrs_rep_frame[of lo lo ?h "ps_heap t"]) (auto simp: nth_append)
  then have "attrs_rep lo (ps_heap t) (n_attributes (ps_heap t ! e)) ((a, v) # old)"
    using nth t(6-9) Cons.prems(6) by simp
  with Cons.IH[OF t(2,3) _ t(5) Cons.prems(5), of "(a, v) # old"] Cons.prems(3,6,8) t(4,6)
  obtain u q' h2 where u: "psteps uri (2 * length as) t u" "ps_state u = INSIDE_TAG" "ps_p u = dropWhile x_is_ws q" "ps_ret u = ps_ret t"
    "ps_current u = Some e" "ps_heap u = set_node (ps_heap t) e (\<lambda>n. n\<lparr>n_attributes := q'\<rparr>) @ h2"
    "attrs_rep lo (ps_heap u) q' (rev as @ (a, v) # old)" by auto
  have "ps_heap u = set_node ?h e (\<lambda>n. n\<lparr>n_attributes := q'\<rparr>) @ n # h2"
    using u(6) t(6) e by (simp add: set_node_twice)
  then show ?case using psteps_trans[OF t(1) u(1)] u t(4) nv
    by (intro exI[of _ u] exI[of _ q'] exI[of _ "n # h2"]) simp
qed

lemma parse_attrs:
  assumes "ps_state s = INSIDE_TAG" "ps_p s = dropWhile x_is_ws (show_attrs as @ q)" "\<not> x_is_ws (peek q)"
    "list_all (\<lambda>(a, v). xname_ok a \<and> printable_text v) as" "ps_current s = Some e" "e < lo" "lo \<le> length (ps_heap s)"
    "attrs_rep lo (ps_heap s) (n_attributes (ps_heap s ! e)) old" "ps_ret s \<noteq> None"
  shows "\<exists>t p h2. psteps uri (2 * length as) s t \<and> ps_state t = INSIDE_TAG \<and> ps_p t = q \<and> ps_ret t = ps_ret s \<and>
    ps_current t = Some e \<and> ps_heap t = set_node (ps_heap s) e (\<lambda>n. n\<lparr>n_attributes := p\<rparr>) @ h2 \<and>
    attrs_rep lo (ps_heap t) p (rev as @ old)"
proof -
  have "dropWhile x_is_ws q = q" using assms(3) by (cases q) auto
  with parse_attrs_ws[OF assms(1,2,4-9), of uri] show ?thesis by simp
qed

text \<open>One node, whose parts lie at \<open>lo\<close> or above.\<close>

fun node_rep :: "nat \<Rightarrow> heap \<Rightarrow> ref \<Rightarrow> xml \<Rightarrow> bool" where
  "node_rep lo h a (X_text s) \<longleftrightarrow> n_type (h ! a) = TEXT_NODE \<and> n_flags (h ! a) = 0 \<and> n_content (h ! a) = Some s"
| "node_rep lo h a (X_elem n as ks) \<longleftrightarrow> n_type (h ! a) = ELEMENT_NODE \<and> n_name (h ! a) = Some n \<and>
     attrs_rep lo h (n_attributes (h ! a)) as \<and> doc_rep lo h (n_children (h ! a)) ks"

fun rev_node :: "xml \<Rightarrow> xml" where
  "rev_node (X_text s) = X_text s"
| "rev_node (X_elem n as ks) = X_elem n (rev as) (rev_attrs ks)"

lemma rev_attrs_Cons: "rev_attrs (x # ts) = rev_node x # rev_attrs ts"
  by (cases x) auto

lemma doc_rep_Cons: "doc_rep lo h p (x # ts) \<longleftrightarrow> (\<exists>a. p = Some a \<and> lo \<le> a \<and> a < length h \<and> node_rep lo h a x \<and>
    doc_rep lo h (n_next (h ! a)) ts)"
  by (cases x) auto

lemma node_rep_frame:
  assumes "lo' \<le> lo" "length h \<le> length h'" "\<And>i. lo \<le> i \<Longrightarrow> i < length h \<Longrightarrow> h' ! i = h ! i"
    "h' ! a = (h ! a)\<lparr>n_next := q\<rparr>"
  shows "node_rep lo h a x \<Longrightarrow> node_rep lo' h' a x"
  using attrs_rep_frame[OF assms(1-3)] doc_rep_frame[OF assms(1-3)] assms(4) by (cases x) auto

text \<open>The parser has read one node, or a forest, between two ready states.\<close>

definition one_node :: "pstate \<Rightarrow> ref \<Rightarrow> xml \<Rightarrow> pstate \<Rightarrow> bool" where
  "one_node s r x u \<longleftrightarrow> (let h = ps_heap s; a = length h in
     ps_state u = (case x of X_text v \<Rightarrow> INIT | _ \<Rightarrow> TEXT) \<and> ps_ret u = Some r \<and> ps_previous u = Some a \<and>
     (\<exists>n h2. ps_heap u = link_heap h r (ps_previous s) (Some a) @ n # h2 \<and> n_next n = None) \<and>
     node_rep (Suc a) (ps_heap u) a (rev_node x))"

definition forest_read :: "pstate \<Rightarrow> ref \<Rightarrow> xml list \<Rightarrow> pstate \<Rightarrow> bool" where
  "forest_read s r ts u \<longleftrightarrow> (let h = ps_heap s; a = length h in
     ps_state u \<in> {TEXT, INIT} \<and> ready u r \<and>
     (if ts = [] then ps_heap u = h
      else (\<exists>h2. ps_heap u = link_heap h r (ps_previous s) (Some a) @ h2) \<and>
        doc_rep a (ps_heap u) (Some a) (rev_attrs ts)))"

lemma forest_read_Cons:
  assumes "ready s r" "one_node s r x u" "forest_read u r ts t"
  shows "forest_read s r (x # ts) t"
proof -
  define a where "a = length (ps_heap s)"
  define L where "L = link_heap (ps_heap s) r (ps_previous s) (Some a)"
  have La: "length L = a" by (simp add: L_def a_def)
  from assms(2) obtain n h2 where u: "ps_heap u = L @ n # h2" "n_next n = None" "node_rep (Suc a) (ps_heap u) a (rev_node x)"
    "ps_previous u = Some a" by (auto simp: one_node_def L_def a_def Let_def)
  have au: "a < length (ps_heap u)" "ps_heap u ! a = n" using u(1) La by (simp_all add: nth_append)
  show ?thesis
  proof (cases "ts = []")
    case True
    with assms(3) have t: "ps_heap t = ps_heap u" "ps_state t \<in> {TEXT, INIT}" "ready t r" by (auto simp: forest_read_def Let_def)
    have "node_rep a (ps_heap u) a (rev_node x)"
      by (rule node_rep_frame[OF _ _ _ _ u(3), where q = None]) (use u(2) au in auto)
    with True t u au show ?thesis
      by (auto simp: forest_read_def Let_def a_def[symmetric] L_def[symmetric] rev_attrs_Cons doc_rep_Cons)
  next
    case False
    let ?b = "Some (length (ps_heap u))"
    from False assms(3) u(4) obtain h3 where t: "ps_state t \<in> {TEXT, INIT}" "ready t r"
      "ps_heap t = set_node (ps_heap u) a (\<lambda>m. m\<lparr>n_next := ?b\<rparr>) @ h3"
      "doc_rep (length (ps_heap u)) (ps_heap t) ?b (rev_attrs ts)"
      by (auto simp: forest_read_def Let_def link_heap_def)
    have nth: "i < length (ps_heap u) \<Longrightarrow> ps_heap t ! i = (if i = a then n\<lparr>n_next := ?b\<rparr> else ps_heap u ! i)" for i
      using t(3) au by (simp add: nth_append)
    have "node_rep a (ps_heap t) a (rev_node x)"
      by (rule node_rep_frame[OF _ _ _ _ u(3), where q = ?b]) (use nth au t(3) in auto)
    moreover have "doc_rep a (ps_heap t) ?b (rev_attrs ts)"
      using doc_rep_frame[OF _ _ _ t(4), of a "ps_heap t"] au by auto
    moreover have "ps_heap t = L @ n\<lparr>n_next := ?b\<rparr> # h2 @ h3"
      using t(3) u(1) La by (simp add: set_node_def list_update_append nth_append)
    ultimately show ?thesis using t(1,2) nth[of a] au La
      by (auto simp: forest_read_def Let_def a_def[symmetric] L_def[symmetric] rev_attrs_Cons doc_rep_Cons)
  qed
qed

text \<open>From the state \<open>TEXT\<close> before a tag the machine goes to \<open>INIT\<close>.\<close>

lemma parse_text_none:
  assumes "ps_state s \<in> {TEXT, INIT}" "ps_p s = CHR ''<'' # q" "ps_ret s \<noteq> None"
  shows "\<exists>n t. n \<le> 1 \<and> psteps uri n s t \<and> ps_state t = INIT \<and> ps_p t = ps_p s \<and> ps_heap t = ps_heap s \<and>
    ps_ret t = ps_ret s \<and> ps_previous t = ps_previous s"
proof (cases "ps_state s = INIT")
  case True
  then show ?thesis by (intro exI[of _ 0] exI[of _ s]) (simp add: psteps.refl)
next
  case False
  let ?t = "s\<lparr>ps_c := ps_p s, ps_ln := ps_ln s, ps_state := INIT\<rparr>"
  from False assms have "parse_step uri s = Some (Parse_Step ?t)" by (auto simp: parse_step_def parse_text_def)
  then have "psteps uri 1 s ?t" using False assms by (intro psteps_one) auto
  then show ?thesis by (intro exI[of _ 1] exI[of _ ?t]) simp
qed

lemma parse_empty_end:
  assumes "ps_state s = INSIDE_TAG" "ps_p s = ''/>'' @ q" "ps_ret s \<noteq> None"
  shows "\<exists>t. psteps uri 1 s t \<and> ps_state t = TEXT \<and> ps_p t = q \<and> ps_heap t = ps_heap s \<and> ps_ret t = ps_ret s \<and>
    ps_previous t = ps_current s"
proof -
  let ?t = "s\<lparr>ps_p := q, ps_ln := ps_ln s, ps_previous := ps_current s, ps_state := TEXT\<rparr>"
  have "parse_step uri s = Some (Parse_Step ?t)"
    using assms by (simp add: parse_step_def parse_inside_tag_def newline_def starts_with_def)
  then have "psteps uri 1 s ?t" using assms by (intro psteps_one) auto
  then show ?thesis by (intro exI[of _ ?t]) simp
qed

lemma parse_tag_end:
  assumes "ps_state s = INSIDE_TAG" "ps_p s = ''>'' @ q" "ps_ret s \<noteq> None"
  shows "\<exists>t. psteps uri 1 s t \<and> ps_state t = TEXT \<and> ps_p t = q \<and> ps_heap t = ps_heap s \<and> ps_ret t = ps_current s \<and>
    ps_previous t = None"
proof -
  let ?t = "s\<lparr>ps_p := q, ps_ln := ps_ln s, ps_ret := ps_current s, ps_current := None, ps_previous := None, ps_state := TEXT\<rparr>"
  have "parse_step uri s = Some (Parse_Step ?t)"
    using assms by (simp add: parse_step_def parse_inside_tag_def newline_def)
  then have "psteps uri 1 s ?t" using assms by (intro psteps_one) auto
  then show ?thesis by (intro exI[of _ ?t]) simp
qed

lemma parse_close_tag:
  assumes "ps_state s \<in> {TEXT, INIT}" "ps_p s = ''</'' @ nm @ ''>'' @ q" "xname_ok nm" "ps_ret s = Some a" "a < length (ps_heap s)"
    "n_name (ps_heap s ! a) = Some nm"
  shows "\<exists>n t. n \<le> 4 \<and> psteps uri n s t \<and> ps_state t = TEXT \<and> ps_p t = q \<and> ps_heap t = ps_heap s \<and>
    ps_ret t = n_parent (ps_heap s ! a) \<and> ps_previous t = Some a"
proof -
  have "ps_p s = CHR ''<'' # CHR ''/'' # nm @ ''>'' @ q" using assms(2) by simp
  from parse_text_none[OF assms(1) this, of uri] assms(4) obtain n0 t0 where
    t0: "n0 \<le> 1" "psteps uri n0 s t0" "ps_state t0 = INIT" "ps_p t0 = ps_p s" "ps_heap t0 = ps_heap s" "ps_ret t0 = ps_ret s"
    by auto
  let ?t1 = "t0\<lparr>ps_p := CHR ''/'' # nm @ ''>'' @ q, ps_state := OPEN\<rparr>" and ?t2 = "t0\<lparr>ps_p := nm @ ''>'' @ q, ps_state := CLOSE\<rparr>"
  let ?t3 = "t0\<lparr>ps_p := q, ps_c := ''>'' @ q, ps_ln := ps_ln t0, ps_state := TEXT, ps_previous := Some a, ps_ret := n_parent (ps_heap s ! a)\<rparr>"
  from xname_ok_cases[OF assms(3)] obtain c nr where nr: "nm = c # nr" "can_name c" "list_all can_name nr" by metis
  have "parse_step uri t0 = Some (Parse_Step ?t1)" using t0 assms(2) by (simp add: parse_step_def newline_def)
  then have s1: "psteps uri 1 t0 ?t1" using t0 assms(2,4) by (intro psteps_one) auto
  have "parse_step uri ?t1 = Some (Parse_Step ?t2)" by (simp add: parse_step_def parse_open_def starts_with_def)
  then have s2: "psteps uri 1 ?t1 ?t2" using t0 assms(4) by (intro psteps_one) auto
  have "takeWhile can_name (nm @ ''>'' @ q) = nm" "dropWhile can_name (nm @ ''>'' @ q) = ''>'' @ q"
    using span_name[of nm "''>'' @ q"] assms(3) by (simp_all add: xname_ok_def)
  moreover have "skip_spaces (nm @ ''>'' @ q) l = (nm @ ''>'' @ q, l)" for l using nr can_name_props(1)[OF nr(2)] by simp
  moreover have "starts_with nm nm" by (simp add: starts_with_def)
  ultimately have "parse_step uri ?t2 = Some (Parse_Step ?t3)"
    using t0 assms(4-6) by (simp add: parse_step_def parse_close_def)
  then have s3: "psteps uri 1 ?t2 ?t3" using nr t0 assms(4) by (intro psteps_one) auto
  from psteps_trans[OF t0(2) psteps_trans[OF s1 psteps_trans[OF s2 s3]]] t0(1,5) show ?thesis
    by (intro exI[of _ "n0 + 3"] exI[of _ ?t3]) (simp add: numeral_3_eq_3)
qed

lemma show_attrs_length: "length as \<le> length (show_attrs as)"
  by (induction as) (auto simp: show_attr_def)

lemma ready_after: "ready s r \<Longrightarrow> one_node s r x u \<Longrightarrow> ready u r"
  by (auto simp: ready_def one_node_def Let_def)

text \<open>The start tag without its end: the new element is in the heap, with its attributes.\<close>

lemma parse_start_tag:
  assumes "ps_state s \<in> {TEXT, INIT}" "ps_p s = CHR ''<'' # nm @ show_attrs as @ q" "xname_ok nm"
    "list_all (\<lambda>(a, v). xname_ok a \<and> printable_text v) as" "ready s r" "\<not> can_name (peek q)" "\<not> x_is_ws (peek q)"
  shows "\<exists>k t n h2. k \<le> 3 + 2 * length as \<and> psteps uri k s t \<and> ps_state t = INSIDE_TAG \<and> ps_p t = q \<and> ps_ret t = Some r \<and>
    ps_current t = Some (length (ps_heap s)) \<and>
    ps_heap t = link_heap (ps_heap s) r (ps_previous s) (Some (length (ps_heap s))) @ n # h2 \<and>
    n_type n = ELEMENT_NODE \<and> n_name n = Some nm \<and> n_children n = None \<and> n_parent n = Some r \<and> n_next n = None \<and>
    attrs_rep (Suc (length (ps_heap s))) (ps_heap t) (n_attributes n) (rev as)"
proof -
  let ?h = "ps_heap s" and ?b = "length (ps_heap s)"
  from parse_text_none[OF assms(1,2), of uri] assms(5) obtain k0 t0 where
    t0: "k0 \<le> 1" "psteps uri k0 s t0" "ps_state t0 = INIT" "ps_p t0 = ps_p s" "ps_heap t0 = ?h" "ps_ret t0 = ps_ret s"
      "ps_previous t0 = ps_previous s" by (auto simp: ready_def)
  have np: "\<not> can_name (peek (show_attrs as @ q))" using assms(6) by (cases as) (auto simp: show_attr_def)
  have r0: "ready t0 r" using assms(5) t0 by (simp add: ready_def)
  define L where "L = link_heap ?h r (ps_previous s) (Some ?b)"
  have Lb: "length L = ?b" by (simp add: L_def)
  from parse_open_step[OF t0(3) t0(4)[unfolded assms(2)] assms(3) np r0, of uri] t0(5-7) L_def obtain t1 m where
    t1: "psteps uri 2 t0 t1" "ps_state t1 = INSIDE_TAG" "ps_p t1 = dropWhile x_is_ws (show_attrs as @ q)" "ps_ret t1 = ps_ret s"
      "ps_current t1 = Some ?b" "ps_heap t1 = L @ [m]" "n_type m = ELEMENT_NODE" "n_name m = Some nm"
      "n_attributes m = None" "n_children m = None" "n_parent m = Some r" "n_next m = None" by auto
  have "ps_heap t1 ! ?b = m" using t1(6) Lb by (simp add: nth_append)
  then have "attrs_rep (Suc ?b) (ps_heap t1) (n_attributes (ps_heap t1 ! ?b)) []" using t1(9) by simp
  from parse_attrs[OF t1(2,3) assms(7,4) t1(5) lessI _ this, of uri] t1(4,6) Lb assms(5) obtain t p h2 where
    t: "psteps uri (2 * length as) t1 t" "ps_state t = INSIDE_TAG" "ps_p t = q" "ps_ret t = ps_ret t1"
      "ps_current t = Some ?b" "ps_heap t = set_node (L @ [m]) ?b (\<lambda>n. n\<lparr>n_attributes := p\<rparr>) @ h2"
      "attrs_rep (Suc ?b) (ps_heap t) p (rev as)" by (auto simp: ready_def)
  have "ps_heap t = L @ m\<lparr>n_attributes := p\<rparr> # h2" using t(6) set_node_append(2)[of L m] Lb by simp
  with psteps_trans[OF t0(2) psteps_trans[OF t1(1) t(1)]] t0(1) t1 t assms(5) show ?thesis
    by (intro exI[of _ "k0 + (2 + 2 * length as)"] exI[of _ t] exI[of _ "m\<lparr>n_attributes := p\<rparr>"] exI[of _ h2])
      (simp add: ready_def L_def)
qed

lemma parse_element:
  assumes "ps_state s \<in> {TEXT, INIT}" "ps_p s = show_xml [X_elem nm as ks] @ q" "xname_ok nm"
    "list_all (\<lambda>(a, v). xname_ok a \<and> printable_text v) as" "ready s r"
    and IH: "\<And>s r q. ready s r \<Longrightarrow> ps_state s = TEXT \<Longrightarrow> ps_p s = show_xml ks @ q \<Longrightarrow> peek q = CHR ''<'' \<Longrightarrow>
      \<exists>k t. k \<le> 2 * length (show_xml ks) \<and> psteps uri k s t \<and> ps_p t = q \<and> forest_read s r ks t"
  shows "\<exists>k t. k \<le> 2 * length (show_xml [X_elem nm as ks]) \<and> psteps uri k s t \<and> ps_p t = q \<and> one_node s r (X_elem nm as ks) t"
proof -
  let ?h = "ps_heap s" and ?b = "length (ps_heap s)"
  define q1 where "q1 = (if ks = [] then ''/>'' else ''>'' @ show_xml ks @ ''</'' @ nm @ ''>'') @ q"
  have q1: "\<not> can_name (peek q1)" "\<not> x_is_ws (peek q1)" by (auto simp: q1_def x_is_ws_def)
  have "ps_p s = CHR ''<'' # nm @ show_attrs as @ q1" using assms(2) by (simp add: q1_def)
  from parse_start_tag[OF assms(1) this assms(3-5) q1, of uri] obtain k0 t0 n h2 where
    t0: "k0 \<le> 3 + 2 * length as" "psteps uri k0 s t0" "ps_state t0 = INSIDE_TAG" "ps_p t0 = q1" "ps_ret t0 = Some r"
      "ps_current t0 = Some ?b" "ps_heap t0 = link_heap ?h r (ps_previous s) (Some ?b) @ n # h2"
      "n_type n = ELEMENT_NODE" "n_name n = Some nm" "n_children n = None" "n_parent n = Some r" "n_next n = None"
      "attrs_rep (Suc ?b) (ps_heap t0) (n_attributes n) (rev as)" by blast
  have nth: "ps_heap t0 ! ?b = n" "?b < length (ps_heap t0)" using t0(7) by (simp_all add: nth_append)
  show ?thesis
  proof (cases "ks = []")
    case True
    with parse_empty_end[of t0 q uri] t0(3,4) obtain t where
      t: "psteps uri 1 t0 t" "ps_state t = TEXT" "ps_p t = q" "ps_heap t = ps_heap t0" "ps_ret t = Some r" "ps_previous t = Some ?b"
      by (auto simp: q1_def t0(5,6))
    with True psteps_trans[OF t0(2) t(1)] t0 nth show_attrs_length[of as] show ?thesis
      by (intro exI[of _ "k0 + 1"] exI[of _ t]) (simp add: one_node_def Let_def)
  next
    case False
    then have "ps_p t0 = ''>'' @ (show_xml ks @ ''</'' @ nm @ ''>'' @ q)" using t0(4) by (simp add: q1_def)
    from parse_tag_end[OF t0(3) this, of uri] t0(5,6) obtain t1 where
      t1: "psteps uri 1 t0 t1" "ps_state t1 = TEXT" "ps_p t1 = show_xml ks @ (''</'' @ nm @ ''>'' @ q)" "ps_heap t1 = ps_heap t0"
        "ps_ret t1 = Some ?b" "ps_previous t1 = None" by auto
    have "ready t1 ?b" using t1 nth by (simp add: ready_def)
    from IH[OF this t1(2,3)] obtain k2 t2 where
      t2: "k2 \<le> 2 * length (show_xml ks)" "psteps uri k2 t1 t2" "ps_p t2 = ''</'' @ nm @ ''>'' @ q" "forest_read t1 ?b ks t2"
      by auto
    define g where "g = ps_heap t0"
    from t2(4) False obtain h3 where f: "ps_state t2 \<in> {TEXT, INIT}" "ps_ret t2 = Some ?b"
      "ps_heap t2 = set_node g ?b (\<lambda>n. n\<lparr>n_children := Some (length g)\<rparr>) @ h3"
      "doc_rep (length g) (ps_heap t2) (Some (length g)) (rev_attrs ks)"
      by (auto simp: forest_read_def Let_def link_heap_def t1 ready_def g_def)
    have g: "g ! ?b = n" "?b < length g" using nth by (simp_all add: g_def)
    have nth2: "i < length g \<Longrightarrow> ps_heap t2 ! i = (if i = ?b then n\<lparr>n_children := Some (length g)\<rparr> else g ! i)" for i
      using f(3) g by (simp add: nth_append)
    have b2: "?b < length (ps_heap t2)" "n_name (ps_heap t2 ! ?b) = Some nm" "n_parent (ps_heap t2 ! ?b) = Some r"
      using f(3) nth2[OF g(2)] g t0(9,11) by auto
    from parse_close_tag[OF f(1) t2(3) assms(3) f(2) b2(1,2), of uri] b2(3) obtain k3 t3 where
      t3: "k3 \<le> 4" "psteps uri k3 t2 t3" "ps_state t3 = TEXT" "ps_p t3 = q" "ps_heap t3 = ps_heap t2" "ps_ret t3 = Some r"
        "ps_previous t3 = Some ?b" by auto
    have "attrs_rep (Suc ?b) (ps_heap t2) (n_attributes n) (rev as)"
      using attrs_rep_frame[OF _ _ _ t0(13), of "Suc ?b" "ps_heap t2"] nth2 f(3) by (auto simp: g_def)
    moreover have "doc_rep (Suc ?b) (ps_heap t2) (Some (length g)) (rev_attrs ks)"
      using doc_rep_frame[OF _ _ _ f(4), of "Suc ?b" "ps_heap t2"] g(2) by auto
    ultimately have "node_rep (Suc ?b) (ps_heap t2) ?b (rev_node (X_elem nm as ks))"
      using nth2[OF g(2)] t0(8,9) by simp
    moreover have "ps_heap t2 = link_heap ?h r (ps_previous s) (Some ?b) @ n\<lparr>n_children := Some (length g)\<rparr> # (h2 @ h3)"
      using f(3) t0(7) by (simp add: g_def set_node_def list_update_append nth_append)
    ultimately have "one_node s r (X_elem nm as ks) t3"
      using t3 t0(12) by (auto simp: one_node_def Let_def)
    moreover have "k0 + (1 + (k2 + k3)) \<le> 2 * length (show_xml [X_elem nm as ks])"
      using t0(1) t2(1) t3(1) False show_attrs_length[of as] by simp
    ultimately show ?thesis using psteps_trans[OF t0(2) psteps_trans[OF t1(1) psteps_trans[OF t2(2) t3(2)]]] t3(4) by blast
  qed
qed

lemma peek_show_xml: "\<not> starts_text ts \<Longrightarrow> peek q = CHR ''<'' \<or> q = [] \<Longrightarrow>
    show_xml ts @ q = [] \<or> peek (show_xml ts @ q) = CHR ''<''"
  by (cases ts rule: show_xml.cases) auto

lemma one_node_state: "one_node s r x t \<Longrightarrow> ps_state t \<in> {TEXT, INIT}"
  by (cases x) (auto simp: one_node_def Let_def)

lemma parse_forest:
  assumes "wf_xml ts" "ready s r" "ps_state s \<in> {TEXT, INIT}" "starts_text ts \<longrightarrow> ps_state s = TEXT"
    "ps_p s = show_xml ts @ q" "peek q = CHR ''<'' \<or> q = []"
  shows "\<exists>k t. k \<le> 2 * length (show_xml ts) \<and> psteps uri k s t \<and> ps_p t = q \<and> forest_read s r ts t"
  using assms
proof (induction ts arbitrary: s r q rule: wf_xml.induct)
  case 1
  then show ?case by (intro exI[of _ 0] exI[of _ s]) (auto simp: psteps.refl forest_read_def Let_def)
next
  case (2 v ts)
  have q: "show_xml ts @ q = [] \<or> peek (show_xml ts @ q) = CHR ''<''" using peek_show_xml[of ts q] 2(2,7) by auto
  have p: "ps_p s = quote_text v @ (show_xml ts @ q)" using 2(6) by simp
  from parse_text_step[OF _ p q _ _ 2(3), of uri] 2(2,5) obtain t n where
    t: "psteps uri 1 s t" "ps_state t = INIT" "ps_p t = show_xml ts @ q" "ps_ret t = ps_ret s"
      "ps_previous t = Some (length (ps_heap s))"
      "ps_heap t = link_heap (ps_heap s) r (ps_previous s) (Some (length (ps_heap s))) @ [n]"
      "n_type n = TEXT_NODE" "n_content n = Some v" "n_flags n = 0" "n_next n = None" by auto
  have one: "one_node s r (X_text v) t"
    using t 2(3) by (simp add: one_node_def ready_def nth_append)
  from 2(1)[OF _ ready_after[OF 2(3) one] _ _ t(3) 2(7)] 2(2) t(2) obtain k u where
    u: "k \<le> 2 * length (show_xml ts)" "psteps uri k t u" "ps_p u = q" "forest_read t r ts u" by auto
  have "v \<noteq> []" using 2(2) by simp
  then have "1 + k \<le> 2 * length (show_xml (X_text v # ts))" using u(1) quote_text_Nil[of v]
    by (cases "quote_text v") (auto simp del: quote_text_Nil quote_text_simps)
  with psteps_trans[OF t(1) u(2)] u(3) forest_read_Cons[OF 2(3) one u(4)] show ?case by blast
next
  case (3 nm as ks ts)
  have p: "ps_p s = show_xml [X_elem nm as ks] @ (show_xml ts @ q)" using 3(7) by simp
  have IH: "\<exists>k t. k \<le> 2 * length (show_xml ks) \<and> psteps uri k s' t \<and> ps_p t = q' \<and> forest_read s' r' ks t"
    if "ready s' r'" "ps_state s' = TEXT" "ps_p s' = show_xml ks @ q'" "peek q' = CHR ''<''" for s' r' q'
    by (rule 3(1)) (use that 3(3) in simp_all)
  have "xname_ok nm" "list_all (\<lambda>(a, v). xname_ok a \<and> printable_text v) as" using 3(3) by simp_all
  from parse_element[OF 3(5) p this 3(4) IH] obtain k t where
    t: "k \<le> 2 * length (show_xml [X_elem nm as ks])" "psteps uri k s t" "ps_p t = show_xml ts @ q"
      "one_node s r (X_elem nm as ks) t" by blast
  have "ps_state t = TEXT" using t(4) by (simp add: one_node_def Let_def)
  with 3(2)[OF _ ready_after[OF 3(4) t(4)] one_node_state[OF t(4)] _ t(3) 3(8)] 3(3) obtain k' u where
    u: "k' \<le> 2 * length (show_xml ts)" "psteps uri k' t u" "ps_p u = q" "forest_read t r ts u" by auto
  have "k + k' \<le> 2 * length (show_xml (X_elem nm as ks # ts))" using t(1) u(1) by simp
  with psteps_trans[OF t(2) u(2)] u(3) forest_read_Cons[OF 3(4) t(4) u(4)] show ?case by blast
qed

subsection \<open>Whole documents\<close>

text \<open>A forest is determined by its heap and its first node, so no path meets a node twice.\<close>

lemma attrs_rep_unique: "attrs_rep lo h p as \<Longrightarrow> attrs_rep lo h p as' \<Longrightarrow> as = as'"
proof (induction as arbitrary: p as')
  case Nil
  then show ?case by (cases as') auto
next
  case (Cons nv as)
  obtain n v where nv: "nv = (n, v)" by fastforce
  from Cons.prems nv obtain n' v' bs where "as' = (n', v') # bs" by (cases as') auto
  with Cons nv show ?case by auto
qed

lemma doc_rep_unique: "doc_rep lo h p ts \<Longrightarrow> doc_rep lo h p ts' \<Longrightarrow> ts = ts'"
proof (induction ts arbitrary: p ts' rule: rev_attrs.induct)
  case 1
  then show ?case by (simp add: doc_rep_None)
next
  case (2 s ts)
  from 2(3) show ?case using 2(1,2) by (cases ts' rule: rev_attrs.cases) auto
next
  case (3 n as ks ts)
  from 3(4) show ?case using 3(1-3) by (cases ts' rule: rev_attrs.cases) (auto dest: attrs_rep_unique)
qed

fun xml_count :: "xml list \<Rightarrow> nat" where
  "xml_count [] = 0"
| "xml_count (X_text s # ts) = Suc (xml_count ts)"
| "xml_count (X_elem n as ks # ts) = Suc (xml_count ks + xml_count ts)"

lemma doc_rep_path:
  "doc_rep lo h p ts \<Longrightarrow> \<exists>xs. length xs = xml_depth ts \<and> distinct xs \<and>
    (\<forall>x\<in>set xs. x < length h \<and> (\<exists>us. doc_rep lo h (Some x) us \<and> xml_count us \<le> xml_count ts))"
proof (induction ts arbitrary: p rule: rev_attrs.induct)
  case (2 s ts)
  then obtain a where a: "p = Some a" "a < length h" "doc_rep lo h (n_next (h ! a)) ts" by auto
  from 2(1)[OF a(3)] obtain xs where xs: "length xs = xml_depth ts" "distinct xs"
    "\<forall>x\<in>set xs. x < length h \<and> (\<exists>us. doc_rep lo h (Some x) us \<and> xml_count us \<le> xml_count ts)" by blast
  have "a \<notin> set xs"
    using xs(3) doc_rep_unique[OF 2(2), unfolded a(1)] by fastforce
  moreover have "doc_rep lo h (Some a) (X_text s # ts)" using 2(2) a(1) by simp
  ultimately show ?case using xs a(2) by (intro exI[of _ "a # xs"]) (auto intro: le_SucI simp del: doc_rep.simps)
next
  case (3 n as ks ts)
  then obtain a where a: "p = Some a" "a < length h" "doc_rep lo h (n_children (h ! a)) ks" "doc_rep lo h (n_next (h ! a)) ts" by auto
  from 3(1)[OF a(3)] 3(2)[OF a(4)] obtain xs where xs: "length xs = max (xml_depth ks) (xml_depth ts)" "distinct xs"
    "\<forall>x\<in>set xs. x < length h \<and> (\<exists>us. doc_rep lo h (Some x) us \<and> xml_count us \<le> xml_count ks + xml_count ts)"
    by (metis max_def trans_le_add1 trans_le_add2)
  have "a \<notin> set xs"
    using xs(3) doc_rep_unique[OF 3(3), unfolded a(1)] by fastforce
  moreover have "doc_rep lo h (Some a) (X_elem n as ks # ts)" using 3(3) a(1) by simp
  ultimately show ?case using xs a(2) by (intro exI[of _ "a # xs"]) (auto intro: le_SucI simp del: doc_rep.simps)
qed simp

lemma doc_rep_depth: "doc_rep lo h p ts \<Longrightarrow> xml_depth ts \<le> length h - lo"
proof -
  assume "doc_rep lo h p ts"
  from doc_rep_path[OF this] obtain xs where xs: "length xs = xml_depth ts" "distinct xs"
    "\<forall>x\<in>set xs. x < length h \<and> (\<exists>us. doc_rep lo h (Some x) us)" by blast
  have "lo \<le> x" if "doc_rep lo h (Some x) us" for x us using that by (cases us rule: rev_attrs.cases) auto
  with xs(3) have "set xs \<subseteq> {lo..<length h}" unfolding subset_iff atLeastLessThan_iff by blast
  from card_mono[OF _ this] xs(1,2) show ?thesis by (simp add: distinct_card)
qed

text \<open>Numbering changes positions only.\<close>

definition same_but_positions :: "heap \<Rightarrow> heap \<Rightarrow> bool" where
  "same_but_positions h h' \<longleftrightarrow> map (\<lambda>n. n\<lparr>n_position := 0\<rparr>) h = map (\<lambda>n. n\<lparr>n_position := 0\<rparr>) h'"

lemma same_but_positions_length: "same_but_positions h h' \<Longrightarrow> length h' = length h"
  unfolding same_but_positions_def by (metis length_map)

lemma same_but_positions_nth:
  assumes "same_but_positions h h'" "i < length h"
  shows "n_type (h' ! i) = n_type (h ! i) \<and> n_flags (h' ! i) = n_flags (h ! i) \<and> n_name (h' ! i) = n_name (h ! i) \<and>
    n_content (h' ! i) = n_content (h ! i) \<and> n_next (h' ! i) = n_next (h ! i) \<and> n_children (h' ! i) = n_children (h ! i) \<and>
    n_attributes (h' ! i) = n_attributes (h ! i) \<and> n_parent (h' ! i) = n_parent (h ! i) \<and> n_prev (h' ! i) = n_prev (h ! i)"
proof -
  have "(h ! i)\<lparr>n_position := 0\<rparr> = (h' ! i)\<lparr>n_position := 0\<rparr>"
    using assms same_but_positions_length[OF assms(1)] unfolding same_but_positions_def by (metis nth_map)
  then show ?thesis by (cases "h ! i"; cases "h' ! i") simp
qed

lemma attrs_rep_positions: "same_but_positions h h' \<Longrightarrow> attrs_rep lo h p as \<Longrightarrow> attrs_rep lo h' p as"
  by (induction as arbitrary: p) (auto simp: same_but_positions_nth same_but_positions_length)

lemma doc_rep_positions: "same_but_positions h h' \<Longrightarrow> doc_rep lo h p ts \<Longrightarrow> doc_rep lo h' p ts"
  by (induction ts arbitrary: p rule: rev_attrs.induct)
    (auto simp: same_but_positions_nth same_but_positions_length attrs_rep_positions)

lemma renumber_children_rep:
  "doc_rep lo h p ts \<Longrightarrow> xml_depth ts \<le> k \<Longrightarrow> \<exists>h'. renumber_children k pos h p = Some h' \<and> same_but_positions h h'"
proof (induction ts arbitrary: h p k pos rule: rev_attrs.induct)
  case 1
  then show ?case by (simp add: same_but_positions_def)
next
  case (2 s ts)
  then obtain k' a where k: "k = Suc k'" "p = Some a" "a < length h" "n_type (h ! a) = TEXT_NODE" by (cases k) auto
  from 2 k have "doc_rep lo h (n_next (h ! a)) ts" "xml_depth ts \<le> k'" by auto
  from 2(1)[OF this] k show ?case by simp
next
  case (3 n as ks ts)
  then obtain k' a where k: "k = Suc k'" "p = Some a" "a < length h" "n_type (h ! a) = ELEMENT_NODE" by (cases k) auto
  let ?h1 = "set_node h a (\<lambda>m. m\<lparr>n_position := pos\<rparr>)"
  have s1: "same_but_positions h ?h1" using k(3) by (auto simp: same_but_positions_def intro: nth_equalityI)
  from 3(3) k have "doc_rep lo h (n_children (h ! a)) ks" "doc_rep lo h (n_next (h ! a)) ts" by auto
  from this[THEN doc_rep_positions[OF s1]] have d: "doc_rep lo ?h1 (n_children (h ! a)) ks" "doc_rep lo ?h1 (n_next (h ! a)) ts" .
  from 3(1)[OF d(1), of k' 1] 3(4) k(1) obtain h2 where
    h2: "renumber_children k' 1 ?h1 (n_children (h ! a)) = Some h2" "same_but_positions ?h1 h2" by auto
  have s2: "same_but_positions h h2" using s1 h2(2) by (simp add: same_but_positions_def)
  from 3(2)[OF doc_rep_positions[OF h2(2) d(2)], of k' "pos + 1"] 3(4) k(1) obtain h3 where
    h3: "renumber_children k' (pos + 1) h2 (n_next (h ! a)) = Some h3" "same_but_positions h2 h3" by auto
  have "same_but_positions h h3" using s2 h3(2) by (simp add: same_but_positions_def)
  with k h2(1) h3(1) same_but_positions_nth[OF s2 k(3)] same_but_positions_length[OF s2] show ?case by simp
qed

text \<open>A document: an \<open>EMPTY_NODE\<close> root whose children are the forest.\<close>

definition document_rep :: "heap \<Rightarrow> ref option \<Rightarrow> xml list \<Rightarrow> bool" where
  "document_rep h p ts \<longleftrightarrow> (\<exists>a. p = Some a \<and> a < length h \<and> n_type (h ! a) = EMPTY_NODE \<and> n_next (h ! a) = None \<and>
     doc_rep 0 h (n_children (h ! a)) ts)"

lemma document_output:
  assumes "document_rep h p ts" "o_mode ctx = MODE_XML" "o_doctype_public ctx = None" "o_rawout ctx = 0" "length h < k"
  shows "XMLOutput k ctx h p = Some (xml_declaration ctx @ show_xml ts)"
proof -
  from assms(1) obtain a where a: "p = Some a" "a < length h" "n_type (h ! a) = EMPTY_NODE" "n_next (h ! a) = None"
    "doc_rep 0 h (n_children (h ! a)) ts" by (auto simp: document_rep_def)
  from assms(5) obtain k' where k: "k = Suc k'" "length h \<le> k'" by (cases k) auto
  have "output_node_rec k' MODE_XML h None r 0 = Some (r, 0)" for r by (cases k') auto
  with a k assms(2-4) output_node_rec_rep[OF a(5), of k'] doc_rep_depth[OF a(5)] show ?thesis
    by (simp add: XMLOutput_def)
qed

lemma skip_declaration:
  assumes "ps_state s = INIT" "ps_p s = xml_declaration ctx @ x" "o_mode ctx = MODE_XML" "ps_ret s \<noteq> None"
  shows "\<exists>k t. k \<le> 2 * length (xml_declaration ctx) \<and> psteps uri k s t \<and> ps_state t = INIT \<and> ps_p t = x \<and>
    ps_heap t = ps_heap s \<and> ps_ret t = ps_ret s \<and> ps_previous t = ps_previous s"
proof (cases "o_omit_desc ctx")
  case True
  then show ?thesis using assms by (intro exI[of _ 0] exI[of _ s]) (simp add: xml_declaration_def psteps.refl)
next
  case False
  define y where "y = CHR 0x0A # x"
  define d where "d = tl (tl (xml_declaration ctx @ x))"
  have p: "ps_p s = CHR ''<'' # CHR ''?'' # d"
    using assms False by (simp add: xml_declaration_def d_def)
  have skip: "skip_past ''?>'' d = Some y"
    using assms(3) False by (cases "o_encoding ctx"; cases "o_standalone ctx")
      (simp_all add: xml_declaration_def d_def y_def starts_with_def)
  let ?t1 = "s\<lparr>ps_p := CHR ''?'' # d, ps_state := OPEN\<rparr>" and ?t2 = "s\<lparr>ps_p := d, ps_state := XMLDECL\<rparr>"
  let ?t3 = "s\<lparr>ps_p := y, ps_state := INIT\<rparr>" and ?t4 = "s\<lparr>ps_p := x, ps_ln := ps_ln s + 1, ps_state := INIT\<rparr>"
  have "d \<noteq> []" using skip by auto
  have "psteps uri 1 s ?t1" using assms(1,4) p by (intro psteps_one) (auto simp: parse_step_def newline_def)
  moreover have "psteps uri 1 ?t1 ?t2" using assms(4) by (intro psteps_one) (auto simp: parse_step_def parse_open_def)
  moreover have "psteps uri 1 ?t2 ?t3" using skip assms(4) \<open>d \<noteq> []\<close> by (intro psteps_one) (auto simp: parse_step_def)
  moreover have "psteps uri 1 ?t3 ?t4" using assms(4) by (intro psteps_one) (auto simp: parse_step_def newline_def y_def)
  ultimately have "psteps uri (1 + (1 + (1 + 1))) s ?t4" by (meson psteps_trans)
  moreover have "1 + (1 + (1 + 1)) \<le> 2 * length (xml_declaration ctx)" using assms(3) False by (simp add: xml_declaration_def)
  ultimately show ?thesis by (intro exI[of _ "1 + (1 + (1 + 1))"] exI[of _ ?t4]) simp
qed

lemma do_parse_document:
  assumes "wf_xml ts" "ts \<noteq> []" "\<not> starts_text ts" "o_mode ctx = MODE_XML" "2 * length (xml_declaration ctx @ show_xml ts) < k"
  shows "\<exists>h1 h3. do_parse k (xml_declaration ctx @ show_xml ts) uri h = Some (Some (length h), h1) \<and>
    renumber_children (length h1) 1 h1 (Some (length h)) = Some h3 \<and> document_rep h3 (Some (length h)) (rev_attrs ts) \<and>
    n_name (h3 ! length h) = Some xsl_s_root \<and> xml_declaration ctx @ show_xml ts \<noteq> [] \<and> (lo \<le> length h \<longrightarrow> nodes_ok lo h \<longrightarrow> nodes_ok lo h3) \<and>
    n_children (h3 ! length h) = Some (Suc (length h)) \<and> doc_rep (Suc (length h)) h3 (Some (Suc (length h))) (rev_attrs ts) \<and>
    length h3 = length h1 \<and> same_but_positions h (take (length h) h3)"
proof -
  define doc where "doc = xml_declaration ctx @ show_xml ts"
  define r where "r = length h"
  obtain n0 where n0: "xml_new_node h (Some xsl_s_root) EMPTY_NODE = (r, h @ [n0])" "n_type n0 = EMPTY_NODE" "n_next n0 = None"
      "n_parent n0 = None" "n_name n0 = Some xsl_s_root"
    by (simp add: xml_new_node_def r_def null_node_def)
  let ?n = "n0\<lparr>n_file := uri\<rparr>"
  let ?s = "\<lparr>ps_heap = h @ [?n], ps_ret = Some r, ps_current = None, ps_attr = None, ps_previous = None,
    ps_p = doc, ps_c = [], ps_depth = 0, ps_ln = 0, ps_state = INIT\<rparr>"
  from skip_declaration[of ?s ctx "show_xml ts" uri] assms(4) obtain k1 t1 where
    t1: "k1 \<le> 2 * length (xml_declaration ctx)" "psteps uri k1 ?s t1" "ps_state t1 = INIT" "ps_p t1 = show_xml ts @ []"
      "ps_heap t1 = h @ [?n]" "ps_ret t1 = Some r" "ps_previous t1 = None" by (auto simp: doc_def)
  have "ready t1 r" using t1 by (simp add: ready_def r_def)
  from parse_forest[OF assms(1) this _ _ t1(4), of uri] t1(3) assms(3) obtain k2 t where
    t: "k2 \<le> 2 * length (show_xml ts)" "psteps uri k2 t1 t" "ps_p t = []" "forest_read t1 r ts t" by auto
  define h1 where "h1 = ps_heap t"
  from t(4) assms(2) t1(5,7) obtain h2 where f: "ps_state t \<in> {TEXT, INIT}" "ps_ret t = Some r"
    "h1 = set_node (h @ [?n]) r (\<lambda>n. n\<lparr>n_children := Some (Suc r)\<rparr>) @ h2" "doc_rep (Suc r) h1 (Some (Suc r)) (rev_attrs ts)"
    by (auto simp: forest_read_def Let_def link_heap_def ready_def r_def h1_def)
  from psteps_loop[OF psteps_trans[OF t1(2) t(2)], of "k - (k1 + k2)"] assms(5) t(1) t1(1)
  have "parse_loop k uri ?s = parse_loop (Suc (k - Suc (k1 + k2))) uri t"
    by (simp add: Suc_diff_Suc)
  then have "parse_loop k uri ?s = Some (Some r, h1)" using f(1,2) t(3) by (auto simp: h1_def)
  then have dp: "do_parse k doc uri h = Some (Some r, h1)"
    by (simp add: do_parse_def n0(1) r_def)
  have root: "r < length h1" "h1 ! r = ?n\<lparr>n_children := Some (Suc r)\<rparr>" using f(3) by (simp_all add: r_def nth_append)
  obtain k' where k': "length h1 = Suc k'" using root(1) by (cases "length h1") auto
  let ?h2 = "set_node h1 r (\<lambda>m. m\<lparr>n_position := 1\<rparr>)"
  have s1: "same_but_positions h1 ?h2" using root(1) by (auto simp: same_but_positions_def intro: nth_equalityI)
  have "xml_depth (rev_attrs ts) \<le> k'" using doc_rep_depth[OF f(4)] k' by simp
  from renumber_children_rep[OF doc_rep_positions[OF s1 f(4)] this, of 1] obtain h3 where
    h3: "renumber_children k' 1 ?h2 (Some (Suc r)) = Some h3" "same_but_positions ?h2 h3" by blast
  have s3: "same_but_positions h1 h3" using s1 h3(2) by (simp add: same_but_positions_def)
  have nxt: "renumber_children k' q g None = Some g" for q g by (cases k') auto
  have "renumber_children (length h1) 1 h1 (Some r) = Some h3"
    using root n0(2,3) h3(1) nxt same_but_positions_nth[OF s3 root(1)] same_but_positions_length[OF s3] by (simp add: k')
  moreover have "doc \<noteq> []" using assms(2) by (cases ts rule: show_xml.cases) (use assms(3) in \<open>auto simp: doc_def\<close>)
  moreover have "document_rep h3 (Some r) (rev_attrs ts)"
    using doc_rep_frame[OF _ _ _ doc_rep_positions[OF s3 f(4)], of 0 h3] same_but_positions_nth[OF s3 root(1)]
      same_but_positions_length[OF s3] root n0(2,3) by (simp add: document_rep_def)
  moreover have "n_name (h3 ! r) = Some xsl_s_root"
    using same_but_positions_nth[OF s3 root(1)] root(2) n0(5) by simp
  moreover have "nodes_ok lo h3" if "lo \<le> length h" "nodes_ok lo h"
  proof -
    have "node_ok lo h ?n" using n0(2,4) by (simp add: node_ok_def elem_ptr_def)
    from nodes_ok_snoc[OF that(2) this] that(1) n0(2) have "pstate_ok lo ?s"
      by (simp add: pstate_ok_def elem_ptr_def r_def nth_append)
    from psteps_ok[OF psteps_trans[OF t1(2) t(2)] this] have "nodes_ok lo h1" by (simp add: pstate_ok_def h1_def)
    then show ?thesis
      by (rule nodes_ok_fields[OF _ same_but_positions_length[OF s3]]) (use same_but_positions_nth[OF s3] in auto)
  qed
  moreover have "n_children (h3 ! r) = Some (Suc r)" "doc_rep (Suc r) h3 (Some (Suc r)) (rev_attrs ts)" "length h3 = length h1"
    using same_but_positions_nth[OF s3 root(1)] root(2) doc_rep_positions[OF s3 f(4)] same_but_positions_length[OF s3] by simp_all
  moreover have "same_but_positions h (take r h3)"
  proof -
    have "take r h1 = h" using f(3) by (simp add: r_def set_node_def)
    with s3 show ?thesis unfolding same_but_positions_def by (metis take_map)
  qed
  ultimately show ?thesis using dp unfolding doc_def r_def by blast
qed

lemma parse_document:
  assumes "wf_xml ts" "ts \<noteq> []" "\<not> starts_text ts" "o_mode ctx = MODE_XML" "2 * length (xml_declaration ctx @ show_xml ts) < k"
  shows "\<exists>p h'. xml_parse_string k (Some (xml_declaration ctx @ show_xml ts)) h = Some (p, h') \<and> document_rep h' p (rev_attrs ts)"
proof -
  from do_parse_document[OF assms, of "Some ''(string)''" h 0] obtain h1 h3 where
    "do_parse k (xml_declaration ctx @ show_xml ts) (Some ''(string)'') h = Some (Some (length h), h1)"
    "renumber_children (length h1) 1 h1 (Some (length h)) = Some h3" "document_rep h3 (Some (length h)) (rev_attrs ts)"
    "xml_declaration ctx @ show_xml ts \<noteq> []" by blast
  then show ?thesis by (auto simp: xml_parse_string_def)
qed

text \<open>A file read for a stylesheet; its nodes are well formed.\<close>

lemma parse_file_document:
  assumes "wf_xml ts" "ts \<noteq> []" "\<not> starts_text ts" "o_mode ctx = MODE_XML" "2 * length (xml_declaration ctx @ show_xml ts) < k"
    "files f = Some (xml_declaration ctx @ show_xml ts)" "cstr_of (xml_declaration ctx @ show_xml ts) = xml_declaration ctx @ show_xml ts"
    "lo \<le> length h" "nodes_ok lo h"
  shows "\<exists>h'. xml_parse_file k files allocator (Some f) h = Some (Some (length h), h') \<and>
    document_rep h' (Some (length h)) (rev_attrs ts) \<and> n_name (h' ! length h) = Some xsl_s_root \<and> nodes_ok lo h'"
proof -
  from do_parse_document[OF assms(1-5), of "Some f" h lo] assms(8,9) obtain h1 h3 where
    "do_parse k (xml_declaration ctx @ show_xml ts) (Some f) h = Some (Some (length h), h1)"
    "renumber_children (length h1) 1 h1 (Some (length h)) = Some h3" "document_rep h3 (Some (length h)) (rev_attrs ts)"
    "xml_declaration ctx @ show_xml ts \<noteq> []" "n_name (h3 ! length h) = Some xsl_s_root" "nodes_ok lo h3" by blast
  then show ?thesis using assms(6,7) by (auto simp: xml_parse_file_def)
qed

text \<open>
  C3: a document that is printed as XML and parsed again is the same tree of elements, attributes
  and texts, the attributes of each element in reverse order; printing and parsing return within fuel linear in
  the number of nodes and in the length of the text.
\<close>

theorem output_parse_roundtrip:
  assumes "document_rep h p ts" "wf_xml ts" "ts \<noteq> []" "\<not> starts_text ts"
    "o_mode ctx = MODE_XML" "o_doctype_public ctx = None" "o_rawout ctx = 0" "length h < k"
  shows "\<exists>s. XMLOutput k ctx h p = Some s \<and>
    (\<forall>k' h0. 2 * length s < k' \<longrightarrow> (\<exists>p' h'. xml_parse_string k' (Some s) h0 = Some (p', h') \<and> document_rep h' p' (rev_attrs ts)))"
  using document_output[OF assms(1,5-8)] parse_document[OF assms(2-5)] by (intro exI[of _ "xml_declaration ctx @ show_xml ts"]) blast

definition sample_doc :: heap where
  "sample_doc =
     [null_node\<lparr>n_type := EMPTY_NODE, n_children := Some 1\<rparr>,
      null_node\<lparr>n_type := ELEMENT_NODE, n_name := Some ''a'', n_attributes := Some 2, n_children := Some 3\<rparr>,
      null_node\<lparr>n_type := ATTRIBUTE_NODE, n_name := Some ''x'', n_content := Some ''1<2''\<rparr>,
      null_node\<lparr>n_type := TEXT_NODE, n_content := Some ''b & c'', n_next := Some 4\<rparr>,
      null_node\<lparr>n_type := ELEMENT_NODE, n_name := Some ''d''\<rparr>]"

definition sample_context :: out_context where
  "sample_context = \<lparr>o_mode = MODE_XML, o_omit_desc = False, o_standalone = True, o_encoding = None,
     o_doctype_public = None, o_doctype_system = None, o_rawout = 0\<rparr>"

definition sample_tree :: "xml list" where
  "sample_tree = [X_elem ''a'' [(''x'', ''1<2'')] [X_text ''b & c'', X_elem ''d'' [] []]]"

theorem output_parse_roundtrip_witness:
  "\<exists>s. XMLOutput 6 sample_context sample_doc (Some 0) = Some s \<and>
    (\<forall>k' h0. 2 * length s < k' \<longrightarrow> (\<exists>p' h'. xml_parse_string k' (Some s) h0 = Some (p', h') \<and> document_rep h' p' (rev_attrs sample_tree)))"
proof (rule output_parse_roundtrip)
  show "document_rep sample_doc (Some 0) sample_tree"
    by (simp add: document_rep_def sample_doc_def sample_tree_def null_node_def)
  show "wf_xml sample_tree"
    by (simp add: sample_tree_def xname_ok_def can_name_def char_between_def)
qed (simp_all add: sample_tree_def sample_context_def sample_doc_def)

subsection \<open>Malformed documents\<close>

text \<open>
  Inside a tag, a character that is no name character, white space, equals sign or end of the tag is never passed: the
  name in front of it, maybe an empty one, becomes an attribute without a value, and the machine stays at the character.
\<close>

lemma inside_tag_name:
  assumes "\<not> can_name c" "\<not> x_is_ws c" "c \<notin> {CHR ''>'', CHR ''='', NUL}" "\<not> starts_with ''/>'' (c # q)" "list_all can_name part"
    and "ps_state s = INSIDE_TAG" "ps_p s = part @ c # q" "ps_current s = Some a" "a < length (ps_heap s)"
  shows "\<exists>t. parse_inside_tag uri s = Some (Parse_Step t) \<and> ps_state t = INSIDE_TAG \<and> ps_p t = c # q \<and> ps_current t = Some a \<and>
    a < length (ps_heap t)"
proof -
  have p: "peek (part @ c # q) \<noteq> CHR ''>''" "\<not> starts_with ''/>'' (part @ c # q)" "\<not> x_is_ws (peek (part @ c # q))"
    using assms(1-5) can_name_props by (cases part; auto simp: starts_with_def can_name_def char_between_def is_digit_char_def)+
  then have nl: "newline (part @ c # q) = 0" by (cases "part @ c # q") (auto simp: newline_def x_is_ws_def)
  have sk: "skip_spaces (part @ c # q) l = (part @ c # q, l)" "skip_spaces (c # q) l = (c # q, l)" for l
    using p(3) assms(2) by (cases part; simp)+
  have sp: "takeWhile can_name (part @ c # q) = part" "dropWhile can_name (part @ c # q) = c # q"
    using assms(1,5) by (induction part) auto
  have [simp]: "upd (ps_heap s @ [y]) (Some (length (ps_heap s))) f = Some (ps_heap s @ [f y])" for y f by simp
  from assms p nl sk sp show ?thesis by (simp add: parse_inside_tag_def xml_new_node_def Let_def)
qed

lemma inside_tag_stuck:
  assumes "\<not> can_name c" "\<not> x_is_ws c" "c \<notin> {CHR ''>'', CHR ''='', NUL}" "\<not> starts_with ''/>'' (c # q)"
  shows "list_all can_name part \<Longrightarrow> ps_state s = INSIDE_TAG \<Longrightarrow> ps_p s = part @ c # q \<Longrightarrow> ps_current s = Some a \<Longrightarrow>
    a < length (ps_heap s) \<Longrightarrow> parse_loop k uri s = None"
proof (induction k arbitrary: s part)
  case (Suc k)
  from inside_tag_name[OF assms Suc.prems, of uri] obtain t where t: "parse_inside_tag uri s = Some (Parse_Step t)"
    "ps_state t = INSIDE_TAG" "ps_p t = c # q" "ps_current t = Some a" "a < length (ps_heap t)" by blast
  with Suc.IH[of "[]" t] Suc.prems show ?case by (simp add: parse_step_def)
qed simp

lemma psteps_stuck: "psteps uri n s t \<Longrightarrow> (\<And>k. parse_loop k uri t = None) \<Longrightarrow> parse_loop k uri s = None"
proof (induction arbitrary: k rule: psteps.induct)
  case (step s t n u)
  then show ?case by (cases k) simp_all
qed

text \<open>A document that begins with a start tag: after two steps the machine is inside the tag.\<close>

lemma do_parse_start_tag:
  assumes "xname_ok nm" "\<not> can_name (peek q)"
  shows "\<exists>t. (\<forall>k. do_parse (Suc (Suc k)) (CHR ''<'' # nm @ q) uri h = parse_loop k uri t) \<and>
    ps_state t = INSIDE_TAG \<and> ps_p t = dropWhile x_is_ws q \<and> ps_current t = Some (length h + 1) \<and>
    length (ps_heap t) = length h + 2 \<and> n_name (ps_heap t ! (length h + 1)) = Some nm \<and>
    n_parent (ps_heap t ! (length h + 1)) = Some (length h) \<and> n_attributes (ps_heap t ! (length h + 1)) = None \<and>
    ps_ret t = Some (length h)"
proof -
  let ?r = "length h"
  obtain n0 where n0: "xml_new_node h (Some xsl_s_root) EMPTY_NODE = (?r, h @ [n0])" by (simp add: xml_new_node_def)
  let ?s = "\<lparr>ps_heap = h @ [n0\<lparr>n_file := uri\<rparr>], ps_ret = Some ?r, ps_current = None, ps_attr = None, ps_previous = None,
      ps_p = CHR ''<'' # nm @ q, ps_c = [], ps_depth = 0, ps_ln = 0, ps_state = INIT\<rparr>"
  have "ready ?s ?r" by (simp add: ready_def)
  from parse_open_step[OF _ _ assms this, of uri] obtain t n where t: "psteps uri 2 ?s t" "ps_state t = INSIDE_TAG"
    "ps_p t = dropWhile x_is_ws q" "ps_current t = Some (?r + 1)" "ps_ret t = Some ?r"
    "ps_heap t = set_node (h @ [n0\<lparr>n_file := uri\<rparr>]) ?r (\<lambda>m. m\<lparr>n_children := Some (?r + 1)\<rparr>) @ [n]"
    "n_name n = Some nm" "n_parent n = Some ?r" "n_attributes n = None"
    by (auto simp: link_heap_def)
  from psteps_loop[OF t(1)] have "do_parse (Suc (Suc k)) (CHR ''<'' # nm @ q) uri h = parse_loop k uri t" for k
    by (simp add: do_parse_def n0 numeral_2_eq_2)
  with t show ?thesis by (intro exI[of _ t]) (auto simp: nth_append)
qed

text \<open>
  C37: A start tag that is never left. Behind the name of the first element and any number of printed attributes stand a
  blank, the characters of a name, maybe none, and a character that is no name character, no white space, no equals sign,
  not the end of the text and does not begin the end of the tag (\<open>>\<close> or \<open>/>\<close>): then no amount of fuel lets the parser
  return. An attribute with a full stop in its name is such a tag.
\<close>

theorem inside_tag_never_returns:
  assumes "xname_ok nm" "list_all (\<lambda>(a, v). xname_ok a \<and> printable_text v) as" "list_all can_name part"
    and "\<not> can_name c" "\<not> x_is_ws c" "c \<notin> {CHR ''>'', CHR ''='', NUL}" "\<not> starts_with ''/>'' (c # q)"
  shows "xml_parse_string k (Some (''<'' @ nm @ show_attrs as @ '' '' @ part @ c # q)) h = None"
proof -
  let ?q = "CHR '' '' # part @ c # q" and ?u = "Some ''(string)''"
  have "\<not> can_name (peek (show_attrs as @ ?q))" by (cases as) (auto simp: show_attr_def)
  from do_parse_start_tag[OF assms(1) this, of ?u h] obtain t where
    t: "\<forall>k. do_parse (Suc (Suc k)) (CHR ''<'' # nm @ show_attrs as @ ?q) ?u h = parse_loop k ?u t"
      "ps_state t = INSIDE_TAG" "ps_p t = dropWhile x_is_ws (show_attrs as @ ?q)" "ps_current t = Some (length h + 1)"
      "length (ps_heap t) = length h + 2" "n_attributes (ps_heap t ! (length h + 1)) = None" "ps_ret t = Some (length h)" by auto
  from parse_attrs_ws[OF t(2,3) assms(2) t(4), of "length h + 2" "[]" ?u] t(5-7) obtain u where
    u: "psteps ?u (2 * length as) t u" "ps_state u = INSIDE_TAG" "ps_p u = dropWhile x_is_ws ?q" "ps_current u = Some (length h + 1)"
      "length h + 1 < length (ps_heap u)" by auto
  have "ps_p u = part @ c # q" using u(3) assms(3,5) can_name_props by (cases part) (auto simp: x_is_ws_def)
  from inside_tag_stuck[OF assms(4-7,3) u(2) this u(4,5)] have "parse_loop k ?u u = None" for k .
  then have "parse_loop k ?u t = None" for k by (rule psteps_stuck[OF u(1)])
  with t(1) have "do_parse k (CHR ''<'' # nm @ show_attrs as @ ?q) ?u h = None"
    by (cases k rule: nat.exhaust[case_names 0 Suc]; cases "k - 1") (auto simp: do_parse_def xml_new_node_def parse_step_def)
  then show ?thesis by (simp add: xml_parse_string_def)
qed

text \<open>The tag \<open><a x="1" attr.name="b">\<close>.\<close>

theorem inside_tag_never_returns_witness:
  "\<forall>k. xml_parse_string k (Some (''<a x='' @ CHR 0x22 # ''1'' @ CHR 0x22 # '' attr.name='' @ CHR 0x22 # ''b'' @ CHR 0x22 # ''></a>'')) [] = None"
proof
  fix k
  show "xml_parse_string k (Some (''<a x='' @ CHR 0x22 # ''1'' @ CHR 0x22 # '' attr.name='' @ CHR 0x22 # ''b'' @ CHR 0x22 # ''></a>'')) [] = None"
    using inside_tag_never_returns[of "''a''" "[(''x'', ''1'')]" "''attr''" "CHR ''.''" "''name='' @ CHR 0x22 # ''b'' @ CHR 0x22 # ''></a>''" k "[]"]
    by (simp add: xname_ok_def can_name_def char_between_def is_digit_char_def x_is_ws_def starts_with_def show_attr_def)
qed

text \<open>
  C38: a closing tag is accepted exactly when its name is a prefix of the name of the open element;
  otherwise the parser returns NULL.
\<close>

theorem closing_tag_prefix:
  assumes "xname_ok nm" "xname_ok cl" "8 \<le> k"
  shows "\<exists>p h'. do_parse k (''<'' @ nm @ ''></'' @ cl @ ''>'') uri h = Some (p, h') \<and> (p = None \<longleftrightarrow> \<not> starts_with cl nm)"
proof -
  let ?d = "CHR ''<'' # nm @ ''></'' @ cl @ ''>''" and ?r = "length h"
  from do_parse_start_tag[OF assms(1), of "''></'' @ cl @ ''>''" uri h] obtain t where
    t: "\<forall>k. do_parse (Suc (Suc k)) ?d uri h = parse_loop k uri t" "ps_state t = INSIDE_TAG" "ps_p t = ''>'' @ (''</'' @ cl @ ''>'')"
      "ps_current t = Some (?r + 1)" "length (ps_heap t) = ?r + 2" "n_name (ps_heap t ! (?r + 1)) = Some nm"
      "n_parent (ps_heap t ! (?r + 1)) = Some ?r" "ps_ret t = Some ?r"
    by (auto simp: x_is_ws_def)
  from parse_tag_end[OF t(2,3), of uri] t(4,8) obtain t1 where
    t1: "psteps uri 1 t t1" "ps_state t1 = TEXT" "ps_p t1 = CHR ''<'' # CHR ''/'' # cl @ ''>''" "ps_heap t1 = ps_heap t"
      "ps_ret t1 = Some (?r + 1)" by auto
  from xname_ok_cases[OF assms(2)] obtain c r where cl: "cl = c # r" "can_name c" by metis
  note ws = can_name_props[OF cl(2)]
  have sp: "takeWhile can_name (cl @ ''>'') = cl" "dropWhile can_name (cl @ ''>'') = ''>''"
    using span_name[of cl "''>''"] assms(2) by (simp_all add: xname_ok_def)
  from t1(1) have l1: "parse_loop (Suc k) uri t = parse_loop k uri t1" for k
    using psteps_loop[OF t1(1), of k] by simp
  define u where "u = t1\<lparr>ps_c := CHR ''<'' # CHR ''/'' # cl @ ''>'', ps_p := cl @ ''>'', ps_state := CLOSE\<rparr>"
  have l2: "parse_loop (Suc (Suc (Suc k))) uri t1 = parse_loop k uri u" for k
    using t1(2,3) by (simp add: parse_step_def parse_text_def parse_open_def starts_with_def newline_def u_def)
  have sk: "skip_spaces (cl @ ''>'') l = (cl @ ''>'', l)" for l using cl ws by simp
  have "parse_loop (Suc (Suc k)) uri u = Some (if starts_with cl nm then Some ?r else None, ps_heap t)" for k
    using sp sk t1(4,5) t(5-7) by (simp add: parse_step_def parse_close_def u_def Let_def)
  moreover have "k = Suc (Suc (Suc (Suc (Suc (Suc (Suc (Suc (k - 8))))))))" using assms(3) by simp
  ultimately have "do_parse k ?d uri h = Some (if starts_with cl nm then Some ?r else None, ps_heap t)"
    using t(1) l1 l2 by metis
  then show ?thesis by simp
qed

theorem closing_tag_prefix_witness:
  "\<exists>p h'. do_parse 9 ''<ab></b>'' None [] = Some (p, h') \<and> (p = None \<longleftrightarrow> \<not> starts_with ''b'' ''ab'')"
  using closing_tag_prefix[of "''ab''" "''b''" 9 None "[]"]
  by (simp add: xname_ok_def can_name_def char_between_def is_digit_char_def)

text \<open>An empty CDATA section leaves its end in the document as text.\<close>

lemma empty_cdata_text:
  "map_option (\<lambda>(p, h). map_option (\<lambda>a. map (\<lambda>n. n_content n) (filter (\<lambda>n. n_type n = TEXT_NODE) h)) p)
     (xml_parse_string 60 (Some ''<a><![CDATA[]]></a>'') []) = Some (Some [Some '']]>''])"
  by code_simp

text \<open>An element that is not closed at the end of the text is returned in place of the document.\<close>

lemma unclosed_element_returned:
  "map_option (\<lambda>(p, h). map_option (\<lambda>a. n_name (h ! a)) p) (xml_parse_string 60 (Some ''<a><b>'') []) = Some (Some (Some ''b''))"
  by code_simp

text \<open>An attribute value without quotes is no error: the attribute stays empty.\<close>

lemma unquoted_value_accepted:
  "map_option (\<lambda>(p, h). map_option (\<lambda>a. map (\<lambda>n. (n_name n, n_content n)) (filter (\<lambda>n. n_type n = ATTRIBUTE_NODE) h)) p)
     (xml_parse_string 60 (Some ''<a x=1></a>'') []) = Some (Some [(Some ''x'', None), (Some ''1'', None)])"
  by code_simp

text \<open>Text that follows a processing instruction inside an element is dropped.\<close>

lemma text_behind_pi_dropped:
  "map_option (\<lambda>(p, h). map_option (\<lambda>a. map (\<lambda>n. n_content n) (filter (\<lambda>n. n_type n = TEXT_NODE) h)) p)
     (xml_parse_string 60 (Some ''<a>x<?p?>y</a>'') []) = Some (Some [Some ''x''])"
  by code_simp

text \<open>An ampersand before a number sign is printed as it is.\<close>

lemma ampersand_number_not_escaped: "quote_text ''&#65;'' = ''&#65;'' \<and> make_unescaped_string (quote_text ''&#65;'') = ''A''"
proof -
  have "decode_entity ''#65;'' = (65, [])"
    by (simp add: decode_entity_def strtoul_def read_sign_def starts_with_def is_space_def is_digit_char_def
        char_between_def read_base_def digit_val_def)
  moreover have "utf8_bytes 65 = ''A''" by code_simp
  moreover have "quote_text ''&#65;'' = ''&#65;''" by simp
  ultimately show ?thesis by (simp add: make_unescaped_string_def cstr_of_def)
qed

end
