(* ===== verification/Tx_Templates.thy ===== *)
theory Tx_Templates
  imports Tx_XPathEval Tx_Dict
begin

text \<open>
  templates.c: the templates of a stylesheet by mode, in a list of patterns and a tree of direct paths, and
  the search for the template of a node. Dictionaries are the maps they stand for, which have the
  interface that xmldict.c provides. \<open>None\<close> is a crash, or the fuel of an evaluation that runs out.
\<close>

subsection \<open>Dictionaries by name\<close>

type_synonym 'v named = "(cstring \<times> 'v) list"

text \<open>The name may be the NULL pointer: then nothing is found, and nothing is added.\<close>

definition named_find :: "'v named \<Rightarrow> cstring option \<Rightarrow> 'v option" where
  "named_find d name = (case name of None \<Rightarrow> None | Some s \<Rightarrow> map_of d s)"

definition named_add :: "'v named \<Rightarrow> cstring option \<Rightarrow> 'v \<Rightarrow> 'v named" where
  "named_add d name v = (case name of None \<Rightarrow> d | Some s \<Rightarrow> if map_of d s = None then d @ [(s, v)] else d)"

definition named_replace :: "'v named \<Rightarrow> cstring option \<Rightarrow> 'v \<Rightarrow> 'v named" where
  "named_replace d name v = (case name of None \<Rightarrow> d | Some s \<Rightarrow> (s, v) # d)"

interpretation named: dictionary "\<lambda>_. True" "\<lambda>_. True" id map_of "[]"
  "\<lambda>d s. Some (named_find d (Some s))" "\<lambda>d s v. Some (map_of d s = None, named_add d (Some s) v)"
  "\<lambda>d s v. Some (named_replace d (Some s) v)"
  by unfold_locales (auto simp: named_find_def named_add_def named_replace_def map_add_def fun_eq_iff split: option.splits)

lemma named_find_add: "named_find (named_add d (Some s) v) (Some r) =
    (if r = s \<and> named_find d (Some s) = None then Some v else named_find d (Some r))"
  by (auto simp: named_find_def named_add_def map_add_def split: option.splits)

subsection \<open>The template map\<close>

record template =
  tp_match :: cstring
  tp_expr :: "xpath_expr option"
  tp_weight :: nat
  tp_content :: ref

text \<open>The nodes of the tree are an array from the root on, in the order of \<open>head\<close> to \<open>tail\<close>; children are indices.\<close>

record tree_node =
  tn_t :: "template option"
  tn_children :: "nat named option"

record map_entry =
  me_head :: "template list"
  me_root :: "template option"
  me_always :: "template option"
  me_direct :: "tree_node list option"

record template_map =
  tm_empty :: map_entry
  tm_modes :: "map_entry named"

definition new_tree_node :: tree_node where
  "new_tree_node = \<lparr>tn_t = None, tn_children = None\<rparr>"

definition new_map_entry :: map_entry where
  "new_map_entry = \<lparr>me_head = [], me_root = None, me_always = None, me_direct = None\<rparr>"

definition template_map_create :: template_map where
  "template_map_create = \<lparr>tm_empty = new_map_entry, tm_modes = []\<rparr>"

text \<open>The entry of a mode, created when it is missing, and the map with it.\<close>

definition template_map_get_entry :: "template_map \<Rightarrow> cstring option \<Rightarrow> map_entry \<times> template_map" where
  "template_map_get_entry m mode =
     (if mode = None then (tm_empty m, m)
      else (case named_find (tm_modes m) mode of
          Some e \<Rightarrow> (e, m)
        | None \<Rightarrow> (new_map_entry, m\<lparr>tm_modes := named_add (tm_modes m) mode new_map_entry\<rparr>)))"

definition template_map_find_entry :: "template_map \<Rightarrow> cstring option \<Rightarrow> map_entry option" where
  "template_map_find_entry m mode = (if mode = None then Some (tm_empty m) else named_find (tm_modes m) mode)"

text \<open>Entries are changed in place.\<close>

definition set_entry :: "template_map \<Rightarrow> cstring option \<Rightarrow> map_entry \<Rightarrow> template_map" where
  "set_entry m mode e =
     (case mode of None \<Rightarrow> m\<lparr>tm_empty := e\<rparr>
      | Some s \<Rightarrow> m\<lparr>tm_modes := map (\<lambda>(k, v). if k = s then (k, e) else (k, v)) (tm_modes m)\<rparr>)"

text \<open>Whether a pattern is there, and the entry with the content of that template replaced.\<close>

definition tree_match :: "cstring \<Rightarrow> tree_node \<Rightarrow> bool" where
  "tree_match pat n \<longleftrightarrow> (case tn_t n of None \<Rightarrow> False | Some t \<Rightarrow> tp_match t = pat)"

definition set_first :: "('a \<Rightarrow> bool) \<Rightarrow> ('a \<Rightarrow> 'a) \<Rightarrow> 'a list \<Rightarrow> 'a list" where
  "set_first P f xs = (case dropWhile (\<lambda>x. \<not> P x) xs of [] \<Rightarrow> xs | y # ys \<Rightarrow> takeWhile (\<lambda>x. \<not> P x) xs @ f y # ys)"

definition template_map_find_template :: "map_entry \<Rightarrow> cstring \<Rightarrow> (ref \<Rightarrow> map_entry) option" where
  "template_map_find_template e pat =
     (if \<exists>t\<in>set (me_head e). tp_match t = pat
      then Some (\<lambda>c. e\<lparr>me_head := set_first (\<lambda>t. tp_match t = pat) (\<lambda>t. t\<lparr>tp_content := c\<rparr>) (me_head e)\<rparr>)
      else (case me_direct e of
          None \<Rightarrow> None
        | Some ns \<Rightarrow>
            if \<exists>n\<in>set ns. tree_match pat n
            then Some (\<lambda>c. e\<lparr>me_direct := Some (set_first (tree_match pat)
              (\<lambda>n. n\<lparr>tn_t := map_option (\<lambda>t. t\<lparr>tp_content := c\<rparr>) (tn_t n)\<rparr>) ns)\<rparr>)
            else None))"

subsection \<open>Adding templates\<close>

definition xsl_s_slash :: cstring where
  "xsl_s_slash = ''/''"

text \<open>\<open>for(n = expression; n; n = n->children)\<close>: the steps of a path from the last one.\<close>

fun expr_spine :: "xpath_expr \<Rightarrow> xpath_expr list" where
  "expr_spine (XE ty nm ct i kd ch) = XE ty nm ct i kd ch # (case ch of [] \<Rightarrow> [] | c # _ \<Rightarrow> expr_spine c)"

definition spine :: "xpath_expr option \<Rightarrow> xpath_expr list" where
  "spine e = (case e of None \<Rightarrow> [] | Some x \<Rightarrow> expr_spine x)"

text \<open>The test looks at the type of the whole expression for every step.\<close>

definition is_direct_match :: "xpath_expr option \<Rightarrow> bool" where
  "is_direct_match e = (case e of None \<Rightarrow> True | Some x \<Rightarrow> xe_type x = XPATH_NODE_ROOT \<or> xe_type x = XPATH_NODE_SELECT)"

definition step_name :: "xpath_expr \<Rightarrow> cstring option" where
  "step_name n = (if xe_type n = XPATH_NODE_SELECT then xe_name n else Some xsl_s_slash)"

text \<open>One step of the path in the tree: the child of that name, created at the tail when there is none.\<close>

definition tree_child :: "tree_node list \<Rightarrow> nat \<Rightarrow> cstring option \<Rightarrow> nat \<times> tree_node list" where
  "tree_child ns i name =
     (let ch = (case tn_children (ns ! i) of None \<Rightarrow> [] | Some d \<Rightarrow> d) in
      case named_find ch name of
        Some j \<Rightarrow> (j, ns[i := (ns ! i)\<lparr>tn_children := Some ch\<rparr>])
      | None \<Rightarrow> (length ns, ns[i := (ns ! i)\<lparr>tn_children := Some (named_add ch name (length ns))\<rparr>] @ [new_tree_node]))"

fun tree_path :: "tree_node list \<Rightarrow> nat \<Rightarrow> cstring option list \<Rightarrow> nat \<times> tree_node list" where
  "tree_path ns i [] = (i, ns)"
| "tree_path ns i (name # r) = (let (j, ns') = tree_child ns i name in tree_path ns' j r)"

definition direct_names :: "xpath_expr option \<Rightarrow> cstring option list" where
  "direct_names e = map step_name (filter (\<lambda>n. xe_type n = XPATH_NODE_SELECT \<or> xe_type n = XPATH_NODE_ROOT) (spine e))"

definition tree_insert :: "tree_node list \<Rightarrow> cstring option list \<Rightarrow> template \<Rightarrow> tree_node list" where
  "tree_insert ns path t = (let (i, ns') = tree_path ns 0 path in ns'[i := (ns' ! i)\<lparr>tn_t := Some t\<rparr>])"

definition add_compiled :: "map_entry \<Rightarrow> xpath_expr option \<Rightarrow> template \<Rightarrow> map_entry" where
  "add_compiled e expression t0 =
     (let t = t0\<lparr>tp_weight := length (spine expression)\<rparr> in
      if is_direct_match expression
      then e\<lparr>me_direct := Some (tree_insert (case me_direct e of None \<Rightarrow> [new_tree_node] | Some ns \<Rightarrow> ns)
        (direct_names expression) t)\<rparr>
      else e\<lparr>me_head := t\<lparr>tp_expr := expression\<rparr> # me_head e\<rparr>)"

definition trim_ws :: "cstring \<Rightarrow> cstring" where
  "trim_ws s = rev (dropWhile x_is_ws (rev (dropWhile x_is_ws s)))"

definition add_templ_match :: "nat \<Rightarrow> ref option \<Rightarrow> cstring \<Rightarrow> cstring option \<Rightarrow> template_map \<times> xstate \<Rightarrow>
    (template_map \<times> xstate) option" where
  "add_templ_match k content0 match0 mode ms = do {
     let (m, st) = ms;
     let pat = trim_ws match0;
     let (content, st1) = (case content0 of
         Some c \<Rightarrow> (c, st)
       | None \<Rightarrow> (let (c, h) = xml_new_node (x_heap st) None EMPTY_NODE in (c, st\<lparr>x_heap := h\<rparr>)));
     let (e, m1) = template_map_get_entry m mode;
     (case template_map_find_template e pat of
        Some replaced \<Rightarrow> Some (set_entry m1 mode (replaced content), st1)
      | None \<Rightarrow> do {
          let t = \<lparr>tp_match = pat, tp_expr = None, tp_weight = 0, tp_content = content\<rparr>;
          if pat = ''/'' then Some (set_entry m1 mode (e\<lparr>me_root := Some t\<rparr>), st1)
          else if pat = ''*'' then Some (set_entry m1 mode (e\<lparr>me_always := Some t\<rparr>), st1)
          else do {
            (expression, st2) \<leftarrow> xpath_find_expr k st1 (Some pat);
            Some (set_entry m1 mode (add_compiled e expression t), st2)
          }
        })
   }"

text \<open>The alternatives of a pattern: it is split at bars unless a bracket is ahead.\<close>

function match_parts :: "cstring \<Rightarrow> cstring list" where
  "match_parts s =
     (if CHR ''['' \<in> set s \<or> CHR ''|'' \<notin> set s then [s]
      else takeWhile (\<lambda>c. c \<noteq> CHR ''|'') s # match_parts (tl (dropWhile (\<lambda>c. c \<noteq> CHR ''|'') s)))"
  by pat_completeness auto
termination
proof (relation "measure length")
  fix s :: cstring
  assume "\<not> (CHR ''['' \<in> set s \<or> CHR ''|'' \<notin> set s)"
  then have "dropWhile (\<lambda>c. c \<noteq> CHR ''|'') s \<noteq> []" by (auto simp: dropWhile_eq_Nil_conv)
  with length_dropWhile_le[of "\<lambda>c. c \<noteq> CHR ''|''" s]
  show "(tl (dropWhile (\<lambda>c. c \<noteq> CHR ''|'') s), s) \<in> measure length"
    by (cases "dropWhile (\<lambda>c. c \<noteq> CHR ''|'') s") auto
qed simp

fun add_parts :: "nat \<Rightarrow> ref option \<Rightarrow> cstring list \<Rightarrow> cstring option \<Rightarrow> template_map \<times> xstate \<Rightarrow>
    (template_map \<times> xstate) option" where
  "add_parts k content [] mode ms = Some ms"
| "add_parts k content (p # r) mode ms = do {
     ms1 \<leftarrow> add_templ_match k content p mode ms;
     add_parts k content r mode ms1
   }"

record templates =
  ts_map :: template_map
  ts_named :: "ref named"

definition add_template :: "nat \<Rightarrow> ref \<Rightarrow> cstring option \<Rightarrow> cstring option \<Rightarrow> cstring option \<Rightarrow> templates \<times> xstate \<Rightarrow>
    (templates \<times> xstate) option" where
  "add_template k tmpl name pat mode ts =
     (case pat of
        Some s \<Rightarrow> do {
          n \<leftarrow> deref (x_heap (snd ts)) (Some tmpl);
          (m, st1) \<leftarrow> add_parts k (n_children n) (match_parts s) mode (ts_map (fst ts), snd ts);
          Some ((fst ts)\<lparr>ts_map := m\<rparr>, st1)
        }
      | None \<Rightarrow>
          Some ((fst ts)\<lparr>ts_named :=
            (if named_find (ts_named (fst ts)) name \<noteq> None then named_replace (ts_named (fst ts)) name tmpl
             else named_add (ts_named (fst ts)) name tmpl)\<rparr>, snd ts))"

definition template_byname :: "heap \<Rightarrow> templates \<Rightarrow> cstring option \<Rightarrow> ref option option" where
  "template_byname h ts name =
     (case named_find (ts_named ts) name of
        None \<Rightarrow> Some None
      | Some t \<Rightarrow> map_option n_children (deref h (Some t)))"

fun precompile_templates :: "nat \<Rightarrow> ref option \<Rightarrow> templates \<times> xstate \<Rightarrow> (templates \<times> xstate) option" where
  "precompile_templates k None ts = Some ts"
| "precompile_templates 0 (Some a) ts = None"
| "precompile_templates (Suc k) (Some a) ts = do {
     n \<leftarrow> deref (x_heap (snd ts)) (Some a);
     ts1 \<leftarrow> (if n_type n = ELEMENT_NODE \<and> n_name n = Some ''xsl:template'' then do {
         name \<leftarrow> xml_get_attr (x_heap (snd ts)) (Some a) (Some ''name'');
         pat \<leftarrow> xml_get_attr (x_heap (snd ts)) (Some a) (Some ''match'');
         mode \<leftarrow> xml_get_attr (x_heap (snd ts)) (Some a) (Some ''mode'');
         add_template k a name pat mode ts
       } else Some ts);
     ts2 \<leftarrow> precompile_templates k (n_children n) ts1;
     precompile_templates k (n_next n) ts2
   }"

subsection \<open>The search for a template\<close>

definition select_match_with_filter :: "evaluator \<Rightarrow> ref option \<Rightarrow> xpath_expr \<Rightarrow> xstate \<Rightarrow> (bool \<times> xstate) option" where
  "select_match_with_filter ev node expr st =
     (if node = None then Some (False, st)
      else if xe_type expr = XPATH_NODE_INT then do {
        n \<leftarrow> deref (x_heap st) node;
        Some (uint (n_position n) = xe_int expr, st)
      }
      else do {
        (rv, st1) \<leftarrow> ev (Some expr) node st;
        n \<leftarrow> deref (x_heap st1) node;
        Some (keeps_node n rv, st1)
      })"

text \<open>A comparison at the top of a pattern: both operands are evaluated in the node.\<close>

definition match_test :: "evaluator \<Rightarrow> (heap \<Rightarrow> rvalue \<Rightarrow> rvalue \<Rightarrow> bool option) \<Rightarrow> xpath_expr list \<Rightarrow> ref option \<Rightarrow> xstate \<Rightarrow>
    (bool \<times> xstate) option" where
  "match_test ev test ch node st =
     (case ch of
        [] \<Rightarrow> None
      | c # r \<Rightarrow> do {
          (rv, st1) \<leftarrow> ev (Some c) node st;
          (rv1, st2) \<leftarrow> ev (arg_ptr r) node st1;
          b \<leftarrow> test (x_heap st2) rv rv1;
          Some (b, st2)
        })"

text \<open>The test of \<open>XPATH_NODE_GT\<close> is \<open>rval_greater_or_equal\<close>, like that of \<open>XPATH_NODE_GE\<close>.\<close>

definition match_comparison :: "nodetype \<Rightarrow> (heap \<Rightarrow> rvalue \<Rightarrow> rvalue \<Rightarrow> bool option) option" where
  "match_comparison ty =
     (case ty of
        XPATH_NODE_EQ \<Rightarrow> Some (\<lambda>h l r. rval_equal h l r True)
      | XPATH_NODE_NE \<Rightarrow> Some (\<lambda>h l r. rval_equal h l r False)
      | XPATH_NODE_LE \<Rightarrow> Some rval_less_or_equal
      | XPATH_NODE_GE \<Rightarrow> Some rval_greater_or_equal
      | XPATH_NODE_LT \<Rightarrow> Some rval_less
      | XPATH_NODE_GT \<Rightarrow> Some rval_greater_or_equal
      | _ \<Rightarrow> None)"

definition parent_of :: "ref option \<Rightarrow> xstate \<Rightarrow> ref option option" where
  "parent_of node st = map_option n_parent (deref (x_heap st) node)"

fun select_match :: "xenv \<Rightarrow> evaluator \<Rightarrow> xpath_expr \<Rightarrow> ref option \<Rightarrow> xstate \<Rightarrow> (bool \<times> xstate) option"
  and match_first :: "xenv \<Rightarrow> evaluator \<Rightarrow> xpath_expr list \<Rightarrow> ref option \<Rightarrow> xstate \<Rightarrow> (bool \<times> xstate) option"
  and match_any :: "xenv \<Rightarrow> evaluator \<Rightarrow> bool \<Rightarrow> xpath_expr list \<Rightarrow> ref option \<Rightarrow> xstate \<Rightarrow> (bool \<times> xstate) option"
where
  "select_match env ev (XE ty nm ct i kd ch) node st =
     (if node = None then Some (False, st)
      else if ty = XPATH_NODE_ROOT then Some (e_root_node env = node, st)
      else if ty = XPATH_NODE_SELECT then do {
        n \<leftarrow> deref (x_heap st) node;
        if n_name n \<noteq> nm then Some (False, st) else match_first env ev ch (n_parent n) st
      }
      else if ty = XPATH_NODE_CONTEXT then Some (True, st)
      else if ty = XPATH_NODE_SELF then match_first env ev ch node st
      else if ty = XPATH_NODE_FILTER then do {
        (b, st1) \<leftarrow> match_first env ev ch node st;
        if \<not> b then Some (False, st1)
        else (case ch of _ # f # _ \<Rightarrow> select_match_with_filter ev node f st1 | _ \<Rightarrow> None)
      }
      else if ty = XPATH_NODE_UNION \<or> ty = XPATH_NODE_OR then match_any env ev True ch node st
      else if ty = XPATH_NODE_AND then match_any env ev False ch node st
      else if ty = XPATH_NODE_ALL then do {
        p \<leftarrow> parent_of node st;
        match_first env ev ch p st
      }
      else if ty = XPATH_NODE_CALL then do {
        n \<leftarrow> deref (x_heap st) node;
        Some (if nm = Some ''text'' then n_type n = TEXT_NODE else nm = Some ''node'', st)
      }
      else if ty = XPATH_NODE_NOT then do {
        (rv, st1) \<leftarrow> ev (arg_ptr ch) node st;
        Some (\<not> rval2bool rv, st1)
      }
      else (case match_comparison ty of
          Some test \<Rightarrow> match_test ev test ch node st
        | None \<Rightarrow> Some (False, st)))"
| "match_first env ev [] node st = Some (True, st)"
| "match_first env ev (c # r) node st = select_match env ev c node st"
| "match_any env ev wanted [] node st = Some (\<not> wanted, st)"
| "match_any env ev wanted (c # r) node st = do {
     (b, st1) \<leftarrow> select_match env ev c node st;
     if b = wanted then Some (wanted, st1) else match_any env ev wanted r node st1
   }"

text \<open>From the node upwards as long as the tree has a child of that name: the tree node where the walk stops.\<close>

definition tree_name :: "xmlnode \<Rightarrow> cstring option" where
  "tree_name n = (if n_type n = ELEMENT_NODE then n_name n else Some xsl_s_slash)"

fun direct_walk :: "nat \<Rightarrow> heap \<Rightarrow> tree_node list \<Rightarrow> nat \<Rightarrow> ref option \<Rightarrow> nat option" where
  "direct_walk k h ns i None = Some i"
| "direct_walk 0 h ns i (Some a) = None"
| "direct_walk (Suc k) h ns i (Some a) = do {
     n \<leftarrow> deref h (Some a);
     (case tn_children (ns ! i) of
        None \<Rightarrow> Some i
      | Some d \<Rightarrow> (case named_find d (tree_name n) of
            None \<Rightarrow> Some i
          | Some j \<Rightarrow> direct_walk k h ns j (n_parent n)))
   }"

text \<open>The patterns of the list: a match wins when its path is longer than that of the best one so far.\<close>

fun heavier_loop :: "(xpath_expr option \<Rightarrow> xstate \<Rightarrow> (bool \<times> xstate) option) \<Rightarrow> template list \<Rightarrow> template option \<Rightarrow> nat \<Rightarrow>
    xstate \<Rightarrow> (template option \<times> xstate) option" where
  "heavier_loop m [] result w st = Some (result, st)"
| "heavier_loop m (t # r) result w st = do {
     (b, st1) \<leftarrow> m (tp_expr t) st;
     if b \<and> w < tp_weight t then heavier_loop m r (Some t) (tp_weight t) st1
     else heavier_loop m r result w st1
   }"

definition find_direct :: "heap \<Rightarrow> map_entry \<Rightarrow> ref option \<Rightarrow> template option option" where
  "find_direct h e node =
     (case me_direct e of
        None \<Rightarrow> Some None
      | Some ns \<Rightarrow> do { i \<leftarrow> direct_walk (length h) h ns 0 node; Some (tn_t (ns ! i)) })"

definition find_select_template :: "xenv \<Rightarrow> evaluator \<Rightarrow> ref option \<Rightarrow> map_entry \<Rightarrow> xstate \<Rightarrow> (template option \<times> xstate) option" where
  "find_select_template env ev node e st = do {
     result \<leftarrow> find_direct (x_heap st) e node;
     heavier_loop (\<lambda>expr. match_first env ev (opt_list expr) node) (me_head e) result
       (case result of None \<Rightarrow> 0 | Some t \<Rightarrow> tp_weight t) st
   }"

definition find_template :: "xenv \<Rightarrow> evaluator \<Rightarrow> template_map \<Rightarrow> ref option \<Rightarrow> cstring option \<Rightarrow> xstate \<Rightarrow>
    (ref option \<times> xstate) option" where
  "find_template env ev m node mode st =
     (case template_map_find_entry m mode of
        None \<Rightarrow> Some (None, st)
      | Some e \<Rightarrow>
          if node = e_root_node env \<and> me_root e \<noteq> None then Some (map_option tp_content (me_root e), st)
          else do {
            (t, st1) \<leftarrow> find_select_template env ev node e st;
            Some (if t \<noteq> None then map_option tp_content t
              else if node = e_root_node env then None
              else map_option tp_content (me_always e), st1)
          })"

subsection \<open>The tree of direct paths is a map\<close>

definition tree_next :: "tree_node list \<Rightarrow> nat \<Rightarrow> cstring \<Rightarrow> nat option" where
  "tree_next ns i s = (case tn_children (ns ! i) of None \<Rightarrow> None | Some d \<Rightarrow> map_of d s)"

fun tree_at :: "tree_node list \<Rightarrow> nat \<Rightarrow> cstring list \<Rightarrow> nat option" where
  "tree_at ns i [] = Some i"
| "tree_at ns i (s # r) = (case tree_next ns i s of None \<Rightarrow> None | Some j \<Rightarrow> tree_at ns j r)"

definition tree_get :: "tree_node list \<Rightarrow> cstring list \<Rightarrow> template option" where
  "tree_get ns p = (case tree_at ns 0 p of None \<Rightarrow> None | Some i \<Rightarrow> tn_t (ns ! i))"

text \<open>The array is a tree: children come later than their parent, and have one parent and one name.\<close>

definition tree_inv :: "tree_node list \<Rightarrow> bool" where
  "tree_inv ns \<longleftrightarrow> ns \<noteq> [] \<and>
     (\<forall>i<length ns. \<forall>s j. tree_next ns i s = Some j \<longrightarrow> i < j \<and> j < length ns) \<and>
     (\<forall>i<length ns. \<forall>i'<length ns. \<forall>s s' j. tree_next ns i s = Some j \<longrightarrow> tree_next ns i' s' = Some j \<longrightarrow> i = i' \<and> s = s')"

lemma tree_invD:
  assumes "tree_inv ns"
  shows "0 < length ns" and "\<And>i s j. i < length ns \<Longrightarrow> tree_next ns i s = Some j \<Longrightarrow> i < j \<and> j < length ns"
    and "\<And>i i' s s' j. i < length ns \<Longrightarrow> i' < length ns \<Longrightarrow> tree_next ns i s = Some j \<Longrightarrow> tree_next ns i' s' = Some j \<Longrightarrow>
      i = i' \<and> s = s'"
  using assms unfolding tree_inv_def by (blast, blast, blast)

lemma tree_invI:
  assumes "0 < length ns" "\<And>i s j. i < length ns \<Longrightarrow> tree_next ns i s = Some j \<Longrightarrow> i < j \<and> j < length ns"
    "\<And>i i' s s' j. i < length ns \<Longrightarrow> i' < length ns \<Longrightarrow> tree_next ns i s = Some j \<Longrightarrow> tree_next ns i' s' = Some j \<Longrightarrow>
      i = i' \<and> s = s'"
  shows "tree_inv ns"
proof -
  have "ns \<noteq> []" using assms(1) by simp
  moreover have "\<forall>i<length ns. \<forall>s j. tree_next ns i s = Some j \<longrightarrow> i < j \<and> j < length ns"
    by (intro allI impI) (rule assms(2))
  moreover have "\<forall>i<length ns. \<forall>i'<length ns. \<forall>s s' j. tree_next ns i s = Some j \<longrightarrow> tree_next ns i' s' = Some j \<longrightarrow>
      i = i' \<and> s = s'" by (intro allI impI) (rule assms(3))
  ultimately show ?thesis unfolding tree_inv_def by (intro conjI)
qed

lemma tree_inv_cong:
  assumes inv: "tree_inv ns" and len: "length ns' = length ns"
    and nx: "\<And>m r. m < length ns \<Longrightarrow> tree_next ns' m r = tree_next ns m r"
  shows "tree_inv ns'"
proof (rule tree_invI)
  show "0 < length ns'" using tree_invD(1)[OF inv] len by simp
  show "m < n \<and> n < length ns'" if "m < length ns'" "tree_next ns' m r = Some n" for m r n
    using that nx[of m r] tree_invD(2)[OF inv, of m r n] len by simp
  show "m = m' \<and> r = r'" if "m < length ns'" "m' < length ns'" "tree_next ns' m r = Some n" "tree_next ns' m' r' = Some n"
    for m m' r r' n
  proof -
    have "m < length ns" "m' < length ns" "tree_next ns m r = Some n" "tree_next ns m' r' = Some n"
      using that nx[of m r] nx[of m' r'] len by simp_all
    then show ?thesis by (rule tree_invD(3)[OF inv])
  qed
qed

lemma tree_at_append: "tree_at ns i (p @ q) = (case tree_at ns i p of None \<Rightarrow> None | Some j \<Rightarrow> tree_at ns j q)"
  by (induction p arbitrary: i) (auto split: option.splits)

lemma tree_at_bound:
  "tree_inv ns \<Longrightarrow> i < length ns \<Longrightarrow> tree_at ns i p = Some j \<Longrightarrow> j < length ns \<and> (p \<noteq> [] \<longrightarrow> i < j)"
proof (induction p arbitrary: i)
  case (Cons s p)
  then obtain m where m: "tree_next ns i s = Some m" "tree_at ns m p = Some j" by (auto split: option.splits)
  with tree_invD(2)[OF Cons.prems(1,2)] have "i < m" "m < length ns" by blast+
  with Cons.IH[OF Cons.prems(1) _ m(2)] show ?case by (cases p) (use m in auto)
qed simp

lemma tree_at_inj:
  assumes "tree_inv ns"
  shows "tree_at ns 0 p = Some i \<Longrightarrow> tree_at ns 0 q = Some i \<Longrightarrow> p = q"
proof (induction p arbitrary: q i rule: rev_induct)
  case Nil
  with tree_at_bound[OF assms tree_invD(1)[OF assms], of q i] show ?case by auto
next
  case (snoc s p)
  then obtain m where m: "tree_at ns 0 p = Some m" "tree_next ns m s = Some i"
    by (auto simp: tree_at_append split: option.splits)
  note ne = tree_invD(1)[OF assms]
  from snoc.prems(1) tree_at_bound[OF assms ne] have "0 < i" by blast
  with snoc.prems(2) obtain q' s' where q: "q = q' @ [s']" by (cases q rule: rev_cases) auto
  with snoc.prems(2) obtain m' where m': "tree_at ns 0 q' = Some m'" "tree_next ns m' s' = Some i"
    by (auto simp: tree_at_append split: option.splits)
  have "m < length ns" "m' < length ns" using tree_at_bound[OF assms ne] m m' by blast+
  with tree_invD(3)[OF assms _ _ m(2) m'(2)] have "m = m'" "s = s'" by blast+
  with snoc.IH[OF m(1)] m'(1) q show ?case by simp
qed

text \<open>What one step of an insertion does to the tree.\<close>

lemma tree_child_cases:
  assumes "tree_inv ns" "i < length ns" "tree_child ns i (Some s) = (j, ns')"
  shows "if tree_next ns i s = None
    then j = length ns \<and> length ns' = Suc (length ns) \<and> tn_t (ns' ! j) = None \<and>
      (\<forall>m r. m \<le> length ns \<longrightarrow> tree_next ns' m r = (if m = i \<and> r = s then Some j else if m < length ns then tree_next ns m r else None))
    else tree_next ns i s = Some j \<and> length ns' = length ns \<and> (\<forall>m r. m < length ns \<longrightarrow> tree_next ns' m r = tree_next ns m r)"
    and "\<forall>m<length ns. tn_t (ns' ! m) = tn_t (ns ! m)"
proof -
  define ch where "ch = (case tn_children (ns ! i) of None \<Rightarrow> [] | Some d \<Rightarrow> d)"
  have nx: "tree_next ns i r = map_of ch r" for r by (simp add: tree_next_def ch_def split: option.split)
  have c: "tree_child ns i (Some s) = (case map_of ch s of
        Some j \<Rightarrow> (j, ns[i := (ns ! i)\<lparr>tn_children := Some ch\<rparr>])
      | None \<Rightarrow> (length ns, ns[i := (ns ! i)\<lparr>tn_children := Some (ch @ [(s, length ns)])\<rparr>] @ [new_tree_node]))"
    by (simp add: tree_child_def ch_def[symmetric] named_find_def named_add_def Let_def split: option.split)
  show "if tree_next ns i s = None
    then j = length ns \<and> length ns' = Suc (length ns) \<and> tn_t (ns' ! j) = None \<and>
      (\<forall>m r. m \<le> length ns \<longrightarrow> tree_next ns' m r = (if m = i \<and> r = s then Some j else if m < length ns then tree_next ns m r else None))
    else tree_next ns i s = Some j \<and> length ns' = length ns \<and> (\<forall>m r. m < length ns \<longrightarrow> tree_next ns' m r = tree_next ns m r)"
  proof (cases "map_of ch s")
    case None
    with assms(3) c have j: "j = length ns" "ns' = ns[i := (ns ! i)\<lparr>tn_children := Some (ch @ [(s, length ns)])\<rparr>] @ [new_tree_node]"
      by auto
    have at: "ns' ! m = (if m = i then (ns ! i)\<lparr>tn_children := Some (ch @ [(s, length ns)])\<rparr>
        else if m < length ns then ns ! m else new_tree_node)" if "m \<le> length ns" for m
      using that assms(2) j(2) by (cases "m = i") (auto simp: nth_append)
    have "tree_next ns' m r = (if m = i \<and> r = s then Some j else if m < length ns then tree_next ns m r else None)"
      if "m \<le> length ns" for m r
    proof (cases "m = i")
      case True
      then show ?thesis using at[OF that] nx[of r] None assms(2) j(1)
        by (simp add: tree_next_def[of ns'] map_add_def split: option.splits)
    next
      case False
      then show ?thesis using at[OF that] by (simp add: tree_next_def new_tree_node_def)
    qed
    with None j nx[of s] show ?thesis by (simp add: nth_append new_tree_node_def)
  next
    case (Some k)
    with assms(3) c have j: "j = k" "ns' = ns[i := (ns ! i)\<lparr>tn_children := Some ch\<rparr>]" by simp_all
    have "tree_next ns' m r = tree_next ns m r" if "m < length ns" for m r
    proof (cases "m = i")
      case True
      then show ?thesis using nx[of r] assms(2) j(2) by (simp add: tree_next_def[of "ns[i := x]" for x])
    next
      case False
      then show ?thesis using j(2) by (simp add: tree_next_def)
    qed
    with Some j nx[of s] show ?thesis by simp
  qed
  show "\<forall>m<length ns. tn_t (ns' ! m) = tn_t (ns ! m)"
    using assms(2,3) c by (auto simp: nth_append nth_list_update split: option.splits)
qed

text \<open>The tree \<open>ns'\<close> has all of \<open>ns\<close>, and nodes without a template besides.\<close>

definition tree_extends :: "tree_node list \<Rightarrow> tree_node list \<Rightarrow> bool" where
  "tree_extends ns ns' \<longleftrightarrow> length ns \<le> length ns' \<and> (\<forall>m<length ns. tn_t (ns' ! m) = tn_t (ns ! m)) \<and>
     (\<forall>m. length ns \<le> m \<longrightarrow> m < length ns' \<longrightarrow> tn_t (ns' ! m) = None) \<and>
     (\<forall>m<length ns. \<forall>r j. tree_next ns m r = Some j \<longrightarrow> tree_next ns' m r = Some j) \<and>
     (\<forall>m<length ns'. \<forall>r j. tree_next ns' m r = Some j \<longrightarrow> j < length ns \<longrightarrow> m < length ns \<and> tree_next ns m r = Some j)"

lemma tree_extendsI:
  assumes "length ns \<le> length ns'" "\<And>m. m < length ns \<Longrightarrow> tn_t (ns' ! m) = tn_t (ns ! m)"
    "\<And>m. length ns \<le> m \<Longrightarrow> m < length ns' \<Longrightarrow> tn_t (ns' ! m) = None"
    "\<And>m r j. m < length ns \<Longrightarrow> tree_next ns m r = Some j \<Longrightarrow> tree_next ns' m r = Some j"
    "\<And>m r j. m < length ns' \<Longrightarrow> tree_next ns' m r = Some j \<Longrightarrow> j < length ns \<Longrightarrow> m < length ns \<and> tree_next ns m r = Some j"
  shows "tree_extends ns ns'"
proof -
  have "\<forall>m<length ns. tn_t (ns' ! m) = tn_t (ns ! m)" by (intro allI impI) (rule assms(2))
  moreover have "\<forall>m. length ns \<le> m \<longrightarrow> m < length ns' \<longrightarrow> tn_t (ns' ! m) = None" by (intro allI impI) (rule assms(3))
  moreover have "\<forall>m<length ns. \<forall>r j. tree_next ns m r = Some j \<longrightarrow> tree_next ns' m r = Some j"
    by (intro allI impI) (rule assms(4))
  moreover have "\<forall>m<length ns'. \<forall>r j. tree_next ns' m r = Some j \<longrightarrow> j < length ns \<longrightarrow> m < length ns \<and> tree_next ns m r = Some j"
    by (intro allI impI) (rule assms(5))
  ultimately show ?thesis unfolding tree_extends_def using assms(1) by (intro conjI)
qed

lemma tree_extendsD:
  assumes "tree_extends ns ns'"
  shows "length ns \<le> length ns'" and "\<And>m. m < length ns \<Longrightarrow> tn_t (ns' ! m) = tn_t (ns ! m)"
    and "\<And>m. length ns \<le> m \<Longrightarrow> m < length ns' \<Longrightarrow> tn_t (ns' ! m) = None"
    and "\<And>m r j. m < length ns \<Longrightarrow> tree_next ns m r = Some j \<Longrightarrow> tree_next ns' m r = Some j"
    and "\<And>m r j. m < length ns' \<Longrightarrow> tree_next ns' m r = Some j \<Longrightarrow> j < length ns \<Longrightarrow> m < length ns \<and> tree_next ns m r = Some j"
  using assms unfolding tree_extends_def by (simp, blast+)

lemma tree_child_step:
  assumes inv: "tree_inv ns" and i: "i < length ns" and c: "tree_child ns i (Some s) = (j, ns')"
  shows "tree_inv ns' \<and> tree_extends ns ns' \<and> j < length ns' \<and> tree_next ns' i s = Some j"
proof (cases "tree_next ns i s")
  case None
  note D = tree_invD[OF inv]
  from tree_child_cases[OF inv i c] None have j: "j = length ns" "length ns' = Suc (length ns)" "tn_t (ns' ! j) = None"
    and nx: "\<And>m r. m \<le> length ns \<Longrightarrow> tree_next ns' m r =
      (if m = i \<and> r = s then Some j else if m < length ns then tree_next ns m r else None)"
    and t: "\<forall>m<length ns. tn_t (ns' ! m) = tn_t (ns ! m)" by auto
  have b: "m < k \<and> k < length ns'" if "m < length ns'" "tree_next ns' m r = Some k" for m r k
    using that nx[of m r] D(2)[of m r k] j(1,2) i by (auto split: if_splits)
  have old: "m < length ns \<and> tree_next ns m r = Some k" if "m < length ns'" "tree_next ns' m r = Some k" "k < length ns" for m r k
    using that nx[of m r] j(1,2) by (auto split: if_splits)
  have new: "m = i \<and> r = s" if "m < length ns'" "tree_next ns' m r = Some (length ns)" for m r
    using that nx[of m r] j(1,2) D(2)[of m r "length ns"] by (auto split: if_splits)
  have inj: "m = m' \<and> r = r'" if "m < length ns'" "m' < length ns'" "tree_next ns' m r = Some k" "tree_next ns' m' r' = Some k" for m m' r r' k
  proof (cases "k < length ns")
    case True
    with old[OF that(1,3)] old[OF that(2,4)] D(3)[of m m' r k r'] show ?thesis by blast
  next
    case False
    with b[OF that(1,3)] j(2) have "k = length ns" by simp
    with new[OF that(1), of r] new[OF that(2), of r'] that(3,4) show ?thesis by simp
  qed
  have "tree_inv ns'" by (rule tree_invI[OF _ b inj]) (use j(2) in simp_all)
  moreover have "tree_extends ns ns'"
  proof (rule tree_extendsI[OF _ _ _ _ old])
    fix m r k assume "m < length ns" "tree_next ns m r = Some k"
    then show "tree_next ns' m r = Some k" using nx[of m r] None by auto
  next
    fix m assume "length ns \<le> m" "m < length ns'"
    then have "m = j" using j(1,2) by simp
    with j(3) show "tn_t (ns' ! m) = None" by simp
  qed (use j(2) t in simp_all)
  ultimately show ?thesis using j nx[of i s] i by simp
next
  case (Some k)
  with tree_child_cases[OF inv i c] have j: "k = j" "length ns' = length ns"
    and nx: "\<And>m r. m < length ns \<Longrightarrow> tree_next ns' m r = tree_next ns m r"
    and t: "\<forall>m<length ns. tn_t (ns' ! m) = tn_t (ns ! m)" by auto
  have "tree_inv ns'"
    by (rule tree_inv_cong[OF inv j(2) nx])
  moreover have "tree_extends ns ns'"
    by (rule tree_extendsI) (use t j(2) nx in simp_all)
  ultimately show ?thesis using Some j nx[OF i] tree_invD(2)[OF inv i] by auto
qed

lemma tree_extends_at: "tree_extends ns ns' \<Longrightarrow> tree_inv ns \<Longrightarrow> i < length ns \<Longrightarrow> tree_at ns i p = Some j \<Longrightarrow> tree_at ns' i p = Some j"
proof (induction p arbitrary: i)
  case (Cons s p)
  then obtain m where m: "tree_next ns i s = Some m" "tree_at ns m p = Some j" by (auto split: option.splits)
  with tree_extendsD(4)[OF Cons.prems(1,3)] have "tree_next ns' i s = Some m" by blast
  with Cons.IH[OF Cons.prems(1,2) _ m(2)] tree_invD(2)[OF Cons.prems(2,3) m(1)] show ?case by simp
qed simp

lemma tree_extends_at_back:
  assumes "tree_extends ns ns'" "tree_inv ns" "tree_inv ns'"
  shows "tree_at ns' 0 p = Some j \<Longrightarrow> j < length ns \<Longrightarrow> tree_at ns 0 p = Some j"
proof (induction p arbitrary: j rule: rev_induct)
  case (snoc s p)
  then obtain m where m: "tree_at ns' 0 p = Some m" "tree_next ns' m s = Some j"
    by (auto simp: tree_at_append split: option.splits)
  have "m < length ns'" using tree_at_bound[OF assms(3) tree_invD(1)[OF assms(3)] m(1)] by blast
  with tree_extendsD(5)[OF assms(1) _ m(2) snoc.prems(2)] have "m < length ns" "tree_next ns m s = Some j" by blast+
  with snoc.IH[OF m(1)] show ?case by (simp add: tree_at_append)
qed simp

lemma tree_extends_trans:
  assumes "tree_extends ns ns'" "tree_extends ns' ns''"
  shows "tree_extends ns ns''"
proof (rule tree_extendsI)
  note D = tree_extendsD[OF assms(1)] and E = tree_extendsD[OF assms(2)]
  show "length ns \<le> length ns''" using D(1) E(1) by simp
  show "tn_t (ns'' ! m) = tn_t (ns ! m)" if "m < length ns" for m using D(1,2) E(2) that by simp
  show "tn_t (ns'' ! m) = None" if "length ns \<le> m" "m < length ns''" for m
    using D(3) E(2,3) that by (cases "m < length ns'") simp_all
  show "tree_next ns'' m r = Some j" if "m < length ns" "tree_next ns m r = Some j" for m r j
    using D(1,4) E(4) that by simp
  show "m < length ns \<and> tree_next ns m r = Some j" if "m < length ns''" "tree_next ns'' m r = Some j" "j < length ns" for m r j
    using E(5)[OF that(1,2)] D(1) D(5)[of m r j] that(3) by simp
qed

lemma tree_extends_refl: "tree_extends ns ns"
  by (simp add: tree_extends_def)

lemma tree_path_step:
  "tree_inv ns \<Longrightarrow> i < length ns \<Longrightarrow> tree_path ns i (map Some p) = (j, ns') \<Longrightarrow>
    tree_inv ns' \<and> tree_extends ns ns' \<and> j < length ns' \<and> tree_at ns' i p = Some j"
proof (induction p arbitrary: ns i)
  case Nil
  then show ?case by (simp add: tree_extends_refl)
next
  case (Cons s p)
  obtain k n1 where k: "tree_child ns i (Some s) = (k, n1)" by fastforce
  from tree_child_step[OF Cons.prems(1,2) k] have n1: "tree_inv n1" "tree_extends ns n1" "k < length n1" "tree_next n1 i s = Some k"
    by auto
  from Cons.prems(3) k have "tree_path n1 k (map Some p) = (j, ns')" by simp
  from Cons.IH[OF n1(1,3) this] have n2: "tree_inv ns'" "tree_extends n1 ns'" "j < length ns'" "tree_at ns' k p = Some j" by auto
  have "i < length n1" using Cons.prems(2) tree_extendsD(1)[OF n1(2)] by simp
  with tree_extendsD(4)[OF n2(2)] n1(4) have "tree_next ns' i s = Some k" by blast
  with n2 tree_extends_trans[OF n1(2) n2(2)] show ?case by simp
qed

lemma tree_next_set: "tree_next (ns[i := (ns ! i)\<lparr>tn_t := t\<rparr>]) m s = tree_next ns m s"
  by (cases "i < length ns"; cases "m = i") (simp_all add: tree_next_def list_update_beyond)

lemma tree_at_set: "tree_at (ns[i := (ns ! i)\<lparr>tn_t := t\<rparr>]) m p = tree_at ns m p"
  by (induction p arbitrary: m) (simp_all add: tree_next_set split: option.split)

text \<open>The new nodes lie on the inserted path, so the paths of the tree are the prefixes of those inserted.\<close>

lemma tree_path_new:
  "tree_inv ns \<Longrightarrow> i < length ns \<Longrightarrow> tree_path ns i (map Some p) = (j, ns') \<Longrightarrow> length ns \<le> m \<Longrightarrow> m < length ns' \<Longrightarrow>
    \<exists>l. tree_at ns' i (take l p) = Some m"
proof (induction p arbitrary: ns i)
  case Nil
  then show ?case by simp
next
  case (Cons s p)
  obtain k n1 where k: "tree_child ns i (Some s) = (k, n1)" by fastforce
  note inv = Cons.prems(1) and i = Cons.prems(2)
  from tree_child_step[OF inv i k] have n1: "tree_inv n1" "tree_extends ns n1" "k < length n1" "tree_next n1 i s = Some k" by auto
  from Cons.prems(3) k have p: "tree_path n1 k (map Some p) = (j, ns')" by simp
  from tree_path_step[OF n1(1,3) p] have n2: "tree_inv ns'" "tree_extends n1 ns'" by auto
  have "i < length n1" using i tree_extendsD(1)[OF n1(2)] by simp
  with tree_extendsD(4)[OF n2(2)] n1(4) have nx: "tree_next ns' i s = Some k" by blast
  show ?case
  proof (cases "length n1 \<le> m")
    case True
    from Cons.IH[OF n1(1,3) p True Cons.prems(5)] obtain l where "tree_at ns' k (take l p) = Some m" by blast
    with nx show ?thesis by (intro exI[of _ "Suc l"]) simp
  next
    case False
    with tree_child_cases(1)[OF inv i k] Cons.prems(4) have "m = k" by (auto split: if_splits)
    with nx show ?thesis by (intro exI[of _ "Suc 0"]) simp
  qed
qed

lemma tree_insert_rep:
  assumes "tree_inv ns"
  shows "tree_inv (tree_insert ns (map Some p) t)" "tree_get (tree_insert ns (map Some p) t) = (tree_get ns)(p \<mapsto> t)"
    "tree_at (tree_insert ns (map Some p) t) 0 q \<noteq> None \<longleftrightarrow> tree_at ns 0 q \<noteq> None \<or> (\<exists>r. p = q @ r)"
proof -
  obtain i ns' where ns': "tree_path ns 0 (map Some p) = (i, ns')" by fastforce
  note len = tree_invD(1)[OF assms]
  from tree_path_step[OF assms len ns'] have n: "tree_inv ns'" "tree_extends ns ns'" "i < length ns'" "tree_at ns' 0 p = Some i" by auto
  let ?n = "ns'[i := (ns' ! i)\<lparr>tn_t := Some t\<rparr>]"
  have ins: "tree_insert ns (map Some p) t = ?n" by (simp add: tree_insert_def ns')
  show "tree_inv (tree_insert ns (map Some p) t)"
    unfolding ins by (rule tree_inv_cong[OF n(1)]) (simp_all only: tree_next_set length_list_update)
  have old: "tree_at ns' 0 q = Some m \<Longrightarrow> m < length ns \<Longrightarrow> tree_at ns 0 q = Some m" for q m
    by (rule tree_extends_at_back[OF n(2) assms n(1)])
  have fwd: "tree_at ns 0 q = Some m \<Longrightarrow> tree_at ns' 0 q = Some m" for q m
    by (rule tree_extends_at[OF n(2) assms len])
  have new: "\<exists>l. q = take l p" if "tree_at ns' 0 q = Some m" "length ns \<le> m" for q m
  proof -
    from tree_at_bound[OF n(1) tree_invD(1)[OF n(1)] that(1)] have "m < length ns'" by simp
    from tree_path_new[OF assms len ns' that(2) this] obtain l where "tree_at ns' 0 (take l p) = Some m" by blast
    from tree_at_inj[OF n(1) that(1) this] show ?thesis by blast
  qed
  show "tree_at (tree_insert ns (map Some p) t) 0 q \<noteq> None \<longleftrightarrow> tree_at ns 0 q \<noteq> None \<or> (\<exists>r. p = q @ r)"
  proof
    assume "tree_at (tree_insert ns (map Some p) t) 0 q \<noteq> None"
    then obtain m where m: "tree_at ns' 0 q = Some m" by (auto simp: ins tree_at_set)
    show "tree_at ns 0 q \<noteq> None \<or> (\<exists>r. p = q @ r)"
    proof (cases "m < length ns")
      case True
      with old[OF m] show ?thesis by simp
    next
      case False
      with new[OF m] obtain l where "q = take l p" by auto
      then have "p = q @ drop l p" by simp
      then show ?thesis by blast
    qed
  next
    assume "tree_at ns 0 q \<noteq> None \<or> (\<exists>r. p = q @ r)"
    then have "tree_at ns' 0 q \<noteq> None" using fwd n(4) by (auto simp: tree_at_append split: option.splits)
    then show "tree_at (tree_insert ns (map Some p) t) 0 q \<noteq> None" by (simp add: ins tree_at_set)
  qed
  show "tree_get (tree_insert ns (map Some p) t) = (tree_get ns)(p \<mapsto> t)"
  proof (rule ext)
    fix q
    show "tree_get (tree_insert ns (map Some p) t) q = ((tree_get ns)(p \<mapsto> t)) q"
    proof (cases "q = p")
      case True
      then show ?thesis using n(3,4) by (simp add: tree_get_def ins tree_at_set)
    next
      case False
      show ?thesis
      proof (cases "tree_at ns' 0 q")
        case None
        with fwd[of q] have "tree_at ns 0 q = None" by (cases "tree_at ns 0 q") auto
        with None False show ?thesis by (simp add: tree_get_def ins tree_at_set)
      next
        case (Some m)
        with tree_at_inj[OF n(1), of q m p] n(4) False have "m \<noteq> i" by blast
        then have g: "tree_get (tree_insert ns (map Some p) t) q = tn_t (ns' ! m)"
          using Some by (simp add: tree_get_def ins tree_at_set)
        show ?thesis
        proof (cases "m < length ns")
          case True
          with old[OF Some] tree_extendsD(2)[OF n(2)] g False show ?thesis by (simp add: tree_get_def)
        next
          case m: False
          have "tree_at ns 0 q = None"
          proof (rule ccontr)
            assume "tree_at ns 0 q \<noteq> None"
            then obtain m' where m': "tree_at ns 0 q = Some m'" by blast
            with fwd Some have "m' = m" by simp
            with tree_at_bound[OF assms len m'] m show False by simp
          qed
          moreover have "m < length ns'" using tree_at_bound[OF n(1) tree_invD(1)[OF n(1)] Some] by simp
          ultimately show ?thesis using g False m tree_extendsD(3)[OF n(2), of m] by (simp add: tree_get_def)
        qed
      qed
    qed
  qed
qed

definition tree_build :: "(cstring list \<times> template) list \<Rightarrow> tree_node list" where
  "tree_build ps = fold (\<lambda>(p, t) ns. tree_insert ns (map Some p) t) ps [new_tree_node]"

definition inserted_prefix :: "(cstring list \<times> template) list \<Rightarrow> cstring list \<Rightarrow> bool" where
  "inserted_prefix ps q \<longleftrightarrow> q = [] \<or> (\<exists>(p, t)\<in>set ps. \<exists>r. p = q @ r)"

lemma tree_build_rep:
  "tree_inv (tree_build ps) \<and> tree_get (tree_build ps) = map_of (rev ps) \<and>
    (\<forall>q. tree_at (tree_build ps) 0 q \<noteq> None \<longleftrightarrow> inserted_prefix ps q)"
proof (induction ps rule: rev_induct)
  case Nil
  have nx: "tree_next [new_tree_node] 0 s = None" for s by (simp add: tree_next_def new_tree_node_def)
  have "tree_inv [new_tree_node]" by (rule tree_invI) (use nx in auto)
  moreover have "tree_at [new_tree_node] 0 q \<noteq> None \<longleftrightarrow> q = []" for q using nx by (cases q) auto
  moreover have "tree_get [new_tree_node] = Map.empty"
  proof
    fix q show "tree_get [new_tree_node] q = None" using nx by (cases q) (auto simp: tree_get_def new_tree_node_def)
  qed
  ultimately show ?case by (simp add: tree_build_def inserted_prefix_def)
next
  case (snoc x ps)
  obtain p t where x: "x = (p, t)" by fastforce
  from snoc tree_insert_rep[of "tree_build ps" p t] show ?case
    by (auto simp: tree_build_def x inserted_prefix_def)
qed

text \<open>The walk from a node: the longest path of the tree along the names of the node and its ancestors.\<close>

lemma direct_walk_longest:
  "linked n_parent h node as \<Longrightarrow> length as \<le> k \<Longrightarrow> map (\<lambda>a. tree_name (h ! a)) as = map Some names \<Longrightarrow>
    \<exists>j l. direct_walk k h ns i node = Some j \<and> l \<le> length names \<and> tree_at ns i (take l names) = Some j \<and>
      (\<forall>l'. l < l' \<longrightarrow> l' \<le> length names \<longrightarrow> tree_at ns i (take l' names) = None)"
proof (induction as arbitrary: node k names i)
  case Nil
  then show ?case by (intro exI[of _ i] exI[of _ 0]) auto
next
  case (Cons a as)
  then obtain k' where k: "k = Suc k'" by (cases k) auto
  from Cons.prems(3) obtain s names' where nm: "names = s # names'" "tree_name (h ! a) = Some s"
    "map (\<lambda>a. tree_name (h ! a)) as = map Some names'" by auto
  from Cons.prems(1) have a: "node = Some a" "a < length h" "linked n_parent h (n_parent (h ! a)) as" by auto
  have w: "direct_walk k h ns i node = (case tree_next ns i s of None \<Rightarrow> Some i | Some j \<Rightarrow> direct_walk k' h ns j (n_parent (h ! a)))"
    using a k nm(2) by (simp add: tree_next_def named_find_def split: option.split)
  show ?case
  proof (cases "tree_next ns i s")
    case None
    then have "tree_at ns i (take l' names) = None" if "0 < l'" for l' using that nm(1) by (cases l') auto
    with None w show ?thesis by (intro exI[of _ i] exI[of _ 0]) simp
  next
    case (Some m)
    from Cons.prems(2) k have "length as \<le> k'" by simp
    from Cons.IH[OF a(3) this nm(3), of m] obtain j l where jl: "direct_walk k' h ns m (n_parent (h ! a)) = Some j"
      "l \<le> length names'" "tree_at ns m (take l names') = Some j"
      "\<forall>l'. l < l' \<longrightarrow> l' \<le> length names' \<longrightarrow> tree_at ns m (take l' names') = None" by blast
    have "tree_at ns i (take l' names) = None" if "Suc l < l'" "l' \<le> length names" for l'
      using that jl(4) nm(1) Some by (cases l') auto
    with w Some jl(1-3) nm(1) show ?thesis by (intro exI[of _ j] exI[of _ "Suc l"]) simp
  qed
qed

lemma find_direct_longest:
  assumes "me_direct e = Some (tree_build ps)" "linked n_parent h node as"
    "map (\<lambda>a. tree_name (h ! a)) as = map Some names"
  shows "\<exists>l\<le>length names. find_direct h e node = Some (map_of (rev ps) (take l names)) \<and> inserted_prefix ps (take l names) \<and>
    (\<forall>l'. l < l' \<longrightarrow> l' \<le> length names \<longrightarrow> \<not> inserted_prefix ps (take l' names))"
proof -
  from tree_build_rep[of ps] have T: "tree_get (tree_build ps) = map_of (rev ps)"
    "\<And>q. tree_at (tree_build ps) 0 q \<noteq> None \<longleftrightarrow> inserted_prefix ps q" by blast+
  from linked_length[OF assms(2)] direct_walk_longest[OF assms(2) _ assms(3), of "length h" "tree_build ps" 0]
  obtain j l where jl: "direct_walk (length h) h (tree_build ps) 0 node = Some j" "l \<le> length names"
    "tree_at (tree_build ps) 0 (take l names) = Some j"
    "\<forall>l'. l < l' \<longrightarrow> l' \<le> length names \<longrightarrow> tree_at (tree_build ps) 0 (take l' names) = None" by blast
  have "find_direct h e node = Some (map_of (rev ps) (take l names))"
    using assms(1) jl(1,3) T(1) by (simp add: find_direct_def tree_get_def fun_eq_iff)
      (metis option.simps(5))
  with jl T(2) show ?thesis by (metis option.distinct(1))
qed

text \<open>
  C4: the direct templates of a mode are the map from their paths to the template added last: the search
  returns what the map holds at the longest prefix of the names of the node and its ancestors
  that is a prefix of some template's path.
\<close>

theorem direct_template_longest_path:
  assumes "me_direct e = Some (tree_build ps)" "linked n_parent h node as"
    "map (\<lambda>a. tree_name (h ! a)) as = map Some names"
  shows "\<exists>l\<le>length names. find_direct h e node = Some (map_of (rev ps) (take l names)) \<and> inserted_prefix ps (take l names) \<and>
    (\<forall>l'. l < l' \<longrightarrow> l' \<le> length names \<longrightarrow> \<not> inserted_prefix ps (take l' names))"
  by (rule find_direct_longest[OF assms])

definition tmpl :: "cstring \<Rightarrow> ref \<Rightarrow> template" where
  "tmpl s c = \<lparr>tp_match = s, tp_expr = None, tp_weight = length s, tp_content = c\<rparr>"

definition tree_doc :: heap where
  "tree_doc =
     [null_node\<lparr>n_type := EMPTY_NODE, n_children := Some 1\<rparr>,
      null_node\<lparr>n_type := ELEMENT_NODE, n_name := Some ''a'', n_parent := Some 0, n_children := Some 2\<rparr>,
      null_node\<lparr>n_type := ELEMENT_NODE, n_name := Some ''b'', n_parent := Some 1\<rparr>]"

definition tree_paths :: "(cstring list \<times> template) list" where
  "tree_paths = [([''b''], tmpl ''b'' 7), ([''b'', ''a'', ''x''], tmpl ''x/a/b'' 8)]"

definition tree_entry :: map_entry where
  "tree_entry = new_map_entry\<lparr>me_direct := Some (tree_build tree_paths)\<rparr>"

theorem direct_template_longest_path_witness:
  "\<exists>l\<le>length [''b'', ''a'', ''/'']. find_direct tree_doc tree_entry (Some 2) = Some (map_of (rev tree_paths) (take l [''b'', ''a'', ''/''])) \<and>
    inserted_prefix tree_paths (take l [''b'', ''a'', ''/'']) \<and>
    (\<forall>l'. l < l' \<longrightarrow> l' \<le> length [''b'', ''a'', ''/''] \<longrightarrow> \<not> inserted_prefix tree_paths (take l' [''b'', ''a'', ''/'']))"
proof (rule direct_template_longest_path)
  show "me_direct tree_entry = Some (tree_build tree_paths)" by (simp add: tree_entry_def)
  show "linked n_parent tree_doc (Some 2) [2, 1, 0]" by (simp add: tree_doc_def null_node_def)
  show "map (\<lambda>a. tree_name (tree_doc ! a)) [2, 1, 0] = map Some [''b'', ''a'', ''/'']"
    by (simp add: tree_doc_def null_node_def tree_name_def xsl_s_slash_def)
qed

text \<open>A template whose path goes on above the node hides a shorter one that matches: no template is found for \<open>a/b\<close>.\<close>

lemma longer_path_hides_template: "find_direct tree_doc tree_entry (Some 2) = Some None"
  by code_simp

text \<open>Only the last step of a pattern decides whether it is a direct path; predicates of earlier steps are dropped.\<close>

lemma predicate_of_earlier_step_dropped:
  "map_option (\<lambda>e. (is_direct_match e, direct_names e)) (xpath_compile 40 ''a[1]/b'') = Some (True, [Some ''b'', Some ''a''])"
  by code_simp

lemma pattern_greater_is_greater_or_equal: "match_comparison XPATH_NODE_GT = match_comparison XPATH_NODE_GE"
  by (simp add: match_comparison_def)

subsection \<open>Modes and patterns\<close>

text \<open>A compiled direct pattern extends the tree by its path, from the last step to the first.\<close>

lemma add_compiled_direct:
  assumes "is_direct_match expr" "direct_names expr = map Some path"
    "me_direct e = (if ps = [] then None else Some (tree_build ps))"
  shows "add_compiled e expr t = e\<lparr>me_direct := Some (tree_build (ps @ [(path, t\<lparr>tp_weight := length (spine expr)\<rparr>)]))\<rparr>"
  using assms by (auto simp: add_compiled_def tree_build_def Let_def)

lemma map_of_set: "map_of (map (\<lambda>(k, v). if k = s then (k, e) else (k, v)) d) r =
    (if r = s then (if map_of d s = None then None else Some e) else map_of d r)"
  by (induction d) auto

lemma set_entry_find:
  "template_map_find_entry (set_entry (snd (template_map_get_entry m mode)) mode e) mode' =
    (if mode' = mode then Some e else template_map_find_entry m mode')"
  by (cases mode; cases mode')
    (auto simp: template_map_find_entry_def set_entry_def template_map_get_entry_def named_find_def named_add_def map_of_set
      map_add_def split: option.splits)

text \<open>
  Adding a template under a mode changes the templates of that mode only; every other mode, and
  the empty one, keeps its entry.
\<close>

theorem add_templ_match_other_modes:
  assumes "add_templ_match k content pat mode (m, st) = Some (m', st')" "mode' \<noteq> mode"
  shows "template_map_find_entry m' mode' = template_map_find_entry m mode'"
proof -
  obtain e m1 where g: "template_map_get_entry m mode = (e, m1)" by fastforce
  have "\<exists>e'. m' = set_entry m1 mode e'"
    using assms(1) g by (auto simp: add_templ_match_def Let_def bind_eq_Some_conv split: option.splits prod.splits if_splits)
  with set_entry_find[of m mode _ mode'] g assms(2) show ?thesis by auto
qed

theorem add_templ_match_other_modes_witness:
  "\<exists>m' st'. add_templ_match 9 (Some 3) ''*'' (Some ''toc'') (template_map_create, \<lparr>x_heap = [], x_expressions = [], x_urldict = []\<rparr>) =
      Some (m', st') \<and> template_map_find_entry m' None = template_map_find_entry template_map_create None"
proof -
  have "\<exists>m' st'. add_templ_match 9 (Some 3) ''*'' (Some ''toc'') (template_map_create, \<lparr>x_heap = [], x_expressions = [], x_urldict = []\<rparr>) =
      Some (m', st')"
    by (simp add: add_templ_match_def trim_ws_def x_is_ws_def template_map_create_def template_map_get_entry_def named_find_def
        template_map_find_template_def new_map_entry_def Let_def split: prod.split)
  with add_templ_match_other_modes[of 9 "Some 3" "''*''" "Some ''toc''" template_map_create _ _ _ None] show ?thesis by blast
qed

text \<open>The parts of a pattern.\<close>

fun join_bar :: "cstring list \<Rightarrow> cstring" where
  "join_bar [] = []"
| "join_bar [s] = s"
| "join_bar (s # r) = s @ CHR ''|'' # join_bar r"

declare match_parts.simps [simp del]

lemma match_parts_not_Nil: "match_parts s \<noteq> []"
  by (subst match_parts.simps) simp

lemma match_parts_join: "join_bar (match_parts s) = s"
proof (induction s rule: match_parts.induct)
  case (1 s)
  show ?case
  proof (cases "CHR ''['' \<in> set s \<or> CHR ''|'' \<notin> set s")
    case False
    let ?t = "takeWhile (\<lambda>c. c \<noteq> CHR ''|'') s" and ?d = "dropWhile (\<lambda>c. c \<noteq> CHR ''|'') s"
    from False have "?d \<noteq> []" by (auto simp: dropWhile_eq_Nil_conv)
    then have d: "?d = CHR ''|'' # tl ?d" using hd_dropWhile[of "\<lambda>c. c \<noteq> CHR ''|''" s] by (cases ?d) auto
    have "join_bar (?t # match_parts (tl ?d)) = ?t @ CHR ''|'' # tl ?d"
      using 1[OF False] match_parts_not_Nil[of "tl ?d"] by (cases "match_parts (tl ?d)") auto
    also have "\<dots> = s" using d takeWhile_dropWhile_id[of "\<lambda>c. c \<noteq> CHR ''|''" s] by simp
    finally show ?thesis using False by (subst match_parts.simps) simp
  qed (subst match_parts.simps, simp)
qed

text \<open>
  The alternatives of a match attribute are its parts between the bars: joined by bars they give the
  attribute back, and no part but the last has a bar.
\<close>

theorem match_parts_roundtrip:
  "join_bar (match_parts s) = s \<and> list_all (\<lambda>p. CHR ''|'' \<notin> set p) (butlast (match_parts s))"
proof -
  have "list_all (\<lambda>p. CHR ''|'' \<notin> set p) (butlast (match_parts s))"
  proof (induction s rule: match_parts.induct)
    case (1 s)
    have no: "CHR ''|'' \<notin> set (takeWhile (\<lambda>c. c \<noteq> CHR ''|'') s)" by (auto dest: set_takeWhileD)
    show ?case
    proof (cases "CHR ''['' \<in> set s \<or> CHR ''|'' \<notin> set s")
      case False
      with 1 no show ?thesis by (subst match_parts.simps) (auto simp: match_parts_not_Nil)
    qed (subst match_parts.simps, simp)
  qed
  with match_parts_join show ?thesis by simp
qed

end
