(* ===== verification/Tx_Transform.thy ===== *)
theory Tx_Transform
  imports Tx_Templates Tx_Output
begin

text \<open>
  transform.c 23-197, instructions.c, template_task.c 24-94 and variables.c 155-200: the main loop of a
  transformation. \<open>run_xslt\<close> recurses with a fuel; each instruction is a definition over the two
  recursive entry points. A task that the code would hand to the thread pool runs here at the place where it is started.
  \<open>None\<close> is a crash, or the fuel that runs out.
\<close>

subsection \<open>Contexts\<close>

datatype task_mode = TASK_DEFAULT | TASK_DENY | TASK_SINGLE

record tcontext =
  c_instruction :: "ref option"
  c_result :: "ref option"
  c_document :: "ref option"
  c_parameters :: "ref option"
  c_locals :: "ref option"
  c_mode :: "cstring option"
  c_task :: task_mode

text \<open>A context from zeroed memory.\<close>

definition new_context :: tcontext where
  "new_context = \<lparr>c_instruction = None, c_result = None, c_document = None, c_parameters = None, c_locals = None,
     c_mode = None, c_task = TASK_DEFAULT\<rparr>"

record tenv =
  te_env :: xenv
  te_templates :: templates
  te_outmode :: output_mode
  te_pool :: bool
  te_parallel :: "cstring list"
  te_fuel :: nat

type_synonym runner = "tcontext \<Rightarrow> xstate \<Rightarrow> xstate option"

text \<open>The evaluation environment under a set of local variables.\<close>

definition env_of :: "tenv \<Rightarrow> ref option \<Rightarrow> xenv" where
  "env_of te locals = (te_env te)\<lparr>e_locals := locals\<rparr>"

definition st_new :: "xstate \<Rightarrow> cstring option \<Rightarrow> nodetype \<Rightarrow> ref \<times> xstate" where
  "st_new st name ty = (let (a, h) = xml_new_node (x_heap st) name ty in (a, st\<lparr>x_heap := h\<rparr>))"

definition st_append :: "xstate \<Rightarrow> ref option \<Rightarrow> nodetype \<Rightarrow> (ref \<times> xstate) option" where
  "st_append st parent ty = do { (a, h) \<leftarrow> xml_append_child (x_heap st) parent ty; Some (a, st\<lparr>x_heap := h\<rparr>) }"

definition st_upd :: "xstate \<Rightarrow> ref option \<Rightarrow> (xmlnode \<Rightarrow> xmlnode) \<Rightarrow> xstate option" where
  "st_upd st p f = do { h \<leftarrow> upd (x_heap st) p f; Some (st\<lparr>x_heap := h\<rparr>) }"

abbreviation st_deref :: "xstate \<Rightarrow> ref option \<Rightarrow> xmlnode option" where
  "st_deref st p \<equiv> deref (x_heap st) p"

abbreviation st_attr :: "xstate \<Rightarrow> ref option \<Rightarrow> cstring \<Rightarrow> cstring option option" where
  "st_attr st p name \<equiv> xml_get_attr (x_heap st) p (Some name)"

text \<open>\<open>for(n = p; n; n = n->next)\<close>; the successor is read after the body.\<close>

fun each_node :: "nat \<Rightarrow> (ref \<Rightarrow> xstate \<Rightarrow> xstate option) \<Rightarrow> ref option \<Rightarrow> xstate \<Rightarrow> xstate option" where
  "each_node k body None st = Some st"
| "each_node 0 body (Some a) st = None"
| "each_node (Suc k) body (Some a) st = do {
     st1 \<leftarrow> body a st;
     n \<leftarrow> st_deref st1 (Some a);
     each_node k body (n_next n) st1
   }"

text \<open>A string constant made from a C string that may be NULL: reading it through \<open>->s\<close> crashes.\<close>

definition append_text :: "xstate \<Rightarrow> ref option \<Rightarrow> cstring \<Rightarrow> u32 \<Rightarrow> xstate option" where
  "append_text st parent content flags = do {
     (a, st1) \<leftarrow> st_append st parent TEXT_NODE;
     st_upd st1 (Some a) (\<lambda>n. n\<lparr>n_content := Some content, n_flags := n_flags n OR flags\<rparr>)
   }"

subsection \<open>template_task.c: where a task runs\<close>

datatype task_place = RUN_HERE | RUN_SERIAL | RUN_PARALLEL

text \<open>The place and the task mode of the context; the attribute \<open>fork\<close> is \<open>t:fork\<close> of the instruction.\<close>

definition template_task_place :: "bool \<Rightarrow> task_mode \<Rightarrow> cstring option \<Rightarrow> bool \<Rightarrow> task_place \<times> task_mode" where
  "template_task_place pool mode fork default_parallel =
     (if \<not> pool then (RUN_HERE, mode)
      else if mode = TASK_SINGLE then (RUN_HERE, mode)
      else if mode = TASK_DENY then
        (if fork \<noteq> Some ''yes'' then (RUN_SERIAL, mode) else (RUN_PARALLEL, TASK_DEFAULT))
      else if fork \<noteq> None then
        (if fork = Some ''no'' then (RUN_SERIAL, mode)
         else if fork = Some ''deny'' then (RUN_SERIAL, TASK_DENY)
         else (RUN_PARALLEL, mode))
      else if default_parallel then (RUN_PARALLEL, mode)
      else (RUN_SERIAL, mode))"

definition template_task_run :: "tenv \<Rightarrow> ref \<Rightarrow> tcontext \<Rightarrow> runner \<Rightarrow> xstate \<Rightarrow> xstate option" where
  "template_task_run te instruction c f st = do {
     n \<leftarrow> st_deref st (Some instruction);
     fork \<leftarrow> (if te_pool te \<and> c_task c \<noteq> TASK_SINGLE then st_attr st (Some instruction) ''t:fork'' else Some None);
     let (place, mode) = template_task_place (te_pool te) (c_task c) fork
       (case n_name n of None \<Rightarrow> False | Some s \<Rightarrow> s \<in> set (te_parallel te));
     f (c\<lparr>c_task := mode\<rparr>) st
   }"

subsection \<open>Copies\<close>

fun copy_attributes :: "tenv \<Rightarrow> nat \<Rightarrow> ref option \<Rightarrow> ref option \<Rightarrow> ref \<Rightarrow> ref option \<Rightarrow> xstate \<Rightarrow> xstate option" where
  "copy_attributes te k locals context newnode None st = Some st"
| "copy_attributes te 0 locals context newnode (Some a) st = None"
| "copy_attributes te (Suc k) locals context newnode (Some a) st = do {
     let (t, st1) = st_new st None ATTRIBUTE_NODE;
     m \<leftarrow> st_deref st1 (Some a);
     st2 \<leftarrow> st_upd st1 (Some t) (\<lambda>n. n\<lparr>n_name := n_name m\<rparr>);
     (content, st3) \<leftarrow> (if n_flags m = 2 then do { s \<leftarrow> n_content m; Some (Some s, st2) }
       else xml_process_string (env_of te locals) (te_fuel te) context (n_content m) st2);
     e \<leftarrow> st_deref st3 (Some newnode);
     st4 \<leftarrow> st_upd st3 (Some t) (\<lambda>n. n\<lparr>n_content := content, n_next := n_attributes e\<rparr>);
     st5 \<leftarrow> st_upd st4 (Some newnode) (\<lambda>n. n\<lparr>n_attributes := Some t\<rparr>);
     m' \<leftarrow> st_deref st5 (Some a);
     copy_attributes te k locals context newnode (n_next m') st5
   }"

definition copy_node_to_result :: "tenv \<Rightarrow> ref option \<Rightarrow> ref option \<Rightarrow> ref option \<Rightarrow> ref \<Rightarrow> xstate \<Rightarrow> (ref \<times> xstate) option" where
  "copy_node_to_result te locals context parent src st = do {
     s \<leftarrow> st_deref st (Some src);
     (newnode, st1) \<leftarrow> st_append st parent (n_type s);
     st2 \<leftarrow> st_upd st1 (Some newnode) (\<lambda>n. n\<lparr>n_name := n_name s, n_flags := n_flags s\<rparr>);
     st3 \<leftarrow> (if n_type s = ELEMENT_NODE
       then copy_attributes te (length (x_heap st)) locals context newnode (n_attributes s) st2 else Some st2);
     st4 \<leftarrow> (if n_type s = TEXT_NODE
       then do { c \<leftarrow> n_content s; st_upd st3 (Some newnode) (\<lambda>n. n\<lparr>n_content := Some c\<rparr>) } else Some st3);
     Some (newnode, st4)
   }"

fun reject_text_node_escape :: "nat \<Rightarrow> heap \<Rightarrow> ref option \<Rightarrow> heap option" where
  "reject_text_node_escape k h None = Some h"
| "reject_text_node_escape 0 h (Some a) = None"
| "reject_text_node_escape (Suc k) h (Some a) = do {
     n \<leftarrow> deref h (Some a);
     h1 \<leftarrow> (if n_type n = TEXT_NODE then upd h (Some a) (\<lambda>m. m\<lparr>n_flags := n_flags m OR 2\<rparr>) else Some h);
     h2 \<leftarrow> reject_text_node_escape k h1 (n_children n);
     reject_text_node_escape k h2 (n_next n)
   }"

text \<open>An attribute moves to the parent: its content is taken out of the source.\<close>

fun copy_node_to_result_rec :: "nat \<Rightarrow> tenv \<Rightarrow> ref option \<Rightarrow> ref option \<Rightarrow> ref option \<Rightarrow> ref \<Rightarrow> xstate \<Rightarrow> xstate option" where
  "copy_node_to_result_rec 0 te locals context parent src st = None"
| "copy_node_to_result_rec (Suc k) te locals context parent src st = do {
     s \<leftarrow> st_deref st (Some src);
     if n_type s = ATTRIBUTE_NODE then do {
       let (r, st1) = st_new st None ATTRIBUTE_NODE;
       p \<leftarrow> st_deref st1 parent;
       st2 \<leftarrow> st_upd st1 (Some r) (\<lambda>n. n\<lparr>n_name := n_name s, n_next := n_attributes p, n_content := n_content s\<rparr>);
       st3 \<leftarrow> st_upd st2 parent (\<lambda>n. n\<lparr>n_attributes := Some r\<rparr>);
       st_upd st3 (Some src) (\<lambda>n. n\<lparr>n_content := None\<rparr>)
     }
     else do {
       (r, st1) \<leftarrow> copy_node_to_result te locals context parent src st;
       s1 \<leftarrow> st_deref st1 (Some src);
       each_node k (\<lambda>c st. copy_node_to_result_rec k te locals context (Some r) c st) (n_children s1) st1
     }
   }"

text \<open>The result of a template as a string: its texts are not escaped.\<close>

definition xml_eval_string :: "tenv \<Rightarrow> runner \<Rightarrow> ref option \<Rightarrow> ref option \<Rightarrow> ref option \<Rightarrow> xstate \<Rightarrow> (cstring \<times> xstate) option" where
  "xml_eval_string te ap locals source foreval st = do {
     let (tmp, st1) = st_new st None EMPTY_NODE;
     st2 \<leftarrow> ap (new_context\<lparr>c_instruction := foreval, c_result := Some tmp, c_document := source, c_locals := locals,
       c_task := TASK_SINGLE\<rparr>) st1;
     h3 \<leftarrow> reject_text_node_escape (length (x_heap st2)) (x_heap st2) (Some tmp);
     (res, raw) \<leftarrow> output_node_rec (length h3) (te_outmode te) h3 (Some tmp) [] 0;
     Some (res, st2\<lparr>x_heap := h3\<rparr>)
   }"

subsection \<open>variables.c: local variables\<close>

definition do_local_var :: "tenv \<Rightarrow> runner \<Rightarrow> ref option \<Rightarrow> ref option \<Rightarrow> ref \<Rightarrow> xstate \<Rightarrow> xstate option" where
  "do_local_var te ap vars doc var st = do {
     vname \<leftarrow> st_attr st (Some var) ''name'';
     vsel \<leftarrow> st_attr st (Some var) ''select'';
     v \<leftarrow> st_deref st vars;
     found \<leftarrow> first_node (\<lambda>n. n_name n = vname) (x_heap st) (n_attributes v);
     (tmp, st1) \<leftarrow> (case found of
         Some a \<Rightarrow> do { st1 \<leftarrow> st_upd st (Some a) (\<lambda>n. n\<lparr>n_content := None\<rparr>); Some (a, st1) }
       | None \<Rightarrow> do {
           let (a, st1) = st_new st vname ATTRIBUTE_NODE;
           st2 \<leftarrow> st_upd st1 (Some a) (\<lambda>n. n\<lparr>n_next := n_attributes v\<rparr>);
           st3 \<leftarrow> st_upd st2 vars (\<lambda>n. n\<lparr>n_attributes := Some a\<rparr>);
           Some (a, st3)
         });
     (case vsel of
        None \<Rightarrow> do {
          let (r, st2) = st_new st1 None EMPTY_NODE;
          st3 \<leftarrow> st_upd st2 (Some tmp) (\<lambda>n. n\<lparr>n_extra := VAL_NODESET (Some r)\<rparr>);
          i \<leftarrow> st_deref st3 (Some var);
          ap (new_context\<lparr>c_instruction := n_children i, c_result := Some r, c_document := doc, c_locals := vars,
            c_task := TASK_SINGLE\<rparr>) st3
        }
      | Some _ \<Rightarrow> do {
          st2 \<leftarrow> st_upd st1 (Some tmp) (\<lambda>n. n\<lparr>n_extra := VAL_NULL\<rparr>);
          (rv, st3) \<leftarrow> xpath_eval_node (env_of te vars) (te_fuel te) doc vsel st2;
          st_upd st3 (Some tmp) (\<lambda>n. n\<lparr>n_extra := rv\<rparr>)
        })
   }"

end
