(* ===== verification/Tx_Instructions.thy ===== *)
theory Tx_Instructions
  imports Tx_Transform
begin

text \<open>
  instructions.c and transform.c 98-183: the instructions of a stylesheet, one definition each over the two
  recursive entry points \<open>ap\<close> (\<open>apply_xslt_template\<close>) and \<open>po\<close> (\<open>process_one_node\<close>), the main
  loop, and the recursion \<open>run_xslt\<close> that ties them, with a fuel.
\<close>

text \<open>The compiled expression of an attribute, kept in the instruction once there is one.\<close>

definition compiled_of :: "tenv \<Rightarrow> ref \<Rightarrow> cstring \<Rightarrow> xstate \<Rightarrow> (xpath_expr option \<times> xstate) option" where
  "compiled_of te i attr st = do {
     n \<leftarrow> st_deref st (Some i);
     if n_compiled n \<noteq> None then Some (n_compiled n, st)
     else do {
       text \<leftarrow> st_attr st (Some i) attr;
       (e, st1) \<leftarrow> xpath_find_expr (te_fuel te) st text;
       st2 \<leftarrow> st_upd st1 (Some i) (\<lambda>m. m\<lparr>n_compiled := e\<rparr>);
       Some (e, st2)
     }
   }"

subsection \<open>Parameters\<close>

text \<open>One \<open>with-param\<close>: the list of parameters with the new one in front.\<close>

definition with_param :: "tenv \<Rightarrow> runner \<Rightarrow> tcontext \<Rightarrow> ref \<Rightarrow> ref option \<Rightarrow> xstate \<Rightarrow> (ref option \<times> xstate) option" where
  "with_param te ap c i parameters st = do {
     name \<leftarrow> st_attr st (Some i) ''name'';
     select \<leftarrow> st_attr st (Some i) ''select'';
     let (a, st1) = st_new st name ATTRIBUTE_NODE;
     st2 \<leftarrow> st_upd st1 (Some a) (\<lambda>n. n\<lparr>n_next := parameters\<rparr>);
     st5 \<leftarrow> (case select of
         None \<Rightarrow> do {
           let (r, st3) = st_new st2 None EMPTY_NODE;
           st4 \<leftarrow> st_upd st3 (Some a) (\<lambda>n. n\<lparr>n_extra := VAL_NODESET (Some r)\<rparr>);
           n \<leftarrow> st_deref st4 (Some i);
           ap (new_context\<lparr>c_instruction := n_children n, c_result := Some r, c_document := c_document c,
             c_locals := c_locals c, c_task := TASK_SINGLE\<rparr>) st4
         }
       | Some _ \<Rightarrow> do {
           (rv, st3) \<leftarrow> xpath_eval_node (env_of te (c_locals c)) (te_fuel te) (c_document c) select st2;
           st_upd st3 (Some a) (\<lambda>n. n\<lparr>n_extra := rv\<rparr>)
         });
     Some (Some a, st5)
   }"

fun call_params :: "tenv \<Rightarrow> runner \<Rightarrow> tcontext \<Rightarrow> nat \<Rightarrow> ref option \<Rightarrow> ref option \<Rightarrow> xstate \<Rightarrow> (ref option \<times> xstate) option" where
  "call_params te ap c k None parameters st = Some (parameters, st)"
| "call_params te ap c 0 (Some i) parameters st = None"
| "call_params te ap c (Suc k) (Some i) parameters st = do {
     n \<leftarrow> st_deref st (Some i);
     (ps, st1) \<leftarrow> (if n_name n = Some ''xsl:with-param'' then with_param te ap c i parameters st else Some (parameters, st));
     m \<leftarrow> st_deref st1 (Some i);
     call_params te ap c k (n_next m) ps st1
   }"

definition instruction_call_template :: "tenv \<Rightarrow> nat \<Rightarrow> runner \<Rightarrow> tcontext \<Rightarrow> ref \<Rightarrow> xstate \<Rightarrow> xstate option" where
  "instruction_call_template te k ap c i st = do {
     name \<leftarrow> st_attr st (Some i) ''name'';
     template \<leftarrow> template_byname (x_heap st) (te_templates te) name;
     (case template of
        None \<Rightarrow> if name = None then None else Some st
      | Some _ \<Rightarrow> do {
          n \<leftarrow> st_deref st (Some i);
          (ps, st1) \<leftarrow> call_params te ap c k (n_children n) None st;
          let (locals, st2) = st_new st1 None EMPTY_NODE;
          (result, st3) \<leftarrow> st_append st2 (c_result c) EMPTY_NODE;
          template_task_run te i (new_context\<lparr>c_instruction := template, c_result := Some result,
            c_document := c_document c, c_parameters := ps, c_locals := Some locals, c_task := c_task c\<rparr>) ap st3
        })
   }"

subsection \<open>Applying templates\<close>

text \<open>\<open>xpath_sort_selection\<close> with the keys that a sort instruction asks for.\<close>

definition sort_by :: "tenv \<Rightarrow> tcontext \<Rightarrow> ref \<Rightarrow> ref option \<Rightarrow> xstate \<Rightarrow> (ref option \<times> xstate) option" where
  "sort_by te c srt selection st = do {
     n \<leftarrow> st_deref st (Some srt);
     let key = (\<lambda>a st. case n_compiled n of
         None \<Rightarrow> do { s \<leftarrow> node2string (x_heap st) (Some a); Some (s, st) }
       | Some e \<Rightarrow> xpath_eval_string (env_of te (c_locals c)) (te_fuel te) (Some a) (Some e) st);
     xpath_sort_selection (te_fuel te) (n_flags n AND 4 \<noteq> 0) (n_flags n AND 8 \<noteq> 0) key selection st
   }"

text \<open>The children of an apply-templates: parameters and sorts, up to the first other node.\<close>

fun apply_params :: "tenv \<Rightarrow> runner \<Rightarrow> tcontext \<Rightarrow> nat \<Rightarrow> ref option \<Rightarrow> ref option \<Rightarrow> ref option \<Rightarrow> xstate \<Rightarrow>
    (ref option \<times> ref option \<times> xstate) option" where
  "apply_params te ap c k None selection parameters st = Some (selection, parameters, st)"
| "apply_params te ap c 0 (Some i) selection parameters st = None"
| "apply_params te ap c (Suc k) (Some i) selection parameters st = do {
     n \<leftarrow> st_deref st (Some i);
     if n_type n = EMPTY_NODE then apply_params te ap c k (n_next n) selection parameters st
     else if n_name n = Some ''xsl:with-param'' then do {
       (ps, st1) \<leftarrow> with_param te ap c i parameters st;
       m \<leftarrow> st_deref st1 (Some i);
       apply_params te ap c k (n_next m) selection ps st1
     }
     else if n_name n \<noteq> Some ''xsl:sort'' then Some (selection, parameters, st)
     else do {
       (sel, st1) \<leftarrow> sort_by te c i selection st;
       m \<leftarrow> st_deref st1 (Some i);
       apply_params te ap c k (n_next m) sel parameters st1
     }
   }"

definition instruction_apply_templates :: "tenv \<Rightarrow> nat \<Rightarrow> runner \<Rightarrow> runner \<Rightarrow> tcontext \<Rightarrow> ref \<Rightarrow> xstate \<Rightarrow> xstate option" where
  "instruction_apply_templates te k ap po c i st = do {
     select \<leftarrow> st_attr st (Some i) ''select'';
     (selection0, st1) \<leftarrow> (case select of
         Some _ \<Rightarrow> do {
           (e, st1) \<leftarrow> compiled_of te i ''select'' st;
           let env = env_of te (c_locals c);
           xpath_eval_selection env (xpath_execute_scalar env (te_fuel te)) (c_document c) e st1
         }
       | None \<Rightarrow> do { d \<leftarrow> st_deref st (c_document c); Some (n_children d, st) });
     n \<leftarrow> st_deref st1 (Some i);
     (selection, ps, st2) \<leftarrow> apply_params te ap c k (n_children n) selection0 None st1;
     let (locals, st3) = st_new st2 None EMPTY_NODE;
     mode \<leftarrow> st_attr st3 (Some i) ''mode'';
     each_node k (\<lambda>node st. do {
       (result, st1) \<leftarrow> st_append st (c_result c) EMPTY_NODE;
       let c' = new_context\<lparr>c_result := Some result, c_document := Some node,
         c_parameters := (if ps \<noteq> None then ps else c_parameters c), c_locals := Some locals, c_mode := mode, c_task := c_task c\<rparr>;
       parallel \<leftarrow> is_node_parallel (x_heap st1) (Some node);
       if parallel then template_task_run te i c' po st1 else po c' st1
     }) selection st3
   }"

subsection \<open>Attributes and elements\<close>

fun enclosing_element :: "nat \<Rightarrow> heap \<Rightarrow> ref option \<Rightarrow> ref option option" where
  "enclosing_element k h None = Some None"
| "enclosing_element 0 h (Some a) = None"
| "enclosing_element (Suc k) h (Some a) = do {
     n \<leftarrow> deref h (Some a);
     if n_type n = EMPTY_NODE then enclosing_element k h (n_parent n) else Some (Some a)
   }"

definition instruction_attribute :: "tenv \<Rightarrow> runner \<Rightarrow> tcontext \<Rightarrow> ref \<Rightarrow> xstate \<Rightarrow> xstate option" where
  "instruction_attribute te ap c i st = do {
     name \<leftarrow> st_attr st (Some i) ''name'';
     (aname, st1) \<leftarrow> xml_process_string (env_of te (c_locals c)) (te_fuel te) (c_document c) name st;
     n \<leftarrow> st_deref st1 (Some i);
     (value0, st2) \<leftarrow> xml_eval_string te ap (c_locals c) (c_document c) (n_children n) st1;
     let value = dropWhile x_is_ws value0;
     parent \<leftarrow> enclosing_element (Suc (length (x_heap st2))) (x_heap st2) (c_result c);
     (case parent of
        None \<Rightarrow> Some st2
      | Some _ \<Rightarrow> do {
          p \<leftarrow> st_deref st2 parent;
          found \<leftarrow> first_node (\<lambda>m. n_name m = aname) (x_heap st2) (n_attributes p);
          (a, st3) \<leftarrow> (case found of
              Some a \<Rightarrow> Some (a, st2)
            | None \<Rightarrow> do {
                let (a, st3) = st_new st2 None ATTRIBUTE_NODE;
                st4 \<leftarrow> st_upd st3 (Some a) (\<lambda>m. m\<lparr>n_name := aname, n_next := n_attributes p, n_flags := 2\<rparr>);
                st5 \<leftarrow> st_upd st4 parent (\<lambda>m. m\<lparr>n_attributes := Some a\<rparr>);
                Some (a, st5)
              });
          st_upd st3 (Some a) (\<lambda>m. m\<lparr>n_content := Some value\<rparr>)
        })
   }"

definition instruction_element :: "tenv \<Rightarrow> runner \<Rightarrow> tcontext \<Rightarrow> ref \<Rightarrow> xstate \<Rightarrow> xstate option" where
  "instruction_element te ap c i st = do {
     name \<leftarrow> st_attr st (Some i) ''name'';
     (ename, st1) \<leftarrow> xml_process_string (env_of te (c_locals c)) (te_fuel te) (c_document c) name st;
     (element, st2) \<leftarrow> st_append st1 (c_result c) ELEMENT_NODE;
     st3 \<leftarrow> st_upd st2 (Some element) (\<lambda>m. m\<lparr>n_name := ename\<rparr>);
     ns \<leftarrow> st_attr st3 (Some i) ''xmlns'';
     st4 \<leftarrow> (case ns of
         None \<Rightarrow> Some st3
       | Some _ \<Rightarrow> do {
           (v, st4) \<leftarrow> xml_process_string (env_of te (c_locals c)) (te_fuel te) (c_document c) ns st3;
           let (a, st5) = st_new st4 (Some ''xmlns'') ATTRIBUTE_NODE;
           st6 \<leftarrow> st_upd st5 (Some a) (\<lambda>m. m\<lparr>n_content := v\<rparr>);
           st_upd st6 (Some element) (\<lambda>m. m\<lparr>n_attributes := Some a\<rparr>)
         });
     n \<leftarrow> st_deref st4 (Some i);
     (locals, h) \<leftarrow> copy_variables (x_heap st4) (c_locals c);
     template_task_run te i (new_context\<lparr>c_instruction := n_children n, c_result := Some element, c_document := c_document c,
       c_parameters := c_parameters c, c_locals := Some locals, c_task := c_task c\<rparr>) ap (st4\<lparr>x_heap := h\<rparr>)
   }"

subsection \<open>Conditions and loops\<close>

text \<open>The children of an instruction, run in the same context.\<close>

definition run_children :: "runner \<Rightarrow> tcontext \<Rightarrow> ref \<Rightarrow> xstate \<Rightarrow> xstate option" where
  "run_children ap c i st = do {
     n \<leftarrow> st_deref st (Some i);
     ap (new_context\<lparr>c_instruction := n_children n, c_result := c_result c, c_document := c_document c,
       c_parameters := c_parameters c, c_locals := c_locals c, c_task := c_task c\<rparr>) st
   }"

definition eval_test :: "tenv \<Rightarrow> tcontext \<Rightarrow> ref \<Rightarrow> xstate \<Rightarrow> (bool \<times> xstate) option" where
  "eval_test te c i st = do {
     (e, st1) \<leftarrow> compiled_of te i ''test'' st;
     xpath_eval_boolean (env_of te (c_locals c)) (te_fuel te) (c_document c) e st1
   }"

definition instruction_if :: "tenv \<Rightarrow> runner \<Rightarrow> tcontext \<Rightarrow> ref \<Rightarrow> xstate \<Rightarrow> xstate option" where
  "instruction_if te ap c i st = do {
     (b, st1) \<leftarrow> eval_test te c i st;
     if b then run_children ap c i st1 else Some st1
   }"

fun choose_loop :: "tenv \<Rightarrow> runner \<Rightarrow> tcontext \<Rightarrow> nat \<Rightarrow> ref option \<Rightarrow> ref option \<Rightarrow> xstate \<Rightarrow> xstate option" where
  "choose_loop te ap c k None otherwise st = (case otherwise of None \<Rightarrow> Some st | Some i \<Rightarrow> run_children ap c i st)"
| "choose_loop te ap c 0 (Some i) otherwise st = None"
| "choose_loop te ap c (Suc k) (Some i) otherwise st = do {
     n \<leftarrow> st_deref st (Some i);
     if n_name n = Some ''xsl:otherwise'' then choose_loop te ap c k (n_next n) (Some i) st
     else if n_name n = Some ''xsl:when'' then do {
       (b, st1) \<leftarrow> eval_test te c i st;
       if b then run_children ap c i st1
       else do { m \<leftarrow> st_deref st1 (Some i); choose_loop te ap c k (n_next m) otherwise st1 }
     }
     else choose_loop te ap c k (n_next n) otherwise st
   }"

definition instruction_choose :: "tenv \<Rightarrow> nat \<Rightarrow> runner \<Rightarrow> tcontext \<Rightarrow> ref \<Rightarrow> xstate \<Rightarrow> xstate option" where
  "instruction_choose te k ap c i st = do { n \<leftarrow> st_deref st (Some i); choose_loop te ap c k (n_children n) None st }"

definition instruction_param :: "tenv \<Rightarrow> runner \<Rightarrow> tcontext \<Rightarrow> ref \<Rightarrow> xstate \<Rightarrow> xstate option" where
  "instruction_param te ap c i st = do {
     name \<leftarrow> st_attr st (Some i) ''name'';
     select \<leftarrow> st_attr st (Some i) ''select'';
     given \<leftarrow> xpath_in_selection (x_heap st) (c_parameters c) name;
     n \<leftarrow> st_deref st (Some i);
     if given = None \<and> (select \<noteq> None \<or> n_children n \<noteq> None)
     then do_local_var te ap (c_locals c) (c_document c) i st
     else do {
       h \<leftarrow> add_local_var (x_heap st) (c_locals c) name (c_parameters c);
       Some (st\<lparr>x_heap := h\<rparr>)
     }
   }"

text \<open>The sorts at the start of a for-each; the result is the first other instruction.\<close>

fun foreach_sorts :: "tenv \<Rightarrow> tcontext \<Rightarrow> nat \<Rightarrow> ref option \<Rightarrow> ref option \<Rightarrow> xstate \<Rightarrow> (ref option \<times> ref option \<times> xstate) option" where
  "foreach_sorts te c k None selection st = Some (None, selection, st)"
| "foreach_sorts te c 0 (Some i) selection st = None"
| "foreach_sorts te c (Suc k) (Some i) selection st = do {
     n \<leftarrow> st_deref st (Some i);
     if n_type n = EMPTY_NODE then foreach_sorts te c k (n_next n) selection st
     else if n_name n \<noteq> Some ''xsl:sort'' then Some (Some i, selection, st)
     else do {
       (sel, st1) \<leftarrow> sort_by te c i selection st;
       m \<leftarrow> st_deref st1 (Some i);
       foreach_sorts te c k (n_next m) sel st1
     }
   }"

definition instruction_for_each :: "tenv \<Rightarrow> nat \<Rightarrow> runner \<Rightarrow> tcontext \<Rightarrow> ref \<Rightarrow> xstate \<Rightarrow> xstate option" where
  "instruction_for_each te k ap c i st = do {
     (e, st1) \<leftarrow> compiled_of te i ''select'' st;
     let env = env_of te (c_locals c);
     (selection0, st2) \<leftarrow> xpath_eval_selection env (xpath_execute_scalar env (te_fuel te)) (c_document c) e st1;
     n \<leftarrow> st_deref st2 (Some i);
     (child, selection, st3) \<leftarrow> foreach_sorts te c k (n_children n) selection0 st2;
     each_node k (\<lambda>node st. do {
       (result, st1) \<leftarrow> st_append st (c_result c) EMPTY_NODE;
       (locals, h) \<leftarrow> copy_variables (x_heap st1) (c_locals c);
       let st2 = st1\<lparr>x_heap := h\<rparr>;
       let c' = new_context\<lparr>c_instruction := child, c_result := Some result, c_document := Some node,
         c_parameters := c_parameters c, c_locals := Some locals, c_task := c_task c\<rparr>;
       parallel \<leftarrow> is_node_parallel (x_heap st2) (Some node);
       if parallel then template_task_run te i c' ap st2 else ap c' st2
     }) selection st3
   }"

subsection \<open>Values and copies\<close>

definition instruction_copy_of :: "tenv \<Rightarrow> nat \<Rightarrow> tcontext \<Rightarrow> ref \<Rightarrow> xstate \<Rightarrow> xstate option" where
  "instruction_copy_of te k c i st = do {
     select \<leftarrow> st_attr st (Some i) ''select'';
     (rv, st1) \<leftarrow> xpath_eval_expression (env_of te (c_locals c)) (te_fuel te) (c_document c) select st;
     (case rv of
        VAL_NODESET p \<Rightarrow>
          each_node k (\<lambda>a st. copy_node_to_result_rec k te (c_locals c) (c_document c) (c_result c) a st) p st1
      | _ \<Rightarrow> do {
          s \<leftarrow> rval2string (x_heap st1) rv;
          (case s of None \<Rightarrow> Some st1 | Some text \<Rightarrow> append_text st1 (c_result c) text 0)
        })
   }"

definition instruction_variable :: "tenv \<Rightarrow> runner \<Rightarrow> tcontext \<Rightarrow> ref \<Rightarrow> xstate \<Rightarrow> xstate option" where
  "instruction_variable te ap c i st = do_local_var te ap (c_locals c) (c_document c) i st"

definition instruction_value_of :: "tenv \<Rightarrow> tcontext \<Rightarrow> ref \<Rightarrow> xstate \<Rightarrow> xstate option" where
  "instruction_value_of te c i st = do {
     (e, st1) \<leftarrow> compiled_of te i ''select'' st;
     (content, st2) \<leftarrow> xpath_eval_string (env_of te (c_locals c)) (te_fuel te) (c_document c) e st1;
     (case content of
        None \<Rightarrow> Some st2
      | Some s \<Rightarrow> do { n \<leftarrow> st_deref st2 (Some i); append_text st2 (c_result c) s (n_flags n AND 2) })
   }"

definition instruction_text :: "nat \<Rightarrow> tcontext \<Rightarrow> ref \<Rightarrow> xstate \<Rightarrow> xstate option" where
  "instruction_text k c i st = do {
     n \<leftarrow> st_deref st (Some i);
     each_node k (\<lambda>a st. do {
       m \<leftarrow> st_deref st (Some a);
       if n_type m = TEXT_NODE then do { s \<leftarrow> n_content m; append_text st (c_result c) s (n_flags n AND 2) } else Some st
     }) (n_children n) st
   }"

text \<open>The copy of an attribute goes in front when there is none, and becomes the only successor of the first one otherwise.\<close>

definition copy_attribute :: "ref option \<Rightarrow> xmlnode \<Rightarrow> xstate \<Rightarrow> xstate option" where
  "copy_attribute result d st = do {
     r \<leftarrow> st_deref st result;
     let target = (if n_type r = EMPTY_NODE then n_parent r else result);
     (case target of
        None \<Rightarrow> Some st
      | Some t \<Rightarrow> do {
          e \<leftarrow> st_deref st target;
          if n_type e \<noteq> ELEMENT_NODE then Some st
          else do {
            let (a, st1) = st_new st (n_name d) ATTRIBUTE_NODE;
            st2 \<leftarrow> st_upd st1 (Some a) (\<lambda>m. m\<lparr>n_content := n_content d\<rparr>);
            (case n_attributes e of
               None \<Rightarrow> st_upd st2 target (\<lambda>m. m\<lparr>n_attributes := Some a\<rparr>)
             | Some _ \<Rightarrow> st_upd st2 (n_attributes e) (\<lambda>m. m\<lparr>n_next := Some a\<rparr>))
          }
        })
   }"

definition instruction_copy :: "runner \<Rightarrow> tcontext \<Rightarrow> ref \<Rightarrow> xstate \<Rightarrow> xstate option" where
  "instruction_copy ap c i st = do {
     d \<leftarrow> st_deref st (c_document c);
     (result, st1) \<leftarrow>
       (if n_type d = ATTRIBUTE_NODE then map_option (\<lambda>st1. (c_result c, st1)) (copy_attribute (c_result c) d st)
        else if n_type d = TEXT_NODE then do {
          (a, st1) \<leftarrow> st_append st (c_result c) TEXT_NODE;
          st2 \<leftarrow> st_upd st1 (Some a) (\<lambda>m. m\<lparr>n_content := n_content d\<rparr>);
          Some (Some a, st2)
        }
        else if n_type d = ELEMENT_NODE then do {
          (a, st1) \<leftarrow> st_append st (c_result c) ELEMENT_NODE;
          st2 \<leftarrow> st_upd st1 (Some a) (\<lambda>m. m\<lparr>n_name := n_name d\<rparr>);
          Some (Some a, st2)
        }
        else Some (c_result c, st));
     n \<leftarrow> st_deref st1 (Some i);
     if n_children n \<noteq> None then run_children ap (c\<lparr>c_result := result\<rparr>) i st1 else Some st1
   }"

text \<open>The message goes to the log; what its evaluation does to the state stays.\<close>

definition instruction_message :: "tenv \<Rightarrow> runner \<Rightarrow> tcontext \<Rightarrow> ref \<Rightarrow> xstate \<Rightarrow> xstate option" where
  "instruction_message te ap c i st = do {
     n \<leftarrow> st_deref st (Some i);
     (msg, st1) \<leftarrow> xml_eval_string te ap (c_locals c) (c_document c) (n_children n) st;
     Some st1
   }"

definition instruction_number :: "tcontext \<Rightarrow> xstate \<Rightarrow> xstate option" where
  "instruction_number c st = append_text st (c_result c) ''1.'' 0"

definition instruction_comment :: "tenv \<Rightarrow> runner \<Rightarrow> tcontext \<Rightarrow> ref \<Rightarrow> xstate \<Rightarrow> xstate option" where
  "instruction_comment te ap c i st = do {
     (a, st1) \<leftarrow> st_append st (c_result c) COMMENT_NODE;
     n \<leftarrow> st_deref st1 (Some i);
     (s, st2) \<leftarrow> xml_eval_string te ap (c_locals c) (c_document c) (n_children n) st1;
     st_upd st2 (Some a) (\<lambda>m. m\<lparr>n_content := Some s\<rparr>)
   }"

definition instruction_processing_instruction :: "tenv \<Rightarrow> runner \<Rightarrow> tcontext \<Rightarrow> ref \<Rightarrow> xstate \<Rightarrow> xstate option" where
  "instruction_processing_instruction te ap c i st = do {
     (a, st1) \<leftarrow> st_append st (c_result c) PI_NODE;
     name \<leftarrow> st_attr st1 (Some i) ''name'';
     st2 \<leftarrow> st_upd st1 (Some a) (\<lambda>m. m\<lparr>n_name := name\<rparr>);
     n \<leftarrow> st_deref st2 (Some i);
     (s, st3) \<leftarrow> xml_eval_string te ap (c_locals c) (c_document c) (n_children n) st2;
     st_upd st3 (Some a) (\<lambda>m. m\<lparr>n_content := Some s\<rparr>)
   }"

subsection \<open>The main loop\<close>

definition instructions_is_xsl :: "xmlnode \<Rightarrow> bool" where
  "instructions_is_xsl n = (case n_name n of None \<Rightarrow> False | Some s \<Rightarrow> starts_with ''xsl:'' s)"

text \<open>The table of instructions; \<open>None\<close> is an instruction that is not supported, which is logged and skipped.\<close>

definition instruction_of :: "tenv \<Rightarrow> nat \<Rightarrow> runner \<Rightarrow> runner \<Rightarrow> (cstring \<times> (tcontext \<Rightarrow> ref \<Rightarrow> xstate \<Rightarrow> xstate option)) list" where
  "instruction_of te k ap po =
     [(''xsl:call-template'', instruction_call_template te k ap),
      (''xsl:apply-templates'', instruction_apply_templates te k ap po),
      (''xsl:attribute'', instruction_attribute te ap),
      (''xsl:element'', instruction_element te ap),
      (''xsl:if'', instruction_if te ap),
      (''xsl:choose'', instruction_choose te k ap),
      (''xsl:param'', instruction_param te ap),
      (''xsl:for-each'', instruction_for_each te k ap),
      (''xsl:copy-of'', instruction_copy_of te k),
      (''xsl:variable'', instruction_variable te ap),
      (''xsl:value-of'', instruction_value_of te),
      (''xsl:text'', instruction_text k),
      (''xsl:copy'', instruction_copy ap),
      (''xsl:message'', instruction_message te ap),
      (''xsl:number'', \<lambda>c i. instruction_number c),
      (''xsl:comment'', instruction_comment te ap),
      (''xsl:processing-instruction'', instruction_processing_instruction te ap)]"

definition instructions_process :: "tenv \<Rightarrow> nat \<Rightarrow> runner \<Rightarrow> runner \<Rightarrow> tcontext \<Rightarrow> ref \<Rightarrow> xstate \<Rightarrow> xstate option" where
  "instructions_process te k ap po c i st = do {
     n \<leftarrow> st_deref st (Some i);
     name \<leftarrow> n_name n;
     (case map_of (instruction_of te k ap po) name of
        None \<Rightarrow> Some st
      | Some f \<Rightarrow> f c i st)
   }"

text \<open>One node of a template: a group, an instruction, or a literal result node.\<close>

definition apply_one :: "tenv \<Rightarrow> nat \<Rightarrow> runner \<Rightarrow> runner \<Rightarrow> tcontext \<Rightarrow> ref \<Rightarrow> xstate \<Rightarrow> xstate option" where
  "apply_one te k ap po c i st = do {
     n \<leftarrow> st_deref st (Some i);
     if n_type n = EMPTY_NODE then
       (if n_children n \<noteq> None then ap (c\<lparr>c_instruction := n_children n\<rparr>) st else Some st)
     else if instructions_is_xsl n then instructions_process te k ap po c i st
     else do {
       (result, st1) \<leftarrow> copy_node_to_result te (c_locals c) (c_document c) (c_result c) i st;
       m \<leftarrow> st_deref st1 (Some i);
       if n_children m = None then Some st1
       else do {
         (locals, h) \<leftarrow> copy_variables (x_heap st1) (c_locals c);
         ap (new_context\<lparr>c_instruction := n_children m, c_result := Some result, c_document := c_document c,
           c_parameters := c_parameters c, c_locals := Some locals, c_task := c_task c\<rparr>) (st1\<lparr>x_heap := h\<rparr>)
       }
     }
   }"

definition apply_default_process :: "tenv \<Rightarrow> nat \<Rightarrow> runner \<Rightarrow> tcontext \<Rightarrow> xstate \<Rightarrow> xstate option" where
  "apply_default_process te k po c st = do {
     d \<leftarrow> st_deref st (c_document c);
     if n_type d = TEXT_NODE then do { s \<leftarrow> n_content d; append_text st (c_result c) s 0 }
     else each_node k (\<lambda>child st. do {
       m \<leftarrow> st_deref st (Some child);
       if n_type m = TEXT_NODE then do { s \<leftarrow> n_content m; append_text st (c_result c) s 0 }
       else do {
         (result, st1) \<leftarrow> st_append st (c_result c) EMPTY_NODE;
         (locals, h) \<leftarrow> copy_variables (x_heap st1) (c_locals c);
         po (new_context\<lparr>c_result := Some result, c_document := Some child, c_parameters := c_parameters c,
           c_locals := Some locals, c_mode := c_mode c, c_task := c_task c\<rparr>) (st1\<lparr>x_heap := h\<rparr>)
       }
     }) (n_children d) st
   }"

definition process_step :: "tenv \<Rightarrow> nat \<Rightarrow> runner \<Rightarrow> runner \<Rightarrow> tcontext \<Rightarrow> xstate \<Rightarrow> xstate option" where
  "process_step te k ap po c st =
     (if c_document c = None then Some st
      else do {
        let env = (te_env te)\<lparr>e_locals := None\<rparr>;
        (template, st1) \<leftarrow> find_template env (xpath_execute_scalar env (te_fuel te)) (ts_map (te_templates te))
          (c_document c) (c_mode c) st;
        (case template of
           Some t \<Rightarrow> do {
             let (scope, st2) = st_new st1 None EMPTY_NODE;
             ap (new_context\<lparr>c_instruction := Some t, c_result := c_result c, c_document := c_document c,
               c_parameters := c_parameters c, c_locals := Some scope, c_task := c_task c\<rparr>) st2
           }
         | None \<Rightarrow> apply_default_process te k po c st1)
      })"

datatype work = Apply tcontext | Process tcontext

primrec run_xslt :: "tenv \<Rightarrow> nat \<Rightarrow> work \<Rightarrow> xstate \<Rightarrow> xstate option" where
  "run_xslt te 0 w st = None"
| "run_xslt te (Suc k) w st =
     (case w of
        Apply c \<Rightarrow> each_node k (\<lambda>i st. apply_one te k (\<lambda>c. run_xslt te k (Apply c)) (\<lambda>c. run_xslt te k (Process c)) c i st)
          (c_instruction c) st
      | Process c \<Rightarrow> process_step te k (\<lambda>c. run_xslt te k (Apply c)) (\<lambda>c. run_xslt te k (Process c)) c st)"

definition apply_xslt_template :: "tenv \<Rightarrow> nat \<Rightarrow> runner" where
  "apply_xslt_template te k c = run_xslt te k (Apply c)"

definition process_one_node :: "tenv \<Rightarrow> nat \<Rightarrow> runner" where
  "process_one_node te k c = run_xslt te k (Process c)"

end
