(* ===== verification/Tx_Literal.thy ===== *)
theory Tx_Literal
  imports Tx_Instructions Tx_XmlRoundtrip
begin

text \<open>
  The main loop on literal result elements: a template without instructions is copied into the result, node by
  node, with its attributes in reverse order. With the serialiser this gives the text that a
  stylesheet of one literal template for the root produces.
\<close>

subsection \<open>Literal templates\<close>

text \<open>A template without instructions and without braces in its attributes.\<close>

definition no_braces :: "cstring \<Rightarrow> bool" where
  "no_braces s \<longleftrightarrow> CHR ''{'' \<notin> set s \<and> CHR ''}'' \<notin> set s"

fun literal :: "xml list \<Rightarrow> bool" where
  "literal [] = True"
| "literal (X_text s # ts) \<longleftrightarrow> literal ts"
| "literal (X_elem n as ks # ts) \<longleftrightarrow> \<not> starts_with ''xsl:'' n \<and> list_all (\<lambda>(a, v). no_braces v) as \<and> literal ks \<and> literal ts"

lemma process_no_braces: "no_braces s \<Longrightarrow> xml_process_string env k current (Some s) st = Some (Some s, st)"
  by (simp add: xml_process_string_def no_braces_def)

subsection \<open>Growing a result\<close>

text \<open>
  The list \<open>xs\<close> of children of \<open>r\<close> grows: besides new nodes only the pointer to the first child and the
  successors of the children change.
\<close>

definition kids :: "heap \<Rightarrow> ref \<Rightarrow> ref list \<Rightarrow> bool" where
  "kids h r xs \<longleftrightarrow> r < length h \<and> r \<notin> set xs \<and> linked n_next h (n_children (h ! r)) xs"

definition grows :: "ref \<Rightarrow> ref list \<Rightarrow> heap \<Rightarrow> heap \<Rightarrow> bool" where
  "grows r xs h h' \<longleftrightarrow> length h \<le> length h' \<and>
     (\<forall>i<length h. (if i = r then (h' ! i)\<lparr>n_children := None\<rparr> = (h ! i)\<lparr>n_children := None\<rparr>
        else if i \<in> set xs then (h' ! i)\<lparr>n_next := None\<rparr> = (h ! i)\<lparr>n_next := None\<rparr> else h' ! i = h ! i))"

lemma grows_refl: "grows r xs h h"
  by (simp add: grows_def)

lemma grows_other: "grows r xs h h' \<Longrightarrow> i < length h \<Longrightarrow> i \<noteq> r \<Longrightarrow> i \<notin> set xs \<Longrightarrow> h' ! i = h ! i"
  by (auto simp: grows_def)

lemma grows_trans:
  assumes "grows r xs h h'" "grows r (xs @ ys) h' h''" "\<forall>y\<in>set ys. length h \<le> y"
  shows "grows r xs h h''"
  unfolding grows_def
proof (intro conjI allI impI)
  show "length h \<le> length h''" using assms(1,2) by (simp add: grows_def)
  fix i assume i: "i < length h"
  then have i': "i < length h'" "i \<notin> set ys" using assms(1,3) by (auto simp: grows_def)
  have "if i = r then (h' ! i)\<lparr>n_children := None\<rparr> = (h ! i)\<lparr>n_children := None\<rparr>
        else if i \<in> set xs then (h' ! i)\<lparr>n_next := None\<rparr> = (h ! i)\<lparr>n_next := None\<rparr> else h' ! i = h ! i"
    using assms(1) i by (simp add: grows_def)
  moreover have "if i = r then (h'' ! i)\<lparr>n_children := None\<rparr> = (h' ! i)\<lparr>n_children := None\<rparr>
        else if i \<in> set (xs @ ys) then (h'' ! i)\<lparr>n_next := None\<rparr> = (h' ! i)\<lparr>n_next := None\<rparr> else h'' ! i = h' ! i"
    using assms(2) i'(1) unfolding grows_def by blast
  ultimately show "if i = r then (h'' ! i)\<lparr>n_children := None\<rparr> = (h ! i)\<lparr>n_children := None\<rparr>
        else if i \<in> set xs then (h'' ! i)\<lparr>n_next := None\<rparr> = (h ! i)\<lparr>n_next := None\<rparr> else h'' ! i = h ! i"
    using i'(2) by (auto split: if_splits)
qed

lemma grows_attributes: "grows r xs h h' \<Longrightarrow> i < length h \<Longrightarrow> n_attributes (h' ! i) = n_attributes (h ! i)"
  unfolding grows_def by (metis (no_types, lifting) xmlnode.select_convs(5) xmlnode.surjective xmlnode.update_convs(2,4))

text \<open>Appending a child.\<close>

lemma linked_snoc:
  "linked n_next h p (xs @ [x]) \<Longrightarrow> length h \<le> length h' \<Longrightarrow> (\<And>i. i \<in> set xs \<Longrightarrow> n_next (h' ! i) = n_next (h ! i)) \<Longrightarrow>
    n_next (h' ! x) = Some y \<Longrightarrow> y < length h' \<Longrightarrow> n_next (h' ! y) = None \<Longrightarrow> linked n_next h' p (xs @ [x, y])"
  by (induction xs arbitrary: p) auto

lemma linked_append_heap: "linked n_next h p xs \<Longrightarrow> linked n_next (h @ ys) p xs"
  by (rule linked_frame) (auto simp: nth_append dest: subsetD[OF linked_bound])

lemma append_kid:
  assumes "kids (x_heap st) r xs"
  shows "\<exists>st'. st_append st (Some r) ty = Some (length (x_heap st), st') \<and> kids (x_heap st') r (xs @ [length (x_heap st)]) \<and>
    length (x_heap st') = Suc (length (x_heap st)) \<and> grows r xs (x_heap st) (x_heap st') \<and>
    (\<exists>n. x_heap st' ! length (x_heap st) = n \<and> n_type n = ty \<and> n_flags n = 0 \<and> n_attributes n = None \<and> n_children n = None \<and> n_next n = None)"
proof -
  let ?h = "x_heap st" and ?b = "length (x_heap st)"
  define x where "x = null_node\<lparr>n_type := ty, n_name := None, n_uid := Some ?b\<rparr>"
  have x: "n_type x = ty" "n_flags x = 0" "n_attributes x = None" "n_children x = None" "n_next x = None"
    by (simp_all add: x_def null_node_def)
  from assms have r: "r < ?b" "r \<notin> set xs" "linked n_next ?h (n_children (?h ! r)) xs" by (auto simp: kids_def)
  note bound = linked_bound[OF r(3)]
  show ?thesis
  proof (cases xs rule: rev_cases)
    case Nil
    then have nc: "n_children (?h ! r) = None" using r(3) by simp
    let ?h' = "set_node ?h r (\<lambda>m. m\<lparr>n_children := Some ?b\<rparr>) @ [x\<lparr>n_parent := Some r\<rparr>]"
    have "xml_append_child ?h (Some r) ty = Some (?b, ?h')"
      using r(1) nc set_node_append(2)[of "set_node ?h r f" for f]
      by (simp add: xml_append_child_def xml_new_node_def xml_add_child_def x_def nth_append)
    moreover have "kids ?h' r [?b]" using r(1) x by (simp add: kids_def nth_append)
    moreover have "grows r [] ?h ?h'" using r(1) by (auto simp: grows_def nth_append)
    ultimately show ?thesis using Nil x
      by (intro exI[of _ "st\<lparr>x_heap := ?h'\<rparr>"]) (simp add: st_append_def nth_append)
  next
    case (snoc ys l)
    then obtain f where f: "n_children (?h ! r) = Some f" "f = hd xs" using r(3) snoc by (cases ys) auto
    have l: "l < ?b" "l \<noteq> r" "l \<notin> set ys" using snoc bound r(2) linked_distinct[OF r(3)] by auto
    have "linked n_next (?h @ [x]) (Some f) xs" using linked_append_heap[OF r(3)] f by simp
    from last_node_chain[OF this] snoc have ln: "last_node (?h @ [x]) f = Some l" by simp
    let ?y = "x\<lparr>n_prev := Some l, n_parent := Some r\<rparr>"
    let ?h' = "set_node ?h l (\<lambda>m. m\<lparr>n_next := Some ?b\<rparr>) @ [?y]"
    have "xml_append_child ?h (Some r) ty = Some (?b, ?h')"
      using r(1) f(1) ln l(1) set_node_append(2)[of "set_node ?h l f" for f]
      by (simp add: xml_append_child_def xml_new_node_def xml_add_child_def x_def nth_append)
    moreover have "kids ?h' r (xs @ [?b])"
    proof -
      have "linked n_next ?h' (n_children (?h ! r)) (ys @ [l, ?b])"
        by (rule linked_snoc[of ?h]) (use r(3) snoc l x bound in \<open>auto simp: nth_append\<close>)
      then show ?thesis using r l snoc by (simp add: kids_def nth_append)
    qed
    moreover have "grows r xs ?h ?h'" using l snoc by (auto simp: grows_def nth_append)
    ultimately show ?thesis using x
      by (intro exI[of _ "st\<lparr>x_heap := ?h'\<rparr>"]) (simp add: st_append_def nth_append)
  qed
qed

text \<open>A node of the result whose own fields change.\<close>

lemma grows_set_new: "grows r xs h h' \<Longrightarrow> length h \<le> a \<Longrightarrow> grows r xs h (set_node h' a f)"
  by (auto simp: grows_def set_node_def nth_list_update)

lemma grows_append_heap: "grows r xs h h' \<Longrightarrow> grows r xs h (h' @ ys)"
  by (auto simp: grows_def nth_append)

lemma kids_set:
  assumes "kids h r xs" "n_children (f (h ! a)) = n_children (h ! a)" "n_next (f (h ! a)) = n_next (h ! a)"
  shows "kids (set_node h a f) r xs"
proof (cases "a < length h")
  case True
  have "linked n_next (set_node h a f) (n_children (h ! r)) xs"
    by (rule linked_frame[of _ h]) (use assms True in \<open>auto simp: kids_def\<close>)
  then show ?thesis using assms True by (cases "r = a") (simp_all add: kids_def)
next
  case False
  then show ?thesis using assms(1) by (simp add: set_node_def list_update_beyond)
qed

lemma kids_append_heap: "kids h r xs \<Longrightarrow> kids (h @ ys) r xs"
  using linked_append_heap by (auto simp: kids_def nth_append)

subsection \<open>Copies of literal nodes\<close>

text \<open>The template lies in the first \<open>m\<close> nodes, which the copy leaves as they are.\<close>

lemma attrs_rep_take:
  assumes "attrs_rep lo (take m h) p as" "take m h' = take m h"
  shows "attrs_rep lo (take m h') p as"
  using assms by simp

lemma copy_attributes_rep:
  "attrs_rep lo0 (take m (x_heap st)) p as \<Longrightarrow> list_all (\<lambda>(a, v). no_braces v) as \<Longrightarrow> length as \<le> k \<Longrightarrow>
    m \<le> a \<Longrightarrow> a < lo \<Longrightarrow> lo \<le> length (x_heap st) \<Longrightarrow> attrs_rep lo (x_heap st) (n_attributes (x_heap st ! a)) old \<Longrightarrow>
    \<exists>q ys. copy_attributes te k locals context a p st =
        Some (st\<lparr>x_heap := set_node (x_heap st) a (\<lambda>n. n\<lparr>n_attributes := q\<rparr>) @ ys\<rparr>) \<and>
      attrs_rep lo (set_node (x_heap st) a (\<lambda>n. n\<lparr>n_attributes := q\<rparr>) @ ys) q (rev as @ old)"
proof (induction as arbitrary: p k st old)
  case Nil
  have "set_node (x_heap st) a (\<lambda>n. n\<lparr>n_attributes := n_attributes (x_heap st ! a)\<rparr>) = x_heap st" by (rule set_node_same) simp
  with Nil show ?case by (intro exI[of _ "n_attributes (x_heap st ! a)"] exI[of _ "[]"]) (cases k; simp)
next
  case (Cons nv as)
  let ?h = "x_heap st" and ?t = "length (x_heap st)"
  obtain n v where nv: "nv = (n, v)" by fastforce
  obtain k' where k: "k = Suc k'" using Cons.prems(3) by (cases k) auto
  from Cons.prems(1) nv obtain b where b: "p = Some b" "b < m" "b < ?t" "n_name (?h ! b) = Some n" "n_content (?h ! b) = Some v"
    "attrs_rep lo0 (take m ?h) (n_next (?h ! b)) as" by (auto simp: min_def split: if_splits)
  have ab: "a < ?t" "b \<noteq> a" using Cons.prems(4-6) b(2) by auto
  have "no_braces v" using Cons.prems(2) nv by simp
  note pr = process_no_braces[OF this]
  define x where "x = null_node\<lparr>n_type := ATTRIBUTE_NODE, n_uid := Some ?t, n_name := Some n, n_content := Some v,
    n_next := n_attributes (?h ! a)\<rparr>"
  define h1 where "h1 = set_node ?h a (\<lambda>e. e\<lparr>n_attributes := Some ?t\<rparr>) @ [x]"
  have sn: "set_node (?h @ [y]) ?t f = ?h @ [f y]" for y f by simp
  have "copy_attributes te k locals context a p st = copy_attributes te k' locals context a (n_next (?h ! b)) (st\<lparr>x_heap := h1\<rparr>)"
    using k b ab pr by (simp add: st_new_def xml_new_node_def st_upd_def nth_append h1_def x_def)
  moreover have take1: "take m h1 = take m ?h"
    using Cons.prems(4) ab by (simp add: h1_def set_node_def)
  have nth: "h1 ! ?t = x" "n_attributes (h1 ! a) = Some ?t" "length h1 = Suc ?t" using ab by (simp_all add: h1_def nth_append)
  have "attrs_rep lo h1 (n_attributes (?h ! a)) old"
    by (rule attrs_rep_frame[OF _ _ _ Cons.prems(7)]) (use Cons.prems(5) ab in \<open>auto simp: h1_def nth_append\<close>)
  then have "attrs_rep lo h1 (n_attributes (h1 ! a)) ((n, v) # old)"
    using nth Cons.prems(6) by (simp add: x_def)
  with Cons.IH[of "st\<lparr>x_heap := h1\<rparr>" "n_next (?h ! b)" k' "(n, v) # old"] b(6) take1 Cons.prems(2-6) k nth(3)
  obtain q ys where q: "copy_attributes te k' locals context a (n_next (?h ! b)) (st\<lparr>x_heap := h1\<rparr>) =
      Some (st\<lparr>x_heap := set_node h1 a (\<lambda>n. n\<lparr>n_attributes := q\<rparr>) @ ys\<rparr>)"
    "attrs_rep lo (set_node h1 a (\<lambda>n. n\<lparr>n_attributes := q\<rparr>) @ ys) q (rev as @ (n, v) # old)" by auto
  moreover have "set_node h1 a (\<lambda>n. n\<lparr>n_attributes := q\<rparr>) = set_node ?h a (\<lambda>n. n\<lparr>n_attributes := q\<rparr>) @ [x]"
    using ab by (simp add: h1_def set_node_twice)
  ultimately show ?case using nv by (intro exI[of _ q] exI[of _ "x # ys"]) simp
qed

text \<open>One literal node, without its children: the new child of \<open>r\<close>.\<close>

fun shallow_rep :: "nat \<Rightarrow> heap \<Rightarrow> ref \<Rightarrow> xml \<Rightarrow> bool" where
  "shallow_rep lo h a (X_text s) \<longleftrightarrow> n_type (h ! a) = TEXT_NODE \<and> n_flags (h ! a) = 0 \<and> n_content (h ! a) = Some s"
| "shallow_rep lo h a (X_elem n as ks) \<longleftrightarrow> n_type (h ! a) = ELEMENT_NODE \<and> n_name (h ! a) = Some n \<and>
     attrs_rep lo h (n_attributes (h ! a)) (rev as)"

lemma copy_node_rep:
  assumes "node_rep lo0 (take m (x_heap st)) i x" "i < m" "m \<le> r" "\<forall>y\<in>set xs. m \<le> y" "kids (x_heap st) r xs" "literal [x]"
  shows "\<exists>st'. copy_node_to_result te locals context (Some r) i st = Some (length (x_heap st), st') \<and>
    kids (x_heap st') r (xs @ [length (x_heap st)]) \<and> grows r xs (x_heap st) (x_heap st') \<and> length (x_heap st) < length (x_heap st') \<and>
    n_children (x_heap st' ! length (x_heap st)) = None \<and> shallow_rep (Suc (length (x_heap st))) (x_heap st') (length (x_heap st)) x"
proof -
  let ?h = "x_heap st" and ?b = "length (x_heap st)"
  have mb: "m < ?b" using assms(3,5) by (simp add: kids_def)
  then have ib: "i < ?b" "?h ! i = take m ?h ! i" using assms(2) by auto
  obtain st1 n where st1: "st_append st (Some r) (n_type (?h ! i)) = Some (?b, st1)" "kids (x_heap st1) r (xs @ [?b])"
    "length (x_heap st1) = Suc ?b" "grows r xs ?h (x_heap st1)" "x_heap st1 ! ?b = n" "n_type n = n_type (?h ! i)" "n_flags n = 0"
    "n_attributes n = None" "n_children n = None" "n_next n = None" using append_kid[OF assms(5)] by blast
  let ?f = "\<lambda>e. e\<lparr>n_name := n_name (?h ! i), n_flags := n_flags (?h ! i)\<rparr>"
  define h2 where "h2 = set_node (x_heap st1) ?b ?f"
  have h2: "kids h2 r (xs @ [?b])" "grows r xs ?h h2" "length h2 = Suc ?b" "h2 ! ?b = ?f n"
    using kids_set[OF st1(2)] grows_set_new[OF st1(4)] st1(3,5) by (simp_all add: h2_def)
  have m2: "take m h2 = take m ?h"
  proof (rule nth_equalityI)
    fix j assume "j < length (take m h2)"
    then have "j < m" by simp
    with grows_other[OF h2(2), of j] assms(3,4) mb show "take m h2 ! j = take m ?h ! j" by force
  qed (use h2(3) mb in simp)
  show ?thesis
  proof (cases x)
    case (X_text s)
    then have i: "n_type (?h ! i) = TEXT_NODE" "n_flags (?h ! i) = 0" "n_content (?h ! i) = Some s" using assms(1) ib by simp_all
    let ?h3 = "set_node h2 ?b (\<lambda>e. e\<lparr>n_content := Some s\<rparr>)"
    have "copy_node_to_result te locals context (Some r) i st = Some (?b, st1\<lparr>x_heap := ?h3\<rparr>)"
      using st1(1,3) ib(1) i h2(3) by (simp add: copy_node_to_result_def st_upd_def h2_def)
    moreover have "kids ?h3 r (xs @ [?b])" by (rule kids_set[OF h2(1)]) simp_all
    ultimately show ?thesis using grows_set_new[OF h2(2)] h2(3,4) st1(6,9) i X_text
      by (intro exI[of _ "st1\<lparr>x_heap := ?h3\<rparr>"]) simp
  next
    case (X_elem nm as ks)
    then have i: "n_type (?h ! i) = ELEMENT_NODE" "n_name (?h ! i) = Some nm" "attrs_rep lo0 (take m ?h) (n_attributes (?h ! i)) as"
      using assms(1) ib by simp_all
    have h2s: "set_node (x_heap st1) ?b (\<lambda>e. e\<lparr>n_name := Some nm, n_flags := n_flags (?h ! i)\<rparr>) = h2"
      using i(2) by (simp add: h2_def)
    have "length as \<le> ?b"
    proof -
      from attrs_rep_linked[OF i(3)] linked_length have "length as \<le> length (take m ?h)" by metis
      then show ?thesis by simp
    qed
    with copy_attributes_rep[of lo0 m "st1\<lparr>x_heap := h2\<rparr>" "n_attributes (?h ! i)" as ?b ?b "Suc ?b" "[]" te locals "context"]
      i(3) m2 assms(6) X_elem mb h2(3,4) st1(8) obtain q ys where
      q: "copy_attributes te ?b locals context ?b (n_attributes (?h ! i)) (st1\<lparr>x_heap := h2\<rparr>) =
        Some (st1\<lparr>x_heap := set_node h2 ?b (\<lambda>n. n\<lparr>n_attributes := q\<rparr>) @ ys\<rparr>)"
      "attrs_rep (Suc ?b) (set_node h2 ?b (\<lambda>n. n\<lparr>n_attributes := q\<rparr>) @ ys) q (rev as)" by auto
    let ?h3 = "set_node h2 ?b (\<lambda>n. n\<lparr>n_attributes := q\<rparr>) @ ys"
    have "copy_node_to_result te locals context (Some r) i st = Some (?b, st1\<lparr>x_heap := ?h3\<rparr>)"
      using st1(1,3) ib(1) i q(1) h2s by (simp add: copy_node_to_result_def st_upd_def)
    moreover have "kids ?h3 r (xs @ [?b])" by (intro kids_append_heap kids_set[OF h2(1)]) simp_all
    moreover have "grows r xs ?h ?h3" by (intro grows_append_heap grows_set_new[OF h2(2)]) simp
    ultimately show ?thesis using h2(3,4) st1(6,9) i(1,2) q(2) X_elem
      by (intro exI[of _ "st1\<lparr>x_heap := ?h3\<rparr>"]) (simp add: nth_append)
  qed
qed

subsection \<open>The main loop on literal templates\<close>

lemma node_rep_mono: "lo' \<le> lo \<Longrightarrow> node_rep lo h a x \<Longrightarrow> node_rep lo' h a x"
  by (cases x) (auto intro: attrs_rep_frame doc_rep_frame)

lemma doc_rep_linked:
  "linked n_next h p ys \<Longrightarrow> \<forall>y\<in>set ys. lo \<le> y \<Longrightarrow> list_all2 (\<lambda>y x. node_rep lo h y (rev_node x)) ys ts \<Longrightarrow>
    doc_rep lo h p (rev_attrs ts)"
proof (induction ts arbitrary: p ys)
  case (Cons x ts)
  then show ?case by (cases ys) (auto simp: rev_attrs_Cons doc_rep_Cons)
qed simp

text \<open>Text nodes have neither a name nor children.\<close>

definition plain_texts :: "heap \<Rightarrow> bool" where
  "plain_texts h \<longleftrightarrow> (\<forall>n\<in>set h. n_type n = TEXT_NODE \<longrightarrow> n_name n = None \<and> n_children n = None)"

lemma plain_textsD: "plain_texts h \<Longrightarrow> i < length h \<Longrightarrow> n_type (h ! i) = TEXT_NODE \<Longrightarrow> n_name (h ! i) = None \<and> n_children (h ! i) = None"
  by (auto simp: plain_texts_def)

definition no_locals :: "heap \<Rightarrow> ref option \<Rightarrow> bool" where
  "no_locals h p \<longleftrightarrow> (\<exists>l. p = Some l \<and> l < length h \<and> n_attributes (h ! l) = None)"

lemma copy_no_locals:
  assumes "no_locals h p"
  shows "\<exists>n. copy_variables h p = Some (length h, h @ [n]) \<and> n_attributes n = None"
proof -
  from assms obtain l where "p = Some l" "l < length h" "n_attributes (h ! l) = None" by (auto simp: no_locals_def)
  then show ?thesis
    by (simp add: copy_variables_def xml_new_node_def walk_def nth_append null_node_def)
qed

lemma no_locals_grows: "no_locals h p \<Longrightarrow> grows r xs h h' \<Longrightarrow> no_locals h' p"
  by (auto simp: no_locals_def grows_attributes) (auto simp: grows_def)

text \<open>What the loop has done: \<open>ys\<close> are the new children of \<open>r\<close>.\<close>

definition literal_done :: "ref \<Rightarrow> ref list \<Rightarrow> heap \<Rightarrow> heap \<Rightarrow> xml list \<Rightarrow> ref list \<Rightarrow> bool" where
  "literal_done r xs h h' ts ys \<longleftrightarrow> kids h' r (xs @ ys) \<and> grows r xs h h' \<and> (\<forall>y\<in>set ys. length h \<le> y) \<and>
     list_all2 (\<lambda>y x. node_rep (length h) h' y (rev_node x)) ys ts"

lemma literal_one:
  assumes x: "node_rep lo0 (take m (x_heap st)) i x" "i < m" "literal [x]" "plain_texts (take m (x_heap st))"
    and r: "m \<le> r" "\<forall>y\<in>set xs. m \<le> y" "kids (x_heap st) r xs" "c_result c = Some r" "no_locals (x_heap st) (c_locals c)"
    and IH: "\<And>n as ks st' r' c' p. x = X_elem n as ks \<Longrightarrow> ks \<noteq> [] \<Longrightarrow> take m (x_heap st') = take m (x_heap st) \<Longrightarrow>
      doc_rep lo0 (take m (x_heap st')) p ks \<Longrightarrow> m \<le> r' \<Longrightarrow> kids (x_heap st') r' [] \<Longrightarrow>
      no_locals (x_heap st') (c_locals c') \<Longrightarrow> c_result c' = Some r' \<Longrightarrow> c_instruction c' = p \<Longrightarrow>
      \<exists>st'' ys. ap c' st' = Some st'' \<and> literal_done r' [] (x_heap st') (x_heap st'') ks ys"
  shows "\<exists>st'. apply_one te k ap po c i st = Some st' \<and> kids (x_heap st') r (xs @ [length (x_heap st)]) \<and>
    grows r xs (x_heap st) (x_heap st') \<and> node_rep (Suc (length (x_heap st))) (x_heap st') (length (x_heap st)) (rev_node x)"
proof -
  let ?h = "x_heap st" and ?b = "length (x_heap st)"
  have mb: "m < ?b" using r(1,3) by (simp add: kids_def)
  then have ib: "i < ?b" "take m ?h ! i = ?h ! i" "i \<noteq> r" "i \<notin> set xs" using x(2) r(1,2) by auto
  have ty: "n_type (?h ! i) \<noteq> EMPTY_NODE" using x(1) ib by (cases x) auto
  have notxsl: "\<not> instructions_is_xsl (?h ! i)"
  proof (cases x)
    case (X_text s)
    then have "n_name (?h ! i) = None" using plain_textsD[OF x(4), of i] x(1,2) ib mb by simp
    then show ?thesis by (simp add: instructions_is_xsl_def)
  next
    case (X_elem n as ks)
    then show ?thesis using x(1,3) ib by (simp add: instructions_is_xsl_def)
  qed
  from copy_node_rep[OF x(1,2) r(1-3) x(3), of te "c_locals c" "c_document c"] obtain st1 where
    st1: "copy_node_to_result te (c_locals c) (c_document c) (Some r) i st = Some (?b, st1)" "kids (x_heap st1) r (xs @ [?b])"
      "grows r xs ?h (x_heap st1)" "?b < length (x_heap st1)" "n_children (x_heap st1 ! ?b) = None"
      "shallow_rep (Suc ?b) (x_heap st1) ?b x" by blast
  have i1: "x_heap st1 ! i = ?h ! i" using grows_other[OF st1(3) ib(1,3,4)] .
  have m1: "take m (x_heap st1) = take m ?h"
  proof (rule nth_equalityI)
    fix j assume "j < length (take m (x_heap st1))"
    then have "j < m" by simp
    with grows_other[OF st1(3), of j] r(1,2) mb show "take m (x_heap st1) ! j = take m ?h ! j" by force
  qed (use st1(4) mb in simp)
  have step: "apply_one te k ap po c i st =
    (if n_children (?h ! i) = None then Some st1
     else do { (locals, h) \<leftarrow> copy_variables (x_heap st1) (c_locals c);
         ap (new_context\<lparr>c_instruction := n_children (?h ! i), c_result := Some ?b, c_document := c_document c,
           c_parameters := c_parameters c, c_locals := Some locals, c_task := c_task c\<rparr>) (st1\<lparr>x_heap := h\<rparr>) })"
    using ib(1) st1(1,4) ty notxsl i1 r(4) by (simp add: apply_one_def)
  show ?thesis
  proof (cases "n_children (?h ! i)")
    case None
    have "node_rep (Suc ?b) (x_heap st1) ?b (rev_node x)"
      using st1(5,6) x(1) ib None by (cases x) (simp_all add: doc_rep_None)
    with step None st1 show ?thesis by auto
  next
    case (Some f)
    then obtain n as ks where e: "x = X_elem n as ks" "ks \<noteq> []"
    proof (cases x)
      case (X_text s)
      with Some x(1,2,4) ib mb plain_textsD[of "take m ?h" i] show ?thesis by simp
    next
      case (X_elem n as ks)
      moreover have "ks \<noteq> []" using Some x(1,2) ib X_elem by (cases ks) auto
      ultimately show ?thesis using that by blast
    qed
    then have d: "doc_rep lo0 (take m ?h) (Some f) ks" using x(1) ib Some by simp
    obtain v where v: "copy_variables (x_heap st1) (c_locals c) = Some (length (x_heap st1), x_heap st1 @ [v])" "n_attributes v = None"
      using copy_no_locals[OF no_locals_grows[OF r(5) st1(3)]] by blast
    let ?h2 = "x_heap st1 @ [v]"
    let ?c = "new_context\<lparr>c_instruction := Some f, c_result := Some ?b, c_document := c_document c,
           c_parameters := c_parameters c, c_locals := Some (length (x_heap st1)), c_task := c_task c\<rparr>"
    have "take m ?h2 = take m ?h" using m1 st1(4) mb by simp
    moreover have "kids ?h2 ?b []" using st1(4,5) by (simp add: kids_def nth_append)
    moreover have "no_locals ?h2 (c_locals ?c)" using v(2) by (simp add: no_locals_def)
    ultimately obtain st3 ys where
      st3: "ap ?c (st1\<lparr>x_heap := ?h2\<rparr>) = Some st3" "literal_done ?b [] ?h2 (x_heap st3) ks ys"
      using IH[OF e, of "st1\<lparr>x_heap := ?h2\<rparr>" "Some f" ?b ?c] d mb by auto
    let ?h3 = "x_heap st3"
    from st3(2) have k3: "linked n_next ?h3 (n_children (?h3 ! ?b)) ys" and g3: "grows ?b [] ?h2 ?h3"
      and y3: "\<forall>y\<in>set ys. length ?h2 \<le> y" and n3: "list_all2 (\<lambda>y x. node_rep (length ?h2) ?h3 y (rev_node x)) ys ks"
      by (auto simp: literal_done_def kids_def)
    have len: "length (x_heap st1) < length ?h3" using g3 by (simp add: grows_def)
    have nth3: "?h3 ! j = x_heap st1 ! j" if "j < length (x_heap st1)" "j \<noteq> ?b" for j
      using grows_other[OF g3, of j] that by (simp add: nth_append)
    have b3: "(?h3 ! ?b)\<lparr>n_children := None\<rparr> = (x_heap st1 ! ?b)\<lparr>n_children := None\<rparr>"
      using g3 st1(4) by (simp add: grows_def nth_append)
    then have b3': "n_type (?h3 ! ?b) = n_type (x_heap st1 ! ?b) \<and> n_name (?h3 ! ?b) = n_name (x_heap st1 ! ?b) \<and>
        n_attributes (?h3 ! ?b) = n_attributes (x_heap st1 ! ?b) \<and> n_next (?h3 ! ?b) = n_next (x_heap st1 ! ?b)"
      by (cases "?h3 ! ?b"; cases "x_heap st1 ! ?b") simp
    have "doc_rep (Suc ?b) ?h3 (n_children (?h3 ! ?b)) (rev_attrs ks)"
    proof (rule doc_rep_linked[OF k3])
      show "\<forall>y\<in>set ys. Suc ?b \<le> y" using y3 st1(4) by auto
      show "list_all2 (\<lambda>y x. node_rep (Suc ?b) ?h3 y (rev_node x)) ys ks"
        by (rule list_all2_mono[OF n3]) (rule node_rep_mono[of _ "length ?h2"], use st1(4) in auto)
    qed
    moreover have "attrs_rep (Suc ?b) ?h3 (n_attributes (x_heap st1 ! ?b)) (rev as)"
      by (rule attrs_rep_frame[of "Suc ?b" "Suc ?b" "x_heap st1"]) (use st1(6) e nth3 len in auto)
    ultimately have "node_rep (Suc ?b) ?h3 ?b (rev_node x)" using e st1(6) b3' by simp
    moreover have "kids ?h3 r (xs @ [?b])"
    proof -
      have "r \<noteq> ?b" "r < length (x_heap st1)" using st1(2) by (auto simp: kids_def)
      moreover have "linked n_next ?h3 (n_children (x_heap st1 ! r)) (xs @ [?b])"
      proof (rule linked_frame[of _ "x_heap st1"])
        show "linked n_next (x_heap st1) (n_children (x_heap st1 ! r)) (xs @ [?b])" using st1(2) by (simp add: kids_def)
        from linked_bound[OF this] nth3 b3'
        show "\<And>a. a \<in> set (xs @ [?b]) \<Longrightarrow> n_next (?h3 ! a) = n_next (x_heap st1 ! a)" by (metis lessThan_iff subsetD)
      qed (use len in simp)
      ultimately show ?thesis using nth3[of r] st1(2) len by (simp add: kids_def)
    qed
    moreover have "grows r xs ?h ?h3"
      unfolding grows_def
    proof (intro conjI allI impI)
      show "length ?h \<le> length ?h3" using len st1(4) by simp
      fix j assume j: "j < length ?h"
      have e: "?h3 ! j = x_heap st1 ! j" using nth3[of j] st1(4) j by simp
      show "if j = r then (?h3 ! j)\<lparr>n_children := None\<rparr> = (?h ! j)\<lparr>n_children := None\<rparr>
        else if j \<in> set xs then (?h3 ! j)\<lparr>n_next := None\<rparr> = (?h ! j)\<lparr>n_next := None\<rparr> else ?h3 ! j = ?h ! j"
        unfolding e using st1(3) j unfolding grows_def by blast
    qed
    ultimately show ?thesis using step Some v(1) st3(1) by auto
  qed
qed

lemma literal_done_Cons:
  assumes "kids h r xs" "kids h1 r (xs @ [length h])" "grows r xs h h1" "node_rep (Suc (length h)) h1 (length h) (rev_node x)"
    "literal_done r (xs @ [length h]) h1 h2 ts ys" "length h < length h1"
  shows "literal_done r xs h h2 (x # ts) (length h # ys)"
proof -
  let ?b = "length h"
  from assms(5) have d: "kids h2 r (xs @ ?b # ys)" "grows r (xs @ [?b]) h1 h2" "\<forall>y\<in>set ys. length h1 \<le> y"
    "list_all2 (\<lambda>y x. node_rep (length h1) h2 y (rev_node x)) ys ts" by (auto simp: literal_done_def)
  have r: "r < ?b" "\<forall>y\<in>set xs. y < ?b" using assms(1) linked_bound[of n_next h "n_children (h ! r)" xs] by (auto simp: kids_def)
  have "grows r xs h h2" by (rule grows_trans[OF assms(3) d(2)]) simp
  moreover have "node_rep ?b h2 ?b (rev_node x)"
  proof (rule node_rep_frame[OF _ _ _ _ assms(4)])
    have "(h2 ! ?b)\<lparr>n_next := None\<rparr> = (h1 ! ?b)\<lparr>n_next := None\<rparr>"
      using d(2) assms(6) r(1) unfolding grows_def by (metis in_set_conv_decomp less_irrefl)
    then show "h2 ! ?b = (h1 ! ?b)\<lparr>n_next := n_next (h2 ! ?b)\<rparr>" by (cases "h2 ! ?b"; cases "h1 ! ?b") simp
    show "length h1 \<le> length h2" using d(2) by (simp add: grows_def)
    show "h2 ! i = h1 ! i" if "Suc ?b \<le> i" "i < length h1" for i
      by (rule grows_other[OF d(2) that(2)]) (use that r in auto)
  qed simp
  moreover have "list_all2 (\<lambda>y x. node_rep ?b h2 y (rev_node x)) ys ts"
    by (rule list_all2_mono[OF d(4)]) (rule node_rep_mono[of _ "length h1"], use assms(6) in auto)
  ultimately show ?thesis using d(1,3) assms(6) by (auto simp: literal_done_def)
qed

lemma length_depth: "length ts \<le> xml_depth ts"
  by (induction ts rule: xml_depth.induct) auto

lemma literal_loop:
  assumes "literal ts" "doc_rep lo0 (take m (x_heap st)) p ts" "plain_texts (take m (x_heap st))" "length ts \<le> j" "xml_depth ts \<le> k"
    "m \<le> r" "\<forall>y\<in>set xs. m \<le> y" "kids (x_heap st) r xs" "c_result c = Some r" "no_locals (x_heap st) (c_locals c)"
  shows "\<exists>st' ys. each_node j (\<lambda>i st. apply_one te k (\<lambda>c. run_xslt te k (Apply c)) (\<lambda>c. run_xslt te k (Process c)) c i st) p st = Some st' \<and>
    literal_done r xs (x_heap st) (x_heap st') ts ys"
  using assms
proof (induction "xml_count ts" arbitrary: ts p st j k r xs c rule: less_induct)
  case less
  let ?h = "x_heap st"
  let ?body = "\<lambda>i st. apply_one te k (\<lambda>c. run_xslt te k (Apply c)) (\<lambda>c. run_xslt te k (Process c)) c i st"
  show ?case
  proof (cases ts)
    case Nil
    with less.prems show ?thesis
      by (intro exI[of _ st] exI[of _ "[]"]) (cases j; simp add: literal_done_def grows_refl)
  next
    case (Cons x us)
    from less.prems(2) Cons obtain i where i: "p = Some i" "i < length (take m ?h)" "node_rep lo0 (take m ?h) i x"
      "doc_rep lo0 (take m ?h) (n_next (take m ?h ! i)) us" by (auto simp: doc_rep_Cons)
    have rb: "r < length ?h" using less.prems(8) by (simp add: kids_def)
    have lits: "literal [x]" "literal us" using less.prems(1) Cons by (cases x; simp)+
    obtain j' where j: "j = Suc j'" "length us \<le> j'" using less.prems(4) Cons by (cases j) auto
    have cnt: "xml_count us < xml_count ts" using Cons by (cases x) auto
    have dep: "xml_depth us \<le> k" using less.prems(5) Cons by (cases x) auto
    have IH: "\<exists>st'' ys. run_xslt te k (Apply c') st' = Some st'' \<and> literal_done r' [] (x_heap st') (x_heap st'') ks ys"
      if "x = X_elem n as ks" "ks \<noteq> []" "take m (x_heap st') = take m ?h" "doc_rep lo0 (take m (x_heap st')) p' ks" "m \<le> r'"
        "kids (x_heap st') r' []" "no_locals (x_heap st') (c_locals c')" "c_result c' = Some r'" "c_instruction c' = p'"
      for n as ks st' r' c' p'
    proof -
      have kd: "Suc (xml_depth ks) \<le> k" using less.prems(5) Cons that(1) by simp
      then obtain k' where k': "k = Suc k'" "xml_depth ks \<le> k'" by (cases k) auto
      have "xml_count ks < xml_count ts" using Cons that(1) by simp
      moreover have "literal ks" using lits(1) that(1) by simp
      ultimately show ?thesis
        using less.hyps[of ks st' p' k' k' r' "[]" c'] that(3-9) less.prems(3) k' length_depth[of ks] by simp
    qed
    have im: "i < m" using i(2) by simp
    have "\<exists>st1. ?body i st = Some st1 \<and> kids (x_heap st1) r (xs @ [length ?h]) \<and> grows r xs ?h (x_heap st1) \<and>
        node_rep (Suc (length ?h)) (x_heap st1) (length ?h) (rev_node x)"
      by (rule literal_one[OF i(3) im lits(1) less.prems(3,6-10)]) (rule IH)
    then obtain st1 where
      st1: "?body i st = Some st1" "kids (x_heap st1) r (xs @ [length ?h])" "grows r xs ?h (x_heap st1)"
        "node_rep (Suc (length ?h)) (x_heap st1) (length ?h) (rev_node x)"
      by blast
    have len: "length ?h < length (x_heap st1)"
      using st1(2) linked_bound[of n_next "x_heap st1" "n_children (x_heap st1 ! r)" "xs @ [length ?h]"] by (auto simp: kids_def)
    have m1: "take m (x_heap st1) = take m ?h"
    proof (rule nth_equalityI)
      fix l assume "l < length (take m (x_heap st1))"
      then have "l < m" by simp
      with grows_other[OF st1(3), of l] less.prems(6,7) rb show "take m (x_heap st1) ! l = take m ?h ! l" by force
    qed (use len less.prems(6) rb in simp)
    have i1: "i < length (x_heap st1)" "n_next (x_heap st1 ! i) = n_next (take m ?h ! i)"
      using i(2) m1 len by (simp, metis nth_take length_take min_less_iff_conj)
    have "no_locals (x_heap st1) (c_locals c)" using no_locals_grows[OF less.prems(10) st1(3)] .
    with less.hyps[OF cnt lits(2), of st1 "n_next (take m ?h ! i)" j' k r "xs @ [length ?h]" c] i(4) m1 less.prems(3,6-9) j(2) dep st1(2) rb
    obtain st2 ys where st2: "each_node j' ?body (n_next (take m ?h ! i)) st1 = Some st2"
      "literal_done r (xs @ [length ?h]) (x_heap st1) (x_heap st2) us ys" by auto
    have "each_node j ?body p st = Some st2" using i(1) j(1) st1(1) i1 st2(1) by simp
    moreover have "literal_done r xs ?h (x_heap st2) ts (length ?h # ys)"
      unfolding Cons by (rule literal_done_Cons[OF less.prems(8) st1(2-4) st2(2) len])
    ultimately show ?thesis by blast
  qed
qed

lemma doc_rep_append: "doc_rep lo h p ts \<Longrightarrow> doc_rep lo (h @ ys) p ts"
  by (rule doc_rep_frame) (auto simp: nth_append)

lemma no_localsI: "n_attributes x = None \<Longrightarrow> no_locals (h @ [x]) (Some (length h))"
  by (simp add: no_locals_def)

lemma root_template_literal:
  assumes "c_document c = e_root_node (te_env te)" "c_document c = Some d" "c_mode c = None"
    "me_root (tm_empty (ts_map (te_templates te))) = Some t"
    "doc_rep lo (take m (x_heap st)) (Some (tp_content t)) ts" "literal ts" "plain_texts (take m (x_heap st))"
    "c_result c = Some r" "m \<le> r" "r < length (x_heap st)" "n_type (x_heap st ! r) = EMPTY_NODE"
    "n_children (x_heap st ! r) = None" "n_next (x_heap st ! r) = None" "xml_depth ts + 2 \<le> k"
  shows "\<exists>st'. process_one_node te k c st = Some st' \<and> document_rep (x_heap st') (Some r) (rev_attrs ts)"
proof -
  let ?h = "x_heap st"
  from assms(14) have "k = Suc (Suc (k - 2))" "xml_depth ts \<le> k - 2" by simp_all
  then obtain k' where k: "k = Suc (Suc k')" "xml_depth ts \<le> k'" by blast
  define x where "x = null_node\<lparr>n_type := EMPTY_NODE, n_name := None, n_uid := Some (length ?h)\<rparr>"
  let ?st = "st\<lparr>x_heap := ?h @ [x]\<rparr>"
  have mh: "take m (?h @ [x]) = take m ?h" using assms(9,10) by simp
  have kd: "kids (x_heap ?st) r []" using assms(10,12) by (simp add: kids_def nth_append)
  let ?c = "new_context\<lparr>c_instruction := Some (tp_content t), c_result := c_result c, c_document := c_document c,
               c_parameters := c_parameters c, c_locals := Some (length ?h), c_task := c_task c\<rparr>"
  from literal_loop[of ts lo m ?st "Some (tp_content t)" k' k' r "[]" ?c te] assms(5-9) mh kd k length_depth[of ts]
  obtain st' ys where st': "run_xslt te (Suc k') (Apply ?c) ?st = Some st'" "literal_done r [] (?h @ [x]) (x_heap st') ts ys"
    using no_localsI[of x ?h] by (auto simp: x_def null_node_def)
  have "process_one_node te k c st = Some st'"
    using st'(1) assms(2-4) k(1) assms(1)[symmetric, unfolded assms(2)]
    by (simp add: process_one_node_def process_step_def find_template_def template_map_find_entry_def st_new_def
        xml_new_node_def x_def del: each_node.simps)
  moreover have "document_rep (x_heap st') (Some r) (rev_attrs ts)"
  proof -
    from st'(2) have d: "kids (x_heap st') r ys" "grows r [] (?h @ [x]) (x_heap st')"
      "list_all2 (\<lambda>y t. node_rep (length (?h @ [x])) (x_heap st') y (rev_node t)) ys ts"
      by (auto simp: literal_done_def)
    have "(x_heap st' ! r)\<lparr>n_children := None\<rparr> = (?h ! r)\<lparr>n_children := None\<rparr>"
      using d(2) assms(10) by (simp add: grows_def nth_append)
    then have "n_type (x_heap st' ! r) = EMPTY_NODE" "n_next (x_heap st' ! r) = None"
      using assms(11,13) by (cases "x_heap st' ! r"; cases "?h ! r"; simp)+
    moreover have "doc_rep 0 (x_heap st') (n_children (x_heap st' ! r)) (rev_attrs ts)"
      by (rule doc_rep_linked[of _ _ ys]) (use d in \<open>auto simp: kids_def elim!: list_all2_mono intro: node_rep_mono[rotated]\<close>)
    ultimately show ?thesis using d(1) by (simp add: document_rep_def kids_def)
  qed
  ultimately show ?thesis by blast
qed

text \<open>
  A stylesheet whose template for the document root holds literal elements and text: the
  transformation returns within a fuel given by the depth of the template, the result is a copy of the template with
  the attributes of each element reversed, and it is written as the serialised text of that copy.
\<close>

theorem literal_root_template:
  assumes "c_document c = e_root_node (te_env te)" "c_document c = Some d" "c_mode c = None"
    "me_root (tm_empty (ts_map (te_templates te))) = Some t"
    "doc_rep lo (take m (x_heap st)) (Some (tp_content t)) ts" "literal ts" "plain_texts (take m (x_heap st))"
    "c_result c = Some r" "m \<le> r" "r < length (x_heap st)" "n_type (x_heap st ! r) = EMPTY_NODE"
    "n_children (x_heap st ! r) = None" "n_next (x_heap st ! r) = None" "xml_depth ts + 2 \<le> k"
    "o_mode ctx = MODE_XML" "o_doctype_public ctx = None" "o_rawout ctx = 0"
  shows "\<exists>st'. process_one_node te k c st = Some st' \<and> document_rep (x_heap st') (Some r) (rev_attrs ts) \<and>
    XMLOutput (Suc (length (x_heap st'))) ctx (x_heap st') (Some r) = Some (xml_declaration ctx @ show_xml (rev_attrs ts))"
proof -
  obtain st' where st': "process_one_node te k c st = Some st'" "document_rep (x_heap st') (Some r) (rev_attrs ts)"
    using root_template_literal[OF assms(1-14)] by blast
  with document_output[OF st'(2) assms(15-17)] show ?thesis by auto
qed

definition plain_tenv :: "xenv \<Rightarrow> templates \<Rightarrow> tenv" where
  "plain_tenv env ts = \<lparr>te_env = env, te_templates = ts, te_outmode = MODE_XML, te_pool = False, te_parallel = [], te_fuel = 20\<rparr>"

definition sample_template :: heap where
  "sample_template =
     [null_node\<lparr>n_type := ELEMENT_NODE, n_name := Some ''p'', n_attributes := Some 1, n_children := Some 3\<rparr>,
      null_node\<lparr>n_type := ATTRIBUTE_NODE, n_name := Some ''a'', n_content := Some ''1'', n_next := Some 2\<rparr>,
      null_node\<lparr>n_type := ATTRIBUTE_NODE, n_name := Some ''b'', n_content := Some ''2''\<rparr>,
      null_node\<lparr>n_type := TEXT_NODE, n_content := Some ''hi''\<rparr>]"

definition sample_run :: xstate where
  "sample_run = \<lparr>x_heap = sample_template @ [null_node\<lparr>n_type := EMPTY_NODE\<rparr>, null_node\<lparr>n_type := EMPTY_NODE\<rparr>],
     x_expressions = [], x_urldict = []\<rparr>"

definition sample_templates :: templates where
  "sample_templates = \<lparr>ts_map = \<lparr>tm_empty = new_map_entry\<lparr>me_root :=
     Some \<lparr>tp_match = ''/'', tp_expr = None, tp_weight = 0, tp_content = 0\<rparr>\<rparr>, tm_modes = []\<rparr>, ts_named = []\<rparr>"

theorem literal_root_template_witness:
  "\<exists>st'. process_one_node (plain_tenv (plain_env\<lparr>e_root_node := Some 4\<rparr>) sample_templates) 4
      (new_context\<lparr>c_result := Some 5, c_document := Some 4\<rparr>) sample_run = Some st' \<and>
    document_rep (x_heap st') (Some 5) (rev_attrs [X_elem ''p'' [(''a'', ''1''), (''b'', ''2'')] [X_text ''hi'']]) \<and>
    XMLOutput (Suc (length (x_heap st'))) sample_context (x_heap st') (Some 5) =
      Some (xml_declaration sample_context @ show_xml (rev_attrs [X_elem ''p'' [(''a'', ''1''), (''b'', ''2'')] [X_text ''hi'']]))"
  by (rule literal_root_template[where m = 4 and lo = 0 and d = 4 and t = "\<lparr>tp_match = ''/'', tp_expr = None, tp_weight = 0, tp_content = 0\<rparr>"])
    (simp_all add: plain_tenv_def plain_env_def sample_run_def sample_templates_def sample_template_def new_context_def
      sample_context_def null_node_def no_braces_def plain_texts_def starts_with_def)

end
