(* ===== verification/Tx_Localization.thy ===== *)
theory Tx_Localization
  imports Tx_Templates Tx_Parse "HOL-Library.Signed_Division"
begin

text \<open>
  localization.c: message catalogues by file, their plural rules and the lookups that
  \<open>ltr:localization\<close> makes. The library that reads the catalogues is a parameter.
\<close>

subsection \<open>Plural rules\<close>

text \<open>An \<open>int\<close> of C; its remainder truncates towards zero.\<close>

definition slavic_few :: "int \<Rightarrow> bool" where
  "slavic_few n \<longleftrightarrow> n smod 10 \<ge> 2 \<and> n smod 10 \<le> 4 \<and> (n smod 100 < 10 \<or> n smod 100 \<ge> 20)"

definition localization_get_plural_ru :: "int \<Rightarrow> int" where
  "localization_get_plural_ru n = (if n smod 10 = 1 \<and> n smod 100 \<noteq> 11 then 0 else if slavic_few n then 1 else 2)"

definition localization_get_plural_uk :: "int \<Rightarrow> int" where
  "localization_get_plural_uk n = (if n smod 10 = 1 \<and> n smod 100 \<noteq> 11 then 0 else if slavic_few n then 1 else 2)"

definition localization_get_plural_en :: "int \<Rightarrow> int" where
  "localization_get_plural_en n = (if n \<noteq> 1 then 1 else 0)"

definition localization_get_plural_pl :: "int \<Rightarrow> int" where
  "localization_get_plural_pl n = (if n = 1 then 0 else if slavic_few n then 1 else 2)"

definition localization_get_plural_et :: "int \<Rightarrow> int" where
  "localization_get_plural_et n = (if n \<noteq> 1 then 1 else 0)"

definition localization_get_plural_de :: "int \<Rightarrow> int" where
  "localization_get_plural_de n = (if n \<noteq> 1 then 1 else 0)"

definition localization_get_plural_es :: "int \<Rightarrow> int" where
  "localization_get_plural_es n = (if n \<noteq> 1 then 1 else 0)"

definition localization_get_plural_az :: "int \<Rightarrow> int" where
  "localization_get_plural_az n = (if n \<noteq> 1 then 1 else 0)"

definition localization_get_plural_uz :: "int \<Rightarrow> int" where
  "localization_get_plural_uz n = (if n \<noteq> 1 then 1 else 0)"

definition localization_get_plural_tr :: "int \<Rightarrow> int" where
  "localization_get_plural_tr n = (if n \<noteq> 1 then 1 else 0)"

definition plural_of :: "cstring \<Rightarrow> (int \<Rightarrow> int) option" where
  "plural_of field = map_of
     [(''ru_RU'', localization_get_plural_ru), (''en_US'', localization_get_plural_en),
      (''et_EE'', localization_get_plural_et), (''pl_PL'', localization_get_plural_pl),
      (''de_DE'', localization_get_plural_de), (''es_ES'', localization_get_plural_es),
      (''uk_UA'', localization_get_plural_uk), (''az_AZ'', localization_get_plural_az),
      (''uz_UZ'', localization_get_plural_uz), (''tr_TR'', localization_get_plural_tr)] field"

subsection \<open>Catalogues\<close>

text \<open>libgettextpo: a file, its header, and its messages in the order of the iterator.\<close>

record ('f, 'm) po_lib =
  po_file_read :: "cstring \<Rightarrow> 'f option"
  po_file_domain_header :: "'f \<Rightarrow> cstring option"
  po_header_field :: "cstring \<Rightarrow> cstring \<Rightarrow> cstring option"
  po_messages :: "'f \<Rightarrow> 'm list"
  po_message_msgid :: "'m \<Rightarrow> cstring"
  po_message_msgstr :: "'m \<Rightarrow> cstring"
  po_message_msgstr_plural :: "'m \<Rightarrow> int \<Rightarrow> cstring option"

record 'm localization_entry =
  le_language :: cstring
  le_get_plural :: "int \<Rightarrow> int"
  le_table :: "'m named"

text \<open>The cache by file name and the list from \<open>root_entry\<close> on.\<close>

record 'm localization =
  lz_cache :: "'m localization_entry named"
  lz_entries :: "'m localization_entry list"

definition localization_create :: "'m localization" where
  "localization_create = \<lparr>lz_cache = [], lz_entries = []\<rparr>"

definition localization_table :: "('f, 'm) po_lib \<Rightarrow> 'f \<Rightarrow> 'm named" where
  "localization_table lib file =
     fold (\<lambda>m table. named_add table (Some (unescape_string (po_message_msgid lib m))) m) (po_messages lib file) []"

definition localization_entry_create :: "('f, 'm) po_lib \<Rightarrow> 'm localization \<Rightarrow> cstring \<Rightarrow>
    'm localization_entry option \<times> 'm localization" where
  "localization_entry_create lib object filename =
     (case named_find (lz_cache object) (Some filename) of
        Some entry \<Rightarrow> (Some entry, object)
      | None \<Rightarrow>
     (case po_file_read lib filename of
        None \<Rightarrow> (None, object)
      | Some file \<Rightarrow>
     (case po_file_domain_header lib file of
        None \<Rightarrow> (None, object)
      | Some header \<Rightarrow>
     (case po_header_field lib header ''Language'' of
        None \<Rightarrow> (None, object)
      | Some field \<Rightarrow>
     (case plural_of field of
        None \<Rightarrow> (None, object)
      | Some rule \<Rightarrow>
          let entry = \<lparr>le_language = field, le_get_plural = rule, le_table = localization_table lib file\<rparr>
          in (Some entry, \<lparr>lz_cache = named_add (lz_cache object) (Some filename) entry,
            lz_entries = lz_entries object @ [entry]\<rparr>))))))"

text \<open>The entry of the processor, whether there is one, and the catalogues.\<close>

definition XSLTSetLocalization :: "('f, 'm) po_lib \<Rightarrow> 'm localization \<Rightarrow> cstring \<Rightarrow>
    bool \<times> 'm localization_entry option \<times> 'm localization" where
  "XSLTSetLocalization lib object filename =
     (let (entry, object1) = localization_entry_create lib object filename in (entry \<noteq> None, entry, object1))"

definition localization_entry_get :: "('f, 'm) po_lib \<Rightarrow> 'm localization_entry \<Rightarrow> cstring \<Rightarrow> cstring option" where
  "localization_entry_get lib entry mid =
     (case named_find (le_table entry) (Some mid) of None \<Rightarrow> None | Some m \<Rightarrow> Some (po_message_msgstr lib m))"

definition localization_entry_get_plural :: "('f, 'm) po_lib \<Rightarrow> 'm localization_entry \<Rightarrow> cstring \<Rightarrow> int \<Rightarrow> cstring option" where
  "localization_entry_get_plural lib entry mid n =
     (case named_find (le_table entry) (Some mid) of
        None \<Rightarrow> None
      | Some m \<Rightarrow> po_message_msgstr_plural lib m (le_get_plural entry n))"

text \<open>The catalogue of a transformation, as the evaluator sees it.\<close>

definition with_localization :: "('f, 'm) po_lib \<Rightarrow> 'm localization_entry option \<Rightarrow> xenv \<Rightarrow> xenv" where
  "with_localization lib entry env = (case entry of
     None \<Rightarrow> env\<lparr>e_message := None\<rparr>
   | Some e \<Rightarrow> env\<lparr>e_message := Some (localization_entry_get lib e), e_message_plural := localization_entry_get_plural lib e\<rparr>)"

subsection \<open>Lookups\<close>

text \<open>The number of plural forms of a language.\<close>

definition plural_forms :: "cstring \<Rightarrow> int" where
  "plural_forms field = (if field \<in> {''ru_RU'', ''uk_UA'', ''pl_PL''} then 3 else 2)"

text \<open>
  The plural rule of every supported language gives an index below the number of forms of that language, for
  every number, negative ones included.
\<close>

theorem plural_index_bounds:
  assumes "plural_of field = Some rule"
  shows "0 \<le> rule n \<and> rule n < plural_forms field"
  using assms
  by (auto simp: plural_of_def plural_forms_def localization_get_plural_ru_def localization_get_plural_uk_def
      localization_get_plural_pl_def localization_get_plural_en_def localization_get_plural_et_def localization_get_plural_de_def
      localization_get_plural_es_def localization_get_plural_az_def localization_get_plural_uz_def localization_get_plural_tr_def
      split: if_splits)

theorem plural_index_bounds_witness: "0 \<le> localization_get_plural_pl (-22) \<and> localization_get_plural_pl (-22) < plural_forms ''pl_PL''"
  by (rule plural_index_bounds) (simp add: plural_of_def)

lemma fold_named_add:
  "map_of (fold (\<lambda>m table. named_add table (Some (f m)) m) ms table) k =
    (case map_of table k of Some v \<Rightarrow> Some v | None \<Rightarrow> List.find (\<lambda>m. f m = k) ms)"
proof (induction ms arbitrary: table)
  case (Cons m ms)
  then show ?case by (auto simp: named_add_def map_add_def split: option.splits)
qed (simp split: option.split)

lemma localization_table_find:
  "map_of (localization_table lib file) mid = List.find (\<lambda>m. unescape_string (po_message_msgid lib m) = mid) (po_messages lib file)"
  by (simp add: localization_table_def fold_named_add)

text \<open>
  C40: a catalogue that was opened answers a message id with the translation of the first message whose
  unescaped id it is, and opening the file again gives the same entry and changes nothing.
\<close>

theorem localization_lookup:
  assumes "localization_entry_create lib object filename = (Some e, object')" "named_find (lz_cache object) (Some filename) = None"
    "po_file_read lib filename = Some file"
  shows "localization_entry_get lib e mid =
      map_option (po_message_msgstr lib) (List.find (\<lambda>m. unescape_string (po_message_msgid lib m) = mid) (po_messages lib file)) \<and>
    localization_entry_create lib object' filename = (Some e, object')"
proof -
  from assms have e: "le_table e = localization_table lib file" "object' = \<lparr>lz_cache = named_add (lz_cache object) (Some filename) e,
      lz_entries = lz_entries object @ [e]\<rparr>"
    by (auto simp: localization_entry_create_def Let_def split: option.splits)
  have "named_find (lz_cache object') (Some filename) = Some e" using e(2) assms(2) by (simp add: named_find_add)
  with e(1) show ?thesis
    by (simp add: localization_entry_create_def localization_entry_get_def named_find_def localization_table_find split: option.split)
qed

definition sample_po :: "(nat, cstring \<times> cstring) po_lib" where
  "sample_po = \<lparr>po_file_read = (\<lambda>s. if s = ''ru.po'' then Some 0 else None), po_file_domain_header = (\<lambda>f. Some ''Language: ru_RU''),
     po_header_field = (\<lambda>h f. if f = ''Language'' then Some ''ru_RU'' else None),
     po_messages = (\<lambda>f. [(''a&lt;b'', ''x''), (''a<b'', ''y'')]), po_message_msgid = fst, po_message_msgstr = snd,
     po_message_msgstr_plural = (\<lambda>m i. if i = 0 then Some (snd m) else None)\<rparr>"

theorem localization_lookup_witness:
  "\<exists>e object'. localization_entry_get sample_po e ''a<b'' = map_option (po_message_msgstr sample_po) (List.find
      (\<lambda>m. unescape_string (po_message_msgid sample_po m) = ''a<b'') (po_messages sample_po 0)) \<and>
    localization_entry_create sample_po object' ''ru.po'' = (Some e, object')"
proof -
  obtain e object' where e: "localization_entry_create sample_po localization_create ''ru.po'' = (Some e, object')"
    by (auto simp: localization_entry_create_def localization_create_def named_find_def sample_po_def plural_of_def Let_def)
  show ?thesis
    by (intro exI, rule localization_lookup[OF e]) (simp_all add: localization_create_def named_find_def sample_po_def)
qed

end
