(* ===== verification/Tx_Rights.thy ===== *)
theory Tx_Rights
  imports Tx_Templates
begin

text \<open>
  group_rights.c: the actions that the groups of a library allow, and the rights of the current user. The
  dictionaries are the maps they stand for.
\<close>

type_synonym library_entry = "cstring list named"

definition XSLTDefineGroupRights :: "library_entry named \<Rightarrow> cstring \<Rightarrow> cstring \<Rightarrow> cstring list \<Rightarrow> library_entry named" where
  "XSLTDefineGroupRights rights library grp actions =
     (let rights1 = (if named_find rights (Some library) = None then named_add rights (Some library) [] else rights)
      in map (\<lambda>(l, groups). (l, if l = library then named_add groups (Some grp) actions else groups)) rights1)"

definition add_actions :: "cstring named \<Rightarrow> cstring list \<Rightarrow> cstring named" where
  "add_actions user actions = fold (\<lambda>a user. named_add user (Some a) a) actions user"

text \<open>An unknown library leaves no rights at all, an unknown group is skipped.\<close>

definition XSLTSetUserContext :: "library_entry named \<Rightarrow> cstring \<Rightarrow> cstring list \<Rightarrow> cstring named" where
  "XSLTSetUserContext rights library groups =
     (case named_find rights (Some library) of
        None \<Rightarrow> []
      | Some entries \<Rightarrow> fold (\<lambda>g user. case named_find entries (Some g) of
            None \<Rightarrow> user
          | Some actions \<Rightarrow> add_actions user actions) groups [])"

text \<open>The test that \<open>ltr:check-access\<close> makes is in the environment of the evaluator.\<close>

definition with_user_rights :: "cstring named \<Rightarrow> xenv \<Rightarrow> xenv" where
  "with_user_rights user env = env\<lparr>e_user_rights := Some (\<lambda>a. named_find user (Some a) \<noteq> None)\<rparr>"

subsection \<open>What the rights are\<close>

text \<open>Specification: the first definition of a group of a library counts.\<close>

fun group_actions :: "(cstring \<times> cstring \<times> cstring list) list \<Rightarrow> cstring \<Rightarrow> cstring \<Rightarrow> cstring list option" where
  "group_actions [] l g = None"
| "group_actions ((l', g', as) # ds) l g = (if l' = l \<and> g' = g then Some as else group_actions ds l g)"

definition define_all :: "(cstring \<times> cstring \<times> cstring list) list \<Rightarrow> library_entry named" where
  "define_all ds = fold (\<lambda>(l, g, as) rights. XSLTDefineGroupRights rights l g as) ds []"

lemma map_of_upd_key:
  "map_of (map (\<lambda>(l, e). (l, if l = k then f e else e)) xs) l = map_option (\<lambda>e. if l = k then f e else e) (map_of xs l)"
  by (induction xs) auto

lemma define_lookup:
  "map_of (XSLTDefineGroupRights rights l g as) l' =
    (if l' = l then Some (named_add (case map_of rights l of None \<Rightarrow> [] | Some e \<Rightarrow> e) (Some g) as) else map_of rights l')"
  unfolding XSLTDefineGroupRights_def Let_def map_of_upd_key
  by (auto simp: named_find_def named_add_def map_add_def option.map_ident split: option.splits)

lemma group_actions_append:
  "group_actions (ds @ es) l g = (case group_actions ds l g of None \<Rightarrow> group_actions es l g | Some a \<Rightarrow> Some a)"
  by (induction ds l g rule: group_actions.induct) auto

lemma define_all_lookup:
  "group_actions ds l g = (case map_of (define_all ds) l of None \<Rightarrow> None | Some e \<Rightarrow> map_of e g)"
proof (induction ds rule: rev_induct)
  case (snoc d ds)
  obtain l' g' as where d: "d = (l', g', as)" by (cases d) auto
  then show ?case using snoc
    by (auto simp: group_actions_append define_all_def define_lookup named_add_def map_add_def split: option.splits)
qed (simp add: define_all_def)

lemma add_actions_find: "map_of (add_actions user as) a \<noteq> None \<longleftrightarrow> a \<in> set as \<or> map_of user a \<noteq> None"
  unfolding add_actions_def
proof (induction as arbitrary: user)
  case (Cons b bs)
  then show ?case by (auto simp: named_add_def map_add_def split: option.splits)
qed simp

lemma set_user_context_find:
  "map_of (fold (\<lambda>g user. case map_of entries g of None \<Rightarrow> user | Some as \<Rightarrow> add_actions user as) groups user) a \<noteq> None \<longleftrightarrow>
    (\<exists>g\<in>set groups. \<exists>as. map_of entries g = Some as \<and> a \<in> set as) \<or> map_of user a \<noteq> None"
proof (induction groups arbitrary: user)
  case (Cons g gs)
  show ?case
  proof (cases "map_of entries g")
    case None
    then show ?thesis using Cons.IH[of user] by auto
  next
    case (Some as)
    have "map_of (fold (\<lambda>g user. case map_of entries g of None \<Rightarrow> user | Some as \<Rightarrow> add_actions user as) (g # gs) user) a \<noteq> None \<longleftrightarrow>
        (\<exists>g\<in>set gs. \<exists>as. map_of entries g = Some as \<and> a \<in> set as) \<or> a \<in> set as \<or> map_of user a \<noteq> None"
      using Cons.IH[of "add_actions user as"] Some unfolding add_actions_find by simp
    then show ?thesis using Some by auto
  qed
qed simp

text \<open>
  C39: after any definitions the user of some groups of a library has exactly the actions of these groups, where
  the first definition of a group counts and later ones change nothing.
\<close>

theorem user_rights_are_group_actions:
  "{a. named_find (XSLTSetUserContext (define_all ds) l gs) (Some a) \<noteq> None} =
    \<Union> {set as | as g. g \<in> set gs \<and> group_actions ds l g = Some as}"
proof -
  have "named_find (XSLTSetUserContext (define_all ds) l gs) (Some a) \<noteq> None \<longleftrightarrow>
      (\<exists>g\<in>set gs. \<exists>as. group_actions ds l g = Some as \<and> a \<in> set as)" for a
  proof (cases "map_of (define_all ds) l")
    case None
    then show ?thesis by (simp add: XSLTSetUserContext_def named_find_def define_all_lookup)
  next
    case (Some e)
    then show ?thesis using set_user_context_find[of e gs "[]" a]
      by (simp add: XSLTSetUserContext_def named_find_def define_all_lookup)
  qed
  then show ?thesis by auto
qed

end
