(* ===== verification/Tx_Process.thy ===== *)
theory Tx_Process
  imports Tx_Instructions Tx_Rights
begin

text \<open>
  transform.c 185-718, variables.c 90-112 and the set-up of instructions.c: a stylesheet is parsed, its
  includes and imports are put in, its templates, keys, sorts and formats are collected, and a document is
  transformed. The files are a parameter. \<open>None\<close> is a crash, or the fuel that runs out.
\<close>

subsection \<open>The processor\<close>

text \<open>The fields of a \<open>TRANSFORM_CONTEXT\<close> that the preparation and the interface write.\<close>

record processor =
  pr_stylesheet :: "ref option"
  pr_templates :: templates
  pr_keys :: "ref option"
  pr_formats :: "ref option"
  pr_vars :: var_table
  pr_outmode :: output_mode
  pr_output :: bool
  pr_mode_set :: bool
  pr_omit_desc :: bool
  pr_standalone :: bool
  pr_encoding :: "cstring option"
  pr_media_type :: "cstring option"
  pr_doctype_public :: "cstring option"
  pr_doctype_system :: "cstring option"
  pr_parallel :: "cstring named"
  pr_url_parameters :: "cstring named"
  pr_user_rights :: "cstring named option"
  pr_cache_key_prefix :: "cstring option"
  pr_url_local_prefix :: "cstring option"

definition instructions_set_parallel :: "processor \<Rightarrow> processor" where
  "instructions_set_parallel p =
     p\<lparr>pr_parallel := named_add (named_add [] (Some ''xsl:apply-templates'') ''xsl:apply-templates'')
       (Some ''xsl:for-each'') ''xsl:for-each''\<rparr>"

definition XSLTSetParallelInstructions :: "processor \<Rightarrow> cstring list \<Rightarrow> processor" where
  "XSLTSetParallelInstructions p tags = p\<lparr>pr_parallel := fold (\<lambda>t d. named_add d (Some t) t) tags []\<rparr>"

definition XSLTSetCacheKeyPrefix :: "processor \<Rightarrow> cstring option \<Rightarrow> processor" where
  "XSLTSetCacheKeyPrefix p prefix = p\<lparr>pr_cache_key_prefix := prefix\<rparr>"

definition XSLTSetURLLocalPrefix :: "processor \<Rightarrow> cstring option \<Rightarrow> processor" where
  "XSLTSetURLLocalPrefix p prefix = p\<lparr>pr_url_local_prefix := prefix\<rparr>"

definition XSLTAddURLCodeParameter :: "processor \<Rightarrow> cstring \<Rightarrow> cstring \<Rightarrow> processor" where
  "XSLTAddURLCodeParameter p name v = p\<lparr>pr_url_parameters := named_add (pr_url_parameters p) (Some name) v\<rparr>"

definition XSLTResetURLCodeParameters :: "processor \<Rightarrow> processor" where
  "XSLTResetURLCodeParameters p = p\<lparr>pr_url_parameters := []\<rparr>"

definition XSLTAddURLRevision :: "cstring named \<Rightarrow> cstring \<Rightarrow> cstring \<Rightarrow> cstring named" where
  "XSLTAddURLRevision revisions url revision = named_add revisions (Some url) revision"

text \<open>The environment of the evaluator: \<open>ext\<close> holds the callbacks and the global data.\<close>

definition processor_env :: "xenv \<Rightarrow> processor \<Rightarrow> ref option \<Rightarrow> xenv" where
  "processor_env ext p doc =
     (case pr_user_rights p of None \<Rightarrow> ext | Some u \<Rightarrow> with_user_rights u ext)
       \<lparr>e_root_node := doc, e_stylesheet := pr_stylesheet p, e_keys := pr_keys p, e_formats := pr_formats p,
        e_locals := None, e_vars := vt_vars (pr_vars p),
        e_url_parameters := (\<lambda>s. named_find (pr_url_parameters p) (Some s)),
        e_cache_key_prefix := pr_cache_key_prefix p, e_url_local_prefix := pr_url_local_prefix p\<rparr>"

definition processor_tenv :: "nat \<Rightarrow> xenv \<Rightarrow> bool \<Rightarrow> processor \<Rightarrow> ref option \<Rightarrow> tenv" where
  "processor_tenv k ext pool p doc =
     \<lparr>te_env = processor_env ext p doc, te_templates = pr_templates p, te_outmode = pr_outmode p, te_pool = pool,
      te_parallel = map fst (pr_parallel p), te_fuel = k\<rparr>"

definition processor_output :: "processor \<Rightarrow> nat \<Rightarrow> out_context" where
  "processor_output p raw =
     \<lparr>o_mode = pr_outmode p, o_omit_desc = pr_omit_desc p, o_standalone = pr_standalone p, o_encoding = pr_encoding p,
      o_doctype_public = pr_doctype_public p, o_doctype_system = pr_doctype_system p, o_rawout = raw\<rparr>"

subsection \<open>Includes and white space\<close>

definition get_reference_path :: "heap \<Rightarrow> ref option \<Rightarrow> cstring option option" where
  "get_reference_path h node = do {
     reference \<leftarrow> xml_get_attr h node (Some ''href'');
     (case reference of
        None \<Rightarrow> Some None
      | Some name \<Rightarrow> do { path \<leftarrow> get_absolute_path h node name; Some (Some path) })
   }"

definition output_method :: "cstring \<Rightarrow> output_mode \<Rightarrow> output_mode" where
  "output_method s mode =
     (if s = ''xml'' then MODE_XML else if s = ''html'' then MODE_HTML else if s = ''text'' then MODE_TEXT else mode)"

text \<open>The first \<open>xsl:output\<close>.\<close>

definition preprocess_output :: "processor \<Rightarrow> heap \<Rightarrow> ref \<Rightarrow> processor option" where
  "preprocess_output p h a = do {
     pub \<leftarrow> xml_get_attr h (Some a) (Some ''doctype-public'');
     sys \<leftarrow> xml_get_attr h (Some a) (Some ''doctype-system'');
     enc \<leftarrow> xml_get_attr h (Some a) (Some ''encoding'');
     media \<leftarrow> xml_get_attr h (Some a) (Some ''media-type'');
     meth \<leftarrow> xml_get_attr h (Some a) (Some ''method'');
     omit \<leftarrow> xml_get_attr h (Some a) (Some ''omit-xml-declaration'');
     alone \<leftarrow> xml_get_attr h (Some a) (Some ''standalone'');
     Some (p\<lparr>pr_output := True, pr_doctype_public := pub, pr_doctype_system := sys, pr_encoding := enc, pr_media_type := media,
       pr_outmode := (case meth of None \<Rightarrow> pr_outmode p | Some s \<Rightarrow> output_method s (pr_outmode p)),
       pr_mode_set := (meth \<noteq> None \<or> pr_mode_set p),
       pr_omit_desc := (omit = Some ''yes'' \<or> pr_omit_desc p),
       pr_standalone := (alone = Some ''yes'' \<or> pr_standalone p)\<rparr>)
   }"

text \<open>\<open>pf\<close> is \<open>xml_parse_file\<close> with the allocator of the stylesheet.\<close>

type_synonym file_parser = "cstring option \<Rightarrow> heap \<Rightarrow> (ref option \<times> heap) option"

definition preprocess_include :: "file_parser \<Rightarrow> heap \<Rightarrow> ref \<Rightarrow> heap option" where
  "preprocess_include pf h a = do {
     name \<leftarrow> get_reference_path h (Some a);
     (case name of
        None \<Rightarrow> Some h
      | Some f \<Rightarrow> do {
          (included, h1) \<leftarrow> pf (Some f) h;
          (case included of
             None \<Rightarrow> Some h1
           | Some i \<Rightarrow> do {
               h2 \<leftarrow> upd h1 (Some i) (\<lambda>n. n\<lparr>n_parent := Some a\<rparr>);
               upd h2 (Some a) (\<lambda>n. n\<lparr>n_type := EMPTY_NODE, n_children := Some i\<rparr>)
             })
        })
   }"

text \<open>A text of white space outside \<open>xsl:text\<close>.\<close>

definition preprocess_blank :: "heap \<Rightarrow> ref \<Rightarrow> bool option" where
  "preprocess_blank h a = do {
     n \<leftarrow> deref h (Some a);
     if n_type n \<noteq> TEXT_NODE then Some False
     else do {
       p \<leftarrow> deref h (n_parent n);
       if n_name p = Some ''xsl:text'' then Some False
       else do { s \<leftarrow> n_content n; Some (list_all x_is_ws s) }
     }
   }"

text \<open>The loop returns the head of the list that is left; \<open>ret\<close> is the head so far.\<close>

fun xsl_preprocess_loop :: "nat \<Rightarrow> file_parser \<Rightarrow> ref option \<Rightarrow> ref option \<Rightarrow> processor \<Rightarrow> heap \<Rightarrow>
    (ref option \<times> processor \<times> heap) option" where
  "xsl_preprocess_loop k pf ret None p h = Some (ret, p, h)"
| "xsl_preprocess_loop 0 pf ret (Some a) p h = None"
| "xsl_preprocess_loop (Suc k) pf ret (Some a) p h = do {
     n \<leftarrow> deref h (Some a);
     (p1, h1) \<leftarrow> (if n_name n = Some ''xsl:output'' \<and> \<not> pr_output p
         then do { p1 \<leftarrow> preprocess_output p h a; Some (p1, h) }
       else if n_name n = Some ''xsl:include'' then do { h1 \<leftarrow> preprocess_include pf h a; Some (p, h1) }
       else Some (p, h));
     blank \<leftarrow> preprocess_blank h1 a;
     if blank then do {
       h2 \<leftarrow> upd h1 (Some a) (\<lambda>m. m\<lparr>n_content := None\<rparr>);
       h3 \<leftarrow> xml_unlink_node h2 (Some a);
       xsl_preprocess_loop k pf (if ret = Some a then n_next n else ret) (n_next n) p1 h3
     }
     else do {
       m \<leftarrow> deref h1 (Some a);
       (p2, h2) \<leftarrow> (if n_children m = None then Some (p1, h1)
         else do {
           (c, p2, h2) \<leftarrow> xsl_preprocess_loop k pf (n_children m) (n_children m) p1 h1;
           h3 \<leftarrow> upd h2 (Some a) (\<lambda>m. m\<lparr>n_children := c\<rparr>);
           Some (p2, h3)
         });
       xsl_preprocess_loop k pf ret (n_next n) p2 h2
     }
   }"

definition xsl_preprocess :: "nat \<Rightarrow> file_parser \<Rightarrow> ref option \<Rightarrow> processor \<Rightarrow> heap \<Rightarrow> (ref option \<times> processor \<times> heap) option" where
  "xsl_preprocess k pf node p h = xsl_preprocess_loop k pf node node p h"

fun process_imports :: "nat \<Rightarrow> file_parser \<Rightarrow> ref option \<Rightarrow> processor \<Rightarrow> heap \<Rightarrow> (processor \<times> heap) option" where
  "process_imports k pf None p h = Some (p, h)"
| "process_imports 0 pf (Some a) p h = None"
| "process_imports (Suc k) pf (Some a) p h = do {
     n \<leftarrow> deref h (Some a);
     (p1, h1) \<leftarrow> (if n_name n = Some ''xsl:import'' then do {
         name \<leftarrow> get_reference_path h (Some a);
         (case name of
            None \<Rightarrow> Some (p, h)
          | Some f \<Rightarrow> do {
              (included, h1) \<leftarrow> pf (Some f) h;
              (case included of
                 None \<Rightarrow> Some (p, h1)
               | Some i \<Rightarrow> do {
                   (head, p2, h2) \<leftarrow> xsl_preprocess k pf (Some i) p h1;
                   (p3, h3) \<leftarrow> process_imports k pf (Some i) p2 h2;
                   h4 \<leftarrow> upd h3 (Some a) (\<lambda>n. n\<lparr>n_type := EMPTY_NODE, n_children := Some i\<rparr>);
                   Some (p3, h4)
                 })
            })
       }
       else if n_children n \<noteq> None then process_imports k pf (n_children n) p h
       else Some (p, h));
     m \<leftarrow> deref h1 (Some a);
     process_imports k pf (n_next m) p1 h1
   }"

subsection \<open>Keys, sorts and formats\<close>

definition flag_escaping :: "xmlnode \<Rightarrow> ref \<Rightarrow> xstate \<Rightarrow> xstate option" where
  "flag_escaping n a st =
     (if n_name n = Some ''xsl:text'' \<or> n_name n = Some ''xsl:value-of'' then do {
        dis \<leftarrow> st_attr st (Some a) ''disable-output-escaping'';
        if dis = Some ''yes'' then st_upd st (Some a) (\<lambda>m. m\<lparr>n_flags := n_flags m OR 2\<rparr>) else Some st
      } else Some st)"

text \<open>The pattern of a key is the format of the expression that the function \<open>key\<close> evaluates.\<close>

definition global_key :: "ref \<Rightarrow> processor \<times> xstate \<Rightarrow> (processor \<times> xstate) option" where
  "global_key a s = do {
     let (p, st) = s;
     name \<leftarrow> st_attr st (Some a) ''name'';
     let (tmp, st1) = st_new st name KEY_NODE;
     pat \<leftarrow> st_attr st1 (Some a) ''match'';
     use \<leftarrow> st_attr st1 (Some a) ''use'';
     m \<leftarrow> pat;
     u \<leftarrow> use;
     st2 \<leftarrow> st_upd st1 (Some tmp) (\<lambda>n. n\<lparr>n_content := Some (m @ ''['' @ u @ '' = '' @ [CHR 0x27] @ ''%s'' @ [CHR 0x27] @ '']''),
       n_next := pr_keys p\<rparr>);
     Some (p\<lparr>pr_keys := Some tmp\<rparr>, st2)
   }"

definition global_sort :: "nat \<Rightarrow> ref \<Rightarrow> xstate \<Rightarrow> xstate option" where
  "global_sort k a st = do {
     select \<leftarrow> st_attr st (Some a) ''select'';
     (e, st1) \<leftarrow> xpath_find_expr k st select;
     type \<leftarrow> st_attr st1 (Some a) ''data-type'';
     order \<leftarrow> st_attr st1 (Some a) ''order'';
     caseorder \<leftarrow> st_attr st1 (Some a) ''case-order'';
     st_upd st1 (Some a) (\<lambda>m. m\<lparr>n_compiled := e,
       n_flags := n_flags m OR (if type = Some ''number'' then 4 else 0) OR (if order = Some ''descending'' then 8 else 0)
         OR (if caseorder = Some ''lower-first'' then 16 else 0)\<rparr>)
   }"

definition global_format :: "ref \<Rightarrow> processor \<times> xstate \<Rightarrow> (processor \<times> xstate) option" where
  "global_format a s = do {
     let (p, st) = s;
     name \<leftarrow> st_attr st (Some a) ''name'';
     let (tmp, st1) = st_new st name ATTRIBUTE_NODE;
     st2 \<leftarrow> st_upd st1 (Some tmp) (\<lambda>n. n\<lparr>n_children := Some a, n_next := pr_formats p\<rparr>);
     Some (p\<lparr>pr_formats := Some tmp\<rparr>, st2)
   }"

fun process_global_flags :: "nat \<Rightarrow> ref option \<Rightarrow> processor \<times> xstate \<Rightarrow> (processor \<times> xstate) option" where
  "process_global_flags k None s = Some s"
| "process_global_flags 0 (Some a) s = None"
| "process_global_flags (Suc k) (Some a) s = do {
     n \<leftarrow> st_deref (snd s) (Some a);
     st1 \<leftarrow> flag_escaping n a (snd s);
     s2 \<leftarrow> (if n_name n = Some ''xsl:key'' then global_key a (fst s, st1)
       else if n_name n = Some ''xsl:sort'' then map_option (Pair (fst s)) (global_sort (Suc k) a st1)
       else if n_name n = Some ''xsl:decimal-format'' then global_format a (fst s, st1)
       else Some (fst s, st1));
     s3 \<leftarrow> process_global_flags k (n_children n) s2;
     m \<leftarrow> st_deref (snd s3) (Some a);
     process_global_flags k (n_next m) s3
   }"

subsection \<open>Global variables\<close>

definition te_with_vars :: "tenv \<Rightarrow> var_table \<Rightarrow> tenv" where
  "te_with_vars te t = te\<lparr>te_env := (te_env te)\<lparr>e_vars := vt_vars t\<rparr>\<rparr>"

text \<open>One \<open>xsl:variable\<close> of the stylesheet; \<open>dummy\<close> stands for its local variables.\<close>

definition global_variable :: "nat \<Rightarrow> tenv \<Rightarrow> ref \<Rightarrow> ref option \<Rightarrow> ref \<Rightarrow> var_table \<times> xstate \<Rightarrow> (var_table \<times> xstate) option" where
  "global_variable k te dummy doc a s = do {
     let (t, st) = s;
     vname \<leftarrow> st_attr st (Some a) ''name'';
     vsel \<leftarrow> st_attr st (Some a) ''select'';
     name \<leftarrow> vname;
     (i, t1) \<leftarrow> create_variable t (Some name);
     let te1 = te_with_vars te t1;
     n \<leftarrow> st_deref st (Some a);
     (case vsel of
        None \<Rightarrow> do {
          (v, st1) \<leftarrow> xml_eval_string te1 (\<lambda>c. run_xslt te1 k (Apply c)) (Some dummy) doc (n_children n) st;
          Some (set_extra t1 i (VAL_STRING (Some v)), st1)
        }
      | Some _ \<Rightarrow> do {
          (v, st1) \<leftarrow> xpath_eval_node (env_of te1 (Some dummy)) (te_fuel te1) doc vsel st;
          Some (set_extra t1 i v, st1)
        })
   }"

fun precompile_variables_loop :: "nat \<Rightarrow> tenv \<Rightarrow> ref option \<Rightarrow> ref option \<Rightarrow> ref \<Rightarrow> var_table \<times> xstate \<Rightarrow>
    (var_table \<times> xstate) option" where
  "precompile_variables_loop k te None doc dummy s = Some s"
| "precompile_variables_loop 0 te (Some a) doc dummy s = None"
| "precompile_variables_loop (Suc k) te (Some a) doc dummy s = do {
     n \<leftarrow> st_deref (snd s) (Some a);
     s1 \<leftarrow> (if n_name n = Some ''xsl:variable'' then global_variable k te dummy doc a s
       else if n_children n \<noteq> None \<and> n_name n \<noteq> Some ''xsl:template'' then
         precompile_variables_loop k te (n_children n) doc (length (x_heap (snd s)))
           (fst s, (snd s)\<lparr>x_heap := x_heap (snd s) @ [null_node]\<rparr>)
       else Some s);
     precompile_variables_loop k te (n_next n) doc dummy s1
   }"

text \<open>Every call has an own local node on its stack, a node behind the others here.\<close>

definition precompile_variables :: "nat \<Rightarrow> tenv \<Rightarrow> ref option \<Rightarrow> ref option \<Rightarrow> var_table \<times> xstate \<Rightarrow> (var_table \<times> xstate) option" where
  "precompile_variables k te stylesheet doc s =
     precompile_variables_loop k te stylesheet doc (length (x_heap (snd s)))
       (fst s, (snd s)\<lparr>x_heap := x_heap (snd s) @ [null_node]\<rparr>)"

definition free_variables :: "var_table \<Rightarrow> var_table" where
  "free_variables t = \<lparr>vt_max = 0, vt_vars = []\<rparr>"

subsection \<open>The interface\<close>

definition new_processor :: processor where
  "new_processor =
     \<lparr>pr_stylesheet = None, pr_templates = \<lparr>ts_map = template_map_create, ts_named = []\<rparr>, pr_keys = None, pr_formats = None,
      pr_vars = vt_empty, pr_outmode = MODE_XML, pr_output = False, pr_mode_set = False, pr_omit_desc = False,
      pr_standalone = False, pr_encoding = None, pr_media_type = None, pr_doctype_public = None, pr_doctype_system = None,
      pr_parallel = [], pr_url_parameters = [], pr_user_rights = None, pr_cache_key_prefix = None, pr_url_local_prefix = None\<rparr>"

definition empty_state :: "heap \<Rightarrow> xstate" where
  "empty_state h = \<lparr>x_heap = h, x_expressions = [], x_urldict = []\<rparr>"

definition XSLTNewProcessor :: "nat \<Rightarrow> file_parser \<Rightarrow> cstring \<Rightarrow> heap \<Rightarrow> ((processor \<times> xstate) option) option" where
  "XSLTNewProcessor k pf stylesheet h = do {
     (doc, h1) \<leftarrow> pf (Some stylesheet) h;
     (case doc of
        None \<Rightarrow> Some None
      | Some d \<Rightarrow> do {
          (d2, p2, h2) \<leftarrow> xsl_preprocess k pf (Some d) (instructions_set_parallel (new_processor\<lparr>pr_stylesheet := Some d\<rparr>)) h1;
          let p3 = p2\<lparr>pr_stylesheet := d2\<rparr>;
          n \<leftarrow> deref h2 d2;
          (p4, h4) \<leftarrow> process_imports k pf (n_children n) p3 h2;
          (ts, st5) \<leftarrow> precompile_templates k d2 (pr_templates p4, empty_state h4);
          (p6, st6) \<leftarrow> process_global_flags k d2 (p4\<lparr>pr_templates := ts\<rparr>, st5);
          Some (Some (p6, st6))
        })
   }"

fun find_node_by_name :: "nat \<Rightarrow> heap \<Rightarrow> ref option \<Rightarrow> cstring \<Rightarrow> ref option option" where
  "find_node_by_name k h None name = Some None"
| "find_node_by_name 0 h (Some a) name = None"
| "find_node_by_name (Suc k) h (Some a) name = do {
     n \<leftarrow> deref h (Some a);
     if n_name n = Some name then Some (Some a)
     else do {
       t \<leftarrow> find_node_by_name k h (n_children n) name;
       if t \<noteq> None then Some t else find_node_by_name k h (n_next n) name
     }
   }"

text \<open>The output mode after a transformation: a document element \<open>html\<close> switches it, unless a method was set.\<close>

definition result_mode :: "processor \<Rightarrow> heap \<Rightarrow> ref option \<Rightarrow> output_mode option" where
  "result_mode p h t =
     (if pr_outmode p = MODE_XML \<and> \<not> pr_mode_set p then
        (case t of
           None \<Rightarrow> Some MODE_XML
         | Some a \<Rightarrow> do {
             n \<leftarrow> deref h (Some a);
             Some (if n_type n = ELEMENT_NODE \<and> n_name n = Some ''html'' then MODE_HTML else MODE_XML)
           })
      else Some (pr_outmode p))"

definition meta_text :: cstring where
  "meta_text = ''<meta http-equiv='' @ [CHR 0x22] @ ''Content-Type'' @ [CHR 0x22] @ '' content='' @ [CHR 0x22] @
     ''text/html; charset=UTF-8'' @ [CHR 0x22] @ ''>''"

text \<open>The content type goes in front of the children of \<open>head\<close>, when it has any.\<close>

definition insert_meta :: "heap \<Rightarrow> ref \<Rightarrow> heap option" where
  "insert_meta h head = do {
     let (meta, h1) = xml_new_node h None TEXT_NODE;
     n \<leftarrow> deref h1 (Some head);
     h2 \<leftarrow> upd h1 (Some meta) (\<lambda>m. m\<lparr>n_content := Some meta_text, n_flags := 2, n_next := n_children n\<rparr>);
     (case n_children n of
        None \<Rightarrow> Some h2
      | Some f \<Rightarrow> do {
          h3 \<leftarrow> upd h2 (Some f) (\<lambda>m. m\<lparr>n_prev := Some meta\<rparr>);
          c \<leftarrow> deref h3 (Some f);
          h4 \<leftarrow> upd h3 (Some meta) (\<lambda>m. m\<lparr>n_parent := n_parent c\<rparr>);
          (case n_parent c of
             None \<Rightarrow> Some h4
           | Some q \<Rightarrow> upd h4 (Some q) (\<lambda>m. m\<lparr>n_children := Some meta\<rparr>))
        })
   }"

text \<open>
  \<open>pool\<close> tells whether there is a thread pool, which is switched off for the global variables.
  The processor comes back with the output mode for \<open>XMLOutput\<close>.
\<close>

definition XSLTProcess :: "nat \<Rightarrow> xenv \<Rightarrow> bool \<Rightarrow> processor option \<Rightarrow> ref option \<Rightarrow> xstate \<Rightarrow>
    (ref option \<times> processor option \<times> xstate) option" where
  "XSLTProcess k ext pool pctx document st =
     (case (pctx, document) of
        (None, _) \<Rightarrow> Some (None, None, st)
      | (Some p, None) \<Rightarrow> Some (None, Some p, st)
      | (Some p, Some d) \<Rightarrow> do {
          let (ret, st1) = st_new st (Some ''out'') EMPTY_NODE;
          s \<leftarrow> st_deref st1 (pr_stylesheet p);
          (vars, st2) \<leftarrow> precompile_variables k (processor_tenv k ext False p (Some d)) (n_children s) (Some d) (pr_vars p, st1);
          let p1 = p\<lparr>pr_vars := vars\<rparr>;
          let (locals, st3) = st_new st2 None EMPTY_NODE;
          st4 \<leftarrow> process_one_node (processor_tenv k ext pool p1 (Some d)) k
            (new_context\<lparr>c_result := Some ret, c_document := Some d, c_locals := Some locals\<rparr>) st3;
          t \<leftarrow> find_first_node k (x_heap st4) (Some ret);
          mode \<leftarrow> result_mode p1 (x_heap st4) t;
          h5 \<leftarrow> (if mode \<noteq> MODE_HTML then Some (x_heap st4)
            else do {
              head \<leftarrow> find_node_by_name k (x_heap st4) (Some ret) ''head'';
              (case head of None \<Rightarrow> Some (x_heap st4) | Some a \<Rightarrow> insert_meta (x_heap st4) a)
            });
          Some (Some ret, Some (p1\<lparr>pr_outmode := mode, pr_vars := free_variables vars\<rparr>), st4\<lparr>x_heap := h5\<rparr>)
        })"

end
