(* ===== verification/Tx_Stylesheet.thy ===== *)
theory Tx_Stylesheet
  imports Tx_Process Tx_Literal
begin

text \<open>
  From the text of a stylesheet to the text of a result: the preparation of a stylesheet leaves the nodes of
  literal templates alone, and a stylesheet of one literal template for the root is carried out as it is
  written.
\<close>

subsection \<open>What the preparation leaves alone\<close>

text \<open>All element names of a forest satisfy \<open>P\<close>.\<close>

fun all_names :: "(cstring \<Rightarrow> bool) \<Rightarrow> xml list \<Rightarrow> bool" where
  "all_names P [] = True"
| "all_names P (X_text s # ts) \<longleftrightarrow> all_names P ts"
| "all_names P (X_elem n as ks # ts) \<longleftrightarrow> P n \<and> all_names P ks \<and> all_names P ts"

text \<open>No text is white space only.\<close>

fun no_blank :: "xml list \<Rightarrow> bool" where
  "no_blank [] = True"
| "no_blank (X_text s # ts) \<longleftrightarrow> \<not> list_all x_is_ws s \<and> no_blank ts"
| "no_blank (X_elem n as ks # ts) \<longleftrightarrow> no_blank ks \<and> no_blank ts"

lemma all_names_mono: "all_names P ts \<Longrightarrow> (\<And>n. P n \<Longrightarrow> Q n) \<Longrightarrow> all_names Q ts"
  by (induction ts rule: xml_count.induct) auto

lemma literal_names: "literal ts \<Longrightarrow> all_names (\<lambda>n. \<not> starts_with ''xsl:'' n) ts"
  by (induction ts rule: xml_count.induct) auto

lemma not_xsl: "\<not> starts_with ''xsl:'' n \<Longrightarrow> n \<noteq> ''xsl:'' @ m"
  by (auto simp: starts_with_def)

lemma children_None: "doc_rep lo h p ks \<Longrightarrow> p = None \<longleftrightarrow> ks = []"
  by (cases ks rule: xml_count.cases) auto

lemma nodes_ok_text:
  assumes "nodes_ok lo h" "lo \<le> a" "a < length h" "n_type (h ! a) = TEXT_NODE"
  shows "n_name (h ! a) = None \<and> n_children (h ! a) = None \<and> (\<exists>p. n_parent (h ! a) = Some p \<and> p < length h)"
proof -
  from assms(1-3) have "node_ok lo h (h ! a)" by (simp add: nodes_ok_def)
  with assms(4) show ?thesis by (auto simp: node_ok_def elem_ptr_def)
qed

lemma preprocess_quiet:
  "doc_rep lo h p ts \<Longrightarrow> nodes_ok lo h \<Longrightarrow> all_names (\<lambda>n. n \<noteq> ''xsl:output'' \<and> n \<noteq> ''xsl:include'') ts \<Longrightarrow> no_blank ts \<Longrightarrow>
    xml_depth ts \<le> k \<Longrightarrow> xsl_preprocess_loop k pf ret p pr h = Some (ret, pr, h)"
proof (induction ts arbitrary: p k ret rule: xml_count.induct)
  case 1
  then show ?case by (cases k) auto
next
  case (2 s ts)
  then obtain a k' where a: "p = Some a" "a < length h" "lo \<le> a" "n_type (h ! a) = TEXT_NODE" "n_content (h ! a) = Some s"
    "doc_rep lo h (n_next (h ! a)) ts" "k = Suc k'" by (cases k) auto
  from nodes_ok_text[OF 2(3) a(3,2,4)] obtain q where q: "n_name (h ! a) = None" "n_children (h ! a) = None"
    "n_parent (h ! a) = Some q" "q < length h" by auto
  have "preprocess_blank h a = Some False" using a q 2(5) by (simp add: preprocess_blank_def)
  with a q 2 show ?case by simp
next
  case (3 n as ks ts)
  then obtain a k' where a: "p = Some a" "a < length h" "n_type (h ! a) = ELEMENT_NODE" "n_name (h ! a) = Some n"
    "doc_rep lo h (n_children (h ! a)) ks" "doc_rep lo h (n_next (h ! a)) ts" "k = Suc k'" by (cases k) auto
  have "preprocess_blank h a = Some False" using a by (simp add: preprocess_blank_def)
  moreover have "xsl_preprocess_loop k' pf c (n_children (h ! a)) pr h = Some (c, pr, h)" for c
    by (rule 3(1)[OF a(5)]) (use 3 a in simp_all)
  moreover have "set_node h a (\<lambda>m. m\<lparr>n_children := n_children (h ! a)\<rparr>) = h" by (rule set_node_same) simp
  moreover have "xsl_preprocess_loop k' pf ret (n_next (h ! a)) pr h = Some (ret, pr, h)"
    by (rule 3(2)[OF a(6)]) (use 3 a in simp_all)
  ultimately show ?case using a 3(5) by simp
qed

lemma imports_quiet:
  "doc_rep lo h p ts \<Longrightarrow> nodes_ok lo h \<Longrightarrow> all_names (\<lambda>n. n \<noteq> ''xsl:import'') ts \<Longrightarrow> xml_depth ts \<le> k \<Longrightarrow>
    process_imports k pf p pr h = Some (pr, h)"
proof (induction ts arbitrary: p k rule: xml_count.induct)
  case 1
  then show ?case by (cases k) auto
next
  case (2 s ts)
  then obtain a k' where a: "p = Some a" "a < length h" "lo \<le> a" "n_type (h ! a) = TEXT_NODE"
    "doc_rep lo h (n_next (h ! a)) ts" "k = Suc k'" by (cases k) auto
  from nodes_ok_text[OF 2(3) a(3,2,4)] a 2 show ?case by simp
next
  case (3 n as ks ts)
  then obtain a k' where a: "p = Some a" "a < length h" "n_name (h ! a) = Some n"
    "doc_rep lo h (n_children (h ! a)) ks" "doc_rep lo h (n_next (h ! a)) ts" "k = Suc k'" by (cases k) auto
  have "process_imports k' pf (n_children (h ! a)) pr h = Some (pr, h)"
    by (rule 3(1)[OF a(4)]) (use 3 a in simp_all)
  moreover have "process_imports k' pf (n_next (h ! a)) pr h = Some (pr, h)"
    by (rule 3(2)[OF a(5)]) (use 3 a in simp_all)
  ultimately show ?case using a 3(5) by simp
qed

lemma templates_quiet:
  "doc_rep lo (x_heap (snd s)) p ts \<Longrightarrow> nodes_ok lo (x_heap (snd s)) \<Longrightarrow> all_names (\<lambda>n. n \<noteq> ''xsl:template'') ts \<Longrightarrow>
    xml_depth ts \<le> k \<Longrightarrow> precompile_templates k p s = Some s"
proof (induction ts arbitrary: p k rule: xml_count.induct)
  case 1
  then show ?case by (cases k) auto
next
  case (2 v ts)
  let ?h = "x_heap (snd s)"
  from 2 obtain a k' where a: "p = Some a" "a < length ?h" "lo \<le> a" "n_type (?h ! a) = TEXT_NODE"
    "doc_rep lo ?h (n_next (?h ! a)) ts" "k = Suc k'" by (cases k) auto
  have "precompile_templates k' None s = Some s" by (cases k') auto
  with nodes_ok_text[OF 2(3) a(3,2,4)] a 2 show ?case by simp
next
  case (3 n as ks ts)
  let ?h = "x_heap (snd s)"
  from 3 obtain a k' where a: "p = Some a" "a < length ?h" "n_name (?h ! a) = Some n"
    "doc_rep lo ?h (n_children (?h ! a)) ks" "doc_rep lo ?h (n_next (?h ! a)) ts" "k = Suc k'" by (cases k) auto
  have "precompile_templates k' (n_children (?h ! a)) s = Some s"
    by (rule 3(1)[OF a(4)]) (use 3 a in simp_all)
  moreover have "precompile_templates k' (n_next (?h ! a)) s = Some s"
    by (rule 3(2)[OF a(5)]) (use 3 a in simp_all)
  ultimately show ?case using a 3(5) by simp
qed

definition flag_names :: "cstring set" where
  "flag_names = {''xsl:text'', ''xsl:value-of'', ''xsl:key'', ''xsl:sort'', ''xsl:decimal-format''}"

lemma flags_quiet:
  "doc_rep lo (x_heap (snd s)) p ts \<Longrightarrow> nodes_ok lo (x_heap (snd s)) \<Longrightarrow> all_names (\<lambda>n. n \<notin> flag_names) ts \<Longrightarrow>
    xml_depth ts \<le> k \<Longrightarrow> process_global_flags k p s = Some s"
proof (induction ts arbitrary: p k rule: xml_count.induct)
  case 1
  then show ?case by (cases k) auto
next
  case (2 v ts)
  let ?h = "x_heap (snd s)"
  from 2 obtain a k' where a: "p = Some a" "a < length ?h" "lo \<le> a" "n_type (?h ! a) = TEXT_NODE"
    "doc_rep lo ?h (n_next (?h ! a)) ts" "k = Suc k'" by (cases k) auto
  have "process_global_flags k' None s = Some s" by (cases k') auto
  with nodes_ok_text[OF 2(3) a(3,2,4)] a 2 show ?case by (simp add: flag_escaping_def)
next
  case (3 n as ks ts)
  let ?h = "x_heap (snd s)"
  from 3 obtain a k' where a: "p = Some a" "a < length ?h" "n_name (?h ! a) = Some n"
    "doc_rep lo ?h (n_children (?h ! a)) ks" "doc_rep lo ?h (n_next (?h ! a)) ts" "k = Suc k'" by (cases k) auto
  have "process_global_flags k' (n_children (?h ! a)) s = Some s"
    by (rule 3(1)[OF a(4)]) (use 3 a in simp_all)
  moreover have "process_global_flags k' (n_next (?h ! a)) s = Some s"
    by (rule 3(2)[OF a(5)]) (use 3 a in simp_all)
  ultimately show ?case using a 3(5) by (simp add: flag_escaping_def flag_names_def)
qed

subsection \<open>A stylesheet of one literal template\<close>

lemma attrs_rep_first:
  "attrs_rep lo h p as \<Longrightarrow> length as \<le> k \<Longrightarrow>
    \<exists>r. first_node_fuel k (\<lambda>m. str_equals (n_name m) (Some nm)) h p = Some r \<and>
      (case r of None \<Rightarrow> None | Some b \<Rightarrow> n_content (h ! b)) = map_of as nm"
proof (induction as arbitrary: p k)
  case Nil
  then show ?case by simp
next
  case (Cons nv as)
  obtain n v where nv: "nv = (n, v)" by fastforce
  with Cons.prems obtain a k' where "p = Some a" "a < length h" "n_name (h ! a) = Some n" "n_content (h ! a) = Some v"
    "attrs_rep lo h (n_next (h ! a)) as" "k = Suc k'" by (cases k) auto
  with Cons.IH[of "n_next (h ! a)" k'] Cons.prems nv show ?case by (auto simp: str_equals_def)
qed

lemma xml_get_attr_rep:
  assumes "a < length h" "n_type (h ! a) \<noteq> EMPTY_NODE" "attrs_rep lo h (n_attributes (h ! a)) as"
  shows "xml_get_attr h (Some a) (Some nm) = Some (map_of as nm)"
proof -
  have "length as \<le> length h" using attrs_rep_linked[OF assms(3)] linked_length by metis
  from attrs_rep_first[OF assms(3) this, of nm] assms(1,2) show ?thesis
    by (auto simp: xml_get_attr_def first_node_def)
qed

text \<open>The stylesheet, as a tree.\<close>

definition root_stylesheet :: "(cstring \<times> cstring) list \<Rightarrow> xml list \<Rightarrow> xml list" where
  "root_stylesheet as ts = [X_elem ''xsl:stylesheet'' as [X_elem ''xsl:template'' [(''match'', ''/'')] ts]]"

lemma match_slash: "match_parts ''/'' = [''/'']"
  by (subst match_parts.simps) simp

lemma add_root_template:
  assumes "a < length (x_heap st)" "n_children (x_heap st ! a) = Some c"
  shows "\<exists>ts. add_template k a None (Some ''/'') None (\<lparr>ts_map = template_map_create, ts_named = []\<rparr>, st) = Some (ts, st) \<and>
    (\<exists>t. me_root (tm_empty (ts_map ts)) = Some t \<and> tp_content t = c)"
  using assms
  by (simp add: add_template_def match_slash add_templ_match_def template_map_create_def template_map_get_entry_def
      template_map_find_template_def new_map_entry_def set_entry_def trim_ws_def x_is_ws_def del: match_parts.simps)

lemma root_stylesheet_rep:
  assumes "doc_rep lo h p (root_stylesheet as ts)" "ts \<noteq> []"
  shows "\<exists>a b c. p = Some a \<and> a < length h \<and> n_type (h ! a) = ELEMENT_NODE \<and> n_name (h ! a) = Some ''xsl:stylesheet'' \<and>
    n_next (h ! a) = None \<and> n_children (h ! a) = Some b \<and> b < length h \<and> n_type (h ! b) = ELEMENT_NODE \<and>
    n_name (h ! b) = Some ''xsl:template'' \<and> n_next (h ! b) = None \<and> attrs_rep lo h (n_attributes (h ! b)) [(''match'', ''/'')] \<and>
    n_children (h ! b) = Some c \<and> doc_rep lo h (Some c) ts"
proof -
  from assms(1) obtain a b where ab: "p = Some a" "a < length h" "n_type (h ! a) = ELEMENT_NODE" "n_name (h ! a) = Some ''xsl:stylesheet''"
    "n_next (h ! a) = None" "n_children (h ! a) = Some b" "b < length h" "n_type (h ! b) = ELEMENT_NODE"
    "n_name (h ! b) = Some ''xsl:template''" "n_next (h ! b) = None" "attrs_rep lo h (n_attributes (h ! b)) [(''match'', ''/'')]"
    "doc_rep lo h (n_children (h ! b)) ts"
    by (auto simp: root_stylesheet_def)
  with children_None[OF ab(12)] assms(2) obtain c where "n_children (h ! b) = Some c" by auto
  with ab show ?thesis by metis
qed

lemma templates_root_stylesheet:
  assumes "doc_rep lo (x_heap st) p (root_stylesheet as ts)" "nodes_ok lo (x_heap st)" "ts \<noteq> []"
    "all_names (\<lambda>n. n \<noteq> ''xsl:template'') ts" "xml_depth ts + 2 \<le> k"
  shows "\<exists>tps t. precompile_templates k p (\<lparr>ts_map = template_map_create, ts_named = []\<rparr>, st) = Some (tps, st) \<and>
    me_root (tm_empty (ts_map tps)) = Some t \<and> doc_rep lo (x_heap st) (Some (tp_content t)) ts"
proof -
  let ?h = "x_heap st"
  from root_stylesheet_rep[OF assms(1,3)] obtain a b c where
    a: "p = Some a" "a < length ?h" "n_name (?h ! a) = Some ''xsl:stylesheet''" "n_next (?h ! a) = None" "n_children (?h ! a) = Some b"
    and b: "b < length ?h" "n_type (?h ! b) = ELEMENT_NODE" "n_name (?h ! b) = Some ''xsl:template''" "n_next (?h ! b) = None"
      "attrs_rep lo ?h (n_attributes (?h ! b)) [(''match'', ''/'')]" "n_children (?h ! b) = Some c" "doc_rep lo ?h (Some c) ts"
    by blast
  from assms(5) have "k = Suc (Suc (k - 2))" "xml_depth ts \<le> k - 2" by simp_all
  then obtain k' where k: "k = Suc (Suc k')" "xml_depth ts \<le> k'" by blast
  have attr: "xml_get_attr ?h (Some b) (Some nm) = Some (map_of [(''match'', ''/'')] nm)" for nm
    by (rule xml_get_attr_rep[OF b(1) _ b(5)]) (simp add: b(2))
  from add_root_template[OF b(1,6), of k'] obtain tps t where
    t: "add_template k' b None (Some ''/'') None (\<lparr>ts_map = template_map_create, ts_named = []\<rparr>, st) = Some (tps, st)"
      "me_root (tm_empty (ts_map tps)) = Some t" "tp_content t = c" by blast
  have none: "precompile_templates j None s = Some s" for j s by (cases j) auto
  have "precompile_templates k' (Some c) (tps, st) = Some (tps, st)"
    by (rule templates_quiet[where ts = ts and lo = lo]) (use b(7) assms(2,4) k(2) in simp_all)
  then have "precompile_templates (Suc k') (Some b) (\<lparr>ts_map = template_map_create, ts_named = []\<rparr>, st) = Some (tps, st)"
    using b t(1) attr none by simp
  then have "precompile_templates (Suc (Suc k')) (Some a) (\<lparr>ts_map = template_map_create, ts_named = []\<rparr>, st) = Some (tps, st)"
    unfolding precompile_templates.simps(3)[of "Suc k'"] using a none by (simp del: precompile_templates.simps(3))
  then show ?thesis using t(2,3) b(7) unfolding k(1) a(1) by blast
qed

lemma document_repD:
  "document_rep h (Some d) ts \<Longrightarrow> d < length h \<and> n_type (h ! d) = EMPTY_NODE \<and> n_next (h ! d) = None \<and> doc_rep 0 h (n_children (h ! d)) ts"
  by (auto simp: document_rep_def)

lemma root_stylesheet_names:
  assumes "literal ts" "P ''xsl:stylesheet''" "P ''xsl:template''" "\<And>n. \<not> starts_with ''xsl:'' n \<Longrightarrow> P n"
  shows "all_names P (root_stylesheet as ts)"
  using all_names_mono[OF literal_names[OF assms(1)] assms(4)] assms(2,3) by (simp add: root_stylesheet_def)

lemma new_processor_literal:
  assumes "pf (Some f) h0 = Some (Some d, h)" "document_rep h (Some d) (root_stylesheet as ts)" "nodes_ok 0 h"
    "n_name (h ! d) = Some xsl_s_root" "literal ts" "no_blank ts" "ts \<noteq> []" "xml_depth ts + 3 \<le> k"
  shows "\<exists>tps t. XSLTNewProcessor k pf f h0 =
      Some (Some ((instructions_set_parallel (new_processor\<lparr>pr_stylesheet := Some d\<rparr>))\<lparr>pr_templates := tps\<rparr>, empty_state h)) \<and>
    me_root (tm_empty (ts_map tps)) = Some t \<and> doc_rep 0 h (Some (tp_content t)) ts"
proof -
  let ?T = "root_stylesheet as ts" and ?pr = "instructions_set_parallel (new_processor\<lparr>pr_stylesheet := Some d\<rparr>)"
  note d = document_repD[OF assms(2)]
  have d4: "doc_rep 0 h (n_children (h ! d)) ?T" using d by blast
  have n1: "all_names (\<lambda>n. n \<noteq> ''xsl:output'' \<and> n \<noteq> ''xsl:include'') ?T"
    by (rule root_stylesheet_names[OF assms(5)]) (auto simp: starts_with_def)
  have n2: "all_names (\<lambda>n. n \<noteq> ''xsl:import'') ?T"
    by (rule root_stylesheet_names[OF assms(5)]) (auto simp: starts_with_def)
  have n3: "all_names (\<lambda>n. n \<notin> flag_names) ?T"
    by (rule root_stylesheet_names[OF assms(5)]) (auto simp: starts_with_def flag_names_def)
  from assms(8) have "k = Suc (k - 1)" "xml_depth ts + 2 \<le> k - 1" by simp_all
  then obtain k' where k: "k = Suc k'" "xml_depth ts + 2 \<le> k'" by blast
  have dep: "xml_depth ?T \<le> k'" using k(2) by (simp add: root_stylesheet_def)
  have nb: "no_blank ?T" using assms(6) by (simp add: root_stylesheet_def)
  have none: "xsl_preprocess_loop j pf r None p g = Some (r, p, g)" "process_imports j pf None p g = Some (p, g)" for j r p g
    by (cases j; simp)+
  have none2: "precompile_templates j None s = Some s" "process_global_flags j None u = Some u" for j s u
    by (cases j; simp)+
  have same: "set_node h d (\<lambda>m. m\<lparr>n_children := n_children (h ! d)\<rparr>) = h" by (rule set_node_same) simp
  have pp: "xsl_preprocess_loop k' pf (n_children (h ! d)) (n_children (h ! d)) ?pr h = Some (n_children (h ! d), ?pr, h)"
    by (rule preprocess_quiet[OF d4 assms(3) n1 nb dep])
  have "preprocess_blank h d = Some False" using d by (simp add: preprocess_blank_def)
  with pp have pre: "xsl_preprocess k pf (Some d) ?pr h = Some (Some d, ?pr, h)"
    using d assms(4) same none by (simp add: xsl_preprocess_def k(1) xsl_s_root_def)
  have imp: "process_imports k pf (n_children (h ! d)) ?pr h = Some (?pr, h)"
    by (rule imports_quiet[OF d4 assms(3) n2]) (use dep k(1) in simp)
  have "all_names (\<lambda>n. n \<noteq> ''xsl:template'') ts" by (rule all_names_mono[OF literal_names[OF assms(5)]]) (auto simp: starts_with_def)
  with templates_root_stylesheet[of 0 "empty_state h" "n_children (h ! d)" as ts k'] d assms(3,7) k(2) obtain tps t where
    t: "precompile_templates k' (n_children (h ! d)) (\<lparr>ts_map = template_map_create, ts_named = []\<rparr>, empty_state h) = Some (tps, empty_state h)"
      "me_root (tm_empty (ts_map tps)) = Some t" "doc_rep 0 h (Some (tp_content t)) ts"
    by (auto simp: empty_state_def)
  have tpl: "precompile_templates k (Some d) (pr_templates ?pr, empty_state h) = Some (tps, empty_state h)"
    using t(1) d none2 by (simp add: k(1) empty_state_def instructions_set_parallel_def new_processor_def)
  have fl: "process_global_flags k' (n_children (h ! d)) (q, empty_state h) = Some (q, empty_state h)" for q
    by (rule flags_quiet[where lo = 0 and ts = ?T]) (use d4 assms(3) n3 dep in \<open>simp_all add: empty_state_def\<close>)
  have "process_global_flags k (Some d) (q, empty_state h) = Some (q, empty_state h)" for q
    using fl[of q] d assms(4) none2 by (simp add: k(1) empty_state_def flag_escaping_def xsl_s_root_def)
  moreover have "?pr\<lparr>pr_stylesheet := Some d\<rparr> = ?pr" by (simp add: instructions_set_parallel_def)
  ultimately have "XSLTNewProcessor k pf f h0 = Some (Some (?pr\<lparr>pr_templates := tps\<rparr>, empty_state h))"
    using assms(1) pre imp tpl d by (simp add: XSLTNewProcessor_def)
  with t(2,3) show ?thesis by blast
qed

text \<open>The document element is not \<open>html\<close>, which would switch the output method.\<close>

fun not_html :: "xml list \<Rightarrow> bool" where
  "not_html (X_elem n as ks # ts) \<longleftrightarrow> n \<noteq> ''html''"
| "not_html ts \<longleftrightarrow> True"

lemma ge_two: "2 \<le> (k::nat) \<Longrightarrow> \<exists>k'. k = Suc (Suc k')"
  by (intro exI[of _ "k - 2"]) simp

lemma variables_root_stylesheet:
  assumes "doc_rep 0 (x_heap st) p (root_stylesheet as ts)" "ts \<noteq> []" "2 \<le> k"
  shows "precompile_variables k te p doc (vt, st) = Some (vt, st\<lparr>x_heap := x_heap st @ [null_node, null_node]\<rparr>)"
proof -
  let ?h = "x_heap st"
  from root_stylesheet_rep[OF assms(1,2)] obtain a b where
    a: "p = Some a" "a < length ?h" "n_name (?h ! a) = Some ''xsl:stylesheet''" "n_next (?h ! a) = None" "n_children (?h ! a) = Some b"
    and b: "b < length ?h" "n_name (?h ! b) = Some ''xsl:template''" "n_next (?h ! b) = None" by blast
  from ge_two[OF assms(3)] obtain k' where k: "k = Suc (Suc k')" by blast
  have none: "precompile_variables_loop j te None doc e s = Some s" for j e s by (cases j) auto
  have "precompile_variables_loop (Suc k') te (Some b) doc e (vt, st\<lparr>x_heap := ?h @ xs\<rparr>) = Some (vt, st\<lparr>x_heap := ?h @ xs\<rparr>)" for e xs
    using b none by (simp add: nth_append)
  then show ?thesis using a none
    unfolding precompile_variables_def k a(1) precompile_variables_loop.simps(3)[of "Suc k'"]
    by (simp add: nth_append del: precompile_variables_loop.simps(3))
qed

lemma first_node_result:
  assumes "document_rep h (Some r) (rev_attrs ts)" "ts \<noteq> []" "not_html ts" "2 \<le> k"
  shows "\<exists>a. find_first_node k h (Some r) = Some (Some a) \<and> a < length h \<and> \<not> (n_type (h ! a) = ELEMENT_NODE \<and> n_name (h ! a) = Some ''html'')"
proof -
  from ge_two[OF assms(4)] obtain k' where k: "k = Suc (Suc k')" by blast
  note d = document_repD[OF assms(1)]
  from assms(2) obtain x us where x: "ts = x # us" by (cases ts) auto
  with d obtain a where a: "n_children (h ! r) = Some a" "a < length h" "node_rep 0 h a (rev_node x)"
    by (auto simp: rev_attrs_Cons doc_rep_Cons)
  then have "n_type (h ! a) \<noteq> EMPTY_NODE" "\<not> (n_type (h ! a) = ELEMENT_NODE \<and> n_name (h ! a) = Some ''html'')"
    using assms(3) x by (cases x; simp)+
  with d a k show ?thesis by simp
qed

lemma process_literal:
  assumes "document_rep h (Some d) (root_stylesheet as ts)" "nodes_ok 0 h" "literal ts" "ts \<noteq> []" "not_html ts"
    "take (length h) (x_heap st) = h" "pr_stylesheet p = Some d"
    "me_root (tm_empty (ts_map (pr_templates p))) = Some t" "doc_rep 0 h (Some (tp_content t)) ts"
    "pr_outmode p = MODE_XML" "xml_depth ts + 2 \<le> k"
  shows "\<exists>ret st'. XSLTProcess k ext pool (Some p) (Some doc) st =
      Some (Some ret, Some (p\<lparr>pr_vars := vt_empty\<rparr>), st') \<and> document_rep (x_heap st') (Some ret) (rev_attrs ts)"
proof -
  let ?g = "x_heap st"
  have len: "length h \<le> length ?g" using assms(6) by (metis length_take min.bounded_iff order_refl)
  have nth: "i < length h \<Longrightarrow> ?g ! i = h ! i" for i using assms(6) by (metis nth_take)
  note d = document_repD[OF assms(1)]
  define x where "x = null_node\<lparr>n_type := EMPTY_NODE, n_name := Some ''out'', n_uid := Some (length ?g)\<rparr>"
  define y where "y = null_node\<lparr>n_type := EMPTY_NODE, n_name := None, n_uid := Some (length ?g + 3)\<rparr>"
  define st1 where "st1 = st\<lparr>x_heap := ?g @ [x]\<rparr>"
  have n1: "st_new st (Some ''out'') EMPTY_NODE = (length ?g, st1)" by (simp add: st_new_def xml_new_node_def x_def st1_def)
  have dr: "doc_rep 0 (x_heap st1) (n_children (h ! d)) (root_stylesheet as ts)"
    by (rule doc_rep_frame[of 0 0 h]) (use d len nth in \<open>auto simp: st1_def nth_append\<close>)
  have d1: "st_deref st1 (Some d) = Some (h ! d)" using d len nth by (simp add: st1_def nth_append)
  have k2: "2 \<le> k" using assms(11) by simp
  note vars = variables_root_stylesheet[OF dr assms(4) k2]
  define st3 where "st3 = st\<lparr>x_heap := ?g @ [x, null_node, null_node, y]\<rparr>"
  have n3: "st_new (st1\<lparr>x_heap := x_heap st1 @ [null_node, null_node]\<rparr>) None EMPTY_NODE = (length ?g + 3, st3)"
    by (simp add: st_new_def xml_new_node_def y_def st1_def st3_def)
  let ?c = "new_context\<lparr>c_result := Some (length ?g), c_document := Some doc, c_locals := Some (length ?g + 3)\<rparr>"
  let ?te = "processor_tenv k ext pool (p\<lparr>pr_vars := pr_vars p\<rparr>) (Some doc)"
  have mh: "take (length h) (x_heap st3) = h" using assms(6) len by (simp add: st3_def)
  have "\<exists>st'. process_one_node ?te k ?c st3 = Some st' \<and> document_rep (x_heap st') (Some (length ?g)) (rev_attrs ts)"
  proof (rule root_template_literal[where m = "length h" and lo = 0 and d = doc and t = t and ts = ts])
    have "plain_texts h" using nodes_ok_text[OF assms(2)] by (auto simp: plain_texts_def in_set_conv_nth)
    then show "plain_texts (take (length h) (x_heap st3))" using mh by simp
    show "doc_rep 0 (take (length h) (x_heap st3)) (Some (tp_content t)) ts" using mh assms(9) by simp
  qed (use assms(3,8,11) len in \<open>simp_all add: processor_tenv_def processor_env_def new_context_def st3_def x_def null_node_def nth_append
      split: option.split\<close>)
  then obtain st4 where st4: "process_one_node ?te k ?c st3 = Some st4" "document_rep (x_heap st4) (Some (length ?g)) (rev_attrs ts)"
    by blast
  from first_node_result[OF st4(2) assms(4,5) k2] obtain a where
    a: "find_first_node k (x_heap st4) (Some (length ?g)) = Some (Some a)" "a < length (x_heap st4)"
      "\<not> (n_type (x_heap st4 ! a) = ELEMENT_NODE \<and> n_name (x_heap st4 ! a) = Some ''html'')" by blast
  have "result_mode (p\<lparr>pr_vars := pr_vars p\<rparr>) (x_heap st4) (Some a) = Some MODE_XML"
    using a assms(10) by (auto simp: result_mode_def)
  then have "XSLTProcess k ext pool (Some p) (Some doc) st =
      Some (Some (length ?g), Some (p\<lparr>pr_outmode := MODE_XML, pr_vars := vt_empty\<rparr>), st4)"
    using n1 d1 vars n3 st4(1) a(1) assms(7) by (simp add: XSLTProcess_def Let_def vt_empty_def free_variables_def)
  moreover have "p\<lparr>pr_outmode := MODE_XML, pr_vars := vt_empty\<rparr> = p\<lparr>pr_vars := vt_empty\<rparr>" using assms(10) by (cases p) simp
  ultimately show ?thesis using st4(2) by auto
qed

subsection \<open>From text to text\<close>

lemma rev_attrs_involutive [simp]: "rev_attrs (rev_attrs ts) = ts"
  by (induction ts rule: xml_count.induct) auto

lemma rev_attrs_facts:
  "literal (rev_attrs ts) = literal ts" "no_blank (rev_attrs ts) = no_blank ts" "not_html (rev_attrs ts) = not_html ts"
  "xml_depth (rev_attrs ts) = xml_depth ts" "rev_attrs ts = [] \<longleftrightarrow> ts = []"
  "rev_attrs (root_stylesheet as ts) = root_stylesheet (rev as) (rev_attrs ts)"
proof -
  show "literal (rev_attrs ts) = literal ts" by (induction ts rule: xml_count.induct) (auto simp: list_all_iff)
  show "no_blank (rev_attrs ts) = no_blank ts" by (induction ts rule: xml_count.induct) auto
  show "not_html (rev_attrs ts) = not_html ts" by (cases ts rule: xml_count.cases) auto
  show "xml_depth (rev_attrs ts) = xml_depth ts" by (induction ts rule: xml_count.induct) auto
  show "rev_attrs ts = [] \<longleftrightarrow> ts = []" by (cases ts rule: xml_count.cases) auto
  show "rev_attrs (root_stylesheet as ts) = root_stylesheet (rev as) (rev_attrs ts)" by (simp add: root_stylesheet_def)
qed

lemma cstring_name: "list_all can_name n \<Longrightarrow> is_cstring n"
  by (induction n) (auto simp: can_name_def char_between_def is_digit_char_def)

lemma cstring_quoted: "printable_text s \<Longrightarrow> is_cstring (quote_text s) \<and> is_cstring (quote_value s)"
  by (induction s) auto

lemma cstring_attrs: "list_all (\<lambda>(a, v). xname_ok a \<and> printable_text v) as \<Longrightarrow> is_cstring (show_attrs as)"
  by (induction as) (auto simp: show_attr_def xname_ok_def cstring_name cstring_quoted)

lemma cstring_show_xml: "wf_xml ts \<Longrightarrow> is_cstring (show_xml ts)"
  by (induction ts rule: xml_count.induct) (auto simp: cstring_quoted cstring_attrs xname_ok_def cstring_name)

lemma depth_show_xml: "wf_xml ts \<Longrightarrow> xml_depth ts \<le> length (show_xml ts)"
proof (induction ts rule: xml_count.induct)
  case (2 s ts)
  then have "quote_text s \<noteq> []" by (simp del: quote_text_simps)
  then have "1 \<le> length (quote_text s)" by (cases "quote_text s") auto
  with 2 show ?case by simp
qed auto

text \<open>The declaration that a stylesheet without \<open>xsl:output\<close> writes.\<close>

definition plain_output :: out_context where
  "plain_output = processor_output new_processor 0"

definition stylesheet_text :: "(cstring \<times> cstring) list \<Rightarrow> xml list \<Rightarrow> cstring" where
  "stylesheet_text as ts = xml_declaration plain_output @ show_xml (root_stylesheet as ts)"

lemma wf_root_stylesheet:
  "wf_xml (root_stylesheet as ts) \<longleftrightarrow> list_all (\<lambda>(a, v). xname_ok a \<and> printable_text v) as \<and> wf_xml ts"
  by (auto simp: root_stylesheet_def xname_ok_def can_name_def char_between_def)

lemma stylesheet_run:
  assumes "wf_xml (root_stylesheet as ts)" "literal ts" "no_blank ts" "ts \<noteq> []" "not_html ts"
    "files f = Some (stylesheet_text as ts)" "2 * length (stylesheet_text as ts) < k"
  shows "\<exists>p st0. XSLTNewProcessor k (xml_parse_file k files True) f [] = Some (Some (p, st0)) \<and>
    (\<exists>ret p' st'. XSLTProcess k ext pool (Some p) (Some doc) (st0\<lparr>x_heap := x_heap st0 @ docs\<rparr>) = Some (Some ret, Some p', st') \<and>
      XMLOutput (Suc (length (x_heap st'))) (processor_output p' 0) (x_heap st') (Some ret) =
        Some (xml_declaration plain_output @ show_xml ts))"
proof -
  let ?T = "root_stylesheet as ts" and ?R = "root_stylesheet (rev as) (rev_attrs ts)"
  have mode: "o_mode plain_output = MODE_XML" by (simp add: plain_output_def processor_output_def new_processor_def)
  have "is_cstring (stylesheet_text as ts)"
    using cstring_show_xml[OF assms(1)] mode
    by (simp add: stylesheet_text_def xml_declaration_def)
  then have cs: "cstr_of (stylesheet_text as ts) = stylesheet_text as ts"
    by (simp add: cstr_of_def is_cstring_def takeWhile_eq_all_conv list_all_iff)
  have "?T \<noteq> []" "\<not> starts_text ?T" by (simp_all add: root_stylesheet_def)
  from parse_file_document[OF assms(1) this mode _ _ _ le0, of k files f "[]" True, folded stylesheet_text_def] assms(6,7) cs
  obtain h where h: "xml_parse_file k files True (Some f) [] = Some (Some 0, h)" "document_rep h (Some 0) (rev_attrs ?T)"
    "n_name (h ! 0) = Some xsl_s_root" "nodes_ok 0 h" by (auto simp: nodes_ok_def)
  have "xml_depth ts + 2 \<le> length (show_xml ?T)" using depth_show_xml[OF assms(1)] by (simp add: root_stylesheet_def)
  then have depth: "xml_depth ts + 3 \<le> k" using assms(7) by (simp add: stylesheet_text_def)
  note ra = rev_attrs_facts
  have new: "\<exists>tps t. XSLTNewProcessor k (xml_parse_file k files True) f [] =
      Some (Some ((instructions_set_parallel (new_processor\<lparr>pr_stylesheet := Some 0\<rparr>))\<lparr>pr_templates := tps\<rparr>, empty_state h)) \<and>
    me_root (tm_empty (ts_map tps)) = Some t \<and> doc_rep 0 h (Some (tp_content t)) (rev_attrs ts)"
    by (rule new_processor_literal[where as = "rev as"]) (use h ra assms(2-4) depth in simp_all)
  then obtain tps t where
    n: "XSLTNewProcessor k (xml_parse_file k files True) f [] =
      Some (Some ((instructions_set_parallel (new_processor\<lparr>pr_stylesheet := Some 0\<rparr>))\<lparr>pr_templates := tps\<rparr>, empty_state h))"
    "me_root (tm_empty (ts_map tps)) = Some t" "doc_rep 0 h (Some (tp_content t)) (rev_attrs ts)" by blast
  define p where "p = (instructions_set_parallel (new_processor\<lparr>pr_stylesheet := Some 0\<rparr>))\<lparr>pr_templates := tps\<rparr>"
  have p: "pr_stylesheet p = Some 0" "pr_templates p = tps" "pr_outmode p = MODE_XML"
    "processor_output (p\<lparr>pr_vars := vt_empty\<rparr>) 0 = plain_output"
    by (simp_all add: p_def instructions_set_parallel_def new_processor_def plain_output_def processor_output_def)
  have "\<exists>ret st'. XSLTProcess k ext pool (Some p) (Some doc) ((empty_state h)\<lparr>x_heap := x_heap (empty_state h) @ docs\<rparr>) =
      Some (Some ret, Some (p\<lparr>pr_vars := vt_empty\<rparr>), st') \<and> document_rep (x_heap st') (Some ret) (rev_attrs (rev_attrs ts))"
    by (rule process_literal[where as = "rev as" and d = 0 and h = h and t = t])
      (use h ra n p assms(2,4,5) depth in \<open>simp_all add: empty_state_def\<close>)
  then obtain ret st' where
    r: "XSLTProcess k ext pool (Some p) (Some doc) ((empty_state h)\<lparr>x_heap := x_heap (empty_state h) @ docs\<rparr>) =
      Some (Some ret, Some (p\<lparr>pr_vars := vt_empty\<rparr>), st')" "document_rep (x_heap st') (Some ret) ts" by auto
  have "XMLOutput (Suc (length (x_heap st'))) plain_output (x_heap st') (Some ret) = Some (xml_declaration plain_output @ show_xml ts)"
    by (rule document_output[OF r(2) mode]) (simp_all add: plain_output_def processor_output_def new_processor_def)
  with n(1)[folded p_def] r(1) p(4) show ?thesis by auto
qed

text \<open>
  C1: A stylesheet file, printed as XML, whose only template, for the root, holds literal elements and text: no
  instruction, no braces in attributes, no text of white space only, and its first node is not an element \<open>html\<close>
  (\<open>XSLTProcess\<close> switches to the HTML mode for that one and adds a content type, of which nothing is claimed). For every
  document, whatever its nodes, the processor is created and the transformation returns, both within any fuel above
  twice the length of the file, and the result is written as the text of the template behind the XML declaration,
  attribute order included, with a recursion depth of the output of at most the number of nodes plus one.
\<close>

theorem literal_stylesheet_is_its_result:
  assumes "wf_xml (root_stylesheet as ts)" "literal ts" "no_blank ts" "ts \<noteq> []" "not_html ts"
    "files f = Some (stylesheet_text as ts)" "2 * length (stylesheet_text as ts) < k"
  shows "\<exists>p st0. XSLTNewProcessor k (xml_parse_file k files True) f [] = Some (Some (p, st0)) \<and>
    (\<exists>ret p' st'. XSLTProcess k ext pool (Some p) (Some doc) (st0\<lparr>x_heap := x_heap st0 @ docs\<rparr>) = Some (Some ret, Some p', st') \<and>
      XMLOutput (Suc (length (x_heap st'))) (processor_output p' 0) (x_heap st') (Some ret) =
        Some (xml_declaration plain_output @ show_xml ts))"
  by (rule stylesheet_run) (use assms in simp_all)

definition sample_body :: "xml list" where
  "sample_body = [X_elem ''p'' [(''a'', ''1''), (''b'', ''2'')] [X_text ''x < y'']]"

theorem literal_stylesheet_is_its_result_witness:
  "\<exists>p st0. XSLTNewProcessor 400 (xml_parse_file 400 (\<lambda>_. Some (stylesheet_text [] sample_body)) True) ''s.xsl'' [] = Some (Some (p, st0)) \<and>
    (\<exists>ret p' st'. XSLTProcess 400 plain_env True (Some p) (Some 7) (st0\<lparr>x_heap := x_heap st0 @ [null_node]\<rparr>) = Some (Some ret, Some p', st') \<and>
      XMLOutput (Suc (length (x_heap st'))) (processor_output p' 0) (x_heap st') (Some ret) =
        Some (xml_declaration plain_output @ show_xml sample_body))"
proof (rule literal_stylesheet_is_its_result)
  show "wf_xml (root_stylesheet [] sample_body)"
    by (simp add: wf_root_stylesheet sample_body_def xname_ok_def can_name_def char_between_def)
  show "no_blank sample_body" by (simp add: sample_body_def x_is_ws_def)
  show "literal sample_body" by (simp add: sample_body_def starts_with_def no_braces_def)
  show "2 * length (stylesheet_text [] sample_body) < 400"
    by (simp add: stylesheet_text_def sample_body_def root_stylesheet_def show_attr_def plain_output_def
        processor_output_def new_processor_def xml_declaration_def)
qed (simp_all add: sample_body_def)

end
