(* ===== verification/Tx_Sort.thy ===== *)
theory Tx_Sort
  imports Tx_XPathEval "HOL-Library.List_Lexorder" "HOL-Library.Multiset"
begin

text \<open>
  xpath.c 484-576: the exchange sort of \<open>xsl:sort\<close> is the stable sort of the library. The interface \<open>sort_order\<close>
  is all that the passes rely on: the test for an exchange compares ranks in a linear order. For strings the rank
  is a \<open>collation\<close>, the lower-case bytes with the direction of the sort.
\<close>

subsection \<open>The passes, for any order of ranks\<close>

lemma pass_induct [case_names Nil Single Step]:
  assumes "P []" "\<And>x. P [x]" "\<And>x y r. P (x # r) \<Longrightarrow> P (y # r) \<Longrightarrow> P (x # y # r)"
  shows "P xs"
proof (induction "length xs" arbitrary: xs rule: less_induct)
  case less
  show ?case
  proof (cases xs)
    case (Cons x ys)
    then show ?thesis using less assms(2,3) by (cases ys) auto
  qed (use assms(1) in simp)
qed

locale sort_order =
  fixes gt :: "'k \<Rightarrow> 'k \<Rightarrow> bool" and rank :: "'k \<Rightarrow> 'r::linorder"
  assumes gt_rank: "gt x y \<longleftrightarrow> rank y < rank x"
begin

abbreviation pass :: "('k \<times> ref) list \<Rightarrow> ('k \<times> ref) list" where
  "pass xs \<equiv> fst (sort_pass gt xs)"

abbreviation rk :: "'k \<times> ref \<Rightarrow> 'r" where
  "rk x \<equiv> rank (fst x)"

lemma pass_Step: "pass (x # y # r) = (if gt (fst x) (fst y) then y # pass (x # r) else x # pass (y # r))"
  "snd (sort_pass gt (x # y # r)) \<longleftrightarrow> gt (fst x) (fst y) \<or> snd (sort_pass gt (y # r))"
  by (simp_all split: prod.splits)

lemma pass_mset: "mset (pass xs) = mset xs"
  by (induction xs rule: pass_induct) (simp_all add: pass_Step del: sort_pass.simps(1))

lemma pass_stable: "filter (\<lambda>x. r = rk x) (pass xs) = filter (\<lambda>x. r = rk x) xs"
proof (induction xs rule: pass_induct)
  case (Step x y zs)
  have "gt (fst x) (fst y) \<Longrightarrow> rk x \<noteq> rk y" using gt_rank[of "fst x" "fst y"] by auto
  with Step show ?case by (auto simp: pass_Step simp del: sort_pass.simps(1))
qed simp_all

lemma no_exchange: "\<not> snd (sort_pass gt xs) \<Longrightarrow> pass xs = xs \<and> sorted (map rk xs)"
proof (induction xs rule: pass_induct)
  case (Step x y zs)
  have "\<not> gt (fst x) (fst y) \<longleftrightarrow> rk x \<le> rk y" using gt_rank[of "fst x" "fst y"] by (simp add: not_less)
  with Step show ?case by (auto simp: pass_Step simp del: sort_pass.simps(1))
qed simp_all

text \<open>The number of inversions goes down with every pass that exchanges anything.\<close>

fun inversions :: "('k \<times> ref) list \<Rightarrow> nat" where
  "inversions [] = 0"
| "inversions (x # xs) = size (filter_mset (\<lambda>y. rk y < rk x) (mset xs)) + inversions xs"

lemma pass_inversions:
  "inversions (pass xs) \<le> inversions xs \<and> (snd (sort_pass gt xs) \<longrightarrow> inversions (pass xs) < inversions xs)"
proof (induction xs rule: pass_induct)
  case (Step x y r)
  show ?case
  proof (cases "gt (fst x) (fst y)")
    case True
    then have "rk y < rk x" by (simp add: gt_rank)
    then have "inversions (y # x # r) < inversions (x # y # r)" by auto
    moreover have "inversions (y # pass (x # r)) \<le> inversions (y # x # r)"
      using Step(1) pass_mset[of "x # r"] by simp
    ultimately show ?thesis using True by (simp only: pass_Step) simp
  next
    case False
    with Step(2) pass_mset[of "y # r"] show ?thesis by (auto simp: pass_Step simp del: sort_pass.simps(1))
  qed
qed simp_all

lemma inversions_bound: "inversions xs \<le> length xs * length xs"
proof (induction xs)
  case (Cons x xs)
  have "size (filter_mset (\<lambda>y. rk y < rk x) (mset xs)) \<le> length xs"
    using size_filter_mset_lesseq[of "\<lambda>y. rk y < rk x" "mset xs"] by simp
  with Cons show ?case by simp
qed simp

lemma passes_sort: "inversions xs < k \<Longrightarrow> sort_passes k gt xs = Some (sort_key rk xs)"
proof (induction k arbitrary: xs)
  case (Suc k)
  obtain ys again where p: "sort_pass gt xs = (ys, again)" by fastforce
  show ?case
  proof (cases again)
    case True
    with pass_inversions[of xs] p Suc.prems have "inversions ys < k" by simp
    from Suc.IH[OF this] have "sort_passes k gt ys = Some (sort_key rk ys)" .
    moreover have "sort_key rk xs = sort_key rk ys"
    proof (rule properties_for_sort_key)
      show "mset (sort_key rk ys) = mset xs" using pass_mset[of xs] p by simp
      fix k
      show "filter (\<lambda>x. rk k = rk x) (sort_key rk ys) = filter (\<lambda>x. rk k = rk x) xs"
        using sort_key_stable[of rk "rk k" ys] pass_stable[of "rk k" xs] p by (simp add: eq_commute[of "rk k"])
    qed simp
    ultimately show ?thesis using p True by simp
  next
    case False
    with no_exchange[of xs] p have "ys = xs" "sorted (map rk xs)" by simp_all
    then have "sort_key rk xs = ys" by (intro properties_for_sort_key) simp_all
    with p False show ?thesis by simp
  qed
qed simp

end

subsection \<open>The order of strings\<close>

text \<open>A key as it is compared: upwards or downwards, a missing string below all others.\<close>

datatype collation = Upwards "nat list" | Downwards "nat list"

instantiation collation :: linorder
begin

fun less_eq_collation :: "collation \<Rightarrow> collation \<Rightarrow> bool" where
  "less_eq_collation (Upwards x) (Upwards y) \<longleftrightarrow> x \<le> y"
| "less_eq_collation (Downwards x) (Downwards y) \<longleftrightarrow> y \<le> x"
| "less_eq_collation (Upwards x) (Downwards y) \<longleftrightarrow> True"
| "less_eq_collation (Downwards x) (Upwards y) \<longleftrightarrow> False"

definition less_collation :: "collation \<Rightarrow> collation \<Rightarrow> bool" where
  "less_collation x y \<longleftrightarrow> x \<le> y \<and> \<not> y \<le> x"

instance
proof
  fix x y z :: collation
  show "x < y \<longleftrightarrow> x \<le> y \<and> \<not> y \<le> x" by (rule less_collation_def)
  show "x \<le> x" by (cases x) auto
  show "x \<le> y \<Longrightarrow> y \<le> z \<Longrightarrow> x \<le> z" by (cases x; cases y; cases z) auto
  show "x \<le> y \<Longrightarrow> y \<le> x \<Longrightarrow> x = y" by (cases x; cases y) auto
  show "x \<le> y \<or> y \<le> x" by (cases x; cases y) auto
qed

end

definition folded :: "cstring option \<Rightarrow> nat list" where
  "folded s = (case s of None \<Rightarrow> [] | Some c \<Rightarrow> 0 # map (\<lambda>b. of_char (tolower b)) c)"

definition collate :: "bool \<Rightarrow> cstring option \<Rightarrow> collation" where
  "collate backward s = (if backward then Downwards (folded s) else Upwards (folded s))"

lemma strcmp_lex: "strcmp l r < 0 \<longleftrightarrow> map of_char l < (map of_char r :: nat list)"
proof (induction l r rule: strcmp.induct)
  case (4 c cs d ds)
  have "(of_char c :: nat) = of_char d \<longleftrightarrow> c = d" by simp
  with 4 show ?case by (cases "c = d") simp_all
qed simp_all

lemma strcasecmp_folded: "xml_strcasecmp x y < 0 \<longleftrightarrow> folded x < folded y"
  using strcmp_lex[of "map tolower (the x)" "map tolower (the y)"]
  by (cases x; cases y) (simp_all add: folded_def strcasecmp_def o_def)

lemma strcasecmp_flip: "xml_strcasecmp y x = - xml_strcasecmp x y"
  using strcmp_antisym[of "map tolower (the x)" "map tolower (the y)"]
  by (cases x; cases y) (simp_all add: strcasecmp_def)

lemma string_gt_collate: "string_gt backward x y \<longleftrightarrow> collate backward y < collate backward x"
proof (cases backward)
  case True
  then show ?thesis using strcasecmp_folded[of x y] by (auto simp: string_gt_def collate_def less_collation_def not_le)
next
  case False
  have "0 < xml_strcasecmp x y \<longleftrightarrow> xml_strcasecmp y x < 0" using strcasecmp_flip[of y x] by simp
  with False show ?thesis using strcasecmp_folded[of y x] by (auto simp: string_gt_def collate_def less_collation_def not_le)
qed

interpretation strings: sort_order "string_gt backward" "collate backward" for backward
  by unfold_locales (rule string_gt_collate)

subsection \<open>The selection is relinked in the order of the keys\<close>

lemma sort_keys_nodes: "sort_keys_loop key nodes st = Some (keys, st1) \<Longrightarrow> map snd keys = nodes"
  by (induction nodes arbitrary: st keys) (auto split: bind_splits)

lemma length_relink [simp]: "length (relink h pv i ns) = length h"
  by (induction ns arbitrary: h pv i) auto

lemma relink_other: "a \<notin> set ns \<Longrightarrow> relink h pv i ns ! a = h ! a"
  by (induction ns arbitrary: h pv i) (auto simp: set_node_def)

lemma relink_linked:
  "distinct ns \<Longrightarrow> set ns \<subseteq> {..<length h} \<Longrightarrow>
     linked n_next (relink h pv i ns) (case ns of [] \<Rightarrow> None | b # _ \<Rightarrow> Some b) ns \<and>
     (\<forall>j<length ns. n_position (relink h pv i ns ! (ns ! j)) = of_nat (Suc (i + j)))"
proof (induction ns arbitrary: h pv i)
  case (Cons a ns)
  let ?h = "set_node h a (\<lambda>n. n\<lparr>n_prev := pv, n_next := (case ns of [] \<Rightarrow> None | b # _ \<Rightarrow> Some b), n_position := of_nat (Suc i)\<rparr>)"
  from Cons.IH[of ?h "Some a" "Suc i"] Cons.prems
  have IH: "linked n_next (relink ?h (Some a) (Suc i) ns) (case ns of [] \<Rightarrow> None | b # _ \<Rightarrow> Some b) ns"
    "\<And>j. j < length ns \<Longrightarrow> n_position (relink ?h (Some a) (Suc i) ns ! (ns ! j)) = of_nat (Suc (Suc i + j))" by auto
  have "relink ?h (Some a) (Suc i) ns ! a = ?h ! a" using Cons.prems(1) by (intro relink_other) simp
  then have a: "n_next (relink ?h (Some a) (Suc i) ns ! a) = (case ns of [] \<Rightarrow> None | b # _ \<Rightarrow> Some b)"
    "n_position (relink ?h (Some a) (Suc i) ns ! a) = of_nat (Suc i)"
    using Cons.prems(2) by (simp_all add: nth_set_node)
  have "n_position (relink h pv i (a # ns) ! ((a # ns) ! j)) = of_nat (Suc (i + j))" if "j < length (a # ns)" for j
    using that a(2) IH(2)[of "j - 1"] by (cases j) (simp_all add: add.commute add.left_commute)
  with IH(1) a(1) Cons.prems(2) show ?case by simp
qed simp

text \<open>
  C7: \<open>xsl:sort\<close> on strings is the stable sort by the collation of the keys, upwards or downwards: the selection
  becomes the list of its nodes in that order, linked and numbered from 1, and no other node of the heap is changed. The
  passes end within fuel above the square of the number of nodes.
\<close>

theorem xsl_sort_is_stable_sort:
  fixes nodes :: "ref list"
  assumes "linked n_next (x_heap st) (Some a) nodes" "2 \<le> length nodes" "sort_keys_loop key nodes st = Some (keys, st1)"
    and "length (x_heap st) \<le> length (x_heap st1)" "length nodes * length nodes < k"
    and "ordered = map snd (sort_key (\<lambda>x. collate backward (fst x)) keys)"
  shows "\<exists>h. xpath_sort_selection k False backward key (Some a) st = Some (Some (hd ordered), st1\<lparr>x_heap := h\<rparr>) \<and>
    mset ordered = mset nodes \<and> linked n_next h (Some (hd ordered)) ordered \<and>
    (\<forall>i<length ordered. n_position (h ! (ordered ! i)) = of_nat (Suc i)) \<and> (\<forall>b. b \<notin> set nodes \<longrightarrow> h ! b = x_heap st1 ! b)"
proof -
  have keys: "map snd keys = nodes" using sort_keys_nodes[OF assms(3)] .
  then have len: "length keys = length nodes" by (metis length_map)
  have "sort_passes k (string_gt backward) keys = Some (sort_key (\<lambda>x. collate backward (fst x)) keys)"
    using strings.inversions_bound[of backward keys] assms(5) len by (intro strings.passes_sort) simp
  then have run: "xpath_sort_selection k False backward key (Some a) st =
      Some (Some (hd ordered), st1\<lparr>x_heap := relink (x_heap st1) None 0 ordered\<rparr>)"
    using assms(2,3,6) iffD2[OF walk_iff assms(1)] by (simp add: xpath_sort_selection_def)
  have ms: "mset ordered = mset nodes" using keys assms(6) by (metis mset_map mset_sort)
  then have s: "set ordered = set nodes" "length ordered = length nodes" by (metis set_mset_mset, metis size_mset)
  have d: "distinct ordered" using linked_distinct[OF assms(1)] ms mset_eq_imp_distinct_iff by blast
  have "set ordered \<subseteq> {..<length (x_heap st1)}" using linked_bound[OF assms(1)] assms(4) s(1) by auto
  from relink_linked[OF d this, of None 0] s(2) assms(2) have
    "linked n_next (relink (x_heap st1) None 0 ordered) (Some (hd ordered)) ordered"
    "\<forall>j<length ordered. n_position (relink (x_heap st1) None 0 ordered ! (ordered ! j)) = of_nat (Suc j)"
    by (cases ordered; auto)+
  with run ms s(1) relink_other show ?thesis by (intro exI[of _ "relink (x_heap st1) None 0 ordered"]) simp
qed

definition unsorted :: heap where
  "unsorted =
     [null_node\<lparr>n_type := TEXT_NODE, n_content := Some ''b'', n_next := Some 1\<rparr>,
      null_node\<lparr>n_type := TEXT_NODE, n_content := Some ''a'', n_next := Some 2\<rparr>,
      null_node\<lparr>n_type := TEXT_NODE, n_content := Some ''A''\<rparr>]"

definition content_key :: "ref \<Rightarrow> xstate \<Rightarrow> (cstring option \<times> xstate) option" where
  "content_key a st = Some (n_content (x_heap st ! a), st)"

theorem xsl_sort_is_stable_sort_witness:
  "\<exists>h. xpath_sort_selection 10 False False content_key (Some 0) \<lparr>x_heap = unsorted, x_expressions = [], x_urldict = []\<rparr> =
       Some (Some 1, \<lparr>x_heap = h, x_expressions = [], x_urldict = []\<rparr>) \<and> linked n_next h (Some 1) [1, 2, 0]"
proof -
  let ?st = "\<lparr>x_heap = unsorted, x_expressions = [], x_urldict = []\<rparr> :: xstate"
  have l: "linked n_next (x_heap ?st) (Some 0) [0, 1, 2]" by (simp add: unsorted_def null_node_def)
  have k: "sort_keys_loop content_key [0, 1, 2] ?st = Some ([(Some ''b'', 0), (Some ''a'', 1), (Some ''A'', 2)], ?st)"
    by (simp add: content_key_def unsorted_def)
  have o: "[1, 2, 0 :: ref] = map snd (sort_key (\<lambda>x. collate False (fst x)) [(Some ''b'', 0), (Some ''a'', 1), (Some ''A'', 2)])"
    by (simp add: collate_def folded_def tolower_def char_between_def less_collation_def)
  from xsl_sort_is_stable_sort[OF l _ k _ _ o, of 10] show ?thesis by auto
qed

end
