(* ===== verification/Tx_Types.thy ===== *)
theory Tx_Types
  imports Tx_XPathEval
begin

text \<open>
  The types of values: what an XPath expression can evaluate to is known from its outermost operator and, for a
  call, from the name of the function. \<open>yields\<close> is the typing judgement on results of the evaluator, with one rule
  for each way in which the operations are composed.
\<close>

datatype value_type = T_Null | T_Bool | T_Int | T_Number | T_String | T_Nodeset

primrec type_of :: "rvalue \<Rightarrow> value_type" where
  "type_of VAL_NULL = T_Null"
| "type_of (VAL_BOOL b) = T_Bool"
| "type_of (VAL_INT i) = T_Int"
| "type_of (VAL_NUMBER d) = T_Number"
| "type_of (VAL_STRING s) = T_String"
| "type_of (VAL_NODESET p) = T_Nodeset"

definition yields :: "value_type set \<Rightarrow> (rvalue \<times> xstate) option \<Rightarrow> bool" where
  "yields T r \<longleftrightarrow> (\<forall>v st. r = Some (v, st) \<longrightarrow> type_of v \<in> T)"

lemma yields_simps [simp]: "yields T None" "yields T (Some (v, st)) \<longleftrightarrow> type_of v \<in> T"
  by (auto simp: yields_def)


lemma yields_mono: "yields S r \<Longrightarrow> S \<subseteq> T \<Longrightarrow> yields T r"
  by (auto simp: yields_def)

lemma yields_UNIV [simp]: "yields UNIV r"
  by (simp add: yields_def)



subsection \<open>Functions\<close>











subsection \<open>Expressions\<close>







subsection \<open>Expressions that always have a value\<close>





































end
