(* ===== verification/Tx_Cache.thy ===== *)
theory Tx_Cache
  imports Tx_Md5 Tx_Allocator
begin

text \<open>
  external_cache.c: the clients of the memcached servers, one for each thread, and the keys under which values are
  kept. The service itself is libmemcached, which is not part of the program: \<open>connect\<close>, \<open>mc_set\<close> and \<open>mc_get\<close> are
  parameters over a state \<open>'m\<close> of the servers; \<open>None\<close> is a NULL client or a missing value, and a flag tells whether a
  command succeeded. The last argument of \<open>mc_set\<close> before the state is the time in seconds after which the value expires.
\<close>

subsection \<open>Clients and keys\<close>

record 'c external_cache =
  ec_server_list :: cstring
  ec_entry :: "(nat \<times> 'c) list"

text \<open>A key of more than 200 bytes is replaced by the digits of its digest; the buffer has 34 characters.\<close>

definition external_cache_normalize_key :: "cstring \<Rightarrow> cstring option" where
  "external_cache_normalize_key key =
     (if 200 < length key
      then map_option (\<lambda>s. takeWhile (\<lambda>c. c \<noteq> NUL) (md5_sig_to_string s 34))
        (md5_buffer (replicate 128 NUL) (take (uint_wrap (length key)) key))
      else Some key)"

definition external_cache_create :: "cstring \<Rightarrow> 'c external_cache" where
  "external_cache_create server_list = \<lparr>ec_server_list = server_list, ec_entry = []\<rparr>"

definition external_cache_add_client ::
  "(cstring \<Rightarrow> 'm \<Rightarrow> ('c \<times> 'm) option) \<Rightarrow> 'c external_cache \<Rightarrow> nat \<Rightarrow> 'm \<Rightarrow> 'c external_cache \<times> 'm" where
  "external_cache_add_client connect cache thread m =
     (case connect (ec_server_list cache) m of
        None \<Rightarrow> (cache, m)
      | Some (client, m') \<Rightarrow> (cache\<lparr>ec_entry := ec_entry cache @ [(thread, client)]\<rparr>, m'))"

text \<open>\<open>threadpool_set_external_cache\<close>: one client for each thread of the pool.\<close>

fun threadpool_set_external_cache ::
  "(cstring \<Rightarrow> 'm \<Rightarrow> ('c \<times> 'm) option) \<Rightarrow> 'c external_cache \<Rightarrow> nat list \<Rightarrow> 'm \<Rightarrow> 'c external_cache \<times> 'm" where
  "threadpool_set_external_cache connect cache [] m = (cache, m)"
| "threadpool_set_external_cache connect cache (t # ts) m =
     (let (cache1, m1) = external_cache_add_client connect cache t m in threadpool_set_external_cache connect cache1 ts m1)"

text \<open>The walk over the entries to the one of the thread.\<close>

definition client_of :: "'c external_cache \<Rightarrow> nat \<Rightarrow> 'c option" where
  "client_of cache self = map_of (ec_entry cache) self"

text \<open>Whether the value was stored, and the servers. The outer \<open>None\<close> is a write behind a buffer.\<close>

definition external_cache_set ::
  "('c \<Rightarrow> cstring \<Rightarrow> cstring \<Rightarrow> nat \<Rightarrow> 'm \<Rightarrow> bool \<times> 'm) \<Rightarrow> 'c external_cache option \<Rightarrow> nat \<Rightarrow> cstring \<Rightarrow> cstring \<Rightarrow> 'm \<Rightarrow> (bool \<times> 'm) option" where
  "external_cache_set mc_set cache self key value m =
     (case cache of None \<Rightarrow> Some (False, m)
      | Some c \<Rightarrow> (case client_of c self of None \<Rightarrow> Some (False, m)
        | Some client \<Rightarrow> do {
            k \<leftarrow> external_cache_normalize_key key;
            Some (mc_set client k value (20 * 60) m)
          }))"

text \<open>The value up to its first NUL is copied to memory of the program.\<close>

definition external_cache_get ::
  "('c \<Rightarrow> cstring \<Rightarrow> 'm \<Rightarrow> byte list option) \<Rightarrow> 'c external_cache option \<Rightarrow> nat \<Rightarrow> cstring \<Rightarrow> 'm \<Rightarrow> cstring option option" where
  "external_cache_get mc_get cache self key m =
     (case cache of None \<Rightarrow> Some None
      | Some c \<Rightarrow> (case client_of c self of None \<Rightarrow> Some None
        | Some client \<Rightarrow> do {
            k \<leftarrow> external_cache_normalize_key key;
            Some (map_option (takeWhile (\<lambda>b. b \<noteq> NUL)) (mc_get client k m))
          }))"

subsection \<open>Properties\<close>

text \<open>What the cache sees as the key: the key itself or 32 digits that stand for its digest.\<close>

lemma normalized_key:
  assumes "length key + 128 < 2 ^ 32"
  shows "\<exists>k. external_cache_normalize_key key = Some k \<and> length k \<le> 200 \<and>
     (if 200 < length key then length k = 32 \<and> md5_sig_from_string 16 k = Some (rfc_md5 key) else k = key)"
proof (cases "200 < length key")
  case True
  with sig_digits[of "rfc_md5 key" 34] assms md5_buffer_rfc[of "replicate 128 NUL" key] show ?thesis
    by (auto simp: external_cache_normalize_key_def)
qed (simp add: external_cache_normalize_key_def)

text \<open>
  The documented behaviour of the servers that the cache relies on (protocol.txt of memcached), for the times \<open>t\<close> and
  \<open>t'\<close> of the commands: after a \<open>set\<close> a client finds nothing, or the value that was set until it expires, or, under
  another key or when the command failed, what it would have found without the command. Any value can vanish at any time.
\<close>

definition memcached_laws ::
  "(nat \<Rightarrow> 'c \<Rightarrow> cstring \<Rightarrow> cstring \<Rightarrow> nat \<Rightarrow> 'm \<Rightarrow> bool \<times> 'm) \<Rightarrow> (nat \<Rightarrow> 'c \<Rightarrow> cstring \<Rightarrow> 'm \<Rightarrow> byte list option) \<Rightarrow> bool" where
  "memcached_laws mc_set mc_get \<longleftrightarrow> (\<forall>t c k v e m ok m'. mc_set t c k v e m = (ok, m') \<longrightarrow>
     (\<forall>t' c' k'. t \<le> t' \<longrightarrow> mc_get t' c' k' m' = None \<or>
        (k' = k \<and> t' < t + e \<and> mc_get t' c' k' m' = Some v) \<or>
        (\<not> (k' = k \<and> ok) \<and> mc_get t' c' k' m' = mc_get t' c' k' m)))"

definition server_loss :: "(nat \<Rightarrow> 'c \<Rightarrow> cstring \<Rightarrow> 'm \<Rightarrow> byte list option) \<Rightarrow> 'm \<Rightarrow> 'm \<Rightarrow> bool" where
  "server_loss mc_get m m' \<longleftrightarrow> (\<forall>t c k. mc_get t c k m' = None \<or> mc_get t c k m' = mc_get t c k m)"

text \<open>
  The writes of the program with their times and results, while time passes and the servers lose values; the keys and
  values are C strings.
\<close>

type_synonym cache_write = "nat \<times> cstring \<times> cstring \<times> bool"

inductive cache_history :: "(nat \<Rightarrow> 'c \<Rightarrow> cstring \<Rightarrow> cstring \<Rightarrow> nat \<Rightarrow> 'm \<Rightarrow> bool \<times> 'm) \<Rightarrow>
    (nat \<Rightarrow> 'c \<Rightarrow> cstring \<Rightarrow> 'm \<Rightarrow> byte list option) \<Rightarrow> 'c external_cache option \<Rightarrow> 'm \<Rightarrow> nat \<Rightarrow> cache_write list \<Rightarrow> 'm \<Rightarrow> bool"
  for mc_set mc_get cache m0 where
  begins: "cache_history mc_set mc_get cache m0 t [] m0"
| passes: "cache_history mc_set mc_get cache m0 t h m \<Longrightarrow> t \<le> t' \<Longrightarrow> server_loss mc_get m m' \<Longrightarrow>
    cache_history mc_set mc_get cache m0 t' h m'"
| writes: "cache_history mc_set mc_get cache m0 t h m \<Longrightarrow> length key + 128 < 2 ^ 32 \<Longrightarrow> NUL \<notin> set value \<Longrightarrow>
    external_cache_set (mc_set t) cache self key value m = Some (ok, m') \<Longrightarrow>
    cache_history mc_set mc_get cache m0 t (h @ [(t, key, value, ok)]) m'"

text \<open>A value written less than twenty minutes ago under the key, and not overwritten since; a key never written.\<close>

definition overwrites :: "cstring option \<Rightarrow> cache_write \<Rightarrow> bool" where
  "overwrites nk w = (case w of (t, key, value, ok) \<Rightarrow> ok \<and> external_cache_normalize_key key = nk)"

definition still_written :: "cstring option \<Rightarrow> cstring \<Rightarrow> nat \<Rightarrow> cache_write list \<Rightarrow> bool" where
  "still_written nk v t h \<longleftrightarrow> (\<exists>before t0 key ok behind. h = before @ (t0, key, v, ok) # behind \<and>
     external_cache_normalize_key key = nk \<and> t < t0 + 20 * 60 \<and> \<not> list_ex (overwrites nk) behind)"

lemma still_written_snoc:
  assumes "still_written nk v t h" "\<not> overwrites nk w"
  shows "still_written nk v t (h @ [w])"
proof -
  from assms(1) obtain before t0 key ok behind where "h = before @ (t0, key, v, ok) # behind"
    "external_cache_normalize_key key = nk" "t < t0 + 20 * 60" "\<not> list_ex (overwrites nk) behind"
    unfolding still_written_def by blast
  with assms(2) show ?thesis unfolding still_written_def
    by (intro exI[of _ before] exI[of _ t0] exI[of _ key] exI[of _ ok] exI[of _ "behind @ [w]"]) simp
qed

lemma still_written_last:
  "external_cache_normalize_key key = nk \<Longrightarrow> t < t0 + 20 * 60 \<Longrightarrow> still_written nk v t (h @ [(t0, key, v, ok)])"
  unfolding still_written_def by (intro exI[of _ h] exI[of _ t0] exI[of _ key] exI[of _ ok] exI[of _ "[]"]) simp

lemma no_NUL_takeWhile: "NUL \<notin> set s \<Longrightarrow> takeWhile (\<lambda>b. b \<noteq> NUL) s = s"
  by (auto simp: takeWhile_eq_all_conv)

text \<open>What the servers can answer from now on.\<close>

lemma cache_history_answers:
  assumes laws: "memcached_laws mc_set mc_get" and run: "cache_history mc_set mc_get cache m0 t h m"
  shows "t \<le> t' \<Longrightarrow> mc_get t' c k m = None \<or> (\<exists>v. mc_get t' c k m = Some v \<and> NUL \<notin> set v \<and> still_written (Some k) v t' h) \<or>
    (\<not> list_ex (overwrites (Some k)) h \<and> mc_get t' c k m = mc_get t' c k m0)"
  using run
proof (induction arbitrary: t' c k rule: cache_history.induct)
  case (begins t)
  then show ?case by simp
next
  case (passes t h m u m')
  then have "t \<le> t'" by simp
  from passes.IH[OF this, of c k] passes.hyps(3) show ?case unfolding server_loss_def by (metis option.distinct(1))
next
  case (writes t h m key val self ok m')
  obtain nk where nk: "external_cache_normalize_key key = Some nk" using normalized_key[OF writes.hyps(2)] by blast
  show ?case
  proof (cases "m' = m \<and> \<not> ok")
    case True
    then have "\<not> overwrites (Some k) (t, key, val, ok)" by (simp add: overwrites_def)
    with writes.IH[OF writes.prems, of c k] True show ?thesis by (auto intro: still_written_snoc)
  next
    case False
    with writes.hyps(4) nk obtain client where set: "mc_set t client nk val (20 * 60) m = (ok, m')"
      by (auto simp: external_cache_set_def split: option.splits)
    with laws writes.prems consider "mc_get t' c k m' = None"
      | "k = nk" "t' < t + 20 * 60" "mc_get t' c k m' = Some val"
      | "\<not> (k = nk \<and> ok)" "mc_get t' c k m' = mc_get t' c k m" unfolding memcached_laws_def by metis
    then show ?thesis
    proof cases
      case 2
      then show ?thesis using still_written_last[of key "Some k" t' t val h ok] nk writes.hyps(3) by blast
    next
      case 3
      then have "\<not> overwrites (Some k) (t, key, val, ok)" using nk by (auto simp: overwrites_def)
      with writes.IH[OF writes.prems, of c k] 3(2) show ?thesis by (auto intro: still_written_snoc)
    qed simp
  qed
qed

text \<open>
  C27: what the cache answers. While threads write, time passes and the servers lose values, a value that a thread
  reads was written by the program less than twenty minutes ago under a key with the same normalised key and has not
  been overwritten since by a successful write; or the program has never successfully written under that key, and the
  value was in the servers before. No thread reads an older value or that of another normalised key; keys of up to 200
  bytes are their own normalised keys, longer ones the digits of their MD5 digests (\<open>normalized_key\<close>).
\<close>

theorem cache_reads_what_was_written:
  assumes laws: "memcached_laws mc_set mc_get" and run: "cache_history mc_set mc_get (Some cache) m0 t h m"
    and len: "length key + 128 < 2 ^ 32" and read: "external_cache_get (mc_get t) (Some cache) reader key m = Some (Some v)"
  shows "still_written (external_cache_normalize_key key) v t h \<or>
    (\<not> list_ex (overwrites (external_cache_normalize_key key)) h \<and> external_cache_get (mc_get t) (Some cache) reader key m0 = Some (Some v))"
proof -
  obtain k where k: "external_cache_normalize_key key = Some k" using normalized_key[OF len] by blast
  with read obtain client u where u: "client_of cache reader = Some client" "mc_get t client k m = Some u" "v = takeWhile (\<lambda>b. b \<noteq> NUL) u"
    by (auto simp: external_cache_get_def split: option.splits)
  from cache_history_answers[OF laws run le_refl, of client k] u(2)
  consider "NUL \<notin> set u" "still_written (Some k) u t h" | "\<not> list_ex (overwrites (Some k)) h" "mc_get t client k m0 = Some u" by auto
  then show ?thesis
  proof cases
    case 1
    then show ?thesis using k u(3) by (simp add: no_NUL_takeWhile)
  next
    case 2
    then show ?thesis using k u by (simp add: external_cache_get_def)
  qed
qed

text \<open>A server that keeps everything until it expires.\<close>

definition plain_set :: "nat \<Rightarrow> unit \<Rightarrow> cstring \<Rightarrow> cstring \<Rightarrow> nat \<Rightarrow> (cstring \<rightharpoonup> cstring \<times> nat) \<Rightarrow> bool \<times> (cstring \<rightharpoonup> cstring \<times> nat)" where
  "plain_set t c k v e m = (True, m(k \<mapsto> (v, t + e)))"

definition plain_get :: "nat \<Rightarrow> unit \<Rightarrow> cstring \<Rightarrow> (cstring \<rightharpoonup> cstring \<times> nat) \<Rightarrow> byte list option" where
  "plain_get t c k m = (case m k of None \<Rightarrow> None | Some (v, x) \<Rightarrow> if t < x then Some v else None)"

abbreviation two_clients :: "unit external_cache" where
  "two_clients \<equiv> \<lparr>ec_server_list = [], ec_entry = [(1, ()), (2, ())]\<rparr>"

theorem cache_reads_what_was_written_witness:
  "\<exists>h m. cache_history plain_set plain_get (Some two_clients) Map.empty 100 h m \<and>
     external_cache_get (plain_get 100) (Some two_clients) 2 ''k'' m = Some (Some ''w'') \<and>
     still_written (external_cache_normalize_key ''k'') ''w'' 100 h"
proof -
  let ?h = "[(0, ''k'', ''v'', True), (100, ''k'', ''w'', True)]" and ?m = "[''k'' \<mapsto> (''v'', 1200), ''k'' \<mapsto> (''w'', 1300)]"
  have laws: "memcached_laws plain_set plain_get" by (auto simp: memcached_laws_def plain_set_def plain_get_def)
  have "cache_history plain_set plain_get (Some two_clients) Map.empty 0 [(0, ''k'', ''v'', True)] [''k'' \<mapsto> (''v'', 1200)]"
    using cache_history.writes[OF cache_history.begins, of "''k''" "''v''" plain_set 0 "Some two_clients" 1 Map.empty True]
    by (simp add: external_cache_set_def client_of_def external_cache_normalize_key_def plain_set_def)
  then have "cache_history plain_set plain_get (Some two_clients) Map.empty 100 [(0, ''k'', ''v'', True)] [''k'' \<mapsto> (''v'', 1200)]"
    by (rule cache_history.passes) (simp_all add: server_loss_def)
  from cache_history.writes[OF this, of "''k''" "''w''" 1 True ?m] have run: "cache_history plain_set plain_get (Some two_clients) Map.empty 100 ?h ?m"
    by (simp add: external_cache_set_def client_of_def external_cache_normalize_key_def plain_set_def)
  have read: "external_cache_get (plain_get 100) (Some two_clients) 2 ''k'' ?m = Some (Some ''w'')"
    by (simp add: external_cache_get_def client_of_def external_cache_normalize_key_def plain_get_def)
  from cache_reads_what_was_written[OF laws run _ read] run read show ?thesis
    by (intro exI[of _ ?h] exI[of _ ?m]) (auto simp: overwrites_def external_cache_normalize_key_def)
qed

subsection \<open>Which threads have a client\<close>

text \<open>The pool (its threads), the cache and the allocator in the global data.\<close>

record 'c xslt_global =
  xg_pool :: "nat list option"
  xg_cache :: "'c external_cache option"
  xg_allocator :: nat

text \<open>
  \<open>ids\<close> are the threads that \<open>threadpool_init\<close> starts, none for a size of 0. Each gets an entry in the allocator of
  the global data and, when the cache is there, a client.
\<close>

definition XSLTCreateThreadPool ::
  "(cstring \<Rightarrow> 'm \<Rightarrow> ('c \<times> 'm) option) \<Rightarrow> nat list \<Rightarrow> 'c xslt_global \<Rightarrow> memworld \<Rightarrow> 'm \<Rightarrow> ('c xslt_global \<times> memworld \<times> 'm) option" where
  "XSLTCreateThreadPool connect ids data w m =
     (if xg_pool data \<noteq> None then Some (data, w, m)
      else do {
        let w1 = memory_allocator_set_current (xg_allocator data) w;
        let data1 = data\<lparr>xg_pool := (if ids = [] then None else Some ids)\<rparr>;
        w2 \<leftarrow> threadpool_set_allocator (xg_allocator data) ids w1;
        Some (case xg_cache data of
            None \<Rightarrow> (data1, w2, m)
          | Some cache \<Rightarrow> (let (cache1, m1) = threadpool_set_external_cache connect cache ids m
              in (data1\<lparr>xg_cache := Some cache1\<rparr>, w2, m1)))
      })"

definition XSLTEnableExternalCache :: "cstring \<Rightarrow> 'c xslt_global \<Rightarrow> memworld \<Rightarrow> 'c xslt_global \<times> memworld" where
  "XSLTEnableExternalCache server_list data w =
     (data\<lparr>xg_cache := Some (external_cache_create server_list)\<rparr>, memory_allocator_set_current (xg_allocator data) w)"

lemma set_clients:
  assumes "\<And>s m. connect s m \<noteq> None"
  shows "threadpool_set_external_cache connect cache ts m = (cache', m') \<Longrightarrow>
    fst ` set (ec_entry cache') = fst ` set (ec_entry cache) \<union> set ts"
proof (induction ts arbitrary: cache m)
  case (Cons t ts)
  obtain client m1 where "connect (ec_server_list cache) m = Some (client, m1)" using assms[of "ec_server_list cache" m] by fastforce
  with Cons show ?case by (force simp: external_cache_add_client_def)
qed simp

lemma create_pool:
  assumes "xg_pool data = None" "get_allocator w (xg_allocator data) \<noteq> None"
  shows "\<exists>w'. XSLTCreateThreadPool connect ids data w m = Some (case xg_cache data of
        None \<Rightarrow> (data\<lparr>xg_pool := (if ids = [] then None else Some ids)\<rparr>, w', m)
      | Some cache \<Rightarrow> (data\<lparr>xg_pool := (if ids = [] then None else Some ids),
            xg_cache := Some (fst (threadpool_set_external_cache connect cache ids m))\<rparr>, w',
          snd (threadpool_set_external_cache connect cache ids m))) \<and>
    (\<forall>t. has_entry w' (xg_allocator data) t \<longleftrightarrow> t \<in> set ids \<or> has_entry w (xg_allocator data) t)"
proof -
  let ?w1 = "memory_allocator_set_current (xg_allocator data) w"
  have g: "get_allocator ?w1 = get_allocator w" by (simp add: fun_eq_iff memory_allocator_set_current_def get_allocator_def)
  then have e: "has_entry ?w1 = has_entry w" by (simp add: has_entry_def fun_eq_iff)
  from set_allocator_entries[of ?w1 "xg_allocator data" ids] assms(2) obtain w' where
    "threadpool_set_allocator (xg_allocator data) ids ?w1 = Some w'"
    "\<forall>t. has_entry w' (xg_allocator data) t \<longleftrightarrow> t \<in> set ids \<or> has_entry w (xg_allocator data) t" unfolding g e by blast
  with assms(1) show ?thesis
    by (intro exI[of _ w']) (auto simp: XSLTCreateThreadPool_def split: option.split prod.split)
qed

text \<open>
  C33: the threads that can use the memory and the cache. When the servers can be reached, creating the pool gives each
  of its threads an entry in the allocator of the global data; enabling the cache before that gives a client to exactly
  the threads of the pool (not to the caller); in the other order no thread has one, so that every read misses and
  every write is lost.
\<close>

theorem cache_clients:
  assumes "\<And>s m. connect s m \<noteq> None" "xg_pool data = None" "get_allocator w (xg_allocator data) \<noteq> None"
  shows "(\<exists>before w' m' c. (case XSLTEnableExternalCache servers data w of (d, w1) \<Rightarrow> XSLTCreateThreadPool connect ids d w1 m) =
        Some (before, w', m') \<and> {t. has_entry w' (xg_allocator data) t} = set ids \<union> {t. has_entry w (xg_allocator data) t} \<and>
      xg_cache before = Some c \<and> {t. client_of c t \<noteq> None} = set ids) \<and>
    (\<exists>after w' m'. XSLTCreateThreadPool connect ids (data\<lparr>xg_cache := None\<rparr>) w m = Some (after, w', m') \<and>
      (\<forall>t key value m. external_cache_set mc_set (xg_cache (fst (XSLTEnableExternalCache servers after w'))) t key value m = Some (False, m) \<and>
         external_cache_get mc_get (xg_cache (fst (XSLTEnableExternalCache servers after w'))) t key m = Some None))"
proof
  let ?d = "data\<lparr>xg_cache := Some (external_cache_create servers)\<rparr>" and ?w = "memory_allocator_set_current (xg_allocator data) w"
  let ?e = "external_cache_create servers"
  have g: "get_allocator ?w = get_allocator w" by (simp add: fun_eq_iff memory_allocator_set_current_def get_allocator_def)
  then have e: "has_entry ?w = has_entry w" by (simp add: has_entry_def fun_eq_iff)
  obtain c m' where c: "threadpool_set_external_cache connect ?e ids m = (c, m')" by fastforce
  from create_pool[of ?d ?w connect ids m] assms(2,3) g e c obtain w' where w':
    "XSLTCreateThreadPool connect ids ?d ?w m = Some (?d\<lparr>xg_pool := (if ids = [] then None else Some ids), xg_cache := Some c\<rparr>, w', m')"
    "{t. has_entry w' (xg_allocator data) t} = set ids \<union> {t. has_entry w (xg_allocator data) t}" by auto
  have "{t. client_of c t \<noteq> None} = set ids"
    using set_clients[OF assms(1) c] map_of_eq_None_iff[of "ec_entry c"] by (auto simp: client_of_def external_cache_create_def)
  with w' show "\<exists>before w' m' c. (case XSLTEnableExternalCache servers data w of (d, w1) \<Rightarrow> XSLTCreateThreadPool connect ids d w1 m) =
        Some (before, w', m') \<and> {t. has_entry w' (xg_allocator data) t} = set ids \<union> {t. has_entry w (xg_allocator data) t} \<and>
      xg_cache before = Some c \<and> {t. client_of c t \<noteq> None} = set ids"
    by (simp add: XSLTEnableExternalCache_def)
next
  from create_pool[of "data\<lparr>xg_cache := None\<rparr>" w connect ids m] assms(2,3)
  show "\<exists>after w' m'. XSLTCreateThreadPool connect ids (data\<lparr>xg_cache := None\<rparr>) w m = Some (after, w', m') \<and>
      (\<forall>t key value m. external_cache_set mc_set (xg_cache (fst (XSLTEnableExternalCache servers after w'))) t key value m = Some (False, m) \<and>
         external_cache_get mc_get (xg_cache (fst (XSLTEnableExternalCache servers after w'))) t key m = Some None)"
    by (auto simp: XSLTEnableExternalCache_def external_cache_create_def external_cache_set_def external_cache_get_def client_of_def)
qed

theorem cache_clients_witness:
  "\<exists>before w' m' c. (case XSLTEnableExternalCache ''localhost'' \<lparr>xg_pool = None, xg_cache = None, xg_allocator = 0\<rparr>
        \<lparr>mw_allocators = [\<lparr>al_custom = None, al_entries = [], al_key = []\<rparr>], mw_current = None\<rparr> of
      (d, w1) \<Rightarrow> XSLTCreateThreadPool (\<lambda>s m :: unit. Some ((), m)) [7, 8] d w1 ()) = Some (before, w', m') \<and>
    xg_cache before = Some c \<and> {t. client_of c t \<noteq> None} = {7, 8}"
proof -
  let ?g = "\<lparr>xg_pool = None, xg_cache = None, xg_allocator = 0\<rparr> :: unit xslt_global"
  let ?w = "\<lparr>mw_allocators = [\<lparr>al_custom = None, al_entries = [], al_key = []\<rparr>], mw_current = None\<rparr>"
  have "get_allocator ?w (xg_allocator ?g) \<noteq> None" by (simp add: get_allocator_def)
  with cache_clients[where connect = "\<lambda>s m :: unit. Some ((), m)" and data = ?g and w = ?w and servers = "''localhost''"
      and ids = "[7, 8]" and m = "()"] show ?thesis by fastforce
qed

end
