(* ===== verification/Tx_Interface.thy ===== *)
theory Tx_Interface
  imports Tx_XmlRoundtrip Tx_Allocator Tx_XPathEval
begin

text \<open>
  The functions of turboxsl.h around documents, callbacks and files: creating a document, adding nodes from text,
  searching, registering callbacks and writing a result (nodes.c, utils.c, functions.c, output.c, parse.c).
\<close>

subsection \<open>Documents and threads\<close>

text \<open>The size of a node where pointers and \<open>long\<close> have 8 bytes and \<open>int\<close> and enumerations 4.\<close>

definition sizeof_XMLNODE :: nat where
  "sizeof_XMLNODE = 144"

text \<open>
  The node, its allocator, and the two memories. The thread \<open>self\<close> is the only one with an entry; the memory of the
  node is the first request.
\<close>

definition XMLCreateDocument :: "nat \<Rightarrow> heap \<Rightarrow> memworld \<Rightarrow> ((ref \<times> nat) \<times> heap \<times> memworld) option" where
  "XMLCreateDocument self h w = do {
     let (alloc, w1) = memory_allocator_create w;
     w2 \<leftarrow> memory_allocator_add_entry alloc self 100000 w1;
     let w3 = memory_allocator_set_current alloc w2;
     (p, w4) \<leftarrow> memory_allocator_new self sizeof_XMLNODE w3;
     if p = None then None
     else do {
       let (result, h1) = xml_new_node h (Some xsl_s_root) EMPTY_NODE;
       Some ((result, alloc), h1, w4)
     }
   }"

text \<open>
  C32: there is one current allocator for the whole program. A thread that creates a document allocates from the
  allocator of that document from then on, behind the node of the document, and every other thread, whatever it could
  allocate from before, gets NULL for its next request, which \<open>xml_new_node\<close> and the string functions write to.
\<close>

theorem create_document_takes_the_allocator:
  assumes "sz + sizeof_XMLNODE \<le> 100000" "t \<noteq> self"
  shows "\<exists>r alloc h' w'. XMLCreateDocument self h w = Some ((r, alloc), h', w') \<and>
    map_option fst (memory_allocator_new self sz w') = Some (Some (alloc, 0, 0, sizeof_XMLNODE)) \<and>
    map_option fst (memory_allocator_new t sz w') = Some None"
  using assms
  by (simp add: XMLCreateDocument_def sizeof_XMLNODE_def memory_allocator_create_def memory_allocator_add_entry_def
      memory_allocator_set_current_def get_allocator_def put_allocator_def xml_new_node_def memory_allocator_new_def
      serving_entry_def memory_allocator_find_entry_def entry_new_def size_add_def memory_allocator_create_data_def Let_def nth_append)

theorem create_document_takes_the_allocator_witness:
  "\<exists>r alloc h' w'. XMLCreateDocument 1 [] \<lparr>mw_allocators = [], mw_current = None\<rparr> = Some ((r, alloc), h', w') \<and>
    map_option fst (memory_allocator_new 1 100 w') = Some (Some (alloc, 0, 0, 144)) \<and>
    map_option fst (memory_allocator_new 2 100 w') = Some None"
  using create_document_takes_the_allocator[of 100 2 1 "[]" "\<lparr>mw_allocators = [], mw_current = None\<rparr>"]
  by (simp add: sizeof_XMLNODE_def)

subsection \<open>Parsing, searching, printing\<close>

definition XMLParse :: "nat \<Rightarrow> cstring option \<Rightarrow> heap \<Rightarrow> (ref option \<times> heap) option" where
  "XMLParse k document h = xml_parse_string k document h"

definition XMLParseFile :: "nat \<Rightarrow> (cstring \<Rightarrow> cstring option) \<Rightarrow> cstring option \<Rightarrow> heap \<Rightarrow> (ref option \<times> heap) option" where
  "XMLParseFile k files file h = xml_parse_file k files False file h"

definition XMLStringValue :: "heap \<Rightarrow> ref option \<Rightarrow> cstring option option" where
  "XMLStringValue h xml = node2string h xml"

definition XMLAddChildFromString :: "nat \<Rightarrow> heap \<Rightarrow> ref option \<Rightarrow> cstring option \<Rightarrow> heap option" where
  "XMLAddChildFromString k h element v =
     (if v = None \<or> v = Some [] then Some h
      else do {
        (root, h1) \<leftarrow> xml_parse_string k v h;
        (case root of
           None \<Rightarrow> Some h1
         | Some _ \<Rightarrow> do { r \<leftarrow> deref h1 root; xml_add_child h1 element (n_children r) })
      })"

text \<open>The context is the environment; the new locals node takes its place and the root for the evaluation.\<close>

definition XMLFindNodes :: "xenv \<Rightarrow> nat \<Rightarrow> ref option \<Rightarrow> cstring option \<Rightarrow> xstate \<Rightarrow> (ref option \<times> xstate) option" where
  "XMLFindNodes env k xml expr st = do {
     let (locals, h1) = xml_new_node (x_heap st) None EMPTY_NODE;
     (result, st2) \<leftarrow> xpath_eval_expression (env\<lparr>e_root_node := xml, e_locals := Some locals\<rparr>) k xml expr (st\<lparr>x_heap := h1\<rparr>);
     (case result of
        VAL_NODESET p \<Rightarrow> Some (p, st2)
      | VAL_STRING s \<Rightarrow> do {
          let (node, h3) = xml_new_node (x_heap st2) None TEXT_NODE;
          h4 \<leftarrow> upd h3 (Some node) (\<lambda>n. n\<lparr>n_content := s\<rparr>);
          Some (Some node, st2\<lparr>x_heap := h4\<rparr>)
        }
      | _ \<Rightarrow> Some (None, st2))
   }"

text \<open>\<open>writable\<close> are the names that can be opened for writing; an existing file is truncated.\<close>

definition XMLOutputFile :: "nat \<Rightarrow> out_context \<Rightarrow> heap \<Rightarrow> ref option \<Rightarrow> (cstring \<Rightarrow> bool) \<Rightarrow> cstring \<Rightarrow>
    (cstring \<Rightarrow> cstring option) \<Rightarrow> (cstring \<Rightarrow> cstring option) option" where
  "XMLOutputFile k ctx h tree writable filename files =
     (if \<not> writable filename then Some files
      else do {
        result \<leftarrow> XMLOutput k ctx h tree;
        Some (files(filename \<mapsto> result @ [CHR 0x0A]))
      })"

text \<open>Adding a node that is the first of a list adds the whole list; only the first node gets the parent.\<close>

lemma xml_add_child_forest:
  assumes cl: "child_list h e cs" and ds: "linked n_next h (Some d) (d # ds)" and disj: "set (d # ds) \<inter> insert e (set cs) = {}"
  shows "\<exists>h' pv. xml_add_child h (Some e) (Some d) = Some h' \<and> length h' = length h \<and>
    linked n_next h' (n_children (h' ! e)) (cs @ d # ds) \<and> h' ! d = (h ! d)\<lparr>n_prev := pv, n_parent := Some e\<rparr> \<and>
    (\<forall>i<length h. i \<notin> insert e (insert d (set cs)) \<longrightarrow> h' ! i = h ! i)"
proof (cases cs rule: rev_cases)
  case Nil
  let ?h1 = "set_node h e (\<lambda>m. m\<lparr>n_children := Some d\<rparr>)"
  let ?h' = "set_node ?h1 d (\<lambda>m. m\<lparr>n_parent := Some e\<rparr>)"
  have "xml_add_child h (Some e) (Some d) = Some ?h'" using cl ds Nil by (simp add: xml_add_child_def child_list_def)
  moreover have "linked n_next ?h' (Some d) (d # ds)"
    by (rule linked_frame[OF ds]) (use linked_bound[OF ds] in \<open>auto simp: nth_set_node\<close>)
  ultimately show ?thesis using Nil cl ds disj
    by (intro exI[of _ ?h'] exI[of _ "n_prev (h ! d)"]) (auto simp: nth_set_node child_list_def)
next
  case (snoc us l)
  let ?h1 = "set_node h d (\<lambda>m. m\<lparr>n_prev := Some l\<rparr>)"
  let ?h2 = "set_node ?h1 l (\<lambda>m. m\<lparr>n_next := Some d\<rparr>)"
  let ?h' = "set_node ?h2 d (\<lambda>m. m\<lparr>n_parent := Some e\<rparr>)"
  from cl snoc have par: "e < length h" "e \<notin> set (us @ [l])" and seg: "dseg h (Some e) None (n_children (h ! e)) (us @ [l]) None"
    by (simp_all add: child_list_def)
  then obtain first where first: "n_children (h ! e) = Some first" using dseg_nonempty[OF seg] by auto
  note lk = dseg_linked[OF seg, unfolded first]
  from linked_bound[OF lk] have l: "l < length h" by simp
  have dl: "d < length h" "d \<noteq> l" "d \<noteq> e" "l \<noteq> e" using ds disj snoc par by auto
  from last_node_chain[OF lk] have "xml_add_child h (Some e) (Some d) = Some ?h'"
    using first par l dl by (simp add: xml_add_child_def)
  moreover have "linked n_next ?h' (Some first) (us @ l # d # ds)"
  proof -
    have "linked n_next ?h' (Some d) (d # ds)"
      by (rule linked_frame[OF ds]) (use linked_bound[OF ds] disj snoc in \<open>auto simp: nth_set_node\<close>)
    moreover have "linked n_next ?h' p (us @ l # d # ds)" if "linked n_next h p (us @ [l])" "distinct (us @ [l])" "d \<notin> set us" for p
      using that dl l \<open>linked n_next ?h' (Some d) (d # ds)\<close>
      by (induction us arbitrary: p) (auto simp: nth_set_node)
    ultimately show ?thesis using lk linked_distinct[OF lk] disj snoc by simp
  qed
  ultimately show ?thesis using snoc first par l dl
    by (intro exI[of _ ?h'] exI[of _ "Some l"]) (auto simp: nth_set_node)
qed

lemma doc_rep_roots: "doc_rep lo h p ts \<Longrightarrow> \<exists>ds. linked n_next h p ds \<and> length ds = length ts \<and> set ds \<subseteq> {lo..<length h}"
proof (induction ts arbitrary: p rule: rev_attrs.induct)
  case (2 s ts)
  then obtain a where "p = Some a" "lo \<le> a" "a < length h" "doc_rep lo h (n_next (h ! a)) ts" by auto
  with 2(1)[OF this(4)] show ?case by (metis (no_types, lifting) atLeastLessThan_iff insert_subset length_Cons linked.simps(2) list.simps(15))
next
  case (3 n as ks ts)
  then obtain a where "p = Some a" "lo \<le> a" "a < length h" "doc_rep lo h (n_next (h ! a)) ts" by auto
  with 3(2)[OF this(4)] show ?case by (metis (no_types, lifting) atLeastLessThan_iff insert_subset length_Cons linked.simps(2) list.simps(15))
qed simp

lemma doc_rep_fields:
  assumes "lo' \<le> lo" "length h \<le> length h'"
    and "\<And>i. lo \<le> i \<Longrightarrow> i < length h \<Longrightarrow> \<exists>pv par. h' ! i = (h ! i)\<lparr>n_prev := pv, n_parent := par\<rparr>"
  shows "attrs_rep lo h p as \<Longrightarrow> attrs_rep lo' h' p as" "doc_rep lo h p ts \<Longrightarrow> doc_rep lo' h' p ts"
proof -
  have f: "n_type (h' ! i) = n_type (h ! i) \<and> n_flags (h' ! i) = n_flags (h ! i) \<and> n_name (h' ! i) = n_name (h ! i) \<and>
    n_content (h' ! i) = n_content (h ! i) \<and> n_next (h' ! i) = n_next (h ! i) \<and> n_children (h' ! i) = n_children (h ! i) \<and>
    n_attributes (h' ! i) = n_attributes (h ! i)" if "lo \<le> i" "i < length h" for i
    using assms(3)[OF that] by auto
  show a: "attrs_rep lo h p as \<Longrightarrow> attrs_rep lo' h' p as" for p as
    using assms(1,2) by (induction as arbitrary: p) (auto simp: f)
  show "doc_rep lo h p ts \<Longrightarrow> doc_rep lo' h' p ts"
    using assms(1,2) a by (induction ts arbitrary: p rule: rev_attrs.induct) (auto simp: f)
qed

lemma length_rev_attrs [simp]: "length (rev_attrs ts) = length ts"
  by (induction ts rule: rev_attrs.induct) auto

text \<open>
  C26: adding nodes from a printed forest: for every fuel linear in the text the nodes come behind the children that
  are there, in their order, and represent the forest; the first of them gets the element as its parent.
\<close>

theorem add_child_from_string:
  assumes ts: "wf_xml ts" "ts \<noteq> []" "\<not> starts_text ts" "o_mode ctx = MODE_XML" "2 * length (xml_declaration ctx @ show_xml ts) < k"
    and cl: "child_list h e cs"
  shows "\<exists>h' d ds. XMLAddChildFromString k h (Some e) (Some (xml_declaration ctx @ show_xml ts)) = Some h' \<and>
    linked n_next h' (n_children (h' ! e)) (cs @ d # ds) \<and> length ds + 1 = length ts \<and> n_parent (h' ! d) = Some e \<and>
    doc_rep 0 h' (Some d) (rev_attrs ts)"
proof -
  let ?s = "xml_declaration ctx @ show_xml ts" and ?d = "Suc (length h)"
  from do_parse_document[OF ts, of "Some ''(string)''" h 0] obtain h1 h3 where
    p: "do_parse k ?s (Some ''(string)'') h = Some (Some (length h), h1)"
      "renumber_children (length h1) 1 h1 (Some (length h)) = Some h3" "?s \<noteq> []" and
    d: "n_children (h3 ! length h) = Some ?d" "doc_rep ?d h3 (Some ?d) (rev_attrs ts)" and
    old: "same_but_positions h (take (length h) h3)" by blast
  from doc_rep_roots[OF d(2)] ts(2) obtain ds where ds: "linked n_next h3 (Some ?d) (?d # ds)"
    "length ds + 1 = length ts" "set (?d # ds) \<subseteq> {?d..<length h3}"
    by (metis length_rev_attrs linked.simps(2) Suc_eq_plus1 length_Cons length_0_conv list.exhaust option.inject)
  have len: "?d < length h3" using ds(3) by simp
  note o = same_but_positions_nth[OF old]
  have cl3: "child_list h3 e cs"
    using cl o len dseg_bound[of h "Some e" None "n_children (h ! e)" cs None]
    by (auto simp: child_list_def intro!: dseg_frame[of h "Some e" None "n_children (h ! e)" cs None h3])
  have below: "insert e (set cs) \<subseteq> {..<length h}"
    using cl dseg_bound[of h "Some e" None "n_children (h ! e)" cs None] by (auto simp: child_list_def)
  with ds(3) have "set (?d # ds) \<inter> insert e (set cs) = {}" by fastforce
  from xml_add_child_forest[OF cl3 ds(1) this] obtain h' pv where
    h': "xml_add_child h3 (Some e) (Some ?d) = Some h'" "length h' = length h3" "linked n_next h' (n_children (h' ! e)) (cs @ ?d # ds)"
      "h' ! ?d = (h3 ! ?d)\<lparr>n_prev := pv, n_parent := Some e\<rparr>"
      "\<forall>i<length h3. i \<notin> insert e (insert ?d (set cs)) \<longrightarrow> h' ! i = h3 ! i" by blast
  have "\<exists>pv par. h' ! i = (h3 ! i)\<lparr>n_prev := pv, n_parent := par\<rparr>" if "?d \<le> i" "i < length h3" for i
  proof (cases "i = ?d")
    case False
    with that below have "h' ! i = h3 ! i" using h'(5) by fastforce
    then show ?thesis by (intro exI[of _ "n_prev (h3 ! i)"] exI[of _ "n_parent (h3 ! i)"]) simp
  qed (use h'(4) in blast)
  from doc_rep_fields(2)[OF _ _ this d(2), of 0] h'(2) have "doc_rep 0 h' (Some ?d) (rev_attrs ts)" by simp
  moreover have "XMLAddChildFromString k h (Some e) (Some ?s) = Some h'"
  proof -
    have "XMLAddChildFromString k h (Some e) (Some s) = Some h'"
      if "s \<noteq> []" "do_parse k s (Some ''(string)'') h = Some (Some (length h), h1)" for s
      using that p(2) d(1) h'(1) len by (simp add: XMLAddChildFromString_def xml_parse_string_def)
    then show ?thesis using p(1,3) by blast
  qed
  moreover have "n_parent (h' ! ?d) = Some e" using h'(4) by simp
  ultimately show ?thesis using h'(3) ds(2) by blast
qed

theorem add_child_from_string_witness:
  "\<exists>h' d. XMLAddChildFromString 100 heap3 (Some 0) (Some ''<a/>'') = Some h' \<and>
     linked n_next h' (n_children (h' ! 0)) [1, d] \<and> n_parent (h' ! d) = Some 0"
proof -
  let ?c = "sample_context\<lparr>o_omit_desc := True\<rparr>"
  have s: "xml_declaration ?c @ show_xml [X_elem ''a'' [] []] = ''<a/>''" by (simp add: xml_declaration_def)
  have "wf_xml [X_elem ''a'' [] []]" "child_list heap3 0 [1]"
    by (simp_all add: xname_ok_def can_name_def char_between_def heap3_def child_list_def null_node_def)
  from add_child_from_string[OF this(1) _ _ _ _ this(2), of ?c 100] show ?thesis unfolding s
    by (auto simp: sample_context_def)
qed

text \<open>Of two elements the second keeps the document node of the text as its parent.\<close>

lemma second_child_keeps_its_parent:
  "map_option (\<lambda>h. map (\<lambda>n. (n_name n, n_parent n)) (filter (\<lambda>n. n_type n = ELEMENT_NODE) h))
     (XMLAddChildFromString 30 [null_node] (Some 0) (Some ''<a/><b/>'')) = Some [(Some ''a'', Some 0), (Some ''b'', Some 1)]"
  by code_simp

subsection \<open>Tables of functions\<close>

text \<open>An array of names and functions with its capacity; \<open>None\<close> is a write behind its end.\<close>

record 'f cb_table =
  cb_max :: nat
  cb_funs :: "(cstring \<times> 'f) list"

definition cb_grow :: "'f cb_table option \<Rightarrow> 'f cb_table" where
  "cb_grow t = (case t of None \<Rightarrow> \<lparr>cb_max = 20, cb_funs = []\<rparr>
     | Some t \<Rightarrow> (if cb_max t \<le> length (cb_funs t) then t\<lparr>cb_max := cb_max t + 20\<rparr> else t))"

definition cb_put :: "'f cb_table \<Rightarrow> cstring \<Rightarrow> 'f \<Rightarrow> 'f cb_table option" where
  "cb_put t fname f = (if length (cb_funs t) < cb_max t then Some (t\<lparr>cb_funs := cb_funs t @ [(fname, f)]\<rparr>) else None)"

definition add_function :: "'f cb_table option \<Rightarrow> cstring \<Rightarrow> 'f \<Rightarrow> 'f cb_table option" where
  "add_function functions fname f = cb_put (cb_grow functions) fname f"

fun add_functions :: "'f cb_table option \<Rightarrow> (cstring \<times> 'f) list \<Rightarrow> 'f cb_table option option" where
  "add_functions t [] = Some t"
| "add_functions t ((n, f) # fs) = do { t1 \<leftarrow> add_function t n f; add_functions (Some t1) fs }"

definition xpath_setup_functions :: "xf cb_table option option" where
  "xpath_setup_functions = add_functions None xpath_functions"

text \<open>The callbacks in the global data: one dispatcher for all, the URL callback and the table.\<close>

record ('d, 'f) perl_data =
  pd_dispatcher :: "'d option"
  pd_urlcode :: "'f option"
  pd_functions :: "'f cb_table option"

definition register_function :: "('d, 'f) perl_data \<Rightarrow> cstring \<Rightarrow> 'd \<Rightarrow> 'f \<Rightarrow> ('d, 'f) perl_data option" where
  "register_function d fname callback f =
     (let t = cb_grow (pd_functions d); d1 = d\<lparr>pd_dispatcher := Some callback, pd_functions := Some t\<rparr>
      in if xml_strcmp (Some fname) (Some ''ltr:url_code'') = 0 then Some (d1\<lparr>pd_urlcode := Some f\<rparr>)
         else do { t1 \<leftarrow> cb_put t fname f; Some (d1\<lparr>pd_functions := Some t1\<rparr>) })"

fun register_functions :: "('d, 'f) perl_data \<Rightarrow> (cstring \<times> 'd \<times> 'f) list \<Rightarrow> ('d, 'f) perl_data option" where
  "register_functions d [] = Some d"
| "register_functions d ((n, c, f) # rs) = do { d1 \<leftarrow> register_function d n c f; register_functions d1 rs }"

text \<open>What the evaluator sees of the callbacks, for a way to call a dispatcher.\<close>

definition table_funs :: "'f cb_table option \<Rightarrow> (cstring \<times> 'f) list" where
  "table_funs t = (case t of None \<Rightarrow> [] | Some t \<Rightarrow> cb_funs t)"

definition perl_env :: "('d \<Rightarrow> 'f \<Rightarrow> cstring list \<Rightarrow> cstring option) \<Rightarrow> ('d, 'f) perl_data \<Rightarrow> xenv \<Rightarrow> xenv" where
  "perl_env call d env = env\<lparr>e_perl_names := map fst (table_funs (pd_functions d)),
     e_perl_call := map_option (\<lambda>c fname args. case map_of (table_funs (pd_functions d)) fname of
         None \<Rightarrow> None | Some f \<Rightarrow> call c f args) (pd_dispatcher d)\<rparr>"

definition table_ok :: "'f cb_table option \<Rightarrow> bool" where
  "table_ok t \<longleftrightarrow> (case t of None \<Rightarrow> True | Some t \<Rightarrow> length (cb_funs t) \<le> cb_max t)"

lemma cb_grow_room: "table_ok t \<Longrightarrow> length (cb_funs (cb_grow t)) < cb_max (cb_grow t) \<and> cb_funs (cb_grow t) = table_funs t"
  by (auto simp: table_ok_def cb_grow_def table_funs_def split: option.splits)

lemma cb_put_grow:
  assumes "table_ok t"
  shows "\<exists>t1. cb_put (cb_grow t) n f = Some t1 \<and> table_ok (Some t1) \<and> cb_funs t1 = table_funs t @ [(n, f)]"
  using cb_grow_room[OF assms] by (auto simp: cb_put_def table_ok_def)

lemma add_functions_funs: "table_ok t \<Longrightarrow> \<exists>t'. add_functions t fs = Some t' \<and> table_ok t' \<and> table_funs t' = table_funs t @ fs"
proof (induction fs arbitrary: t)
  case (Cons p fs)
  obtain n f where p: "p = (n, f)" by fastforce
  from cb_put_grow[OF Cons.prems, of n f] obtain t1 where
    t1: "cb_put (cb_grow t) n f = Some t1" "table_ok (Some t1)" "cb_funs t1 = table_funs t @ [(n, f)]" by blast
  from Cons.IH[OF t1(2)] show ?case using t1 by (auto simp: p add_function_def table_funs_def)
qed simp

text \<open>Setting up fills the table that the dispatcher reads; no write leaves the array.\<close>

lemma setup_functions: "\<exists>t. xpath_setup_functions = Some (Some t) \<and> cb_funs t = xpath_functions"
proof -
  from add_functions_funs[of "None :: xf cb_table option" xpath_functions] obtain t where
    t: "xpath_setup_functions = Some t" "table_funs t = xpath_functions"
    by (auto simp: xpath_setup_functions_def table_ok_def table_funs_def)
  moreover have "xpath_functions \<noteq> []" by (simp add: xpath_functions_def)
  ultimately show ?thesis by (cases t) (auto simp: table_funs_def)
qed

lemma dispatch_table:
  assumes "pd_dispatcher d = Some c"
  shows "xpath_call_dispatcher (perl_env call d env) k ev fname args current st =
    (case map_of (table_funs (pd_functions d)) fname of
       Some f \<Rightarrow> map_option (\<lambda>(f_arg, st1). (VAL_STRING (call c f f_arg), st1)) (callback_args 29 ev args current st)
     | None \<Rightarrow> (case map_of xpath_functions fname of
           Some f \<Rightarrow> f (perl_env call d env) k ev args current st | None \<Rightarrow> Some (VAL_NULL, st)))"
proof -
  have e: "e_perl_call (perl_env call d env) \<noteq> None" "e_perl_names (perl_env call d env) = map fst (table_funs (pd_functions d))"
    using assms by (simp_all add: perl_env_def)
  show ?thesis
  proof (cases "map_of (table_funs (pd_functions d)) fname")
    case None
    then have "fname \<notin> set (e_perl_names (perl_env call d env))" by (simp add: map_of_eq_None_iff e(2))
    with None show ?thesis by (simp add: xpath_call_dispatcher_def)
  next
    case (Some f)
    then have "fname \<in> fst ` set (table_funs (pd_functions d))" by (metis map_of_eq_None_iff option.distinct(1))
    then show ?thesis using Some e assms
      by (cases "callback_args 29 ev args current st") (auto simp: xpath_call_dispatcher_def do_callback_def perl_env_def)
  qed
qed

definition is_url_code :: "cstring \<times> 'd \<times> 'f \<Rightarrow> bool" where
  "is_url_code r \<longleftrightarrow> fst r = ''ltr:url_code''"

lemma register_functions_data:
  "table_ok (pd_functions d) \<Longrightarrow> \<exists>d'. register_functions d rs = Some d' \<and>
     pd_dispatcher d' = (if rs = [] then pd_dispatcher d else Some (fst (snd (last rs)))) \<and>
     pd_urlcode d' = (if filter is_url_code rs = [] then pd_urlcode d else Some (snd (snd (last (filter is_url_code rs))))) \<and>
     table_funs (pd_functions d') = table_funs (pd_functions d) @ map (\<lambda>(n, c, f). (n, f)) (filter (Not \<circ> is_url_code) rs)"
proof (induction rs arbitrary: d)
  case (Cons r rs)
  obtain n c f where r: "r = (n, c, f)" by (cases r) auto
  from cb_put_grow[OF Cons.prems, of n f] obtain t1 where
    t1: "cb_put (cb_grow (pd_functions d)) n f = Some t1" "table_ok (Some t1)"
      "cb_funs t1 = table_funs (pd_functions d) @ [(n, f)]" by blast
  note g = cb_grow_room[OF Cons.prems]
  define d1 where "d1 = (if n = ''ltr:url_code''
     then d\<lparr>pd_dispatcher := Some c, pd_functions := Some (cb_grow (pd_functions d)), pd_urlcode := Some f\<rparr>
     else d\<lparr>pd_dispatcher := Some c, pd_functions := Some t1\<rparr>)"
  have "register_function d n c f = Some d1" using t1(1) by (simp add: register_function_def d1_def Let_def)
  moreover have "table_ok (pd_functions d1)" using t1(2) g by (auto simp: d1_def table_ok_def)
  moreover have "is_url_code (n, c, f) \<longleftrightarrow> n = ''ltr:url_code''" by (simp add: is_url_code_def)
  ultimately show ?case using Cons.IH[of d1] g t1(3)
    by (auto simp: r d1_def table_funs_def)
qed simp

text \<open>
  C25: registering callbacks never writes behind their table, and a call of a registered name reaches the function
  that was registered first under it, through the dispatcher that was registered last; a name without a callback is
  looked up in the internal table.
\<close>

theorem registered_functions_are_called:
  "\<exists>d. register_functions \<lparr>pd_dispatcher = None, pd_urlcode = None, pd_functions = None\<rparr> (rs @ [(n, c, g)]) = Some d \<and>
    xpath_call_dispatcher (perl_env call d env) k ev fname args current st =
      (case map_of (map (\<lambda>(n, c, f). (n, f)) (filter (Not \<circ> is_url_code) (rs @ [(n, c, g)]))) fname of
         Some f \<Rightarrow> map_option (\<lambda>(f_arg, st1). (VAL_STRING (call c f f_arg), st1)) (callback_args 29 ev args current st)
       | None \<Rightarrow> (case map_of xpath_functions fname of
             Some f \<Rightarrow> f (perl_env call d env) k ev args current st | None \<Rightarrow> Some (VAL_NULL, st)))"
proof -
  let ?d0 = "\<lparr>pd_dispatcher = None, pd_urlcode = None, pd_functions = None\<rparr>" and ?rs = "rs @ [(n, c, g)]"
  let ?fs = "map (\<lambda>(n, c, f). (n, f)) (filter (Not \<circ> is_url_code) ?rs)"
  have "table_ok (pd_functions ?d0)" by (simp add: table_ok_def)
  from register_functions_data[OF this, of ?rs] obtain d where
    d: "register_functions ?d0 ?rs = Some d" "pd_dispatcher d = Some c" "table_funs (pd_functions d) = ?fs"
    by (auto simp: table_funs_def)
  from dispatch_table[of d, unfolded d(3), OF d(2)] d(1) show ?thesis by (intro exI[of _ d] conjI)
qed

end
