(* ===== verification/Tx_Lifecycle.thy ===== *)
theory Tx_Lifecycle
  imports Tx_Interface "HOL-Library.Multiset"
begin

text \<open>
  Who owns the allocators: creation and release of the global data, of processors and of documents (transform.c
  378-557, parse.c, allocator.c 141-160). Only what these functions do to allocators is here; their other work is in
  \<open>Tx_Process\<close>, \<open>Tx_Parse\<close> and \<open>Tx_Localization\<close>.
\<close>

subsection \<open>Released memory\<close>

text \<open>The allocators and those that have been released. \<open>None\<close> is a use of released memory.\<close>

record lworld =
  lw_mem :: memworld
  lw_released :: "nat list"

definition memory_allocator_release :: "nat \<Rightarrow> lworld \<Rightarrow> lworld option" where
  "memory_allocator_release i w =
     (if i \<in> set (lw_released w) \<or> length (mw_allocators (lw_mem w)) \<le> i then None else Some (w\<lparr>lw_released := i # lw_released w\<rparr>))"

definition live_new :: "nat \<Rightarrow> nat \<Rightarrow> lworld \<Rightarrow> (mem_ptr option \<times> lworld) option" where
  "live_new self sz w = do {
     i \<leftarrow> mw_current (lw_mem w);
     if i \<in> set (lw_released w) then None
     else do {
       (p, m) \<leftarrow> memory_allocator_new self sz (lw_mem w);
       if map_option fst p \<in> Some ` set (lw_released w) then None else Some (p, w\<lparr>lw_mem := m\<rparr>)
     }
   }"

text \<open>Creating an allocator with an entry for the thread and making it current.\<close>

definition own_allocator :: "nat \<Rightarrow> nat \<Rightarrow> lworld \<Rightarrow> (nat \<times> lworld) option" where
  "own_allocator self sz w = do {
     let (alloc, m1) = memory_allocator_create (lw_mem w);
     m2 \<leftarrow> memory_allocator_add_entry alloc self sz m1;
     Some (alloc, w\<lparr>lw_mem := memory_allocator_set_current alloc m2\<rparr>)
   }"

text \<open>\<open>allocs\<close> is the field \<open>allocator\<close> of the nodes; the fuel is for the way down the first children.\<close>

fun xml_free_document :: "nat \<Rightarrow> heap \<Rightarrow> (ref \<Rightarrow> nat option) \<Rightarrow> ref option \<Rightarrow> lworld \<Rightarrow> lworld option" where
  "xml_free_document 0 h allocs doc w = None"
| "xml_free_document (Suc k) h allocs doc w = do {
     a \<leftarrow> doc;
     n \<leftarrow> deref h doc;
     w1 \<leftarrow> (case n_children n of None \<Rightarrow> Some w | Some c \<Rightarrow> xml_free_document k h allocs (Some c) w);
     (case allocs a of None \<Rightarrow> Some w1 | Some i \<Rightarrow> memory_allocator_release i w1)
   }"

definition XMLFreeDocument :: "nat \<Rightarrow> heap \<Rightarrow> (ref \<Rightarrow> nat option) \<Rightarrow> ref option \<Rightarrow> lworld \<Rightarrow> lworld option" where
  "XMLFreeDocument k h allocs doc w = xml_free_document k h allocs doc w"

text \<open>The nodes on the way down the first children.\<close>

fun first_path :: "heap \<Rightarrow> ref list \<Rightarrow> bool" where
  "first_path h [] \<longleftrightarrow> False"
| "first_path h [a] \<longleftrightarrow> a < length h \<and> n_children (h ! a) = None"
| "first_path h (a # b # r) \<longleftrightarrow> a < length h \<and> n_children (h ! a) = Some b \<and> first_path h (b # r)"

fun release_all :: "nat list \<Rightarrow> lworld \<Rightarrow> lworld option" where
  "release_all [] w = Some w"
| "release_all (i # is) w = do { w1 \<leftarrow> release_all is w; memory_allocator_release i w1 }"

text \<open>Freeing a document releases the allocators on that way, the innermost first, and no other.\<close>

lemma free_document_first_path:
  "first_path h (a # r) \<Longrightarrow> length r < k \<Longrightarrow>
   xml_free_document k h allocs (Some a) w = release_all (List.map_filter allocs (a # r)) w"
proof (induction r arbitrary: a k)
  case Nil
  then obtain k' where "k = Suc k'" by (cases k) auto
  with Nil show ?case by (auto simp: map_filter_simps split: option.splits)
next
  case (Cons b r)
  then obtain k' where k: "k = Suc k'" by (cases k) auto
  with Cons have "xml_free_document k' h allocs (Some b) w = release_all (List.map_filter allocs (b # r)) w" by simp
  with Cons.prems k show ?case by (simp add: map_filter_simps split: option.splits)
qed

subsection \<open>The life of the objects\<close>


text \<open>
  What reading a text gives: nothing (no file, no text), a text that does not parse, or new nodes, the node of the
  document first.
\<close>

datatype doc_outcome = Doc_Missing | Doc_Malformed | Doc_Nodes "xmlnode list"

text \<open>
  \<open>xml_parse_file\<close> and \<open>xml_parse_string\<close>: the allocator in the document node. With an allocator of the caller the first
  one releases NULL when the text does not parse.
\<close>

definition xml_parse_allocator :: "nat \<Rightarrow> bool \<Rightarrow> doc_outcome \<Rightarrow> lworld \<Rightarrow> (nat option \<times> lworld) option" where
  "xml_parse_allocator self has_allocator outcome w =
     (case outcome of
        Doc_Missing \<Rightarrow> Some (None, w)
      | Doc_Malformed \<Rightarrow>
          (if has_allocator then None
           else do {
             (i, w1) \<leftarrow> own_allocator self 1000000 w;
             w2 \<leftarrow> memory_allocator_release i w1;
             Some (None, w2)
           })
      | Doc_Nodes ns \<Rightarrow>
          (if has_allocator then Some (None, w)
           else do { (i, w1) \<leftarrow> own_allocator self 1000000 w; Some (Some i, w1) }))"

text \<open>\<open>xml_strdup\<close>: a request to the current allocator; the copy to NULL is a crash.\<close>

definition live_strdup :: "nat \<Rightarrow> cstring \<Rightarrow> lworld \<Rightarrow> lworld option" where
  "live_strdup self str w = do {
     (p, w1) \<leftarrow> live_new self (length str + 1) w;
     if p = None then None else Some w1
   }"

definition XMLParseFile_allocator :: "nat \<Rightarrow> cstring \<Rightarrow> doc_outcome \<Rightarrow> lworld \<Rightarrow> (nat option \<times> lworld) option" where
  "XMLParseFile_allocator self file outcome w = do {
     w1 \<leftarrow> live_strdup self file w;
     xml_parse_allocator self False outcome w1
   }"

text \<open>Whether there is a processor, and its allocator; without a stylesheet the allocator is neither returned nor released.\<close>

definition new_processor_allocator :: "nat \<Rightarrow> cstring \<Rightarrow> doc_outcome \<Rightarrow> lworld \<Rightarrow> (bool \<times> nat \<times> lworld) option" where
  "new_processor_allocator self stylesheet outcome w = do {
     (i, w1) \<leftarrow> own_allocator self 1000000 w;
     w2 \<leftarrow> live_strdup self stylesheet w1;
     (a, w3) \<leftarrow> xml_parse_allocator self True outcome w2;
     Some (outcome \<noteq> Doc_Missing, i, w3)
   }"

definition XSLTFreeProcessor :: "nat \<Rightarrow> heap \<Rightarrow> (ref \<Rightarrow> nat option) \<Rightarrow> ref option \<Rightarrow> nat \<Rightarrow> lworld \<Rightarrow> lworld option" where
  "XSLTFreeProcessor k h allocs stylesheet alloc w = do {
     w1 \<leftarrow> xml_free_document k h allocs stylesheet (w\<lparr>lw_mem := memory_allocator_set_current alloc (lw_mem w)\<rparr>);
     memory_allocator_release alloc w1
   }"

definition register_function_memory :: "nat \<Rightarrow> cstring \<Rightarrow> lworld \<Rightarrow> lworld option" where
  "register_function_memory self fname w = (if fname = ''ltr:url_code'' then Some w else live_strdup self fname w)"

text \<open>
  \<open>XSLTSetCacheKeyPrefix\<close>, \<open>XSLTSetURLLocalPrefix\<close> and \<open>XSLTEnableExternalCache\<close> keep a copy of a string in the allocator of
  the processor or of the global data.
\<close>

definition set_prefix_memory :: "nat \<Rightarrow> nat \<Rightarrow> cstring \<Rightarrow> lworld \<Rightarrow> lworld option" where
  "set_prefix_memory self alloc str w = live_strdup self str (w\<lparr>lw_mem := memory_allocator_set_current alloc (lw_mem w)\<rparr>)"

text \<open>The requests for new nodes.\<close>

primrec live_nodes :: "nat \<Rightarrow> nat \<Rightarrow> lworld \<Rightarrow> lworld option" where
  "live_nodes self 0 w = Some w"
| "live_nodes self (Suc n) w = do {
     (p, w1) \<leftarrow> live_new self sizeof_XMLNODE w;
     if p = None then None else live_nodes self n w1
   }"

text \<open>\<open>XMLCreateDocument\<close>: the node is the first request to its allocator.\<close>

definition create_document_allocator :: "nat \<Rightarrow> lworld \<Rightarrow> (nat \<times> lworld) option" where
  "create_document_allocator self w = do {
     (i, w1) \<leftarrow> own_allocator self 100000 w;
     (p, w2) \<leftarrow> live_new self sizeof_XMLNODE w1;
     if p = None then None else Some (i, w2)
   }"

text \<open>
  The allocator of a result (transform.c 649-684): the processor \<open>p\<close> and the global data serve its other modes, and the
  threads of the pool get entries in it and, the first time, in that of the processor.
\<close>

definition result_allocator :: "nat \<Rightarrow> nat \<Rightarrow> nat \<Rightarrow> bool \<Rightarrow> nat list \<Rightarrow> lworld \<Rightarrow> (nat \<times> lworld) option" where
  "result_allocator self p g has_pool_memory ts w =
     (if p \<in> set (lw_released w) then None
      else do {
        let (alloc, m1) = memory_allocator_create (lw_mem w);
        m2 \<leftarrow> memory_allocator_set_custom alloc MODE_STYLESHEET p m1;
        m3 \<leftarrow> memory_allocator_set_custom alloc MODE_GLOBAL g m2;
        m4 \<leftarrow> memory_allocator_add_entry alloc self 1000000 m3;
        m5 \<leftarrow> threadpool_set_allocator alloc ts (memory_allocator_set_current alloc m4);
        m6 \<leftarrow> (if has_pool_memory then Some m5 else threadpool_set_allocator p ts m5);
        Some (alloc, w\<lparr>lw_mem := m6\<rparr>)
      })"


text \<open>
  A program: the nodes and their field \<open>allocator\<close>, the allocator of the global data, the processors with their
  allocator and stylesheet, the documents (results are documents), the allocators that nothing owns any more, and the
  processors with \<open>has_pool_memory\<close>.
\<close>

record life =
  lf_world :: lworld
  lf_heap :: heap
  lf_allocs :: "nat option list"
  lf_global :: nat
  lf_processors :: "(nat \<times> ref) list"
  lf_documents :: "ref list"
  lf_lost :: "nat list"
  lf_ready :: "nat list"

abbreviation alloc_of :: "life \<Rightarrow> ref \<Rightarrow> nat option" where
  "alloc_of s \<equiv> \<lambda>r. lf_allocs s ! r"

text \<open>
  The calls. \<open>Work\<close> is any other one that makes nodes without an allocator of their own and changes nodes
  (\<open>XMLCreateElement\<close>, \<open>XMLAddText\<close>, \<open>XMLAddAttribute\<close>); \<open>path\<close> are the nodes on the way down.
\<close>

datatype life_op = NewProcessor cstring doc_outcome | Process nat "nat list" "xmlnode list" | ParseDocument doc_outcome
  | ParseFile cstring doc_outcome | CreateDocument | Register cstring | Work heap
  | SetPrefix nat cstring | EnableCache cstring
  | FreeProcessor nat "ref list" | FreeDocument nat "ref list"


text \<open>
  No node has a document node that carries an allocator as its first child: the library links only nodes it has just
  made, or the children of a document it has just parsed.
\<close>

definition nodes_fit :: "nat option list \<Rightarrow> heap \<Rightarrow> bool" where
  "nodes_fit allocs h \<longleftrightarrow> (\<forall>n\<in>set h. case n_children n of None \<Rightarrow> True | Some c \<Rightarrow> c < length allocs \<and> allocs ! c = None)"

text \<open>The fields \<open>allocator\<close> of the new nodes of a document.\<close>

definition doc_allocs :: "nat option \<Rightarrow> xmlnode list \<Rightarrow> nat option list" where
  "doc_allocs a ns = a # replicate (length ns - 1) None"

definition doc_fits :: "life \<Rightarrow> nat option \<Rightarrow> xmlnode list \<Rightarrow> bool" where
  "doc_fits s a ns \<longleftrightarrow> ns \<noteq> [] \<and> nodes_fit (lf_allocs s @ doc_allocs a ns) ns"

definition add_nodes :: "nat option \<Rightarrow> xmlnode list \<Rightarrow> life \<Rightarrow> life" where
  "add_nodes a ns s = s\<lparr>lf_heap := lf_heap s @ ns, lf_allocs := lf_allocs s @ doc_allocs a ns\<rparr>"

abbreviation without_nth :: "nat \<Rightarrow> 'a list \<Rightarrow> 'a list" where
  "without_nth i xs \<equiv> take i xs @ drop (Suc i) xs"

definition add_document :: "lworld \<Rightarrow> nat option \<Rightarrow> doc_outcome \<Rightarrow> life \<Rightarrow> life" where
  "add_document w a outcome s =
     (case (a, outcome) of
        (Some i, Doc_Nodes ns) \<Rightarrow> (add_nodes (Some i) ns s)\<lparr>lf_world := w, lf_documents := length (lf_heap s) # lf_documents s\<rparr>
      | _ \<Rightarrow> s\<lparr>lf_world := w\<rparr>)"

text \<open>Nodes that a call can make. The others are no calls of a program.\<close>

fun life_possible :: "life_op \<Rightarrow> life \<Rightarrow> bool" where
  "life_possible (NewProcessor f (Doc_Nodes ns)) s = doc_fits s None ns"
| "life_possible (Process i ts ns) s = (i < length (lf_processors s) \<and> doc_fits s (Some 0) ns)"
| "life_possible (ParseDocument (Doc_Nodes ns)) s = doc_fits s (Some 0) ns"
| "life_possible (ParseFile f (Doc_Nodes ns)) s = doc_fits s (Some 0) ns"
| "life_possible (Work h) s = (length (lf_heap s) \<le> length h \<and>
     nodes_fit (lf_allocs s @ replicate (length h - length (lf_heap s)) None) h)"
| "life_possible (SetPrefix i prefix) s = (i < length (lf_processors s))"
| "life_possible (FreeProcessor i path) s =
     (i < length (lf_processors s) \<and> first_path (lf_heap s) path \<and> hd path = snd (lf_processors s ! i))"
| "life_possible (FreeDocument i path) s =
     (i < length (lf_documents s) \<and> first_path (lf_heap s) path \<and> hd path = lf_documents s ! i)"
| "life_possible _ s = True"

fun life_call :: "nat \<Rightarrow> life_op \<Rightarrow> life \<Rightarrow> life option" where
  "life_call self (NewProcessor f outcome) s = do {
     (created, i, w) \<leftarrow> new_processor_allocator self f outcome (lf_world s);
     Some (case outcome of
         Doc_Nodes ns \<Rightarrow> (add_nodes None ns s)\<lparr>lf_world := w, lf_processors := (i, length (lf_heap s)) # lf_processors s\<rparr>
       | _ \<Rightarrow> s\<lparr>lf_world := w, lf_lost := i # lf_lost s\<rparr>)
   }"
| "life_call self (Process i ts ns) s = do {
     let p = fst (lf_processors s ! i);
     (d, w) \<leftarrow> result_allocator self p (lf_global s) (p \<in> set (lf_ready s)) ts (lf_world s);
     Some ((add_nodes (Some d) ns s)\<lparr>lf_world := w, lf_documents := length (lf_heap s) # lf_documents s, lf_ready := p # lf_ready s\<rparr>)
   }"
| "life_call self (ParseDocument outcome) s = do {
     (a, w) \<leftarrow> xml_parse_allocator self False outcome (lf_world s);
     Some (add_document w a outcome s)
   }"
| "life_call self (ParseFile file outcome) s = do {
     (a, w) \<leftarrow> XMLParseFile_allocator self file outcome (lf_world s);
     Some (add_document w a outcome s)
   }"
| "life_call self CreateDocument s = do {
     (d, w) \<leftarrow> create_document_allocator self (lf_world s);
     Some (add_document w (Some d) (Doc_Nodes [null_node\<lparr>n_name := Some xsl_s_root, n_type := EMPTY_NODE\<rparr>]) s)
   }"
| "life_call self (Register fname) s = do { w \<leftarrow> register_function_memory self fname (lf_world s); Some (s\<lparr>lf_world := w\<rparr>) }"
| "life_call self (Work h) s = do {
     w \<leftarrow> live_nodes self (length h - length (lf_heap s)) (lf_world s);
     Some (s\<lparr>lf_world := w, lf_heap := h, lf_allocs := lf_allocs s @ replicate (length h - length (lf_heap s)) None\<rparr>)
   }"
| "life_call self (SetPrefix i prefix) s = do {
     w \<leftarrow> set_prefix_memory self (fst (lf_processors s ! i)) prefix (lf_world s);
     Some (s\<lparr>lf_world := w\<rparr>)
   }"
| "life_call self (EnableCache servers) s = do {
     w \<leftarrow> set_prefix_memory self (lf_global s) servers (lf_world s);
     Some (s\<lparr>lf_world := w\<rparr>)
   }"
| "life_call self (FreeProcessor i path) s = do {
     let (p, stylesheet) = lf_processors s ! i;
     w \<leftarrow> XSLTFreeProcessor (length path) (lf_heap s) (alloc_of s) (Some stylesheet) p (lf_world s);
     Some (s\<lparr>lf_world := w, lf_processors := without_nth i (lf_processors s)\<rparr>)
   }"
| "life_call self (FreeDocument i path) s = do {
     w \<leftarrow> XMLFreeDocument (length path) (lf_heap s) (alloc_of s) (Some (lf_documents s ! i)) (lf_world s);
     Some (s\<lparr>lf_world := w, lf_documents := without_nth i (lf_documents s)\<rparr>)
   }"



text \<open>
  Every allocator has been released or has exactly one owner. All of them know the thread, in its own mode, and one of
  them is the current one.
\<close>

definition owned :: "life \<Rightarrow> nat list" where
  "owned s = lf_global s # map fst (lf_processors s) @ map (the \<circ> alloc_of s) (lf_documents s) @ lf_lost s"

definition mem_wf :: "memworld \<Rightarrow> bool" where
  "mem_wf m \<longleftrightarrow> (\<forall>a\<in>set (mw_allocators m).
     (\<forall>e\<in>set (al_entries a). ae_mode e = MODE_SELF \<and> ae_tail e < length (ae_data e)) \<and>
     (\<forall>(th, t)\<in>set (al_key a). t < length (al_entries a)))"

definition mem_ready :: "nat \<Rightarrow> memworld \<Rightarrow> bool" where
  "mem_ready self m \<longleftrightarrow> mem_wf m \<and> (\<forall>i<length (mw_allocators m). has_entry m i self) \<and>
     (\<exists>i<length (mw_allocators m). mw_current m = Some i)"

definition owners_ok :: "life \<Rightarrow> bool" where
  "owners_ok s \<longleftrightarrow> distinct (owned s @ lw_released (lf_world s)) \<and>
     set (owned s @ lw_released (lf_world s)) = {..<length (mw_allocators (lw_mem (lf_world s)))}"

definition docs_ok :: "life \<Rightarrow> bool" where
  "docs_ok s \<longleftrightarrow> length (lf_allocs s) = length (lf_heap s) \<and> nodes_fit (lf_allocs s) (lf_heap s) \<and>
     (\<forall>(p, r)\<in>set (lf_processors s). r < length (lf_heap s) \<and> alloc_of s r = None) \<and>
     (\<forall>r\<in>set (lf_documents s). r < length (lf_heap s) \<and> alloc_of s r \<noteq> None)"

definition life_ok :: "nat \<Rightarrow> life \<Rightarrow> bool" where
  "life_ok self s \<longleftrightarrow> owners_ok s \<and> docs_ok s \<and> mem_ready self (lw_mem (lf_world s))"

text \<open>
  The calls that go wrong: a stylesheet that does not parse (the NULL allocator is released), and a request when the
  current allocator has been released.
\<close>

definition current_released :: "life \<Rightarrow> bool" where
  "current_released s \<longleftrightarrow> (\<exists>i. mw_current (lw_mem (lf_world s)) = Some i \<and> i \<in> set (lw_released (lf_world s)))"

fun life_crash :: "life_op \<Rightarrow> life \<Rightarrow> bool" where
  "life_crash (NewProcessor f Doc_Malformed) s = True"
| "life_crash (ParseFile f outcome) s = (life_possible (ParseFile f outcome) s \<and> current_released s)"
| "life_crash (Register fname) s = (fname \<noteq> ''ltr:url_code'' \<and> current_released s)"
| "life_crash (Work h) s = (length (lf_heap s) < length h \<and> current_released s)"
| "life_crash _ s = False"

fun lost_by :: "life_op \<Rightarrow> nat" where
  "lost_by (NewProcessor f Doc_Missing) = 1"
| "lost_by _ = 0"

subsection \<open>The allocators that exist\<close>

lemma mem_wf_put:
  assumes "mem_wf m" "\<forall>e\<in>set (al_entries a). ae_mode e = MODE_SELF \<and> ae_tail e < length (ae_data e)"
    "\<forall>(th, t)\<in>set (al_key a). t < length (al_entries a)"
  shows "mem_wf (put_allocator m i a)"
  using assms by (auto simp: mem_wf_def put_allocator_def dest!: set_update_subset_insert[THEN subsetD])

lemma mem_wf_get:
  assumes "mem_wf m" "get_allocator m i = Some a"
  shows "\<forall>e\<in>set (al_entries a). ae_mode e = MODE_SELF \<and> ae_tail e < length (ae_data e)"
    "\<forall>(th, t)\<in>set (al_key a). t < length (al_entries a)"
  using assms get_allocator_Some[OF assms(2)] by (auto simp: mem_wf_def)

lemma get_put_length: "length (mw_allocators (put_allocator m i a)) = length (mw_allocators m)"
    "mw_current (put_allocator m i a) = mw_current m"
  by (simp_all add: put_allocator_def)

lemma has_entry_put:
  "i < length (mw_allocators m) \<Longrightarrow> has_entry (put_allocator m i a) j u \<longleftrightarrow> (if j = i then u \<in> ae_thread ` set (al_entries a) else has_entry m j u)"
  by (simp add: has_entry_def)

lemma create_keeps:
  assumes "memory_allocator_create m = (n, m')"
  shows "n = length (mw_allocators m)" "length (mw_allocators m') = Suc n" "mem_wf m \<Longrightarrow> mem_wf m'"
    "i < n \<Longrightarrow> has_entry m' i u = has_entry m i u" "mw_current m' = mw_current m"
  using assms by (auto simp: memory_allocator_create_def mem_wf_def has_entry_def get_allocator_def nth_append)

lemma add_entry_keeps:
  assumes "i < length (mw_allocators m)"
  shows "\<exists>m'. memory_allocator_add_entry i t sz m = Some m' \<and> length (mw_allocators m') = length (mw_allocators m) \<and>
    (mem_wf m \<longrightarrow> mem_wf m') \<and> mw_current m' = mw_current m \<and> (\<forall>j u. has_entry m' j u \<longleftrightarrow> has_entry m j u \<or> (j = i \<and> u = t))"
proof -
  obtain a where a: "get_allocator m i = Some a" using assms by (simp add: get_allocator_def)
  have "mem_wf m \<longrightarrow> mem_wf (put_allocator m i (a\<lparr>al_entries := al_entries a @
      [\<lparr>ae_thread = t, ae_mode = MODE_SELF, ae_data = [memory_allocator_create_data sz], ae_tail = 0\<rparr>]\<rparr>))"
    using mem_wf_get[OF _ a] by (intro impI mem_wf_put) (auto intro: less_SucI)
  with a assms show ?thesis
    by (auto simp: memory_allocator_add_entry_def has_entry_put get_put_length has_entry_def)
qed

lemma set_custom_keeps:
  assumes "i < length (mw_allocators m)"
  shows "\<exists>m'. memory_allocator_set_custom i mode c m = Some m' \<and> length (mw_allocators m') = length (mw_allocators m) \<and>
    (mem_wf m \<longrightarrow> mem_wf m') \<and> mw_current m' = mw_current m \<and> (\<forall>j u. has_entry m' j u \<longleftrightarrow> has_entry m j u)"
proof -
  obtain a where a: "get_allocator m i = Some a" using assms by (simp add: get_allocator_def)
  have "mem_wf m \<longrightarrow> mem_wf (put_allocator m i (a\<lparr>al_custom := x\<rparr>))" for x
    using mem_wf_get[OF _ a] by (intro impI mem_wf_put) auto
  with a assms show ?thesis
    by (auto simp: memory_allocator_set_custom_def Let_def has_entry_put get_put_length has_entry_def split: option.split prod.split)
qed

lemma set_allocator_keeps:
  "i < length (mw_allocators m) \<Longrightarrow> \<exists>m'. threadpool_set_allocator i ts m = Some m' \<and> length (mw_allocators m') = length (mw_allocators m) \<and>
    (mem_wf m \<longrightarrow> mem_wf m') \<and> mw_current m' = mw_current m \<and> (\<forall>j u. has_entry m' j u \<longleftrightarrow> has_entry m j u \<or> (j = i \<and> u \<in> set ts))"
proof (induction ts arbitrary: m)
  case (Cons t ts)
  from add_entry_keeps[OF Cons.prems, of t 500000] obtain m1 where m1: "memory_allocator_add_entry i t 500000 m = Some m1"
    "length (mw_allocators m1) = length (mw_allocators m)" "mem_wf m \<longrightarrow> mem_wf m1" "mw_current m1 = mw_current m"
    "\<forall>j u. has_entry m1 j u \<longleftrightarrow> has_entry m j u \<or> (j = i \<and> u = t)" by blast
  from Cons.IH[of m1] Cons.prems m1 show ?case by auto
qed simp

lemma set_current_keeps:
  "mw_allocators (memory_allocator_set_current i m) = mw_allocators m" "mw_current (memory_allocator_set_current i m) = Some i"
  "mem_wf (memory_allocator_set_current i m) = mem_wf m" "has_entry (memory_allocator_set_current i m) = has_entry m"
  by (simp_all add: memory_allocator_set_current_def mem_wf_def has_entry_def get_allocator_def fun_eq_iff)

text \<open>A new allocator of the thread is the current one.\<close>

lemma own_allocator_new:
  assumes "mem_wf (lw_mem w)" "\<forall>i<length (mw_allocators (lw_mem w)). has_entry (lw_mem w) i self"
  shows "\<exists>w'. own_allocator self sz w = Some (length (mw_allocators (lw_mem w)), w') \<and> lw_released w' = lw_released w \<and>
     length (mw_allocators (lw_mem w')) = Suc (length (mw_allocators (lw_mem w))) \<and>
     mw_current (lw_mem w') = Some (length (mw_allocators (lw_mem w))) \<and> mem_ready self (lw_mem w')"
proof -
  let ?n = "length (mw_allocators (lw_mem w))"
  obtain m1 where m1: "memory_allocator_create (lw_mem w) = (?n, m1)" by (simp add: memory_allocator_create_def)
  note c = create_keeps[OF m1]
  from add_entry_keeps[of ?n m1 self sz] c(2) obtain m2 where m2: "memory_allocator_add_entry ?n self sz m1 = Some m2"
    "length (mw_allocators m2) = length (mw_allocators m1)" "mem_wf m1 \<longrightarrow> mem_wf m2"
    "\<forall>j u. has_entry m2 j u \<longleftrightarrow> has_entry m1 j u \<or> (j = ?n \<and> u = self)" by auto
  with c assms have "mem_ready self (memory_allocator_set_current ?n m2)"
    by (auto simp: mem_ready_def set_current_keeps less_Suc_eq)
  with m1 m2 c show ?thesis by (simp add: own_allocator_def set_current_keeps)
qed

lemma result_allocator_new:
  assumes "p \<notin> set (lw_released w)" "p < length (mw_allocators (lw_mem w))" "mem_ready self (lw_mem w)"
  shows "\<exists>w'. result_allocator self p g rdy ts w = Some (length (mw_allocators (lw_mem w)), w') \<and>
     lw_released w' = lw_released w \<and> length (mw_allocators (lw_mem w')) = Suc (length (mw_allocators (lw_mem w))) \<and>
     mem_ready self (lw_mem w')"
proof -
  let ?n = "length (mw_allocators (lw_mem w))"
  obtain m1 where m1: "memory_allocator_create (lw_mem w) = (?n, m1)" by (simp add: memory_allocator_create_def)
  note c = create_keeps[OF m1]
  have wf1: "mem_wf m1" using c(3) assms(3) by (simp add: mem_ready_def)
  from set_custom_keeps[of ?n m1 MODE_STYLESHEET p] c(2) wf1 obtain m2 where
    m2: "memory_allocator_set_custom ?n MODE_STYLESHEET p m1 = Some m2" "length (mw_allocators m2) = Suc ?n" "mem_wf m2"
      "\<forall>j u. has_entry m2 j u \<longleftrightarrow> has_entry m1 j u" by auto
  from set_custom_keeps[of ?n m2 MODE_GLOBAL g] m2 obtain m3 where
    m3: "memory_allocator_set_custom ?n MODE_GLOBAL g m2 = Some m3" "length (mw_allocators m3) = Suc ?n" "mem_wf m3"
      "\<forall>j u. has_entry m3 j u \<longleftrightarrow> has_entry m1 j u" by auto
  from add_entry_keeps[of ?n m3 self 1000000] m3 obtain m4 where
    m4: "memory_allocator_add_entry ?n self 1000000 m3 = Some m4" "length (mw_allocators m4) = Suc ?n" "mem_wf m4"
      "\<forall>j u. has_entry m4 j u \<longleftrightarrow> has_entry m1 j u \<or> (j = ?n \<and> u = self)" by auto
  from set_allocator_keeps[of ?n "memory_allocator_set_current ?n m4" ts] m4 obtain m5 where
    m5: "threadpool_set_allocator ?n ts (memory_allocator_set_current ?n m4) = Some m5" "length (mw_allocators m5) = Suc ?n"
      "mem_wf m5" "mw_current m5 = Some ?n" "\<forall>j. has_entry m4 j self \<longrightarrow> has_entry m5 j self"
    by (auto simp: set_current_keeps)
  from set_allocator_keeps[of p m5 ts] m5 assms(2) obtain m6 where
    m6: "(if rdy then Some m5 else threadpool_set_allocator p ts m5) = Some m6" "length (mw_allocators m6) = Suc ?n"
      "mem_wf m6" "mw_current m6 = Some ?n" "\<forall>j. has_entry m5 j self \<longrightarrow> has_entry m6 j self"
    by (cases rdy) auto
  have "has_entry m6 j self" if "j < Suc ?n" for j
    using that m6(5) m5(5) m4(4) c(4)[of j self] assms(3) by (auto simp: mem_ready_def less_Suc_eq)
  with m6 have "mem_ready self m6" by (auto simp: mem_ready_def)
  with m1 m2 m3 m4 m5 m6 assms(1) show ?thesis by (simp add: result_allocator_def)
qed

text \<open>A request is served by the current allocator, unless that has been released.\<close>

lemma entry_new_served:
  assumes "ae_tail e < length (ae_data e)"
  shows "\<exists>b off e'. entry_new sz e = Some (b, off, e') \<and> ae_mode e' = ae_mode e \<and> ae_thread e' = ae_thread e \<and> ae_tail e' < length (ae_data e')"
  using assms by (auto simp: entry_new_def Let_def split: if_split)

lemma memory_allocator_new_ready:
  assumes "mem_ready self m" "mw_current m = Some i"
  shows "\<exists>p m'. memory_allocator_new self sz m = Some (Some (i, p), m') \<and> length (mw_allocators m') = length (mw_allocators m) \<and>
    mem_ready self m' \<and> mw_current m' = Some i"
proof -
  from assms have i: "i < length (mw_allocators m)" "mem_wf m" "has_entry m i self" by (auto simp: mem_ready_def)
  then obtain a where a: "get_allocator m i = Some a" by (simp add: get_allocator_def)
  note wf = mem_wf_get[OF i(2) a]
  have known: "self \<in> ae_thread ` set (al_entries a)" using i(3) a by (simp add: has_entry_def)
  obtain t a1 where f: "memory_allocator_find_entry self a = (Some t, a1)" "t < length (al_entries a)" "al_entries a1 = al_entries a"
      "al_custom a1 = al_custom a" "\<forall>(th, t)\<in>set (al_key a1). t < length (al_entries a)"
  proof (cases "map_of (al_key a) self")
    case (Some t)
    with wf(2) that[of t a] show thesis by (auto simp: memory_allocator_find_entry_def dest!: map_of_SomeD)
  next
    case None
    from known obtain t where t: "find_index (\<lambda>e. ae_thread e = self) (al_entries a) = Some t"
      by (cases "find_index (\<lambda>e. ae_thread e = self) (al_entries a)") (auto simp: find_index_None)
    from that[of t "a\<lparr>al_key := (self, t) # al_key a\<rparr>"] None t find_index_Some[OF t] wf(2) show thesis
      by (auto simp: memory_allocator_find_entry_def)
  qed
  let ?e = "al_entries a ! t" and ?m1 = "put_allocator m i a1"
  have e: "ae_mode ?e = MODE_SELF" "ae_tail ?e < length (ae_data ?e)" using wf(1) f(2) by simp_all
  have "serving_entry self m = Some (Some (i, t), ?m1)"
    using assms(2) a f e(1) by (cases "al_custom a") (auto simp: serving_entry_def Let_def)
  moreover obtain b off e' where en: "entry_new sz ?e = Some (b, off, e')" "ae_mode e' = MODE_SELF" "ae_tail e' < length (ae_data e')"
      "ae_thread e' = ae_thread ?e"
    using e entry_new_served[OF e(2), of sz] by auto
  moreover have g1: "get_allocator ?m1 i = Some a1" using i(1) by simp
  ultimately have new: "memory_allocator_new self sz m = Some (Some (i, t, b, off), put_allocator ?m1 i (a1\<lparr>al_entries := (al_entries a1)[t := e']\<rparr>))"
    using f(3) by (simp add: memory_allocator_new_def)
  let ?a = "a1\<lparr>al_entries := (al_entries a1)[t := e']\<rparr>"
  have threads: "ae_thread ` set (al_entries ?a) = ae_thread ` set (al_entries a)"
  proof -
    have "map ae_thread (al_entries ?a) = map ae_thread (al_entries a)"
      using f(2,3) en(4) by (simp add: map_update list_update_same_conv)
    then show ?thesis by (metis set_map)
  qed
  have "mem_wf (put_allocator ?m1 i ?a)"
    using i(2) wf f en by (intro mem_wf_put) (auto dest!: set_update_subset_insert[THEN subsetD])
  moreover have "has_entry (put_allocator ?m1 i ?a) j u = has_entry m j u" for j u
    using i(1) a threads by (simp add: has_entry_put get_put_length) (simp add: has_entry_def)
  ultimately have "mem_ready self (put_allocator ?m1 i ?a)" using assms i(1) by (simp add: mem_ready_def get_put_length)
  with new assms(2) show ?thesis by (auto simp: get_put_length)
qed

lemma live_new_ready:
  assumes "mem_ready self (lw_mem w)" "mw_current (lw_mem w) = Some i" "i \<notin> set (lw_released w)"
  shows "\<exists>p w'. live_new self sz w = Some (Some p, w') \<and> lw_released w' = lw_released w \<and>
    length (mw_allocators (lw_mem w')) = length (mw_allocators (lw_mem w)) \<and> mem_ready self (lw_mem w') \<and> mw_current (lw_mem w') = Some i"
  using memory_allocator_new_ready[OF assms(1,2), of sz] assms(2,3) by (auto simp: live_new_def)

lemma live_strdup_ready:
  assumes "mem_ready self (lw_mem w)" "mw_current (lw_mem w) = Some i" "i \<notin> set (lw_released w)"
  shows "\<exists>w'. live_strdup self str w = Some w' \<and> lw_released w' = lw_released w \<and>
    length (mw_allocators (lw_mem w')) = length (mw_allocators (lw_mem w)) \<and> mem_ready self (lw_mem w') \<and> mw_current (lw_mem w') = Some i"
  using live_new_ready[OF assms, of "length str + 1"] by (auto simp: live_strdup_def)

lemma live_nodes_ready:
  "mem_ready self (lw_mem w) \<Longrightarrow> mw_current (lw_mem w) = Some i \<Longrightarrow> i \<notin> set (lw_released w) \<Longrightarrow>
   \<exists>w'. live_nodes self n w = Some w' \<and> lw_released w' = lw_released w \<and>
    length (mw_allocators (lw_mem w')) = length (mw_allocators (lw_mem w)) \<and> mem_ready self (lw_mem w')"
proof (induction n arbitrary: w)
  case (Suc n)
  from live_new_ready[OF Suc.prems, of sizeof_XMLNODE] obtain p w1 where w1: "live_new self sizeof_XMLNODE w = Some (Some p, w1)"
    "lw_released w1 = lw_released w" "length (mw_allocators (lw_mem w1)) = length (mw_allocators (lw_mem w))"
    "mem_ready self (lw_mem w1)" "mw_current (lw_mem w1) = Some i" by blast
  from Suc.IH[OF w1(4,5)] w1 Suc.prems(3) show ?case by auto
qed simp

lemma live_strdup_released:
  "mw_current (lw_mem w) = Some i \<Longrightarrow> i \<in> set (lw_released w) \<Longrightarrow> live_strdup self str w = None"
  by (simp add: live_strdup_def live_new_def)

text \<open>
  \<open>has_pool_memory\<close> is set by the first transformation even when there is no pool yet: threads of a pool that is
  created later get no entry in the allocator of the processor.
\<close>

lemma set_allocator_other:
  assumes "threadpool_set_allocator i ts m = Some m'" "p \<noteq> i"
  shows "get_allocator m' p = get_allocator m p"
  using assms(1)
proof (induction ts arbitrary: m)
  case (Cons t ts)
  then obtain m1 where m1: "memory_allocator_add_entry i t 500000 m = Some m1" "threadpool_set_allocator i ts m1 = Some m'"
    by (auto split: bind_splits)
  from m1(1) assms(2) have "get_allocator m1 p = get_allocator m p"
    by (auto simp: memory_allocator_add_entry_def get_allocator_def put_allocator_def split: bind_splits if_splits)
  with Cons.IH[OF m1(2)] show ?case by simp
qed simp

lemma late_pool_has_no_entries:
  assumes "result_allocator self p g True ts w = Some (alloc, w')" "p < length (mw_allocators (lw_mem w))"
  shows "has_entry (lw_mem w') p t \<longleftrightarrow> has_entry (lw_mem w) p t"
proof -
  let ?n = "length (mw_allocators (lw_mem w))"
  from assms obtain m1 m2 m3 m4 m5 where m: "memory_allocator_create (lw_mem w) = (?n, m1)"
    "memory_allocator_set_custom ?n MODE_STYLESHEET p m1 = Some m2" "memory_allocator_set_custom ?n MODE_GLOBAL g m2 = Some m3"
    "memory_allocator_add_entry ?n self 1000000 m3 = Some m4"
    "threadpool_set_allocator ?n ts (memory_allocator_set_current ?n m4) = Some m5" "lw_mem w' = m5"
    by (auto simp: result_allocator_def memory_allocator_create_def split: if_splits bind_splits)
  have other: "get_allocator (put_allocator m i a) p = get_allocator m p" if "i = ?n" for m i a
    using that assms(2) by (simp add: get_allocator_def put_allocator_def)
  have "get_allocator m1 p = get_allocator (lw_mem w) p"
    using m(1) assms(2) by (auto simp: memory_allocator_create_def get_allocator_def nth_append)
  moreover have "get_allocator m2 p = get_allocator m1 p" "get_allocator m3 p = get_allocator m2 p"
    using m(2,3) other by (auto simp: memory_allocator_set_custom_def Let_def split: bind_splits option.splits prod.splits if_splits)
  moreover have "get_allocator m4 p = get_allocator m3 p"
    using m(4) other by (auto simp: memory_allocator_add_entry_def split: bind_splits)
  moreover have "get_allocator m5 p = get_allocator m4 p"
    using set_allocator_other[OF m(5), of p] assms(2) by (simp add: memory_allocator_set_current_def get_allocator_def)
  ultimately show ?thesis by (simp add: has_entry_def m(6))
qed

subsection \<open>Freeing\<close>

lemma first_path_children: "first_path h (a # r) \<Longrightarrow> nodes_fit allocs h \<Longrightarrow> \<forall>b\<in>set r. allocs ! b = None"
proof (induction r arbitrary: a)
  case (Cons b r)
  then have "h ! a \<in> set h" "n_children (h ! a) = Some b" by auto
  with Cons.prems(2) have "allocs ! b = None" by (force simp: nodes_fit_def)
  with Cons.IH[of b] Cons.prems show ?case by simp
qed simp

text \<open>Only the node that is freed can carry an allocator: no other one on the way down does.\<close>

lemma free_nodes:
  assumes "docs_ok s" "first_path (lf_heap s) path"
  shows "xml_free_document (length path) (lf_heap s) (alloc_of s) (Some (hd path)) w =
    (case alloc_of s (hd path) of None \<Rightarrow> Some w | Some i \<Rightarrow> memory_allocator_release i w)"
proof -
  obtain a r where p: "path = a # r" using assms(2) by (cases path) auto
  with first_path_children[of "lf_heap s" a r "lf_allocs s"] assms have "\<forall>b\<in>set r. alloc_of s b = None" by (simp add: docs_ok_def)
  then have "List.map_filter (alloc_of s) r = []" by (auto simp: map_filter_def filter_empty_conv)
  then have "List.map_filter (alloc_of s) (a # r) = (case alloc_of s a of None \<Rightarrow> [] | Some i \<Rightarrow> [i])"
    by (simp add: map_filter_simps split: option.split)
  with free_document_first_path[of "lf_heap s" a r "length path" "alloc_of s" w] assms(2) p show ?thesis
    by (simp split: option.splits)
qed

lemma release_owned:
  assumes "owners_ok s" "i \<in> set (owned s)" "lw_released w = lw_released (lf_world s)"
    and "length (mw_allocators (lw_mem w)) = length (mw_allocators (lw_mem (lf_world s)))"
  shows "memory_allocator_release i w = Some (w\<lparr>lw_released := i # lw_released w\<rparr>)"
proof -
  from assms(1,2) have "i \<notin> set (lw_released (lf_world s))" "i < length (mw_allocators (lw_mem (lf_world s)))"
    unfolding owners_ok_def by auto
  with assms(3,4) show ?thesis by (simp add: memory_allocator_release_def)
qed

lemma mset_without_nth: "i < length xs \<Longrightarrow> add_mset (xs ! i) (mset (without_nth i xs)) = mset xs"
  by (metis id_take_nth_drop mset_append mset.simps(2) union_mset_add_mset_right)

lemma set_without_nth: "set (without_nth i xs) \<subseteq> set xs"
  by (auto dest: in_set_takeD in_set_dropD)

lemma map_without_nth: "map f (without_nth i xs) = without_nth i (map f xs)"
  by (simp add: take_map drop_map)

subsection \<open>What the calls do to owners and nodes\<close>

lemma owners_new:
  assumes "owners_ok s" "lw_released (lf_world s') = lw_released (lf_world s)"
    and "length (mw_allocators (lw_mem (lf_world s'))) = Suc (length (mw_allocators (lw_mem (lf_world s))))"
    and "mset (owned s') = add_mset (length (mw_allocators (lw_mem (lf_world s)))) (mset (owned s))"
  shows "owners_ok s'"
proof -
  let ?n = "length (mw_allocators (lw_mem (lf_world s)))" and ?r = "lw_released (lf_world s)"
  have m: "mset (owned s' @ ?r) = mset (?n # owned s @ ?r)" using assms(4) by simp
  have "?n \<notin> set (owned s @ ?r)" using assms(1) by (simp add: owners_ok_def)
  then have "distinct (?n # owned s @ ?r)" using assms(1) by (simp add: owners_ok_def)
  with m have "distinct (owned s' @ ?r)" by (metis mset_eq_imp_distinct_iff)
  moreover have "set (owned s' @ ?r) = {..<Suc ?n}"
    using mset_eq_setD[OF m] assms(1) unfolding owners_ok_def by auto
  ultimately show ?thesis using assms(2,3) by (simp add: owners_ok_def)
qed

lemma owners_released:
  assumes "owners_ok s" "lw_released (lf_world s') = i # lw_released (lf_world s)"
    and "length (mw_allocators (lw_mem (lf_world s'))) = length (mw_allocators (lw_mem (lf_world s)))"
    and "add_mset i (mset (owned s')) = mset (owned s)"
  shows "owners_ok s'"
proof -
  have m: "mset (owned s' @ lw_released (lf_world s')) = mset (owned s @ lw_released (lf_world s))" using assms(2,4)
    by (simp flip: assms(4))
  show ?thesis using assms(1,3) mset_eq_imp_distinct_iff[OF m] mset_eq_setD[OF m] by (simp add: owners_ok_def)
qed

text \<open>An allocator that is made and released at once.\<close>

lemma owners_passing:
  assumes "owners_ok s" "owned s' = owned s" "lw_released (lf_world s') = length (mw_allocators (lw_mem (lf_world s))) # lw_released (lf_world s)"
    and "length (mw_allocators (lw_mem (lf_world s'))) = Suc (length (mw_allocators (lw_mem (lf_world s))))"
  shows "owners_ok s'"
  using assms unfolding owners_ok_def by auto

lemma nodes_fit_mono: "nodes_fit allocs h \<Longrightarrow> nodes_fit (allocs @ x) h"
  by (force simp: nodes_fit_def nth_append split: option.splits)

lemma nodes_fit_Some: "nodes_fit (x @ doc_allocs (Some i) ns) h = nodes_fit (x @ doc_allocs (Some j) ns) h"
proof -
  have "(x @ doc_allocs (Some i) ns) ! c = None \<longleftrightarrow> (x @ doc_allocs (Some j) ns) ! c = None" for c
    by (auto simp: doc_allocs_def nth_append nth_Cons split: nat.split)
  moreover have "length (x @ doc_allocs (Some i) ns) = length (x @ doc_allocs (Some j) ns)" by (simp add: doc_allocs_def)
  ultimately show ?thesis by (simp only: nodes_fit_def)
qed

lemma docs_new:
  assumes ok: "docs_ok s" and fits: "doc_fits s a ns" and a': "(a' = None) = (a = None)"
    and s': "lf_heap s' = lf_heap s @ ns" "lf_allocs s' = lf_allocs s @ doc_allocs a' ns"
      "set (lf_processors s') \<subseteq> set (lf_processors s) \<union> (if a = None then {(p, length (lf_heap s))} else {})"
      "set (lf_documents s') \<subseteq> set (lf_documents s) \<union> (if a = None then {} else {length (lf_heap s)})"
  shows "docs_ok s'" "\<And>r. r < length (lf_heap s) \<Longrightarrow> alloc_of s' r = alloc_of s r" "alloc_of s' (length (lf_heap s)) = a'"
proof -
  have len: "length (lf_allocs s) = length (lf_heap s)" and ns: "ns \<noteq> []" using ok fits by (auto simp: docs_ok_def doc_fits_def)
  show old: "alloc_of s' r = alloc_of s r" if "r < length (lf_heap s)" for r using that len by (simp add: s'(2) nth_append)
  show root: "alloc_of s' (length (lf_heap s)) = a'" using len by (simp add: s'(2) doc_allocs_def nth_append)
  have "nodes_fit (lf_allocs s') (lf_heap s')"
  proof -
    have "nodes_fit (lf_allocs s @ doc_allocs a' ns) ns"
      using fits a' nodes_fit_Some[of "lf_allocs s" _ ns ns] by (cases a; cases a') (auto simp: doc_fits_def)
    with nodes_fit_mono[of "lf_allocs s" "lf_heap s" "doc_allocs a' ns"] ok show ?thesis
      by (auto simp: s'(1,2) docs_ok_def nodes_fit_def)
  qed
  moreover have "length (lf_allocs s') = length (lf_heap s')" using len ns by (cases ns) (simp_all add: s' doc_allocs_def)
  moreover have "r < length (lf_heap s') \<and> alloc_of s' r = None" if "(q, r) \<in> set (lf_processors s')" for q r
  proof -
    have "(q, r) \<in> set (lf_processors s) \<or> a = None \<and> r = length (lf_heap s)" using that s'(3) by (auto split: if_splits)
    then show ?thesis using ok s'(1) old[of r] root a' ns by (auto simp: docs_ok_def)
  qed
  moreover have "r < length (lf_heap s') \<and> alloc_of s' r \<noteq> None" if "r \<in> set (lf_documents s')" for r
  proof -
    have "r \<in> set (lf_documents s) \<or> a \<noteq> None \<and> r = length (lf_heap s)" using that s'(4) by (auto split: if_splits)
    then show ?thesis using ok s'(1) old[of r] root a' ns by (auto simp: docs_ok_def)
  qed
  ultimately show "docs_ok s'" by (auto simp: docs_ok_def)
qed

lemma docs_same:
  "docs_ok s \<Longrightarrow> lf_heap s' = lf_heap s \<Longrightarrow> lf_allocs s' = lf_allocs s \<Longrightarrow> set (lf_processors s') \<subseteq> set (lf_processors s) \<Longrightarrow>
   set (lf_documents s') \<subseteq> set (lf_documents s) \<Longrightarrow> docs_ok s'"
  by (auto simp: docs_ok_def)

text \<open>A new document owns its allocator.\<close>

lemma life_document:
  assumes ok: "life_ok self s" and fits: "doc_fits s (Some 0) ns"
    and w: "lw_released w = lw_released (lf_world s)" "mem_ready self (lw_mem w)"
      "length (mw_allocators (lw_mem w)) = Suc (length (mw_allocators (lw_mem (lf_world s))))"
    and s': "s' = (add_nodes (Some (length (mw_allocators (lw_mem (lf_world s))))) ns s)
      \<lparr>lf_world := w, lf_documents := length (lf_heap s) # lf_documents s, lf_ready := rdy\<rparr>"
  shows "life_ok self s'"
proof -
  have d: "docs_ok s" using ok by (simp add: life_ok_def)
  note new = docs_new[OF d fits, of "Some (length (mw_allocators (lw_mem (lf_world s))))" s' 0]
  have docs: "docs_ok s'" by (rule new(1)) (auto simp: s' add_nodes_def)
  have old: "r < length (lf_heap s) \<Longrightarrow> alloc_of s' r = alloc_of s r" for r by (rule new(2)) (auto simp: s' add_nodes_def)
  have root: "alloc_of s' (length (lf_heap s)) = Some (length (mw_allocators (lw_mem (lf_world s))))"
    by (rule new(3)) (auto simp: s' add_nodes_def)
  have "map (the \<circ> alloc_of s') (lf_documents s) = map (the \<circ> alloc_of s) (lf_documents s)"
    using d old by (auto simp: docs_ok_def)
  moreover have "lf_global s' = lf_global s" "lf_processors s' = lf_processors s" "lf_lost s' = lf_lost s"
    "lf_documents s' = length (lf_heap s) # lf_documents s" by (simp_all add: s' add_nodes_def)
  ultimately have "owned s' = lf_global s # map fst (lf_processors s) @ length (mw_allocators (lw_mem (lf_world s))) #
      map (the \<circ> alloc_of s) (lf_documents s) @ lf_lost s"
    using root by (simp add: owned_def)
  then have "mset (owned s') = add_mset (length (mw_allocators (lw_mem (lf_world s)))) (mset (owned s))" by (simp add: owned_def)
  with owners_new[of s s'] ok w docs show ?thesis by (simp add: life_ok_def s')
qed

text \<open>Reading a document, and the processor with its stylesheet.\<close>

lemma life_parse:
  assumes ok: "life_ok self s" and fits: "\<forall>ns. outcome = Doc_Nodes ns \<longrightarrow> doc_fits s (Some 0) ns"
  shows "\<exists>a w. xml_parse_allocator self False outcome (lf_world s) = Some (a, w) \<and> life_ok self (add_document w a outcome s)"
proof -
  let ?n = "length (mw_allocators (lw_mem (lf_world s)))"
  from ok have parts: "owners_ok s" "docs_ok s" "mem_ready self (lw_mem (lf_world s))" by (simp_all add: life_ok_def)
  then have "mem_wf (lw_mem (lf_world s))" "\<forall>i<?n. has_entry (lw_mem (lf_world s)) i self" by (simp_all add: mem_ready_def)
  from own_allocator_new[OF this, of 1000000] obtain w where w: "own_allocator self 1000000 (lf_world s) = Some (?n, w)"
    "lw_released w = lw_released (lf_world s)" "length (mw_allocators (lw_mem w)) = Suc ?n" "mem_ready self (lw_mem w)" by blast
  show ?thesis
  proof (cases outcome)
    case Doc_Missing
    then show ?thesis using ok by (simp add: xml_parse_allocator_def add_document_def)
  next
    case Doc_Malformed
    let ?w = "w\<lparr>lw_released := ?n # lw_released w\<rparr>"
    have "?n \<notin> set (lw_released (lf_world s))" using parts(1) by (auto simp: owners_ok_def)
    then have "memory_allocator_release ?n w = Some ?w" using w by (simp add: memory_allocator_release_def)
    moreover have "owners_ok (s\<lparr>lf_world := ?w\<rparr>)"
      by (rule owners_passing[OF parts(1)]) (use w in \<open>simp_all add: owned_def\<close>)
    moreover have "docs_ok (s\<lparr>lf_world := ?w\<rparr>)" by (rule docs_same[OF parts(2)]) simp_all
    ultimately show ?thesis using w Doc_Malformed by (simp add: xml_parse_allocator_def add_document_def life_ok_def)
  next
    case (Doc_Nodes ns)
    have "life_ok self (add_document w (Some ?n) outcome s)"
      by (rule life_document[OF ok _ w(2,4,3), where rdy = "lf_ready s"]) (use fits Doc_Nodes in \<open>auto simp: add_document_def add_nodes_def\<close>)
    with w Doc_Nodes show ?thesis by (simp add: xml_parse_allocator_def)
  qed
qed

lemma life_new_processor:
  assumes ok: "life_ok self s" and outcome: "outcome = Doc_Missing \<or> (\<exists>ns. outcome = Doc_Nodes ns \<and> doc_fits s None ns)"
  shows "\<exists>s'. life_call self (NewProcessor f outcome) s = Some s' \<and> life_ok self s' \<and>
    length (lf_lost s') = length (lf_lost s) + lost_by (NewProcessor f outcome)"
proof -
  let ?n = "length (mw_allocators (lw_mem (lf_world s)))"
  from ok have parts: "owners_ok s" "docs_ok s" "mem_ready self (lw_mem (lf_world s))" by (simp_all add: life_ok_def)
  then have "mem_wf (lw_mem (lf_world s))" "\<forall>i<?n. has_entry (lw_mem (lf_world s)) i self" by (simp_all add: mem_ready_def)
  from own_allocator_new[OF this, of 1000000] obtain w where w: "own_allocator self 1000000 (lf_world s) = Some (?n, w)"
    "lw_released w = lw_released (lf_world s)" "length (mw_allocators (lw_mem w)) = Suc ?n" "mw_current (lw_mem w) = Some ?n"
    "mem_ready self (lw_mem w)" by blast
  have "?n \<notin> set (lw_released w)" using parts(1) w(2) by (auto simp: owners_ok_def)
  from live_strdup_ready[OF w(5,4) this] w obtain w2 where w2: "live_strdup self f w = Some w2"
    "lw_released w2 = lw_released (lf_world s)" "length (mw_allocators (lw_mem w2)) = Suc ?n" "mem_ready self (lw_mem w2)" by auto
  show ?thesis
  proof (cases outcome)
    case Doc_Missing
    let ?s = "s\<lparr>lf_world := w2, lf_lost := ?n # lf_lost s\<rparr>"
    have "owners_ok ?s" by (rule owners_new[OF parts(1)]) (use w2 in \<open>simp_all add: owned_def\<close>)
    moreover have "docs_ok ?s" by (rule docs_same[OF parts(2)]) simp_all
    ultimately show ?thesis using w w2 Doc_Missing
      by (simp add: new_processor_allocator_def xml_parse_allocator_def life_ok_def)
  next
    case (Doc_Nodes ns)
    define t where "t = (add_nodes None ns s)\<lparr>lf_world := w2, lf_processors := (?n, length (lf_heap s)) # lf_processors s\<rparr>"
    have t: "lf_heap t = lf_heap s @ ns" "lf_allocs t = lf_allocs s @ doc_allocs None ns" "lf_world t = w2" "lf_global t = lf_global s"
      "lf_processors t = (?n, length (lf_heap s)) # lf_processors s" "lf_documents t = lf_documents s" "lf_lost t = lf_lost s"
      by (simp_all add: t_def add_nodes_def)
    have fits: "doc_fits s None ns" using outcome Doc_Nodes by simp
    note new = docs_new[OF parts(2) fits, of None t ?n]
    have docs: "docs_ok t" by (rule new(1)) (auto simp: t)
    have old: "r < length (lf_heap s) \<Longrightarrow> alloc_of t r = alloc_of s r" for r by (rule new(2)) (auto simp: t)
    have "map (the \<circ> alloc_of t) (lf_documents s) = map (the \<circ> alloc_of s) (lf_documents s)"
      using parts(2) old by (auto simp: docs_ok_def)
    then have "owned t = lf_global s # ?n # map fst (lf_processors s) @ map (the \<circ> alloc_of s) (lf_documents s) @ lf_lost s"
      by (simp add: owned_def t(3-7))
    then have "owners_ok t" by (intro owners_new[OF parts(1)]) (use w2 in \<open>simp_all add: owned_def t(3)\<close>)
    with docs w2 t have "life_ok self t" by (simp add: life_ok_def)
    with w w2 t(7) Doc_Nodes show ?thesis
      by (simp add: new_processor_allocator_def xml_parse_allocator_def t_def)
  qed (use outcome in simp)
qed

lemma life_free_processor:
  assumes ok: "life_ok self s" and op: "life_possible (FreeProcessor i path) s"
  shows "\<exists>s'. life_call self (FreeProcessor i path) s = Some s' \<and> life_ok self s' \<and> lf_lost s' = lf_lost s"
proof -
  obtain p r where pr: "lf_processors s ! i = (p, r)" by fastforce
  from op have i: "i < length (lf_processors s)" "first_path (lf_heap s) path" "hd path = r" using pr by simp_all
  from ok have parts: "owners_ok s" "docs_ok s" "mem_ready self (lw_mem (lf_world s))" by (simp_all add: life_ok_def)
  from i(1) have mem: "(p, r) \<in> set (lf_processors s)" using pr nth_mem by metis
  then have "alloc_of s r = None" using parts(2) by (auto simp: docs_ok_def)
  let ?w = "lf_world s\<lparr>lw_mem := memory_allocator_set_current p (lw_mem (lf_world s))\<rparr>"
  have p: "p \<in> set (owned s)" using mem by (force simp: owned_def)
  then have len: "p < length (mw_allocators (lw_mem (lf_world s)))" using parts(1) unfolding owners_ok_def by auto
  let ?w1 = "?w\<lparr>lw_released := p # lw_released ?w\<rparr>"
  have rel: "memory_allocator_release p ?w = Some ?w1"
    by (rule release_owned[OF parts(1) p]) (simp_all add: memory_allocator_set_current_def)
  let ?s = "s\<lparr>lf_world := ?w1, lf_processors := without_nth i (lf_processors s)\<rparr>"
  have "add_mset p (mset (map fst (without_nth i (lf_processors s)))) = mset (map fst (lf_processors s))"
    using mset_without_nth[of i "map fst (lf_processors s)"] i(1) pr by (simp add: take_map drop_map)
  then have "owners_ok ?s" by (intro owners_released[OF parts(1), of _ p]) (simp_all add: owned_def memory_allocator_set_current_def)
  moreover have "docs_ok ?s" by (rule docs_same[OF parts(2)]) (use set_without_nth in simp_all)
  moreover have "mem_ready self (lw_mem ?w1)" using parts(3) len by (auto simp: mem_ready_def set_current_keeps)
  ultimately show ?thesis
    using rel free_nodes[OF parts(2) i(2), of ?w] i(3) pr \<open>alloc_of s r = None\<close> by (simp add: XSLTFreeProcessor_def life_ok_def)
qed

lemma life_free_document:
  assumes ok: "life_ok self s" and op: "life_possible (FreeDocument i path) s"
  shows "\<exists>s'. life_call self (FreeDocument i path) s = Some s' \<and> life_ok self s' \<and> lf_lost s' = lf_lost s"
proof -
  let ?r = "lf_documents s ! i" and ?w = "lf_world s"
  from op have i: "i < length (lf_documents s)" "first_path (lf_heap s) path" "hd path = ?r" by simp_all
  from ok have parts: "owners_ok s" "docs_ok s" "mem_ready self (lw_mem ?w)" by (simp_all add: life_ok_def)
  from i(1) parts(2) obtain d where d: "alloc_of s ?r = Some d"
    using nth_mem[OF i(1)] by (fastforce simp: docs_ok_def)
  have "the (alloc_of s ?r) \<in> set (map (the \<circ> alloc_of s) (lf_documents s))" using nth_mem[OF i(1)] by simp
  then have own: "d \<in> set (owned s)" using d by (simp add: owned_def)
  let ?w1 = "?w\<lparr>lw_released := d # lw_released ?w\<rparr>"
  have rel: "memory_allocator_release d ?w = Some ?w1" by (rule release_owned[OF parts(1) own]) simp_all
  let ?s = "s\<lparr>lf_world := ?w1, lf_documents := without_nth i (lf_documents s)\<rparr>"
  have "add_mset d (mset (map (the \<circ> alloc_of s) (without_nth i (lf_documents s)))) = mset (map (the \<circ> alloc_of s) (lf_documents s))"
    using mset_without_nth[of i "map (the \<circ> alloc_of s) (lf_documents s)"] i(1) d by (simp add: take_map drop_map)
  then have "owners_ok ?s" by (intro owners_released[OF parts(1), of _ d]) (simp_all add: owned_def)
  moreover have "docs_ok ?s" by (rule docs_same[OF parts(2)]) (use set_without_nth in simp_all)
  ultimately show ?thesis
    using rel free_nodes[OF parts(2) i(2), of ?w] i(3) d parts(3) by (simp add: XMLFreeDocument_def life_ok_def)
qed

lemma life_process:
  assumes ok: "life_ok self s" and op: "life_possible (Process i ts ns) s"
  shows "\<exists>s'. life_call self (Process i ts ns) s = Some s' \<and> life_ok self s' \<and> lf_lost s' = lf_lost s"
proof -
  let ?p = "fst (lf_processors s ! i)" and ?n = "length (mw_allocators (lw_mem (lf_world s)))"
  from op have i: "i < length (lf_processors s)" "doc_fits s (Some 0) ns" by simp_all
  from ok have parts: "owners_ok s" "mem_ready self (lw_mem (lf_world s))" by (simp_all add: life_ok_def)
  have "?p \<in> set (owned s)" using i(1) by (simp add: owned_def)
  then have "?p \<notin> set (lw_released (lf_world s))" "?p < ?n" using parts(1) unfolding owners_ok_def by auto
  from result_allocator_new[OF this parts(2)] obtain w where
    w: "result_allocator self ?p (lf_global s) (?p \<in> set (lf_ready s)) ts (lf_world s) = Some (?n, w)"
      "lw_released w = lw_released (lf_world s)" "length (mw_allocators (lw_mem w)) = Suc ?n" "mem_ready self (lw_mem w)" by blast
  from life_document[OF ok i(2) w(2,4,3) HOL.refl, of "?p # lf_ready s"] w(1) show ?thesis by (simp add: add_nodes_def Let_def)
qed

lemma life_create_document:
  assumes ok: "life_ok self s"
  shows "\<exists>s'. life_call self CreateDocument s = Some s' \<and> life_ok self s' \<and> lf_lost s' = lf_lost s"
proof -
  let ?n = "length (mw_allocators (lw_mem (lf_world s)))" and ?ns = "[null_node\<lparr>n_name := Some xsl_s_root, n_type := EMPTY_NODE\<rparr>]"
  from ok have parts: "owners_ok s" "mem_ready self (lw_mem (lf_world s))" by (simp_all add: life_ok_def)
  then have "mem_wf (lw_mem (lf_world s))" "\<forall>i<?n. has_entry (lw_mem (lf_world s)) i self" by (simp_all add: mem_ready_def)
  from own_allocator_new[OF this, of 100000] obtain w where w: "own_allocator self 100000 (lf_world s) = Some (?n, w)"
    "lw_released w = lw_released (lf_world s)" "length (mw_allocators (lw_mem w)) = Suc ?n" "mw_current (lw_mem w) = Some ?n"
    "mem_ready self (lw_mem w)" by blast
  have "?n \<notin> set (lw_released w)" using parts(1) w(2) by (auto simp: owners_ok_def)
  from live_new_ready[OF w(5,4) this, of sizeof_XMLNODE] w obtain p w2 where w2: "live_new self sizeof_XMLNODE w = Some (Some p, w2)"
    "lw_released w2 = lw_released (lf_world s)" "length (mw_allocators (lw_mem w2)) = Suc ?n" "mem_ready self (lw_mem w2)" by auto
  have "doc_fits s (Some 0) ?ns" by (simp add: doc_fits_def nodes_fit_def null_node_def)
  from life_document[OF ok this w2(2,4,3) HOL.refl, of "lf_ready s"] w w2 show ?thesis
    by (simp add: create_document_allocator_def add_document_def) (simp add: add_nodes_def)
qed

text \<open>A change of the world that keeps allocators and owners.\<close>

lemma life_world:
  assumes "life_ok self s" "lw_released w = lw_released (lf_world s)"
    "length (mw_allocators (lw_mem w)) = length (mw_allocators (lw_mem (lf_world s)))" "mem_ready self (lw_mem w)"
  shows "life_ok self (s\<lparr>lf_world := w\<rparr>)"
  using assms by (simp add: life_ok_def owners_ok_def owned_def docs_ok_def)

lemma life_work:
  assumes ok: "life_ok self s" and op: "life_possible (Work h) s"
  shows "if life_crash (Work h) s then life_call self (Work h) s = None
    else \<exists>s'. life_call self (Work h) s = Some s' \<and> life_ok self s' \<and> lf_lost s' = lf_lost s"
proof -
  from ok obtain i where mem: "mem_ready self (lw_mem (lf_world s))" and i: "mw_current (lw_mem (lf_world s)) = Some i"
    by (auto simp: life_ok_def mem_ready_def)
  let ?n = "length h - length (lf_heap s)"
  show ?thesis
  proof (cases "life_crash (Work h) s")
    case True
    then obtain n where "?n = Suc n" by (cases ?n) auto
    then have "live_nodes self ?n (lf_world s) = None" using True i by (simp add: live_new_def current_released_def)
    then show ?thesis using True by simp
  next
    case False
    have "\<exists>w. live_nodes self ?n (lf_world s) = Some w \<and> life_ok self (s\<lparr>lf_world := w\<rparr>)"
    proof (cases "?n = 0")
      case True
      then show ?thesis using ok by simp
    next
      case False
      then have "i \<notin> set (lw_released (lf_world s))" using \<open>\<not> life_crash (Work h) s\<close> i by (simp add: current_released_def)
      from live_nodes_ready[OF mem i this, of ?n] life_world[OF ok] show ?thesis by auto
    qed
    then obtain w where w: "live_nodes self ?n (lf_world s) = Some w" "life_ok self (s\<lparr>lf_world := w\<rparr>)" by blast
    let ?s = "s\<lparr>lf_world := w, lf_heap := h, lf_allocs := lf_allocs s @ replicate ?n None\<rparr>"
    from w(2) have parts: "owners_ok (s\<lparr>lf_world := w\<rparr>)" "docs_ok (s\<lparr>lf_world := w\<rparr>)" "mem_ready self (lw_mem w)"
      by (simp_all add: life_ok_def)
    have old: "r < length (lf_heap s) \<Longrightarrow> alloc_of ?s r = alloc_of s r" for r using parts(2) by (simp add: docs_ok_def nth_append)
    have "r < length (lf_heap s)" if "r \<in> set (lf_documents s)" for r using that parts(2) by (simp add: docs_ok_def)
    then have "owned ?s = owned (s\<lparr>lf_world := w\<rparr>)" using old by (simp add: owned_def)
    then have "owners_ok ?s" using parts(1) by (simp add: owners_ok_def)
    moreover have "docs_ok ?s" using parts(2) old op by (fastforce simp: docs_ok_def)
    ultimately have "life_ok self ?s" using parts(3) by (simp add: life_ok_def)
    then show ?thesis using w(1) False by simp
  qed
qed

lemma life_prefix:
  assumes ok: "life_ok self s" and own: "p \<in> set (owned s)"
  shows "\<exists>w. set_prefix_memory self p str (lf_world s) = Some w \<and> life_ok self (s\<lparr>lf_world := w\<rparr>)"
proof -
  let ?w = "lf_world s\<lparr>lw_mem := memory_allocator_set_current p (lw_mem (lf_world s))\<rparr>"
  from own have p: "p \<notin> set (lw_released (lf_world s))" "p < length (mw_allocators (lw_mem (lf_world s)))"
    using ok unfolding life_ok_def owners_ok_def by auto
  then have "mem_ready self (lw_mem ?w)" using ok by (auto simp: life_ok_def mem_ready_def set_current_keeps)
  from live_strdup_ready[OF this, of p str] p life_world[OF ok] show ?thesis
    by (auto simp: set_prefix_memory_def set_current_keeps)
qed

text \<open>A request to the current allocator, as in \<open>XMLParseFile\<close> and \<open>register_function\<close>.\<close>

lemma life_strdup:
  assumes ok: "life_ok self s"
  shows "if current_released s then live_strdup self str (lf_world s) = None
    else \<exists>w. live_strdup self str (lf_world s) = Some w \<and> life_ok self (s\<lparr>lf_world := w\<rparr>)"
proof -
  from ok obtain i where parts: "owners_ok s" "docs_ok s" "mem_ready self (lw_mem (lf_world s))" and i: "mw_current (lw_mem (lf_world s)) = Some i"
    by (auto simp: life_ok_def mem_ready_def)
  show ?thesis
  proof (cases "current_released s")
    case True
    then show ?thesis using live_strdup_released[OF i] i by (simp add: current_released_def)
  next
    case False
    then have "i \<notin> set (lw_released (lf_world s))" using i by (simp add: current_released_def)
    from live_strdup_ready[OF parts(3) i this, of str] obtain w where w: "live_strdup self str (lf_world s) = Some w"
      "lw_released w = lw_released (lf_world s)" "length (mw_allocators (lw_mem w)) = length (mw_allocators (lw_mem (lf_world s)))"
      "mem_ready self (lw_mem w)" by blast
    have "owners_ok (s\<lparr>lf_world := w\<rparr>)" using parts(1) w by (simp add: owners_ok_def owned_def)
    moreover have "docs_ok (s\<lparr>lf_world := w\<rparr>)" by (rule docs_same[OF parts(2)]) simp_all
    ultimately show ?thesis using w False by (simp add: life_ok_def)
  qed
qed

lemma life_call_ok:
  assumes ok: "life_ok self s" and op: "life_possible op s"
  shows "if life_crash op s then life_call self op s = None
    else \<exists>s'. life_call self op s = Some s' \<and> life_ok self s' \<and> length (lf_lost s') = length (lf_lost s) + lost_by op"
proof (cases op)
  case (NewProcessor f outcome)
  show ?thesis
  proof (cases "outcome = Doc_Malformed")
    case True
    then have "new_processor_allocator self f outcome w = None" for w
      by (auto simp: new_processor_allocator_def xml_parse_allocator_def split: bind_splits)
    with NewProcessor True show ?thesis by simp
  next
    case False
    from life_new_processor[OF ok, of outcome f] op NewProcessor False show ?thesis by (cases outcome) simp_all
  qed
next
  case (Process i ts ns)
  with life_process[OF ok, of i ts ns] op show ?thesis by auto
next
  case (ParseDocument outcome)
  have "\<forall>ns. outcome = Doc_Nodes ns \<longrightarrow> doc_fits s (Some 0) ns" using op ParseDocument by (cases outcome) simp_all
  from life_parse[OF ok this] ParseDocument show ?thesis by (auto simp: add_document_def add_nodes_def split: option.split doc_outcome.split)
next
  case (ParseFile f outcome)
  have fits: "\<forall>ns. outcome = Doc_Nodes ns \<longrightarrow> doc_fits s (Some 0) ns" using op ParseFile by (cases outcome) simp_all
  show ?thesis
  proof (cases "current_released s")
    case True
    then show ?thesis using life_strdup[OF ok, of f] op ParseFile by (simp add: XMLParseFile_allocator_def)
  next
    case False
    with life_strdup[OF ok, of f] obtain w where w: "live_strdup self f (lf_world s) = Some w" "life_ok self (s\<lparr>lf_world := w\<rparr>)" by auto
    have "add_document v a outcome (s\<lparr>lf_world := w\<rparr>) = add_document v a outcome s" for v a
      by (simp add: add_document_def add_nodes_def split: option.split doc_outcome.split)
    moreover have "\<forall>ns. outcome = Doc_Nodes ns \<longrightarrow> doc_fits (s\<lparr>lf_world := w\<rparr>) (Some 0) ns" using fits by (simp add: doc_fits_def)
    ultimately show ?thesis using life_parse[OF w(2), of outcome] w(1) False ParseFile
      by (auto simp: XMLParseFile_allocator_def add_document_def add_nodes_def split: option.split doc_outcome.split)
  qed
next
  case CreateDocument
  with life_create_document[OF ok] show ?thesis by auto
next
  case (Register fname)
  with life_strdup[OF ok, of fname] ok show ?thesis by (auto simp: register_function_memory_def)
next
  case (Work h)
  with life_work[OF ok, of h] op show ?thesis by (auto split: if_splits)
next
  case (SetPrefix i prefix)
  then have "fst (lf_processors s ! i) \<in> set (owned s)" using op by (simp add: owned_def)
  from life_prefix[OF ok this, of prefix] SetPrefix show ?thesis by auto
next
  case (EnableCache servers)
  have "lf_global s \<in> set (owned s)" by (simp add: owned_def)
  from life_prefix[OF ok this, of servers] EnableCache show ?thesis by auto
next
  case (FreeProcessor i path)
  with life_free_processor[OF ok, of i path] op show ?thesis by auto
next
  case (FreeDocument i path)
  with life_free_document[OF ok, of i path] op show ?thesis by auto
qed





text \<open>
  Releasing an allocator leaves it the current one: the next request of any thread that is not preceded by
  \<open>memory_allocator_set_current\<close> reads released memory.
\<close>

lemma release_keeps_memory: "memory_allocator_release i w = Some w' \<Longrightarrow> lw_mem w' = lw_mem w \<and> i \<in> set (lw_released w')"
  by (auto simp: memory_allocator_release_def split: if_splits)

lemma free_keeps_memory: "xml_free_document k h allocs doc w = Some w' \<Longrightarrow> lw_mem w' = lw_mem w"
proof (induction k h allocs doc w arbitrary: w' rule: xml_free_document.induct)
  case (2 k h allocs doc w)
  then show ?case by (fastforce simp: release_keeps_memory split: bind_splits option.splits dest: release_keeps_memory)
qed simp

lemma free_processor_current:
  assumes "XSLTFreeProcessor k h allocs stylesheet alloc w = Some w'"
  shows "mw_current (lw_mem w') = Some alloc \<and> alloc \<in> set (lw_released w')"
proof -
  from assms obtain w1 where w1: "xml_free_document k h allocs stylesheet (w\<lparr>lw_mem := memory_allocator_set_current alloc (lw_mem w)\<rparr>) = Some w1"
    "memory_allocator_release alloc w1 = Some w'" by (auto simp: XSLTFreeProcessor_def split: bind_splits)
  with free_keeps_memory[OF w1(1)] release_keeps_memory[OF w1(2)] show ?thesis by (simp add: memory_allocator_set_current_def)
qed

lemma freed_processor_stays_current:
  assumes "XSLTFreeProcessor k h allocs stylesheet alloc w = Some w'"
  shows "live_new self sz w' = None"
  using free_processor_current[OF assms] by (simp add: live_new_def)

text \<open>A program that frees a processor and then parses a file uses released memory.\<close>

lemma parse_file_after_free:
  assumes "life_ok self s" "life_possible (FreeProcessor i path) s"
  shows "\<exists>s'. life_call self (FreeProcessor i path) s = Some s' \<and> life_call self (ParseFile f Doc_Missing) s' = None"
proof -
  from life_free_processor[OF assms] obtain s' where s': "life_call self (FreeProcessor i path) s = Some s'" "life_ok self s'" by blast
  then have "current_released s'" using free_processor_current
    by (auto simp: current_released_def split: bind_splits prod.splits)
  with s' life_call_ok[OF s'(2), of "ParseFile f Doc_Missing"] show ?thesis by auto
qed

text \<open>Linking a new child, as all the functions that build nodes do, gives no node a document as its first child.\<close>

lemma add_child_fits:
  assumes "xml_add_child h node (Some c) = Some h'" "nodes_fit allocs h" "c < length allocs" "allocs ! c = None"
  shows "nodes_fit allocs h'"
proof -
  have keep: "nodes_fit allocs (set_node g i f)" if g: "nodes_fit allocs g" and f: "\<And>m. n_children (f m) = n_children m \<or> n_children (f m) = Some c" for g i f
  proof (cases "i < length g")
    case True
    have "case n_children (f (g ! i)) of None \<Rightarrow> True | Some c \<Rightarrow> c < length allocs \<and> allocs ! c = None"
      using f[of "g ! i"] g True assms(3,4) by (auto simp: nodes_fit_def)
    moreover have "set (set_node g i f) \<subseteq> insert (f (g ! i)) (set g)" by (simp add: set_node_def set_update_subset_insert)
    ultimately show ?thesis using g by (auto simp: nodes_fit_def)
  qed (use g in \<open>simp add: set_node_def list_update_beyond\<close>)
  from assms(1,2) show ?thesis
    by (auto simp: xml_add_child_def upd_def intro!: keep split: bind_splits option.splits if_splits)
qed

end
