(* ===== verification/Tx_Scheduler.thy ===== *)
theory Tx_Scheduler
  imports Tx_Pool Tx_Transform
begin

text \<open>
  template_task.c and the calls of transform.c 657-685 around it: several callers of \<open>XSLTProcess\<close> share one
  thread pool. Each one takes the pool out of the global data while it evaluates the variables, puts it back, and
  then waits on a latch for the tasks of its transformation, or runs the transformation itself when as many callers
  as there are threads are waiting. Which caller or task moves next is not determined. The queue between the start
  and the execution of a task is \<open>Tx_Pool\<close>; here a task is started and ends.
\<close>

subsection \<open>The state\<close>

text \<open>
  Where a caller is: it has read the pool (the flag tells whether it was there), it has written NULL, it has put
  the pool back, it has found a pool and is about to ask for a place, it has a place and is about to create its latch,
  it waits, its latch has let it go and it is about to give the place back, it executes \<open>process_one_node\<close> itself, it
  has returned. Each access to the variable \<open>gctx->pool\<close> is a step of its own; \<open>P_Crash\<close> is the use of NULL as a pool
  (the flag tells whether the caller had a place).
\<close>

datatype phase = P_Saved bool | P_Prepare bool | P_Ready | P_Try | P_Start | P_Wait | P_Leave | P_Inline | P_Done | P_Crash bool

text \<open>\<open>context->workers\<close>, and the number of tasks on the pool that the transformation has started.\<close>

record transformation =
  tr_phase :: phase
  tr_workers :: "u32 option"
  tr_tasks :: nat

text \<open>Whether \<open>gctx->pool\<close> is not NULL; the counter of the pool; the callers, in the order in which they came.\<close>

record scheduler =
  sc_pool :: bool
  sc_counter :: pool_counter
  sc_callers :: "transformation list"

definition scheduler_init :: "nat \<Rightarrow> scheduler" where
  "scheduler_init n = \<lparr>sc_pool = True, sc_counter = \<lparr>pc_threads = n, pc_blocked = 0\<rparr>, sc_callers = []\<rparr>"

abbreviation set_caller :: "nat \<Rightarrow> transformation \<Rightarrow> scheduler \<Rightarrow> scheduler" where
  "set_caller i t s \<equiv> s\<lparr>sc_callers := (sc_callers s)[i := t]\<rparr>"

abbreviation caller :: "scheduler \<Rightarrow> nat \<Rightarrow> transformation" where
  "caller s i \<equiv> sc_callers s ! i"

subsection \<open>The operations\<close>

text \<open>\<open>template_task_run_and_wait\<close>, from one access to \<open>gctx->pool\<close> to the next: the test for NULL.\<close>

definition run_and_wait_check :: "bool \<Rightarrow> transformation \<Rightarrow> transformation" where
  "run_and_wait_check pool t = t\<lparr>tr_phase := (if pool then P_Try else P_Inline)\<rparr>"

text \<open>\<open>thread_pool_try_wait\<close> on the pool read again.\<close>

definition run_and_wait_try :: "bool \<Rightarrow> pool_counter \<Rightarrow> transformation \<Rightarrow> pool_counter \<times> transformation" where
  "run_and_wait_try pool c t =
     (if \<not> pool then (c, t\<lparr>tr_phase := P_Crash False\<rparr>)
      else case thread_pool_try_wait c of
          (False, c') \<Rightarrow> (c', t\<lparr>tr_phase := P_Inline\<rparr>)
        | (True, c') \<Rightarrow> (c', t\<lparr>tr_phase := P_Start\<rparr>))"

text \<open>
  The latch and the first task. \<open>threadpool_start\<close> queues it or, when the pool read again is NULL, runs it here; in
  both cases it has been started and will end before the caller gets past its latch.
\<close>

definition run_and_wait_start :: "transformation \<Rightarrow> transformation" where
  "run_and_wait_start t = t\<lparr>tr_phase := P_Wait, tr_workers := Some shared_variable_create, tr_tasks := 1\<rparr>"

text \<open>\<open>thread_pool_finish_wait\<close> on the pool read again.\<close>

definition run_and_wait_end :: "bool \<Rightarrow> pool_counter \<Rightarrow> transformation \<Rightarrow> pool_counter \<times> transformation" where
  "run_and_wait_end pool c t =
     (if pool then (thread_pool_finish_wait c, t\<lparr>tr_phase := P_Done\<rparr>) else (c, t\<lparr>tr_phase := P_Crash True\<rparr>))"

text \<open>\<open>template_task_run\<close> where it starts a task, and the end of \<open>template_task_function\<close>.\<close>

definition task_start :: "transformation \<Rightarrow> transformation" where
  "task_start t = t\<lparr>tr_workers := map_option shared_variable_increase (tr_workers t), tr_tasks := tr_tasks t + 1\<rparr>"

definition template_task_function :: "transformation \<Rightarrow> transformation" where
  "template_task_function t =
     t\<lparr>tr_workers := map_option (\<lambda>v. fst (shared_variable_decrease v)) (tr_workers t), tr_tasks := tr_tasks t - 1\<rparr>"

inductive sched_step :: "scheduler \<Rightarrow> scheduler \<Rightarrow> bool" where
  begin_process: "sched_step s (s\<lparr>sc_callers := sc_callers s @ [\<lparr>tr_phase = P_Saved (sc_pool s), tr_workers = None, tr_tasks = 0\<rparr>]\<rparr>)"
| pool_off: "i < length (sc_callers s) \<Longrightarrow> tr_phase (caller s i) = P_Saved b \<Longrightarrow>
    sched_step s (set_caller i ((caller s i)\<lparr>tr_phase := P_Prepare b\<rparr>) (s\<lparr>sc_pool := False\<rparr>))"
| pool_on: "i < length (sc_callers s) \<Longrightarrow> tr_phase (caller s i) = P_Prepare b \<Longrightarrow>
    sched_step s (set_caller i ((caller s i)\<lparr>tr_phase := P_Ready\<rparr>) (s\<lparr>sc_pool := b\<rparr>))"
| check: "i < length (sc_callers s) \<Longrightarrow> tr_phase (caller s i) = P_Ready \<Longrightarrow>
    sched_step s (set_caller i (run_and_wait_check (sc_pool s) (caller s i)) s)"
| try_wait: "i < length (sc_callers s) \<Longrightarrow> tr_phase (caller s i) = P_Try \<Longrightarrow>
    run_and_wait_try (sc_pool s) (sc_counter s) (caller s i) = (c, t) \<Longrightarrow>
    sched_step s (set_caller i t (s\<lparr>sc_counter := c\<rparr>))"
| start_wait: "i < length (sc_callers s) \<Longrightarrow> tr_phase (caller s i) = P_Start \<Longrightarrow>
    sched_step s (set_caller i (run_and_wait_start (caller s i)) s)"
| start: "i < length (sc_callers s) \<Longrightarrow> tr_phase (caller s i) = P_Inline \<or> 0 < tr_tasks (caller s i) \<Longrightarrow>
    fst (template_task_place (sc_pool s) mode fork default_parallel) = RUN_PARALLEL \<Longrightarrow>
    tr_tasks (caller s i) + 1 < 2 ^ 32 \<Longrightarrow>
    sched_step s (set_caller i (task_start (caller s i)) s)"
| finish: "i < length (sc_callers s) \<Longrightarrow> 0 < tr_tasks (caller s i) \<Longrightarrow>
    sched_step s (set_caller i (template_task_function (caller s i)) s)"
| leave_inline: "i < length (sc_callers s) \<Longrightarrow> tr_phase (caller s i) = P_Inline \<Longrightarrow>
    sched_step s (set_caller i ((caller s i)\<lparr>tr_phase := P_Done\<rparr>) s)"
| wait_over: "i < length (sc_callers s) \<Longrightarrow> tr_phase (caller s i) = P_Wait \<Longrightarrow>
    tr_workers (caller s i) = Some v \<Longrightarrow> shared_variable_wait_returns v \<Longrightarrow>
    sched_step s (set_caller i ((caller s i)\<lparr>tr_phase := P_Leave\<rparr>) s)"
| leave_wait: "i < length (sc_callers s) \<Longrightarrow> tr_phase (caller s i) = P_Leave \<Longrightarrow>
    run_and_wait_end (sc_pool s) (sc_counter s) (caller s i) = (c, t) \<Longrightarrow>
    sched_step s (set_caller i t (s\<lparr>sc_counter := c\<rparr>))"

text \<open>A crash ends the program: no step leaves a state with a crashed caller.\<close>

abbreviation is_crash :: "transformation \<Rightarrow> bool" where
  "is_crash t \<equiv> tr_phase t = P_Crash True \<or> tr_phase t = P_Crash False"

definition crashed :: "scheduler \<Rightarrow> bool" where
  "crashed s \<longleftrightarrow> list_ex is_crash (sc_callers s)"

inductive sched_reachable :: "nat \<Rightarrow> scheduler \<Rightarrow> bool" for n where
  init: "sched_reachable n (scheduler_init n)"
| step: "sched_reachable n s \<Longrightarrow> \<not> crashed s \<Longrightarrow> sched_step s t \<Longrightarrow> sched_reachable n t"

subsection \<open>The invariant\<close>

text \<open>
  A latch counts the tasks; a caller that waits has one, and it has let the caller go when there was no task; a caller
  that has not got so far has neither.
\<close>

definition caller_ok :: "transformation \<Rightarrow> bool" where
  "caller_ok t \<longleftrightarrow> tr_tasks t < 2 ^ 32 \<and> (\<forall>v. tr_workers t = Some v \<longrightarrow> v = of_nat (tr_tasks t)) \<and>
     (case tr_phase t of
        P_Wait \<Rightarrow> tr_workers t \<noteq> None
      | P_Leave \<Rightarrow> tr_workers t \<noteq> None \<and> tr_tasks t = 0
      | P_Inline \<Rightarrow> tr_workers t = None
      | P_Done \<Rightarrow> tr_workers t \<noteq> None \<longrightarrow> tr_tasks t = 0
      | P_Crash b \<Rightarrow> tr_tasks t = 0
      | _ \<Rightarrow> tr_workers t = None \<and> tr_tasks t = 0)"

text \<open>The callers that have a place among those that may wait.\<close>

fun has_place :: "phase \<Rightarrow> bool" where
  "has_place P_Start = True"
| "has_place P_Wait = True"
| "has_place P_Leave = True"
| "has_place (P_Crash b) = b"
| "has_place _ = False"

definition waiting :: "transformation list \<Rightarrow> nat" where
  "waiting ts = length (filter (\<lambda>t. has_place (tr_phase t)) ts)"

definition sched_ok :: "nat \<Rightarrow> scheduler \<Rightarrow> bool" where
  "sched_ok n s \<longleftrightarrow> (\<forall>t\<in>set (sc_callers s). caller_ok t) \<and> pc_threads (sc_counter s) = n \<and>
     pc_blocked (sc_counter s) = waiting (sc_callers s) \<and> waiting (sc_callers s) \<le> n"

lemma waiting_simps [simp]: "waiting [] = 0" "waiting (ts @ [t]) = waiting ts + (if has_place (tr_phase t) then 1 else 0)"
  by (simp_all add: waiting_def)

lemma waiting_update:
  "i < length ts \<Longrightarrow> waiting (ts[i := t]) + (if has_place (tr_phase (ts ! i)) then 1 else 0) =
     waiting ts + (if has_place (tr_phase t) then 1 else 0)"
proof (induction ts arbitrary: i)
  case (Cons u ts)
  then show ?case by (cases i) (auto simp: waiting_def)
qed simp

text \<open>A step moves one caller; the counter follows it.\<close>

lemma caller_moves:
  assumes "sched_ok n s" "i < length (sc_callers s)" "caller_ok t"
    and "sc_callers s' = (sc_callers s)[i := t]"
    and "pc_threads (sc_counter s') = n"
    and "pc_blocked (sc_counter s') + (if has_place (tr_phase (caller s i)) then 1 else 0) =
           pc_blocked (sc_counter s) + (if has_place (tr_phase t) then 1 else 0)"
    and "pc_blocked (sc_counter s') \<le> n"
  shows "sched_ok n s'"
proof -
  have "\<forall>u\<in>set (sc_callers s'). caller_ok u"
    using assms(1,3) unfolding assms(4) by (auto simp: sched_ok_def dest!: set_update_subset_insert[THEN subsetD])
  moreover have "pc_blocked (sc_counter s') = waiting (sc_callers s')"
    using assms(1,6) waiting_update[OF assms(2), of t] unfolding assms(4) by (auto simp: sched_ok_def)
  ultimately show ?thesis using assms(5,7) by (simp add: sched_ok_def)
qed

text \<open>The moves of a caller that leave the counter alone.\<close>

lemma caller_moves_only:
  assumes "sched_ok n s" "i < length (sc_callers s)" "caller_ok t" "has_place (tr_phase t) = has_place (tr_phase (caller s i))"
    and "sc_callers s' = (sc_callers s)[i := t]" "sc_counter s' = sc_counter s"
  shows "sched_ok n s'"
  using caller_moves[OF assms(1-3,5)] assms(1,4,6) by (simp add: sched_ok_def)

lemma caller_okD: "sched_ok n s \<Longrightarrow> i < length (sc_callers s) \<Longrightarrow> caller_ok (caller s i)"
  by (simp add: sched_ok_def)

lemma phase_ok:
  "caller_ok t \<Longrightarrow> tr_phase t = P_Saved b \<Longrightarrow> caller_ok (t\<lparr>tr_phase := P_Prepare b\<rparr>)"
  "caller_ok t \<Longrightarrow> tr_phase t = P_Prepare b \<Longrightarrow> caller_ok (t\<lparr>tr_phase := P_Ready\<rparr>)"
  "caller_ok t \<Longrightarrow> tr_phase t = P_Inline \<Longrightarrow> caller_ok (t\<lparr>tr_phase := P_Done\<rparr>)"
  "caller_ok t \<Longrightarrow> tr_phase t = P_Ready \<Longrightarrow> caller_ok (run_and_wait_check pool t)"
  "caller_ok t \<Longrightarrow> tr_phase t = P_Start \<Longrightarrow> caller_ok (run_and_wait_start t)"
  by (simp_all add: caller_ok_def run_and_wait_check_def run_and_wait_start_def shared_variable_create_def)

lemma wait_over_ok:
  "caller_ok t \<Longrightarrow> tr_phase t = P_Wait \<Longrightarrow> tr_workers t = Some v \<Longrightarrow> shared_variable_wait_returns v \<Longrightarrow>
   caller_ok (t\<lparr>tr_phase := P_Leave\<rparr>)"
  using of_nat_u32_0[of "tr_tasks t"] by (auto simp: caller_ok_def shared_variable_wait_returns_def)

lemma start_ok: "caller_ok t \<Longrightarrow> tr_phase t = P_Inline \<or> 0 < tr_tasks t \<Longrightarrow> tr_tasks t + 1 < 2 ^ 32 \<Longrightarrow>
    caller_ok (task_start t) \<and> tr_phase (task_start t) = tr_phase t"
  by (auto simp: caller_ok_def task_start_def shared_variable_increase_def split: phase.splits)

lemma finish_ok: "caller_ok t \<Longrightarrow> 0 < tr_tasks t \<Longrightarrow>
    caller_ok (template_task_function t) \<and> tr_phase (template_task_function t) = tr_phase t"
  by (auto simp: caller_ok_def template_task_function_def shared_variable_decrease_def of_nat_diff split: phase.splits)

lemma try_ok:
  assumes "caller_ok t" "tr_phase t = P_Try" "run_and_wait_try pool c t = (c', t')" "pc_blocked c \<le> pc_threads c"
  shows "caller_ok t' \<and> pc_threads c' = pc_threads c \<and> pc_blocked c' \<le> pc_threads c \<and>
    pc_blocked c' = pc_blocked c + (if has_place (tr_phase t') then 1 else 0)"
  using assms by (auto simp: run_and_wait_try_def caller_ok_def thread_pool_try_wait_def split: if_splits)

lemma leave_ok:
  assumes "caller_ok t" "tr_phase t = P_Leave" "run_and_wait_end pool c t = (c', t')"
  shows "caller_ok t' \<and> pc_threads c' = pc_threads c \<and>
    (if has_place (tr_phase t') then c' = c else pc_blocked c' = pc_blocked c - 1)"
  using assms by (auto simp: run_and_wait_end_def caller_ok_def thread_pool_finish_wait_def split: if_splits)

lemma sched_ok_counter: "sched_ok n s \<Longrightarrow> pc_threads (sc_counter s) = n \<and> pc_blocked (sc_counter s) \<le> n"
  by (simp add: sched_ok_def)

lemma sched_step_ok [tx_inv]: "sched_step s t \<Longrightarrow> sched_ok n s \<Longrightarrow> sched_ok n t"
proof (induction rule: sched_step.induct)
  case (begin_process s)
  then show ?case by (auto simp: sched_ok_def caller_ok_def)
next
  case (pool_off i s b)
  from caller_moves_only[OF this(3,1) phase_ok(1)[OF caller_okD[OF this(3,1)] this(2)]] pool_off show ?case by simp
next
  case (pool_on i s b)
  from caller_moves_only[OF this(3,1) phase_ok(2)[OF caller_okD[OF this(3,1)] this(2)]] pool_on show ?case by simp
next
  case (check i s)
  from caller_moves_only[OF this(3,1) phase_ok(4)[OF caller_okD[OF this(3,1)] this(2)]] check show ?case
    by (simp add: run_and_wait_check_def)
next
  case (try_wait i s c t)
  from try_ok[OF caller_okD[OF this(4,1)] this(2,3)] sched_ok_counter[OF try_wait(4)]
  have "caller_ok t" "pc_threads c = n" "pc_blocked c \<le> n"
    "pc_blocked c = pc_blocked (sc_counter s) + (if has_place (tr_phase t) then 1 else 0)" by auto
  with caller_moves[OF try_wait(4,1) this(1)] try_wait(2) show ?case by simp
next
  case (start_wait i s)
  from caller_moves_only[OF this(3,1) phase_ok(5)[OF caller_okD[OF this(3,1)] this(2)]] start_wait show ?case
    by (simp add: run_and_wait_start_def)
next
  case (start i s mode fork default_parallel)
  note t = start_ok[OF caller_okD[OF this(5,1)] this(2,4)]
  show ?case by (rule caller_moves_only[OF start(5,1) conjunct1[OF t]]) (simp_all add: t)
next
  case (finish i s)
  note t = finish_ok[OF caller_okD[OF this(3,1)] this(2)]
  show ?case by (rule caller_moves_only[OF finish(3,1) conjunct1[OF t]]) (simp_all add: t)
next
  case (leave_inline i s)
  from caller_moves_only[OF this(3,1) phase_ok(3)[OF caller_okD[OF this(3,1)] this(2)]] leave_inline show ?case by simp
next
  case (wait_over i s v)
  from caller_moves_only[OF this(5,1) wait_over_ok[OF caller_okD[OF this(5,1)] this(2-4)]] wait_over show ?case by simp
next
  case (leave_wait i s c t)
  from leave_ok[OF caller_okD[OF this(4,1)] this(2,3)] sched_ok_counter[OF leave_wait(4)]
  have t: "caller_ok t" "pc_threads c = n" "if has_place (tr_phase t) then c = sc_counter s else pc_blocked c = pc_blocked (sc_counter s) - 1"
    "pc_blocked (sc_counter s) \<le> n" by auto
  have "0 < waiting (sc_callers s)" using waiting_update[OF leave_wait(1), of "(caller s i)\<lparr>tr_phase := P_Done\<rparr>"] leave_wait(2) by simp
  then have "0 < pc_blocked (sc_counter s)" using leave_wait(4) by (simp add: sched_ok_def)
  with caller_moves[OF leave_wait(4,1) t(1)] t leave_wait(2) show ?case by (simp split: if_splits)
qed

lemma sched_reachable_ok: "sched_reachable n s \<Longrightarrow> sched_ok n s"
proof (induction rule: sched_reachable.induct)
  case init
  then show ?case by (simp add: sched_ok_def scheduler_init_def)
next
  case (step s t)
  then show ?case using sched_step_ok by blast
qed

text \<open>
  C21: a caller gets past its latch only when every task of its transformation, and every task those have started, has
  ended; the counter of the pool is the number of the callers that have a place and stays within the number of threads.
  This holds however callers and tasks interleave and wherever \<open>gctx->pool\<close> changes between two of its reads, up to and
  including a crash.
\<close>

theorem transformation_waits_for_its_tasks:
  assumes "sched_reachable n s"
  shows "(\<forall>i<length (sc_callers s). tr_phase (caller s i) \<in> {P_Leave, P_Done, P_Crash True} \<longrightarrow> tr_workers (caller s i) \<noteq> None \<longrightarrow>
      tr_tasks (caller s i) = 0) \<and>
    pc_blocked (sc_counter s) = waiting (sc_callers s) \<and> pc_blocked (sc_counter s) \<le> n"
proof -
  have ok: "sched_ok n s" using assms by (rule sched_reachable_ok)
  then have "tr_tasks (caller s i) = 0"
    if "i < length (sc_callers s)" "tr_phase (caller s i) \<in> {P_Leave, P_Done, P_Crash True}" "tr_workers (caller s i) \<noteq> None" for i
    using caller_okD[OF ok that(1)] that(2,3) by (auto simp: caller_ok_def)
  with ok show ?thesis by (auto simp: sched_ok_def)
qed

subsection \<open>When every transformation can end\<close>

text \<open>
  A pool that is NULL and that no caller will put back stays lost; a caller that has passed the test for NULL needs the
  pool until it has given its place back.
\<close>

definition pool_lost :: "scheduler \<Rightarrow> bool" where
  "pool_lost s \<longleftrightarrow> \<not> sc_pool s \<and> list_all (\<lambda>t. tr_phase t \<noteq> P_Saved True \<and> tr_phase t \<noteq> P_Prepare True) (sc_callers s)"















text \<open>Once the pool is lost, a caller that needs it never gets to its end.\<close>

lemma lost_moves:
  assumes "pool_lost s" "\<not> sc_pool s'" "sc_callers s' = (sc_callers s)[i := t]"
    and "tr_phase t \<noteq> P_Saved True" "tr_phase t \<noteq> P_Prepare True"
  shows "pool_lost s'"
  using assms unfolding pool_lost_def list_all_iff assms(3) by (auto dest!: set_update_subset_insert[THEN subsetD])

lemma lost_caller: "pool_lost s \<Longrightarrow> i < length (sc_callers s) \<Longrightarrow> tr_phase (caller s i) \<noteq> P_Saved True \<and> tr_phase (caller s i) \<noteq> P_Prepare True"
  by (simp add: pool_lost_def list_all_length)

lemma pool_lost_step: "sched_step s t \<Longrightarrow> pool_lost s \<Longrightarrow> pool_lost t"
proof (induction rule: sched_step.induct)
  case (begin_process s)
  then show ?case by (simp add: pool_lost_def)
next
  case (pool_off i s b)
  have "b = False" using lost_caller[OF pool_off(3,1)] pool_off(2) by auto
  show ?case
    by (rule lost_moves[OF pool_off(3), of _ i "(caller s i)\<lparr>tr_phase := P_Prepare b\<rparr>"]) (simp_all add: \<open>b = False\<close>)
next
  case (pool_on i s b)
  have "b = False" using lost_caller[OF pool_on(3,1)] pool_on(2) by auto
  show ?case
    by (rule lost_moves[OF pool_on(3), of _ i "(caller s i)\<lparr>tr_phase := P_Ready\<rparr>"]) (simp_all add: \<open>b = False\<close>)
next
  case (check i s)
  show ?case by (rule lost_moves[OF check(3), of _ i "run_and_wait_check (sc_pool s) (caller s i)"])
      (use check(3) in \<open>simp_all add: pool_lost_def run_and_wait_check_def\<close>)
next
  case (try_wait i s c t)
  then show ?case
    by (intro lost_moves[OF try_wait(4), of _ i t]) (auto simp: pool_lost_def run_and_wait_try_def)
next
  case (start_wait i s)
  show ?case by (rule lost_moves[OF start_wait(3), of _ i "run_and_wait_start (caller s i)"])
      (use start_wait(3) in \<open>simp_all add: pool_lost_def run_and_wait_start_def\<close>)
next
  case (start i s mode fork default_parallel)
  then show ?case by (auto simp: pool_lost_def template_task_place_def split: if_splits)
next
  case (finish i s)
  show ?case
    by (rule lost_moves[OF finish(3), of _ i "template_task_function (caller s i)"])
      (use lost_caller[OF finish(3,1)] finish(3) in \<open>simp_all add: pool_lost_def template_task_function_def\<close>)
next
  case (leave_inline i s)
  show ?case
    by (rule lost_moves[OF leave_inline(3), of _ i "(caller s i)\<lparr>tr_phase := P_Done\<rparr>"])
      (use leave_inline(3) in \<open>simp_all add: pool_lost_def\<close>)
next
  case (wait_over i s v)
  show ?case
    by (rule lost_moves[OF wait_over(5), of _ i "(caller s i)\<lparr>tr_phase := P_Leave\<rparr>"])
      (use wait_over(5) in \<open>simp_all add: pool_lost_def\<close>)
next
  case (leave_wait i s c t)
  then show ?case
    by (intro lost_moves[OF leave_wait(4), of _ i t]) (auto simp: pool_lost_def run_and_wait_end_def)
qed

lemma pool_lost_steps: "sched_step\<^sup>*\<^sup>* s t \<Longrightarrow> pool_lost s \<Longrightarrow> pool_lost t"
  by (induction rule: rtranclp_induct) (auto intro: pool_lost_step)





subsection \<open>Runs that go wrong\<close>

abbreviation sched_state :: "bool \<Rightarrow> nat \<Rightarrow> transformation list \<Rightarrow> scheduler" where
  "sched_state p b cs \<equiv> \<lparr>sc_pool = p, sc_counter = \<lparr>pc_threads = 1, pc_blocked = b\<rparr>, sc_callers = cs\<rparr>"

abbreviation caller_at :: "phase \<Rightarrow> transformation" where
  "caller_at p \<equiv> \<lparr>tr_phase = p, tr_workers = None, tr_tasks = 0\<rparr>"

lemma sched_next: "sched_reachable n s \<Longrightarrow> sched_step s t \<Longrightarrow> \<not> crashed s \<Longrightarrow> t = u \<Longrightarrow> sched_reachable n u"
  using sched_reachable.step by blast

lemma crashed_simps [simp]: "crashed \<lparr>sc_pool = p, sc_counter = c, sc_callers = ts\<rparr> = list_ex is_crash ts"
  by (auto simp: crashed_def)

text \<open>A caller comes and gets as far as its call of \<open>template_task_run_and_wait\<close>.\<close>

lemma caller_comes:
  assumes "sched_reachable 1 (sched_state True b cs)" "\<not> list_ex is_crash cs"
  shows "sched_reachable 1 (sched_state True b (cs @ [caller_at P_Ready]))"
proof -
  have 1: "sched_reachable 1 (sched_state True b (cs @ [caller_at (P_Saved True)]))"
    by (rule sched_next[OF assms(1) sched_step.begin_process]) (use assms(2) in simp_all)
  have 2: "sched_reachable 1 (sched_state False b (cs @ [caller_at (P_Prepare True)]))"
    by (rule sched_next[OF 1 sched_step.pool_off[where i = "length cs"]]) (use assms(2) in simp_all)
  show ?thesis by (rule sched_next[OF 2 sched_step.pool_on[where i = "length cs"]]) (use assms(2) in simp_all)
qed

abbreviation one_waiting :: transformation where
  "one_waiting \<equiv> \<lparr>tr_phase = P_Wait, tr_workers = Some 1, tr_tasks = 1\<rparr>"

abbreviation one_leaving :: transformation where
  "one_leaving \<equiv> \<lparr>tr_phase = P_Leave, tr_workers = Some 0, tr_tasks = 0\<rparr>"

lemma one_waits: "sched_reachable 1 (sched_state True 1 [one_waiting])"
proof -
  have 1: "sched_reachable 1 (sched_state True 0 [caller_at P_Ready])"
    using caller_comes[of 0 "[]"] sched_reachable.init[of 1] by (simp add: scheduler_init_def)
  have 2: "sched_reachable 1 (sched_state True 0 [caller_at P_Try])"
    by (rule sched_next[OF 1 sched_step.check[where i = 0]]) (simp_all add: run_and_wait_check_def)
  have 3: "sched_reachable 1 (sched_state True 1 [caller_at P_Start])"
    by (rule sched_next[OF 2 sched_step.try_wait[where i = 0]])
      (simp_all add: run_and_wait_try_def thread_pool_try_wait_def)
  show ?thesis
    by (rule sched_next[OF 3 sched_step.start_wait[where i = 0]])
      (simp_all add: run_and_wait_start_def shared_variable_create_def)
qed

text \<open>A call with two tasks that has returned.\<close>

lemma one_returned: "sched_reachable 1 (sched_state True 0 [\<lparr>tr_phase = P_Done, tr_workers = Some 0, tr_tasks = 0\<rparr>])"
proof -
  have 1: "sched_reachable 1 (sched_state True 1 [\<lparr>tr_phase = P_Wait, tr_workers = Some 2, tr_tasks = 2\<rparr>])"
    by (rule sched_next[OF one_waits sched_step.start[where i = 0 and mode = TASK_DEFAULT and fork = None and default_parallel = True]])
      (simp_all add: task_start_def template_task_place_def shared_variable_increase_def)
  have 2: "sched_reachable 1 (sched_state True 1 [one_waiting])"
    by (rule sched_next[OF 1 sched_step.finish[where i = 0]])
      (simp_all add: template_task_function_def shared_variable_decrease_def)
  have 3: "sched_reachable 1 (sched_state True 1 [\<lparr>tr_phase = P_Wait, tr_workers = Some 0, tr_tasks = 0\<rparr>])"
    by (rule sched_next[OF 2 sched_step.finish[where i = 0]])
      (simp_all add: template_task_function_def shared_variable_decrease_def)
  have 4: "sched_reachable 1 (sched_state True 1 [one_leaving])"
    by (rule sched_next[OF 3 sched_step.wait_over[where i = 0 and v = 0]]) (simp_all add: shared_variable_wait_returns_def)
  show ?thesis
    by (rule sched_next[OF 4 sched_step.leave_wait[where i = 0]])
      (simp_all add: run_and_wait_end_def thread_pool_finish_wait_def)
qed

theorem transformation_waits_for_its_tasks_witness:
  "\<exists>s. sched_reachable 1 s \<and> tr_phase (caller s 0) = P_Done \<and> tr_workers (caller s 0) = Some 0 \<and> tr_tasks (caller s 0) = 0 \<and>
    pc_blocked (sc_counter s) = waiting (sc_callers s)"
  using one_returned transformation_waits_for_its_tasks[OF one_returned]
  by (intro exI[of _ "sched_state True 0 [\<lparr>tr_phase = P_Done, tr_workers = Some 0, tr_tasks = 0\<rparr>]"]) simp



text \<open>
  C34: a caller that finds as many callers waiting as the pool has threads transforms without a latch, and returns
  before the tasks it has started: with one thread and two callers the second call can return, and its result be
  read, while one of its tasks is still to run.
\<close>

theorem inline_transformation_returns_early:
  "\<exists>s. sched_reachable 1 s \<and> (\<exists>i<length (sc_callers s). tr_phase (caller s i) = P_Done \<and> 0 < tr_tasks (caller s i))"
proof -
  let ?w = "\<lparr>tr_phase = P_Wait, tr_workers = Some 1, tr_tasks = 1\<rparr>"
  have 1: "sched_reachable 1 (sched_state True 1 [?w, caller_at P_Ready])"
    using caller_comes[OF one_waits] by simp
  have 2: "sched_reachable 1 (sched_state True 1 [?w, caller_at P_Inline])"
  proof -
    have "sched_reachable 1 (sched_state True 1 [?w, caller_at P_Try])"
      by (rule sched_next[OF 1 sched_step.check[where i = 1]]) (simp_all add: run_and_wait_check_def)
    then show ?thesis
      by (rule sched_next[OF _ sched_step.try_wait[where i = 1]]) (simp_all add: run_and_wait_try_def thread_pool_try_wait_def)
  qed
  have 3: "sched_reachable 1 (sched_state True 1 [?w, (caller_at P_Inline)\<lparr>tr_tasks := 1\<rparr>])"
    by (rule sched_next[OF 2 sched_step.start[where i = 1 and mode = TASK_DEFAULT and fork = None and default_parallel = True]])
      (simp_all add: task_start_def template_task_place_def)
  have 4: "sched_reachable 1 (sched_state True 1 [?w, (caller_at P_Done)\<lparr>tr_tasks := 1\<rparr>])"
    by (rule sched_next[OF 3 sched_step.leave_inline[where i = 1]]) simp_all
  show ?thesis by (rule exI, rule conjI[OF 4], rule exI[of _ 1]) simp
qed

text \<open>
  C35: two overlapping calls can lose the pool: the second one reads the NULL that the first one has put there and
  writes it back after the first one has put the pool back. From then on no call uses the pool.
\<close>

theorem overlapping_calls_lose_the_pool:
  "\<exists>s. sched_reachable 1 s \<and> list_all (\<lambda>c. tr_phase c = P_Ready) (sc_callers s) \<and>
     {t. sched_step\<^sup>*\<^sup>* s t} \<subseteq> {t. \<not> sc_pool t}"
proof -
  have 1: "sched_reachable 1 (sched_state True 0 [caller_at (P_Saved True)])"
    by (rule sched_next[OF sched_reachable.init sched_step.begin_process]) (simp_all add: scheduler_init_def)
  have 2: "sched_reachable 1 (sched_state False 0 [caller_at (P_Prepare True)])"
    by (rule sched_next[OF 1 sched_step.pool_off[where i = 0]]) simp_all
  have 3: "sched_reachable 1 (sched_state False 0 [caller_at (P_Prepare True), caller_at (P_Saved False)])"
    by (rule sched_next[OF 2 sched_step.begin_process]) simp_all
  have 4: "sched_reachable 1 (sched_state True 0 [caller_at P_Ready, caller_at (P_Saved False)])"
    by (rule sched_next[OF 3 sched_step.pool_on[where i = 0]]) simp_all
  have 5: "sched_reachable 1 (sched_state False 0 [caller_at P_Ready, caller_at (P_Prepare False)])"
    by (rule sched_next[OF 4 sched_step.pool_off[where i = 1 and b = False]]) simp_all
  have 6: "sched_reachable 1 (sched_state False 0 [caller_at P_Ready, caller_at P_Ready])"
    by (rule sched_next[OF 5 sched_step.pool_on[where i = 1 and b = False]]) simp_all
  have "\<not> sc_pool t" if "sched_step\<^sup>*\<^sup>* (sched_state False 0 [caller_at P_Ready, caller_at P_Ready]) t" for t
    using pool_lost_steps[OF that] by (simp add: pool_lost_def)
  with 6 show ?thesis by (intro exI[of _ "sched_state False 0 [caller_at P_Ready, caller_at P_Ready]"]) auto
qed

end
