(* ===== verification/Tx_Graph.thy ===== *)
theory Tx_Graph
  imports Tx_Dict Tx_XmlRoundtrip Tx_Functions "HOL-Library.Sublist"
begin

text \<open>
  template_task_graph.c: the record of the tasks of a transformation. Each start of a task, or of a part that runs
  in the same task, is an edge from the vertex of the task that runs on the thread to a new vertex; at the end the
  vertices of one context are put together and the graph is written as GraphML. Vertices live on a heap of their own
  and the edges are a list that grows at its end. A NULL graph is \<open>None\<close>.
\<close>

subsection \<open>Recording\<close>

record gvertex =
  gv_id :: nat
  gv_key :: xmls
  gv_color :: "cstring option"
  gv_next :: "nat option"

record gedge =
  ge_label :: cstring
  ge_source :: nat
  ge_target :: nat

text \<open>\<open>tg_current\<close> is the thread-specific vertex.\<close>

record task_graph =
  tg_filename :: cstring
  tg_vertices :: "gvertex list"
  tg_edges :: "gedge list"
  tg_current :: "nat \<Rightarrow> nat option"

text \<open>The address of the context, written with \<open>%p\<close>.\<close>

definition template_task_graph_vertex_key :: "nat \<Rightarrow> xmls" where
  "template_task_graph_vertex_key task = name_of (''0x'' @ show_hex task)"

definition template_task_graph_edge_name :: "heap \<Rightarrow> ref option \<Rightarrow> cstring option" where
  "template_task_graph_edge_name h instruction = do {
     n \<leftarrow> deref h instruction;
     fork \<leftarrow> xml_get_attr h instruction (Some ''t:fork'');
     Some (append_name [] (n_name n) @ (case fork of None \<Rightarrow> [] | Some f \<Rightarrow> '' ['' @ f @ '']''))
   }"

definition template_task_graph_create :: "cstring \<Rightarrow> task_graph" where
  "template_task_graph_create filename =
     \<lparr>tg_filename = filename, tg_vertices = [], tg_edges = [], tg_current = (\<lambda>_. None)\<rparr>"

text \<open>The graph of a processor, which was NULL.\<close>

definition XSLTEnableTaskGraph :: "cstring \<Rightarrow> task_graph option" where
  "XSLTEnableTaskGraph filename = Some (template_task_graph_create filename)"

definition new_vertex :: "nat \<Rightarrow> cstring option \<Rightarrow> gvertex" where
  "new_vertex task color = \<lparr>gv_id = 0, gv_key = template_task_graph_vertex_key task, gv_color = color, gv_next = None\<rparr>"

definition template_task_graph_set_current :: "nat \<Rightarrow> task_graph option \<Rightarrow> nat \<Rightarrow> task_graph option" where
  "template_task_graph_set_current self graph task = map_option (\<lambda>g.
     g\<lparr>tg_vertices := tg_vertices g @ [new_vertex task None],
       tg_current := (tg_current g)(self := Some (length (tg_vertices g)))\<rparr>) graph"

text \<open>\<open>None\<close> is the NULL pointer of an instruction; a thread without a vertex records nothing.\<close>

definition template_task_graph_add ::
  "nat \<Rightarrow> heap \<Rightarrow> task_graph option \<Rightarrow> ref option \<Rightarrow> nat \<Rightarrow> bool \<Rightarrow> task_graph option option" where
  "template_task_graph_add self h graph instruction task forked =
     (case graph of None \<Rightarrow> Some None
      | Some g \<Rightarrow> (case tg_current g self of None \<Rightarrow> Some (Some g)
        | Some source \<Rightarrow> do {
            label \<leftarrow> template_task_graph_edge_name h instruction;
            Some (Some (g\<lparr>tg_vertices := tg_vertices g @ [new_vertex task (Some (if forked then ''green'' else ''red''))],
              tg_edges := tg_edges g @ [\<lparr>ge_label = label, ge_source = source, ge_target = length (tg_vertices g)\<rparr>]\<rparr>))
          }))"

definition template_task_graph_add_parallel where
  "template_task_graph_add_parallel self h graph instruction task = template_task_graph_add self h graph instruction task True"

definition template_task_graph_add_serial where
  "template_task_graph_add_serial self h graph instruction task = template_task_graph_add self h graph instruction task False"

subsection \<open>One vertex for each context\<close>

record vertex_walk =
  vw_dict :: "nat dict"
  vw_vertices :: "gvertex list"
  vw_head :: "nat option"
  vw_tail :: "nat option"
  vw_id :: nat

definition vertex_at :: "gvertex list \<Rightarrow> nat \<Rightarrow> gvertex option" where
  "vertex_at vs v = (if v < length vs then Some (vs ! v) else None)"

text \<open>\<open>tail->next = v\<close>\<close>

definition vertex_link :: "nat option \<Rightarrow> nat \<Rightarrow> gvertex list \<Rightarrow> gvertex list option" where
  "vertex_link tail v vs = do { t \<leftarrow> tail; x \<leftarrow> vertex_at vs t; Some (vs[t := x\<lparr>gv_next := Some v\<rparr>]) }"

text \<open>One end of an edge: the vertex that stands for its context, which is numbered and linked when it is new.\<close>

definition vertex_visit :: "nat \<Rightarrow> vertex_walk \<Rightarrow> (nat \<times> vertex_walk) option" where
  "vertex_visit v w = do {
     x \<leftarrow> vertex_at (vw_vertices w) v;
     found \<leftarrow> dict_find (Some (vw_dict w)) (Some (gv_key x));
     (case found of Some s \<Rightarrow> Some (s, w)
      | None \<Rightarrow> do {
          (b, d) \<leftarrow> dict_add (vw_dict w) (Some (gv_key x)) v;
          let vs = (vw_vertices w)[v := x\<lparr>gv_id := vw_id w\<rparr>];
          let w1 = w\<lparr>vw_dict := d, vw_vertices := vs, vw_id := vw_id w + 1\<rparr>;
          (case vw_head w of
             None \<Rightarrow> Some (v, w1\<lparr>vw_head := Some v, vw_tail := Some v\<rparr>)
           | Some _ \<Rightarrow> do {
               vs1 \<leftarrow> vertex_link (vw_tail w) v vs;
               Some (v, w1\<lparr>vw_vertices := vs1, vw_tail := Some v\<rparr>)
             })
        })
   }"

fun vertexes_loop :: "gedge list \<Rightarrow> vertex_walk \<Rightarrow> (gedge list \<times> vertex_walk) option" where
  "vertexes_loop [] w = Some ([], w)"
| "vertexes_loop (e # es) w = do {
     (s, w1) \<leftarrow> vertex_visit (ge_source e) w;
     (t, w2) \<leftarrow> vertex_visit (ge_target e) w1;
     (es', w3) \<leftarrow> vertexes_loop es w2;
     Some (e\<lparr>ge_source := s, ge_target := t\<rparr> # es', w3)
   }"

definition template_task_graph_vertexes :: "task_graph \<Rightarrow> (nat option \<times> task_graph) option" where
  "template_task_graph_vertexes g = do {
     (es, w) \<leftarrow> vertexes_loop (tg_edges g)
       \<lparr>vw_dict = dict_new 128, vw_vertices = tg_vertices g, vw_head = None, vw_tail = None, vw_id = 1\<rparr>;
     Some (vw_head w, g\<lparr>tg_edges := es, tg_vertices := vw_vertices w\<rparr>)
   }"

subsection \<open>The order in which contexts are met\<close>

fun visit_order :: "(nat \<Rightarrow> byte list) \<Rightarrow> nat list \<Rightarrow> nat list \<Rightarrow> nat list" where
  "visit_order key [] os = os"
| "visit_order key (v # vs) os = visit_order key vs (if key v \<in> key ` set os then os else os @ [v])"

definition endpoints :: "gedge list \<Rightarrow> nat list" where
  "endpoints es = concat (map (\<lambda>e. [ge_source e, ge_target e]) es)"

lemma endpoints_simps [simp]:
  "endpoints [] = []" "endpoints (e # es) = ge_source e # ge_target e # endpoints es"
  "endpoints (es @ es') = endpoints es @ endpoints es'"
  by (simp_all add: endpoints_def)

lemma visit_order_append: "visit_order key (vs @ ws) os = visit_order key ws (visit_order key vs os)"
  by (induction vs arbitrary: os) auto

lemma visit_order_prefix: "prefix os (visit_order key vs os)"
proof (induction vs arbitrary: os)
  case (Cons v vs)
  have "prefix os (if key v \<in> key ` set os then os else os @ [v])" by simp
  from prefix_order.trans[OF this Cons.IH] show ?case by simp
qed simp

lemma visit_order_distinct: "distinct (map key os) \<Longrightarrow> distinct (map key (visit_order key vs os))"
  by (induction vs arbitrary: os) auto

lemma visit_order_set: "set (visit_order key vs os) \<subseteq> set os \<union> set vs"
  by (induction vs arbitrary: os) (fastforce split: if_splits)+

lemma visit_order_keys: "key ` set (visit_order key vs os) = key ` set os \<union> key ` set vs"
  by (induction vs arbitrary: os) (auto simp: image_iff)

lemma visit_order_cong: "\<forall>v\<in>set vs \<union> set os. key v = key' v \<Longrightarrow> visit_order key vs os = visit_order key' vs os"
proof (induction vs arbitrary: os)
  case (Cons v vs)
  have "key ` set os = key' ` set os" using Cons.prems by (auto simp: image_iff)
  with Cons show ?case by auto
qed simp

text \<open>The vertex that stands for a vertex: the one with its key.\<close>

definition stands_for :: "(nat \<Rightarrow> byte list) \<Rightarrow> nat list \<Rightarrow> nat \<Rightarrow> nat" where
  "stands_for key os v = (case find (\<lambda>w. key w = key v) os of None \<Rightarrow> v | Some w \<Rightarrow> w)"

lemma find_prefix: "prefix os os' \<Longrightarrow> find P os = Some w \<Longrightarrow> find P os' = Some w"
proof -
  have "find P os = Some w \<Longrightarrow> find P (os @ ws) = Some w" for ws by (induction os) (auto split: if_splits)
  then show "prefix os os' \<Longrightarrow> find P os = Some w \<Longrightarrow> find P os' = Some w" by (auto simp: prefix_def)
qed

lemma find_key: "key v \<in> key ` set os \<Longrightarrow> \<exists>w\<in>set os. find (\<lambda>w. key w = key v) os = Some w \<and> key w = key v"
  by (induction os) auto

lemma find_own: "distinct (map key os) \<Longrightarrow> v \<in> set os \<Longrightarrow> find (\<lambda>w. key w = key v) os = Some v"
  by (induction os) (auto simp: image_iff)

lemma stands_for_prefix: "prefix os os' \<Longrightarrow> key v \<in> key ` set os \<Longrightarrow> stands_for key os' v = stands_for key os v"
  using find_key[of key v os] find_prefix[of os os'] by (fastforce simp: stands_for_def)

lemma stands_for_mem: "key v \<in> key ` set os \<Longrightarrow> stands_for key os v \<in> set os \<and> key (stands_for key os v) = key v"
  using find_key[of key v os] by (auto simp: stands_for_def)

lemma visit_order_stands_for:
  assumes "distinct (map key os)"
  shows "visit_order key (map (stands_for key (visit_order key vs os)) vs) os = visit_order key vs os"
  using assms
proof (induction vs arbitrary: os)
  case (Cons v vs)
  let ?os = "if key v \<in> key ` set os then os else os @ [v]"
  let ?O = "visit_order key vs ?os"
  have k: "key v \<in> key ` set ?os" by auto
  have s: "stands_for key ?O v = stands_for key ?os v" using stands_for_prefix[OF visit_order_prefix k] .
  have d: "distinct (map key ?os)" using Cons.prems by auto
  have "(if key (stands_for key ?os v) \<in> key ` set os then os else os @ [stands_for key ?os v]) = ?os"
  proof (cases "key v \<in> key ` set os")
    case True
    then show ?thesis using stands_for_mem[of key v os] by auto
  next
    case False
    then have "stands_for key ?os v = v" using find_own[OF d, of v] by (simp add: stands_for_def)
    with False show ?thesis by simp
  qed
  with Cons.IH[OF d] s show ?case by simp
qed simp

subsection \<open>The walk over the edges\<close>

abbreviation vkey :: "gvertex list \<Rightarrow> nat \<Rightarrow> byte list" where
  "vkey vs v \<equiv> xmls_content (gv_key (vs ! v))"

text \<open>Every link that is there is one of the order \<open>O\<close>.\<close>

definition links_ok :: "nat list \<Rightarrow> gvertex list \<Rightarrow> bool" where
  "links_ok ord vs \<longleftrightarrow> (\<forall>v<length vs. gv_next (vs ! v) = None \<or>
     (\<exists>i. Suc i < length ord \<and> v = ord ! i \<and> gv_next (vs ! v) = Some (ord ! Suc i)))"

definition same_vertices :: "gvertex list \<Rightarrow> gvertex list \<Rightarrow> bool" where
  "same_vertices vs vs' \<longleftrightarrow> length vs' = length vs \<and>
     (\<forall>v<length vs. gv_key (vs' ! v) = gv_key (vs ! v) \<and> gv_color (vs' ! v) = gv_color (vs ! v))"

text \<open>The walk has met \<open>os\<close> and will meet \<open>ord\<close>.\<close>

definition walk_ok :: "gvertex list \<Rightarrow> nat list \<Rightarrow> nat list \<Rightarrow> vertex_walk \<Rightarrow> bool" where
  "walk_ok vs ord os w \<longleftrightarrow> same_vertices vs (vw_vertices w) \<and> set os \<subseteq> {..<length vs} \<and> distinct (map (vkey vs) os) \<and>
     dict_inv (vw_dict w) \<and> dict_lookup (vw_dict w) = map_of (map (\<lambda>v. (vkey vs v, v)) os) \<and>
     vw_id w = Suc (length os) \<and> (\<forall>i<length os. gv_id (vw_vertices w ! (os ! i)) = Suc i) \<and>
     (if os = [] then vw_head w = None else vw_head w = Some (hd os) \<and> vw_tail w = Some (last os)) \<and>
     (\<forall>i. Suc i < length os \<longrightarrow> gv_next (vw_vertices w ! (os ! i)) = Some (os ! Suc i)) \<and> links_ok ord (vw_vertices w)"

lemma map_of_find: "map_of (map (\<lambda>v. (key v, v)) os) k = find (\<lambda>w. key w = k) os"
  by (induction os) auto

lemma links_okD:
  "links_ok ord vs \<Longrightarrow> v < length vs \<Longrightarrow> gv_next (vs ! v) = None \<or>
     (\<exists>i. Suc i < length ord \<and> v = ord ! i \<and> gv_next (vs ! v) = Some (ord ! Suc i))"
  by (simp add: links_ok_def)

lemma links_ok_same_next:
  "links_ok ord vs \<Longrightarrow> length vs' = length vs \<Longrightarrow> (\<And>v. v < length vs \<Longrightarrow> gv_next (vs' ! v) = gv_next (vs ! v)) \<Longrightarrow> links_ok ord vs'"
  by (simp add: links_ok_def)

lemma links_ok_link:
  assumes "links_ok ord vs" "Suc i < length ord"
  shows "links_ok ord (vs[ord ! i := x\<lparr>gv_next := Some (ord ! Suc i)\<rparr>])" (is "links_ok ord ?vs")
  unfolding links_ok_def
proof (intro allI impI)
  fix v assume v: "v < length ?vs"
  show "gv_next (?vs ! v) = None \<or> (\<exists>i. Suc i < length ord \<and> v = ord ! i \<and> gv_next (?vs ! v) = Some (ord ! Suc i))"
  proof (cases "v = ord ! i")
    case True
    then show ?thesis using v assms(2) by (intro disjI2 exI[of _ i]) simp
  next
    case False
    then have "?vs ! v = vs ! v" by simp
    then show ?thesis using links_okD[OF assms(1)] v by simp
  qed
qed

lemma prefix_snoc_nth: "prefix (os @ [v]) ord \<Longrightarrow> length os < length ord \<and> ord ! length os = v \<and> (\<forall>i<length os. ord ! i = os ! i)"
  by (auto simp: prefix_def nth_append)

lemma nth_distinct_key: "distinct (map key os) \<Longrightarrow> i < length os \<Longrightarrow> j < length os \<Longrightarrow> os ! i = os ! j \<longleftrightarrow> i = j"
  by (metis distinct_map nth_eq_iff_index_eq)

lemma visit_new:
  assumes ok: "walk_ok vs ord os w" and v: "v < length vs" "vkey vs v \<notin> vkey vs ` set os" "name_ok (gv_key (vs ! v))"
    and pre: "prefix (os @ [v]) ord"
  shows "\<exists>w'. vertex_visit v w = Some (v, w') \<and> walk_ok vs ord (os @ [v]) w'"
proof -
  let ?x = "vw_vertices w ! v"
  let ?vs = "(vw_vertices w)[v := ?x\<lparr>gv_id := vw_id w\<rparr>]"
  from ok have len: "length (vw_vertices w) = length vs" and key: "gv_key ?x = gv_key (vs ! v)" using v(1)
    by (auto simp: walk_ok_def same_vertices_def)
  have new: "dict_lookup (vw_dict w) (vkey vs v) = None"
    using ok v(2) by (auto simp: walk_ok_def map_of_eq_None_iff image_image)
  from xmldict.find[of "vw_dict w" "gv_key (vs ! v)"] ok v(3) new
  have found: "dict_find (Some (vw_dict w)) (Some (gv_key ?x)) = Some None" by (simp add: walk_ok_def key)
  from xmldict.add_new[of "vw_dict w" "gv_key (vs ! v)" v] ok v(3) new obtain d where
    d: "dict_add (vw_dict w) (Some (gv_key ?x)) v = Some (True, d)" "dict_inv d"
    "dict_lookup d = (dict_lookup (vw_dict w))(vkey vs v \<mapsto> v)" by (auto simp: walk_ok_def key)
  have vos: "v \<notin> set os" using v(2) by auto
  have look: "dict_lookup d = map_of (map (\<lambda>v. (vkey vs v, v)) (os @ [v]))"
  proof
    fix k
    have "find (\<lambda>w. vkey vs w = k) (os @ [v]) = (if vkey vs v = k then Some v else find (\<lambda>w. vkey vs w = k) os)"
      using v(2) by (induction os) auto
    then show "dict_lookup d k = map_of (map (\<lambda>v. (vkey vs v, v)) (os @ [v])) k"
      using ok d(3) by (auto simp: walk_ok_def map_of_find simp del: map_append map_of_append)
  qed
  have ids: "gv_id (?vs ! ((os @ [v]) ! i)) = Suc i" if "i < Suc (length os)" for i
    using ok that v(1) len vos by (auto simp: walk_ok_def nth_append nth_list_update less_Suc_eq)
  have next0: "gv_next (?vs ! u) = gv_next (vw_vertices w ! u)" if "u < length vs" for u
    using that v(1) len by (simp add: nth_list_update)
  have links: "links_ok ord ?vs"
    using links_ok_same_next[of ord "vw_vertices w" ?vs] next0 ok len by (simp add: walk_ok_def)
  show ?thesis
  proof (cases "os = []")
    case True
    then show ?thesis using ok found d look ids links v(1) len
      by (intro exI[of _ "w\<lparr>vw_dict := d, vw_vertices := ?vs, vw_id := vw_id w + 1, vw_head := Some v, vw_tail := Some v\<rparr>"])
        (auto simp: walk_ok_def vertex_visit_def vertex_at_def same_vertices_def nth_list_update)
  next
    case False
    let ?t = "last os"
    have "?t \<in> set os" using False by simp
    then have t: "?t < length vs" "?t \<noteq> v" using ok vos by (auto simp: walk_ok_def)
    let ?ws = "?vs[?t := (?vs ! ?t)\<lparr>gv_next := Some v\<rparr>]"
    let ?w = "w\<lparr>vw_dict := d, vw_vertices := ?ws, vw_id := vw_id w + 1, vw_tail := Some v\<rparr>"
    have run: "vertex_visit v w = Some (v, ?w)"
      using ok found d(1) v(1) len t False by (simp add: vertex_visit_def vertex_at_def vertex_link_def walk_ok_def)
    have n: "length os < length ord" "ord ! length os = v" "\<And>i. i < length os \<Longrightarrow> ord ! i = os ! i"
      using prefix_snoc_nth[OF pre] by auto
    have "?t = ord ! (length os - 1)" using False n(3)[of "length os - 1"] by (simp add: last_conv_nth)
    then have "links_ok ord ?ws"
      using links_ok_link[OF links, of "length os - 1" "?vs ! ?t"] False n(1,2) by (simp add: Suc_diff_1)
    moreover have "same_vertices vs ?ws" using ok v(1) t by (auto simp: walk_ok_def same_vertices_def nth_list_update)
    moreover have "gv_id (?ws ! ((os @ [v]) ! i)) = Suc i" if "i < Suc (length os)" for i
    proof -
      have "gv_id (?ws ! u) = gv_id (?vs ! u)" for u using t len by (cases "u = ?t") simp_all
      with ids[OF that] show ?thesis by simp
    qed
    moreover have "gv_next (?ws ! ((os @ [v]) ! i)) = Some ((os @ [v]) ! Suc i)" if i: "Suc i < Suc (length os)" for i
    proof (cases "Suc i = length os")
      case True
      then have "os ! i = ?t" using False by (metis last_conv_nth diff_Suc_1)
      with True t len show ?thesis by (simp add: nth_append)
    next
      case neq: False
      then have "Suc i < length os" using i by simp
      moreover then have "os ! i \<noteq> ?t"
        using nth_distinct_key[of "vkey vs" os i "length os - 1"] ok False by (auto simp: walk_ok_def last_conv_nth)
      moreover have "os ! i \<in> set os" using calculation(1) by simp
      then have "os ! i < length vs" using ok by (auto simp: walk_ok_def)
      ultimately show ?thesis using ok next0[of "os ! i"] len by (simp add: nth_append walk_ok_def nth_list_update_neq)
    qed
    ultimately have "walk_ok vs ord (os @ [v]) ?w"
      using ok d(2) look v(1,2) False by (simp add: walk_ok_def)
    with run show ?thesis by blast
  qed
qed

lemma visit_ok:
  assumes ok: "walk_ok vs ord os w" and v: "v < length vs" "name_ok (gv_key (vs ! v))"
    and pre: "prefix (visit_order (vkey vs) [v] os) ord"
  shows "\<exists>w'. vertex_visit v w = Some (stands_for (vkey vs) ord v, w') \<and> walk_ok vs ord (visit_order (vkey vs) [v] os) w'"
proof (cases "vkey vs v \<in> vkey vs ` set os")
  case True
  then obtain u where u: "find (\<lambda>u. vkey vs u = vkey vs v) os = Some u" using find_key[of "vkey vs" v os] by auto
  have "gv_key (vw_vertices w ! v) = gv_key (vs ! v)" "v < length (vw_vertices w)"
    using ok v(1) by (auto simp: walk_ok_def same_vertices_def)
  then have "vertex_visit v w = Some (u, w)"
    using ok v u xmldict.find[of "vw_dict w" "gv_key (vs ! v)"]
    by (simp add: vertex_visit_def vertex_at_def walk_ok_def map_of_find)
  moreover have "stands_for (vkey vs) ord v = u"
    using find_prefix[OF pre] u True by (simp add: stands_for_def)
  ultimately show ?thesis using True ok by simp
next
  case False
  have d: "distinct (map (vkey vs) (os @ [v]))" using ok False by (auto simp: walk_ok_def)
  have "find (\<lambda>u. vkey vs u = vkey vs v) ord = Some v"
    using find_prefix[OF pre] find_own[OF d, of v] False by simp
  then have "stands_for (vkey vs) ord v = v" by (simp add: stands_for_def)
  with visit_new[OF ok v(1) False v(2)] pre False show ?thesis by simp
qed

definition redirect :: "gvertex list \<Rightarrow> nat list \<Rightarrow> gedge \<Rightarrow> gedge" where
  "redirect vs ord e = e\<lparr>ge_source := stands_for (vkey vs) ord (ge_source e), ge_target := stands_for (vkey vs) ord (ge_target e)\<rparr>"

lemma vertexes_loop_ok:
  assumes "walk_ok vs ord os w" "\<forall>v\<in>set (endpoints es). v < length vs \<and> name_ok (gv_key (vs ! v))"
    and "visit_order (vkey vs) (endpoints es) os = ord"
  shows "\<exists>w'. vertexes_loop es w = Some (map (redirect vs ord) es, w') \<and> walk_ok vs ord ord w'"
  using assms
proof (induction es arbitrary: os w)
  case (Cons e es)
  let ?o1 = "visit_order (vkey vs) [ge_source e] os"
  let ?o2 = "visit_order (vkey vs) [ge_target e] ?o1"
  have o: "visit_order (vkey vs) (endpoints es) ?o2 = ord" using Cons.prems(3) by simp
  then have p2: "prefix ?o2 ord" using visit_order_prefix by blast
  have p1: "prefix ?o1 ord" using prefix_order.trans[OF visit_order_prefix p2] .
  from visit_ok[OF Cons.prems(1) _ _ p1] Cons.prems(2) obtain w1 where
    w1: "vertex_visit (ge_source e) w = Some (stands_for (vkey vs) ord (ge_source e), w1)" "walk_ok vs ord ?o1 w1" by auto
  from visit_ok[OF w1(2) _ _ p2] Cons.prems(2) obtain w2 where
    w2: "vertex_visit (ge_target e) w1 = Some (stands_for (vkey vs) ord (ge_target e), w2)" "walk_ok vs ord ?o2 w2" by auto
  from Cons.IH[OF w2(2) _ o] Cons.prems(2) obtain w3 where
    "vertexes_loop es w2 = Some (map (redirect vs ord) es, w3)" "walk_ok vs ord ord w3" by auto
  with w1(1) w2(1) show ?case by (auto simp: redirect_def simp del: visit_order.simps)
qed auto

subsection \<open>The graphs that recording builds\<close>

definition graph_order :: "task_graph \<Rightarrow> nat list" where
  "graph_order g = visit_order (vkey (tg_vertices g)) (endpoints (tg_edges g)) []"

definition graph_ok :: "task_graph \<Rightarrow> bool" where
  "graph_ok g \<longleftrightarrow> (\<forall>v\<in>set (endpoints (tg_edges g)). v < length (tg_vertices g)) \<and>
     (\<forall>v<length (tg_vertices g). name_ok (gv_key (tg_vertices g ! v))) \<and>
     (\<forall>v<length (tg_vertices g). gv_color (tg_vertices g ! v) \<in> {None, Some ''green'', Some ''red''}) \<and>
     links_ok (graph_order g) (tg_vertices g) \<and> (\<forall>t v. tg_current g t = Some v \<longrightarrow> v < length (tg_vertices g))"

lemma graph_ok_create [tx_inv]: "graph_ok (template_task_graph_create filename)"
  by (simp add: graph_ok_def template_task_graph_create_def graph_order_def links_ok_def)

lemma links_ok_grow:
  assumes "links_ok ord vs" "prefix ord ord'" "gv_next x = None"
  shows "links_ok ord' (vs @ [x])"
  unfolding links_ok_def
proof (intro allI impI)
  fix v assume "v < length (vs @ [x])"
  then consider "v < length vs" | "v = length vs" by fastforce
  then show "gv_next ((vs @ [x]) ! v) = None \<or>
      (\<exists>i. Suc i < length ord' \<and> v = ord' ! i \<and> gv_next ((vs @ [x]) ! v) = Some (ord' ! Suc i))"
  proof cases
    case 1
    from links_okD[OF assms(1) 1] show ?thesis
    proof
      assume "\<exists>i. Suc i < length ord \<and> v = ord ! i \<and> gv_next (vs ! v) = Some (ord ! Suc i)"
      then obtain i where i: "Suc i < length ord" "v = ord ! i" "gv_next (vs ! v) = Some (ord ! Suc i)" by blast
      then have "Suc i < length ord' \<and> v = ord' ! i \<and> gv_next ((vs @ [x]) ! v) = Some (ord' ! Suc i)"
        using assms(2) 1 by (auto simp: prefix_def nth_append)
      then show ?thesis by blast
    qed (use 1 in \<open>simp add: nth_append\<close>)
  next
    case 2
    then show ?thesis using assms(3) by simp
  qed
qed

lemma graph_order_new_vertex:
  assumes "\<forall>v\<in>set (endpoints es). v < length vs"
  shows "visit_order (vkey (vs @ [x])) (endpoints es) [] = visit_order (vkey vs) (endpoints es) []"
  by (rule visit_order_cong) (use assms in \<open>auto simp: nth_append\<close>)

lemma new_vertex_simps [simp]: "gv_next (new_vertex task c) = None" "gv_color (new_vertex task c) = c" "name_ok (gv_key (new_vertex task c))"
  by (simp_all add: new_vertex_def template_task_graph_vertex_key_def)

lemma graph_ok_set_current [tx_inv]:
  assumes "graph_ok g" "template_task_graph_set_current self (Some g) task = Some g'"
  shows "graph_ok g'"
  using assms graph_order_new_vertex[of "tg_edges g" "tg_vertices g" "new_vertex task None"]
    links_ok_grow[of "graph_order g" "tg_vertices g" "graph_order g" "new_vertex task None"]
  by (fastforce simp: template_task_graph_set_current_def graph_ok_def graph_order_def nth_append less_Suc_eq split: if_splits)

lemma graph_ok_add [tx_inv]:
  assumes ok: "graph_ok g" and run: "template_task_graph_add self h (Some g) instruction task forked = Some (Some g')"
  shows "graph_ok g'"
proof (cases "tg_current g self")
  case None
  with ok run show ?thesis by (simp add: template_task_graph_add_def)
next
  case (Some source)
  let ?x = "new_vertex task (Some (if forked then ''green'' else ''red''))"
  from run Some obtain label where g': "g' = g\<lparr>tg_vertices := tg_vertices g @ [?x],
      tg_edges := tg_edges g @ [\<lparr>ge_label = label, ge_source = source, ge_target = length (tg_vertices g)\<rparr>]\<rparr>"
    by (auto simp: template_task_graph_add_def split: bind_splits)
  have "prefix (graph_order g) (graph_order g')"
    using graph_order_new_vertex[of "tg_edges g" "tg_vertices g" ?x] ok visit_order_prefix
    unfolding graph_order_def g' by (simp add: visit_order_append graph_ok_def del: visit_order.simps)
  then have "links_ok (graph_order g') (tg_vertices g')"
    using links_ok_grow[of "graph_order g" "tg_vertices g" "graph_order g'" ?x] ok by (simp add: g' graph_ok_def)
  with ok Some show ?thesis by (fastforce simp: g' graph_ok_def nth_append less_Suc_eq)
qed

text \<open>The list of the vertices, from its head.\<close>

fun vertex_chain :: "nat \<Rightarrow> gvertex list \<Rightarrow> nat option \<Rightarrow> nat list option" where
  "vertex_chain k vs None = Some []"
| "vertex_chain 0 vs (Some v) = None"
| "vertex_chain (Suc k) vs (Some v) = do {
     x \<leftarrow> vertex_at vs v;
     r \<leftarrow> vertex_chain k vs (gv_next x);
     Some (v # r)
   }"

lemma chain_from:
  assumes "\<forall>i. Suc i < length ord \<longrightarrow> gv_next (vs ! (ord ! i)) = Some (ord ! Suc i)"
    and "gv_next (vs ! last ord) = None" "set ord \<subseteq> {..<length vs}"
  shows "i < length ord \<Longrightarrow> length ord - i \<le> k \<Longrightarrow> vertex_chain k vs (Some (ord ! i)) = Some (drop i ord)"
proof (induction k arbitrary: i)
  case (Suc k)
  have "ord ! i < length vs" using Suc.prems assms(3) nth_mem by blast
  moreover have "vertex_chain k vs (gv_next (vs ! (ord ! i))) = Some (drop (Suc i) ord)"
  proof (cases "Suc i < length ord")
    case True
    with Suc assms(1) show ?thesis by simp
  next
    case False
    then have "length ord = Suc i" using Suc.prems(1) by linarith
    then have "ord ! i = last ord" by (subst last_conv_nth) auto
    with False assms(2) show ?thesis by simp
  qed
  ultimately show ?case using Suc.prems(1) by (simp add: vertex_at_def Cons_nth_drop_Suc)
qed simp

text \<open>The vertices of the order, numbered from 1 and linked; the edges end at them; the graph can go on recording.\<close>

lemma vertexes_ok:
  assumes ok: "graph_ok g"
  defines "ord \<equiv> graph_order g"
  shows "\<exists>vs p. template_task_graph_vertexes g = Some (p, g\<lparr>tg_edges := map (redirect (tg_vertices g) ord) (tg_edges g), tg_vertices := vs\<rparr>) \<and>
    same_vertices (tg_vertices g) vs \<and> (\<forall>i<length ord. gv_id (vs ! (ord ! i)) = Suc i) \<and>
    vertex_chain (length vs) vs p = Some ord \<and>
    graph_ok (g\<lparr>tg_edges := map (redirect (tg_vertices g) ord) (tg_edges g), tg_vertices := vs\<rparr>)"
proof -
  let ?vs = "tg_vertices g"
  let ?w = "\<lparr>vw_dict = dict_new 128, vw_vertices = ?vs, vw_head = None, vw_tail = None, vw_id = 1\<rparr> :: vertex_walk"
  have "walk_ok ?vs ord [] ?w"
    using ok xmldict.empty[of 128] by (simp add: walk_ok_def same_vertices_def graph_ok_def ord_def)
  from vertexes_loop_ok[OF this, of "tg_edges g"] ok obtain w where
    w: "vertexes_loop (tg_edges g) ?w = Some (map (redirect ?vs ord) (tg_edges g), w)" "walk_ok ?vs ord ord w"
    by (auto simp: graph_ok_def ord_def graph_order_def)
  let ?us = "vw_vertices w"
  let ?g = "g\<lparr>tg_edges := map (redirect ?vs ord) (tg_edges g), tg_vertices := ?us\<rparr>"
  from w(2) have same: "same_vertices ?vs ?us" and ids: "\<forall>i<length ord. gv_id (?us ! (ord ! i)) = Suc i"
    and sub: "set ord \<subseteq> {..<length ?vs}" and dis: "distinct (map (vkey ?vs) ord)"
    and nxt: "\<forall>i. Suc i < length ord \<longrightarrow> gv_next (?us ! (ord ! i)) = Some (ord ! Suc i)" and links: "links_ok ord ?us"
    by (auto simp: walk_ok_def)
  have len: "length ?us = length ?vs" using same by (simp add: same_vertices_def)
  have chain: "vertex_chain (length ?us) ?us (vw_head w) = Some ord"
  proof (cases "ord = []")
    case True
    then show ?thesis using w(2) by (cases "length ?us") (simp_all add: walk_ok_def)
  next
    case False
    have "last ord < length ?us" using False sub len by (metis last_in_set lessThan_iff subsetD)
    from links_okD[OF links this] have "gv_next (?us ! last ord) = None"
    proof
      assume "\<exists>i. Suc i < length ord \<and> last ord = ord ! i \<and> gv_next (?us ! last ord) = Some (ord ! Suc i)"
      then obtain i where "Suc i < length ord" "ord ! (length ord - 1) = ord ! i" using False by (auto simp: last_conv_nth)
      then show ?thesis using nth_distinct_key[OF dis, of "length ord - 1" i] False by fastforce
    qed
    moreover have "length ord \<le> length ?us"
      using card_mono[OF _ sub] dis len by (simp add: distinct_map distinct_card)
    moreover have "vw_head w = Some (ord ! 0)" using w(2) False by (simp add: walk_ok_def hd_conv_nth)
    ultimately show ?thesis using chain_from[OF nxt, of 0 "length ?us"] False sub len by simp
  qed
  have ends: "endpoints (map (redirect ?vs ord) es) = map (stands_for (vkey ?vs) ord) (endpoints es)" for es
    by (induction es) (auto simp: redirect_def)
  have key: "vkey ?us v = vkey ?vs v" if "v < length ?vs" for v using same that by (simp add: same_vertices_def)
  have rep: "stands_for (vkey ?vs) ord v \<in> set ord" if "v \<in> set (endpoints (tg_edges g))" for v
    using stands_for_mem[of "vkey ?vs" v ord] that visit_order_keys[of "vkey ?vs" "endpoints (tg_edges g)" "[]"]
    by (auto simp: ord_def graph_order_def)
  have "graph_order ?g = visit_order (vkey ?vs) (map (stands_for (vkey ?vs) ord) (endpoints (tg_edges g))) []"
    unfolding graph_order_def
    by (simp add: ends, rule visit_order_cong) (use key rep sub in auto)
  also have "\<dots> = ord"
    using visit_order_stands_for[of "vkey ?vs" "[]" "endpoints (tg_edges g)"] by (simp add: ord_def graph_order_def)
  finally have "graph_ok ?g"
    using ok links rep sub len same by (auto simp: graph_ok_def ends same_vertices_def)
  with w(1) same ids chain show ?thesis by (auto simp: template_task_graph_vertexes_def)
qed

subsection \<open>GraphML\<close>

text \<open>A node under construction is its pointer and the heap.\<close>

definition new_element :: "cstring \<Rightarrow> heap \<Rightarrow> ref \<times> heap" where
  "new_element name h = xml_new_node h (Some name) ELEMENT_NODE"

text \<open>A new attribute in front of the others.\<close>

definition with_attribute :: "cstring \<Rightarrow> cstring \<Rightarrow> ref \<times> heap \<Rightarrow> ref \<times> heap" where
  "with_attribute name value r = (case r of (e, h) \<Rightarrow>
     let (a, h1) = xml_new_node h (Some name) ATTRIBUTE_NODE;
         h2 = set_node h1 a (\<lambda>n. n\<lparr>n_content := Some value, n_next := n_attributes (h1 ! e)\<rparr>)
     in (e, set_node h2 e (\<lambda>n. n\<lparr>n_attributes := Some a\<rparr>)))"

definition with_text :: "cstring \<Rightarrow> ref \<times> heap \<Rightarrow> ref \<times> heap" where
  "with_text s r = (case r of (e, h) \<Rightarrow>
     let (t, h1) = xml_new_node h None TEXT_NODE;
         h2 = set_node h1 t (\<lambda>n. n\<lparr>n_content := Some s\<rparr>)
     in (e, set_node h2 e (\<lambda>n. n\<lparr>n_children := Some t\<rparr>)))"

definition with_child :: "(heap \<Rightarrow> ref \<times> heap) \<Rightarrow> ref \<times> heap \<Rightarrow> ref \<times> heap" where
  "with_child b r = (case r of (e, h) \<Rightarrow>
     let (c, h1) = b h in (e, set_node h1 e (\<lambda>n. n\<lparr>n_children := Some c\<rparr>)))"

definition template_task_graph_color_key :: "heap \<Rightarrow> ref \<times> heap" where
  "template_task_graph_color_key h =
     (let r = new_element ''key'' h;
          r1 = with_attribute ''id'' ''d0'' r;
          r2 = with_attribute ''for'' ''node'' r1;
          r3 = with_attribute ''attr.name'' ''color'' r2
      in with_attribute ''attr.type'' ''string'' r3)"

definition template_task_graph_name_key :: "heap \<Rightarrow> ref \<times> heap" where
  "template_task_graph_name_key h =
     (let r = new_element ''key'' h;
          r1 = with_attribute ''id'' ''d1'' r;
          r2 = with_attribute ''for'' ''edge'' r1;
          r3 = with_attribute ''attr.name'' ''name'' r2
      in with_attribute ''attr.type'' ''string'' r3)"

definition template_task_graph_color_data :: "cstring option \<Rightarrow> heap \<Rightarrow> ref \<times> heap" where
  "template_task_graph_color_data color h =
     with_text (case color of None \<Rightarrow> ''yellow'' | Some c \<Rightarrow> c) (with_attribute ''key'' ''d0'' (new_element ''data'' h))"

definition template_task_graph_name_data :: "cstring \<Rightarrow> heap \<Rightarrow> ref \<times> heap" where
  "template_task_graph_name_data label h = with_text label (with_attribute ''key'' ''d1'' (new_element ''data'' h))"

text \<open>The bodies of the two loops of \<open>template_task_graph_save\<close>.\<close>

definition graph_node_element :: "gvertex \<Rightarrow> heap \<Rightarrow> ref \<times> heap" where
  "graph_node_element x h =
     with_child (template_task_graph_color_data (gv_color x))
       (with_attribute ''id'' (''n'' @ show_nat (gv_id x)) (new_element ''node'' h))"

definition graph_edge_element :: "gvertex list \<Rightarrow> nat \<Rightarrow> gedge \<Rightarrow> heap \<Rightarrow> ref \<times> heap" where
  "graph_edge_element vs i e h =
     (let r1 = with_attribute ''id'' (''e'' @ show_nat i) (new_element ''edge'' h);
          r2 = with_attribute ''source'' (''n'' @ show_nat (gv_id (vs ! ge_source e))) r1;
          r3 = with_attribute ''target'' (''n'' @ show_nat (gv_id (vs ! ge_target e))) r2
      in with_child (template_task_graph_name_data (ge_label e)) r3)"

text \<open>\<open>last_child->next = x; last_child = x\<close> for one element after the other.\<close>

fun link_elements :: "(heap \<Rightarrow> ref \<times> heap) list \<Rightarrow> ref \<Rightarrow> heap \<Rightarrow> heap" where
  "link_elements [] last_child h = h"
| "link_elements (b # bs) last_child h =
     (let (x, h1) = b h in link_elements bs x (set_node h1 last_child (\<lambda>n. n\<lparr>n_next := Some x\<rparr>)))"

text \<open>The elements behind the first key: the second key, the nodes, the edges numbered from 1.\<close>

definition graph_elements :: "gvertex list \<Rightarrow> nat list \<Rightarrow> gedge list \<Rightarrow> (heap \<Rightarrow> ref \<times> heap) list" where
  "graph_elements vs ord es =
     template_task_graph_name_key # map (\<lambda>v. graph_node_element (vs ! v)) ord @
     map (\<lambda>(i, e). graph_edge_element vs i e) (enumerate 1 es)"

text \<open>
  The output context while the graph is written: XML with a declaration and without a document type. The result is
  the name of the file and its contents.
\<close>

definition graph_context :: "out_context \<Rightarrow> out_context" where
  "graph_context ctx = ctx\<lparr>o_mode := MODE_XML, o_omit_desc := False, o_standalone := False, o_doctype_public := None\<rparr>"

definition template_task_graph_save ::
  "nat \<Rightarrow> out_context \<Rightarrow> task_graph option \<Rightarrow> heap \<Rightarrow> ((cstring \<times> cstring) option \<times> task_graph option \<times> heap) option" where
  "template_task_graph_save k ctx graph h =
     (case graph of None \<Rightarrow> Some (None, None, h)
      | Some g \<Rightarrow> do {
          let (root, h1) = with_attribute ''edgedefault'' ''directed'' (new_element ''graphml'' h);
          let (first, h2) = template_task_graph_color_key h1;
          let h3 = set_node h2 root (\<lambda>n. n\<lparr>n_children := Some first\<rparr>);
          (p, g1) \<leftarrow> template_task_graph_vertexes g;
          ord \<leftarrow> vertex_chain (length (tg_vertices g1)) (tg_vertices g1) p;
          let h4 = link_elements (graph_elements (tg_vertices g1) ord (tg_edges g1)) first h3;
          s \<leftarrow> XMLOutput k (graph_context ctx) h4 (Some root);
          Some (Some (tg_filename g, s @ [CHR 0x0A]), Some g1, h4)
        })"

subsection \<open>The document that is built\<close>

fun node_rep :: "heap \<Rightarrow> ref \<Rightarrow> xml \<Rightarrow> bool" where
  "node_rep h c (X_elem n as ks) \<longleftrightarrow> c < length h \<and> n_type (h ! c) = ELEMENT_NODE \<and> n_name (h ! c) = Some n \<and>
     attrs_rep (Suc c) h (n_attributes (h ! c)) as \<and> doc_rep (Suc c) h (n_children (h ! c)) ks"
| "node_rep h c (X_text s) \<longleftrightarrow> False"

text \<open>A new node behind the heap \<open>h\<close>, which is left as it was.\<close>

definition built :: "heap \<Rightarrow> ref \<times> heap \<Rightarrow> xml \<Rightarrow> bool" where
  "built h r t \<longleftrightarrow> (case r of (c, h') \<Rightarrow> c = length h \<and> length h < length h' \<and> (\<forall>i<length h. h' ! i = h ! i) \<and>
     n_next (h' ! c) = None \<and> node_rep h' c t)"

lemma built_new: "built h (new_element n h) (X_elem n [] [])"
  by (simp add: built_def new_element_def xml_new_node_def null_node_def nth_append)

lemma node_frame:
  assumes "length h \<le> length h'" "\<And>i. c < i \<Longrightarrow> i < length h \<Longrightarrow> h' ! i = h ! i"
  shows "attrs_rep (Suc c) h p as \<Longrightarrow> attrs_rep (Suc c) h' p as" "doc_rep (Suc c) h q ts \<Longrightarrow> doc_rep (Suc c) h' q ts"
  using attrs_rep_frame[of "Suc c" "Suc c" h h'] doc_rep_frame[of "Suc c" "Suc c" h h'] assms by auto

lemma built_attribute:
  assumes "built h r (X_elem n as ks)"
  shows "built h (with_attribute a v r) (X_elem n ((a, v) # as) ks)"
proof -
  obtain h' where r: "r = (length h, h')" and b: "length h < length h'" "\<forall>i<length h. h' ! i = h ! i" "n_next (h' ! length h) = None"
    "node_rep h' (length h) (X_elem n as ks)" using assms by (cases r) (auto simp: built_def)
  obtain k where k: "with_attribute a v r = (length h, k)" "length k = Suc (length h')"
    "\<And>i. i < length h' \<Longrightarrow> i \<noteq> length h \<Longrightarrow> k ! i = h' ! i"
    "k ! length h = (h' ! length h)\<lparr>n_attributes := Some (length h')\<rparr>"
    "n_name (k ! length h') = Some a" "n_content (k ! length h') = Some v" "n_next (k ! length h') = n_attributes (h' ! length h)"
    using b(1) by (auto simp: with_attribute_def r xml_new_node_def nth_set_node nth_append)
  from b(4) k node_frame[of h' k "length h"] have "node_rep k (length h) (X_elem n ((a, v) # as) ks)" by simp
  with k b show ?thesis by (simp add: built_def)
qed

lemma built_text:
  assumes "built h r (X_elem n as [])"
  shows "built h (with_text s r) (X_elem n as [X_text s])"
proof -
  obtain h' where r: "r = (length h, h')" and b: "length h < length h'" "\<forall>i<length h. h' ! i = h ! i" "n_next (h' ! length h) = None"
    "node_rep h' (length h) (X_elem n as [])" using assms by (cases r) (auto simp: built_def)
  obtain k where k: "with_text s r = (length h, k)" "length k = Suc (length h')"
    "\<And>i. i < length h' \<Longrightarrow> i \<noteq> length h \<Longrightarrow> k ! i = h' ! i"
    "k ! length h = (h' ! length h)\<lparr>n_children := Some (length h')\<rparr>"
    "n_type (k ! length h') = TEXT_NODE" "n_flags (k ! length h') = 0" "n_content (k ! length h') = Some s" "n_next (k ! length h') = None"
    using b(1) by (auto simp: with_text_def r xml_new_node_def nth_set_node nth_append null_node_def)
  from b(4) k node_frame[of h' k "length h"] have "node_rep k (length h) (X_elem n as [X_text s])" by simp
  with k b show ?thesis by (simp add: built_def)
qed

lemma built_forest:
  assumes "built h (c, h') t" "lo \<le> c"
  shows "doc_rep lo h' (Some c) [t]"
proof (cases t)
  case (X_elem n as ks)
  then show ?thesis
    using assms attrs_rep_frame[of lo "Suc c" h' h'] doc_rep_frame[of lo "Suc c" h' h'] by (auto simp: built_def)
qed (use assms in \<open>simp add: built_def\<close>)

lemma built_child:
  assumes "built h r (X_elem n as [])" "\<And>h. built h (b h) t"
  shows "built h (with_child b r) (X_elem n as [t])"
proof -
  obtain h' where r: "r = (length h, h')" and b: "length h < length h'" "\<forall>i<length h. h' ! i = h ! i" "n_next (h' ! length h) = None"
    "node_rep h' (length h) (X_elem n as [])" using assms by (cases r) (auto simp: built_def)
  obtain k where k: "b h' = (length h', k)" using assms(2)[of h'] by (cases "b h'") (auto simp: built_def)
  from assms(2)[of h'] k have c: "length h' < length k" "\<forall>i<length h'. k ! i = h' ! i" by (auto simp: built_def)
  let ?k = "set_node k (length h) (\<lambda>n. n\<lparr>n_children := Some (length h')\<rparr>)"
  have "doc_rep (Suc (length h)) k (Some (length h')) [t]"
    using built_forest[OF assms(2)[of h', unfolded k], of "Suc (length h)"] b(1) by simp
  then have "doc_rep (Suc (length h)) ?k (Some (length h')) [t]"
    using node_frame(2)[of k ?k "length h"] b(1) c(1) by (simp add: nth_set_node)
  moreover have "attrs_rep (Suc (length h)) ?k (n_attributes (h' ! length h)) as"
    using node_frame(1)[of h' ?k "length h"] b c by (simp add: nth_set_node)
  ultimately have "node_rep ?k (length h) (X_elem n as [t])" using b c by (simp add: nth_set_node)
  then show ?thesis using b c by (simp add: built_def with_child_def r k nth_set_node)
qed

text \<open>A node that was built and whose successor was set later, with the list behind it.\<close>

lemma node_then_rest:
  assumes n: "node_rep h c t" and h': "length h \<le> length h'" "\<And>i. c < i \<Longrightarrow> i < length h \<Longrightarrow> h' ! i = h ! i"
    "h' ! c = (h ! c)\<lparr>n_next := q\<rparr>" and rest: "doc_rep lo h' q ts" "lo \<le> c"
  shows "doc_rep lo h' (Some c) (t # ts)"
proof (cases t)
  case (X_elem n as ks)
  have "attrs_rep lo h' r as" if "attrs_rep (Suc c) h r as" for r
    using attrs_rep_frame[of lo "Suc c" h h'] that h' rest(2) by simp
  moreover have "doc_rep lo h' r ks" if "doc_rep (Suc c) h r ks" for r
    using doc_rep_frame[of lo "Suc c" h h'] that h' rest(2) by simp
  ultimately show ?thesis using n h' rest by (auto simp: X_elem)
qed (use n in simp)

lemma link_elements_built:
  assumes "list_all2 (\<lambda>b t. \<forall>h. built h (b h) t) bs ts" "last_child < length h" "n_next (h ! last_child) = None"
  shows "\<exists>h' p. link_elements bs last_child h = h' \<and> length h \<le> length h' \<and> (\<forall>i<length h. i \<noteq> last_child \<longrightarrow> h' ! i = h ! i) \<and>
    h' ! last_child = (h ! last_child)\<lparr>n_next := p\<rparr> \<and> doc_rep (length h) h' p ts"
  using assms
proof (induction bs ts arbitrary: last_child h rule: list_all2_induct)
  case Nil
  then show ?case by (intro exI[of _ h] exI[of _ None]) simp
next
  case (Cons b bs t ts)
  obtain h1 where h1: "b h = (length h, h1)" using Cons.hyps(1)[rule_format, of h] by (cases "b h") (auto simp: built_def)
  from Cons.hyps(1)[rule_format, of h] h1
  have c: "length h < length h1" "\<forall>i<length h. h1 ! i = h ! i" "n_next (h1 ! length h) = None" "node_rep h1 (length h) t"
    by (auto simp: built_def)
  let ?h2 = "set_node h1 last_child (\<lambda>n. n\<lparr>n_next := Some (length h)\<rparr>)"
  have "length h < length ?h2" "n_next (?h2 ! length h) = None" using c Cons.prems by (simp_all add: nth_set_node)
  from Cons.IH[OF this] obtain h' p where
    h': "link_elements bs (length h) ?h2 = h'" "length ?h2 \<le> length h'" "\<forall>i<length ?h2. i \<noteq> length h \<longrightarrow> h' ! i = ?h2 ! i"
      "h' ! length h = (?h2 ! length h)\<lparr>n_next := p\<rparr>" "doc_rep (length ?h2) h' p ts" by blast
  have same: "h' ! i = h1 ! i" if "length h < i" "i < length h1" for i
    using that h'(3) Cons.prems(1) by (simp add: nth_set_node)
  have c': "h' ! length h = (h1 ! length h)\<lparr>n_next := p\<rparr>" using h'(4) c(1) Cons.prems(1) by (simp add: nth_set_node)
  have rest: "doc_rep (length h) h' p ts"
    using doc_rep_frame[of "length h" "length ?h2" h' h' p ts] h'(5) c(1) by simp
  have "doc_rep (length h) h' (Some (length h)) (t # ts)"
    by (rule node_then_rest[OF c(4) _ same c' rest]) (use h'(2) in simp_all)
  moreover have "h' ! last_child = (h ! last_child)\<lparr>n_next := Some (length h)\<rparr>"
    using h'(3) c(1,2) Cons.prems(1) by (simp add: nth_set_node)
  moreover have "h' ! i = h ! i" if "i < length h" "i \<noteq> last_child" for i
    using h'(3) c(1,2) that by (simp add: nth_set_node)
  ultimately show ?case using h1 h'(1,2) c(1) by (intro exI[of _ h'] exI[of _ "Some (length h)"]) simp
qed

subsection \<open>The file\<close>

text \<open>What was recorded: for each edge its label and the context and the colour at its ends.\<close>

type_synonym graph_end = "byte list \<times> cstring option"

definition end_of :: "gvertex list \<Rightarrow> nat \<Rightarrow> graph_end" where
  "end_of vs v = (vkey vs v, gv_color (vs ! v))"

definition recorded :: "task_graph \<Rightarrow> (cstring \<times> graph_end \<times> graph_end) list" where
  "recorded g = map (\<lambda>e. (ge_label e, end_of (tg_vertices g) (ge_source e), end_of (tg_vertices g) (ge_target e))) (tg_edges g)"

text \<open>The specification: one node for each context, as it was first met, and the edges between their numbers.\<close>

fun first_met :: "('k \<times> 'c) list \<Rightarrow> ('k \<times> 'c) list" where
  "first_met [] = []"
| "first_met (x # xs) = x # filter (\<lambda>y. fst y \<noteq> fst x) (first_met xs)"

definition context_number :: "('k \<times> 'c) list \<Rightarrow> 'k \<Rightarrow> nat" where
  "context_number ns k = Suc (length (takeWhile (\<lambda>n. fst n \<noteq> k) ns))"

definition key_xml :: "cstring \<Rightarrow> cstring \<Rightarrow> cstring \<Rightarrow> xml" where
  "key_xml i f n = X_elem ''key'' [(''attr.type'', ''string''), (''attr.name'', n), (''for'', f), (''id'', i)] []"

definition data_xml :: "cstring \<Rightarrow> cstring \<Rightarrow> xml" where
  "data_xml k s = X_elem ''data'' [(''key'', k)] [X_text s]"

definition node_xml :: "nat \<Rightarrow> cstring option \<Rightarrow> xml" where
  "node_xml i c = X_elem ''node'' [(''id'', ''n'' @ show_nat i)] [data_xml ''d0'' (case c of None \<Rightarrow> ''yellow'' | Some s \<Rightarrow> s)]"

definition edge_xml :: "nat \<Rightarrow> cstring \<Rightarrow> nat \<Rightarrow> nat \<Rightarrow> xml" where
  "edge_xml i label s t =
     X_elem ''edge'' [(''target'', ''n'' @ show_nat t), (''source'', ''n'' @ show_nat s), (''id'', ''e'' @ show_nat i)]
       [data_xml ''d1'' label]"

definition graph_xml :: "(cstring \<times> graph_end \<times> graph_end) list \<Rightarrow> xml" where
  "graph_xml es = (let ns = first_met (concat (map (\<lambda>(l, s, t). [s, t]) es)) in
     X_elem ''graphml'' [(''edgedefault'', ''directed'')]
       (key_xml ''d0'' ''node'' ''color'' # key_xml ''d1'' ''edge'' ''name'' #
        map (\<lambda>(i, n). node_xml i (snd n)) (enumerate 1 ns) @
        map (\<lambda>(i, l, s, t). edge_xml i l (context_number ns (fst s)) (context_number ns (fst t))) (enumerate 1 es)))"

lemma visit_order_first_met:
  fixes col :: "nat \<Rightarrow> 'c"
  shows
  "map (\<lambda>v. (key v, col v)) (visit_order key vs os) =
     map (\<lambda>v. (key v, col v)) os @ filter (\<lambda>x. fst x \<notin> key ` set os) (first_met (map (\<lambda>v. (key v, col v)) vs))"
proof (induction vs arbitrary: os)
  case (Cons v vs)
  let ?F = "first_met (map (\<lambda>v. (key v, col v)) vs)"
  show ?case
  proof (cases "key v \<in> key ` set os")
    case True
    then have "(\<lambda>x :: byte list \<times> 'c. fst x \<noteq> key v \<and> fst x \<notin> key ` set os) = (\<lambda>x. fst x \<notin> key ` set os)"
      "(\<lambda>x :: byte list \<times> 'c. fst x \<notin> key ` set os \<and> fst x \<noteq> key v) = (\<lambda>x. fst x \<notin> key ` set os)" by auto
    then have "filter (\<lambda>x. fst x \<notin> key ` set os) (filter (\<lambda>y. fst y \<noteq> key v) ?F) = filter (\<lambda>x. fst x \<notin> key ` set os) ?F"
      by (simp only: filter_filter)
    with True Cons.IH[of os] show ?thesis by (simp del: filter_filter)
  next
    case False
    have "(\<lambda>x :: byte list \<times> 'c. fst x \<notin> key ` set (os @ [v])) = (\<lambda>x. fst x \<noteq> key v \<and> fst x \<notin> key ` set os)"
      by (auto simp: fun_eq_iff)
    then have "filter (\<lambda>x. fst x \<notin> key ` set (os @ [v])) ?F =
        filter (\<lambda>x. fst x \<notin> key ` set os) (filter (\<lambda>y. fst y \<noteq> key v) ?F)"
      by (simp only: filter_filter)
    with False Cons.IH[of "os @ [v]"] show ?thesis by (simp del: filter_filter set_append)
  qed
qed simp

lemma graph_order_met:
  "map (end_of (tg_vertices g)) (graph_order g) = first_met (concat (map (\<lambda>(l, s, t). [s, t]) (recorded g)))"
proof -
  have "map (end_of vs) (endpoints es) =
      concat (map (\<lambda>(l, s, t). [s, t]) (map (\<lambda>e. (ge_label e, end_of vs (ge_source e), end_of vs (ge_target e))) es))" for vs es
    by (induction es) auto
  then show ?thesis
    using visit_order_first_met[of "vkey (tg_vertices g)" "\<lambda>v. gv_color (tg_vertices g ! v)" "endpoints (tg_edges g)" "[]"]
    by (simp add: graph_order_def recorded_def end_of_def[abs_def])
qed

lemma stands_for_number:
  assumes "vkey vs v \<in> vkey vs ` set ord"
  shows "\<exists>i<length ord. stands_for (vkey vs) ord v = ord ! i \<and> Suc i = context_number (map (end_of vs) ord) (vkey vs v)"
  using assms
proof (induction ord)
  case (Cons w ord)
  show ?case
  proof (cases "vkey vs w = vkey vs v")
    case True
    then show ?thesis by (intro exI[of _ 0]) (simp add: stands_for_def context_number_def end_of_def)
  next
    case False
    with Cons obtain i where "i < length ord" "stands_for (vkey vs) ord v = ord ! i"
      "Suc i = context_number (map (end_of vs) ord) (vkey vs v)" by auto
    with False show ?thesis by (intro exI[of _ "Suc i"]) (auto simp: stands_for_def context_number_def end_of_def[abs_def])
  qed
qed simp

lemma key_xml_built:
  "built h (template_task_graph_color_key h) (key_xml ''d0'' ''node'' ''color'')"
  "built h (template_task_graph_name_key h) (key_xml ''d1'' ''edge'' ''name'')"
  unfolding template_task_graph_color_key_def template_task_graph_name_key_def key_xml_def Let_def
  by (intro built_attribute built_new)+

lemma node_xml_built: "built h (graph_node_element x h) (node_xml (gv_id x) (gv_color x))"
  unfolding graph_node_element_def node_xml_def template_task_graph_color_data_def[abs_def] data_xml_def
  by (intro built_child built_text built_attribute built_new)

lemma edge_xml_built:
  "built h (graph_edge_element vs i e h) (edge_xml i (ge_label e) (gv_id (vs ! ge_source e)) (gv_id (vs ! ge_target e)))"
  unfolding graph_edge_element_def edge_xml_def template_task_graph_name_data_def[abs_def] data_xml_def Let_def
  by (intro built_child built_text built_attribute built_new)

lemma graph_elements_built:
  "list_all2 (\<lambda>b t. \<forall>h. built h (b h) t) (graph_elements vs ord es)
     (key_xml ''d1'' ''edge'' ''name'' # map (\<lambda>v. node_xml (gv_id (vs ! v)) (gv_color (vs ! v))) ord @
      map (\<lambda>(i, e). edge_xml i (ge_label e) (gv_id (vs ! ge_source e)) (gv_id (vs ! ge_target e))) (enumerate 1 es))"
  unfolding graph_elements_def
  by (auto simp: list_all2_map1 list_all2_map2 list_all2_same key_xml_built node_xml_built edge_xml_built intro!: list_all2_appendI)

text \<open>The numbered vertices and the redirected edges give the nodes and edges of the specification.\<close>

lemma graph_xml_elements:
  assumes ok: "graph_ok g" and same: "same_vertices (tg_vertices g) vs"
    and ids: "\<forall>i<length (graph_order g). gv_id (vs ! (graph_order g ! i)) = Suc i"
  defines "ord \<equiv> graph_order g" and "ns \<equiv> first_met (concat (map (\<lambda>(l, s, t). [s, t]) (recorded g)))"
  shows "map (\<lambda>v. node_xml (gv_id (vs ! v)) (gv_color (vs ! v))) ord = map (\<lambda>(i, n). node_xml i (snd n)) (enumerate 1 ns)"
    and "map (\<lambda>(i, e). edge_xml i (ge_label e) (gv_id (vs ! ge_source e)) (gv_id (vs ! ge_target e)))
        (enumerate 1 (map (redirect (tg_vertices g) ord) (tg_edges g))) =
      map (\<lambda>(i, l, s, t). edge_xml i l (context_number ns (fst s)) (context_number ns (fst t))) (enumerate 1 (recorded g))"
proof -
  let ?vs = "tg_vertices g"
  have ns: "ns = map (end_of ?vs) ord" unfolding ns_def ord_def by (rule graph_order_met[symmetric])
  have sub: "set ord \<subseteq> {..<length ?vs}"
    using ok visit_order_set[of "vkey ?vs" "endpoints (tg_edges g)" "[]"] by (auto simp: ord_def graph_order_def graph_ok_def)
  show "map (\<lambda>v. node_xml (gv_id (vs ! v)) (gv_color (vs ! v))) ord = map (\<lambda>(i, n). node_xml i (snd n)) (enumerate 1 ns)"
  proof (rule nth_equalityI)
    fix i assume "i < length (map (\<lambda>v. node_xml (gv_id (vs ! v)) (gv_color (vs ! v))) ord)"
    then have i: "i < length ord" by simp
    then have "ord ! i < length ?vs" using sub nth_mem by blast
    with i ids same show "map (\<lambda>v. node_xml (gv_id (vs ! v)) (gv_color (vs ! v))) ord ! i =
        map (\<lambda>(i, n). node_xml i (snd n)) (enumerate 1 ns) ! i"
      by (simp add: ns nth_enumerate_eq end_of_def ord_def same_vertices_def)
  qed (simp add: ns)
  have num: "gv_id (vs ! stands_for (vkey ?vs) ord v) = context_number ns (vkey ?vs v)" if "v \<in> set (endpoints (tg_edges g))" for v
  proof -
    have "vkey ?vs v \<in> vkey ?vs ` set ord"
      using that visit_order_keys[of "vkey ?vs" "endpoints (tg_edges g)" "[]"] by (auto simp: ord_def graph_order_def)
    from stands_for_number[OF this] ids show ?thesis by (auto simp: ns ord_def)
  qed
  have "map (\<lambda>(i, e). edge_xml i (ge_label e) (gv_id (vs ! ge_source e)) (gv_id (vs ! ge_target e)))
        (enumerate n (map (redirect ?vs ord) es)) =
      map (\<lambda>(i, l, s, t). edge_xml i l (context_number ns (fst s)) (context_number ns (fst t)))
        (enumerate n (map (\<lambda>e. (ge_label e, end_of ?vs (ge_source e), end_of ?vs (ge_target e))) es))"
    if "set (endpoints es) \<subseteq> set (endpoints (tg_edges g))" for n es
    using that by (induction es arbitrary: n) (auto simp: redirect_def num end_of_def)
  from this[of "tg_edges g" 1] show "map (\<lambda>(i, e). edge_xml i (ge_label e) (gv_id (vs ! ge_source e)) (gv_id (vs ! ge_target e)))
        (enumerate 1 (map (redirect (tg_vertices g) ord) (tg_edges g))) =
      map (\<lambda>(i, l, s, t). edge_xml i l (context_number ns (fst s)) (context_number ns (fst t))) (enumerate 1 (recorded g))"
    unfolding recorded_def by simp
qed

text \<open>The document of the graph: the root with its attribute, the first key, and the list of elements behind it.\<close>

lemma graph_document_built:
  assumes root: "with_attribute ''edgedefault'' ''directed'' (new_element ''graphml'' h) = (r, h1)"
    and key: "template_task_graph_color_key h1 = (c, h2)" and es: "list_all2 (\<lambda>b t. \<forall>h. built h (b h) t) es ts"
  defines "h3 \<equiv> set_node h2 r (\<lambda>n. n\<lparr>n_children := Some c\<rparr>)"
  shows "doc_rep 0 (link_elements es c h3) (Some r)
    [X_elem ''graphml'' [(''edgedefault'', ''directed'')] (key_xml ''d0'' ''node'' ''color'' # ts)]"
proof -
  have "built h (r, h1) (X_elem ''graphml'' [(''edgedefault'', ''directed'')] [])"
    unfolding root[symmetric] by (intro built_attribute built_new)
  then have a: "r = length h" "r < length h1" "n_next (h1 ! r) = None" "n_type (h1 ! r) = ELEMENT_NODE"
    "n_name (h1 ! r) = Some ''graphml''" "attrs_rep (Suc r) h1 (n_attributes (h1 ! r)) [(''edgedefault'', ''directed'')]"
    by (auto simp: built_def)
  from key_xml_built(1)[of h1, unfolded key] have c: "c = length h1" "c < length h2" "\<forall>i<length h1. h2 ! i = h1 ! i"
    "n_next (h2 ! c) = None" "node_rep h2 c (key_xml ''d0'' ''node'' ''color'')" by (auto simp: built_def)
  have len: "length h3 = length h2" by (simp add: h3_def)
  have "c < length h3" "n_next (h3 ! c) = None" using a(2) c by (simp_all add: h3_def nth_set_node)
  from link_elements_built[OF es this] obtain h4 q where
    h4: "link_elements es c h3 = h4" "length h3 \<le> length h4" "\<forall>i<length h3. i \<noteq> c \<longrightarrow> h4 ! i = h3 ! i"
      "h4 ! c = (h3 ! c)\<lparr>n_next := q\<rparr>" "doc_rep (length h3) h4 q ts" by blast
  have old: "h4 ! i = h2 ! i" if "i < length h2" "i \<noteq> c" "i \<noteq> r" for i
    using h4(3) that len by (simp add: h3_def nth_set_node)
  have "doc_rep (Suc r) h4 (Some c) (key_xml ''d0'' ''node'' ''color'' # ts)"
  proof (rule node_then_rest[OF c(5)])
    show "h4 ! c = (h2 ! c)\<lparr>n_next := q\<rparr>" using h4(4) a(2) c(1,2) by (simp add: h3_def nth_set_node)
    show "doc_rep (Suc r) h4 q ts"
      using doc_rep_frame[of "Suc r" "length h3" h4 h4 q ts] h4(5) a(2) c(1,2) len by simp
  qed (use h4(2) len old a(2) c(1) in auto)
  moreover have "attrs_rep (Suc r) h4 (n_attributes (h1 ! r)) [(''edgedefault'', ''directed'')]"
    using node_frame(1)[OF _ _ a(6), of h4] old h4(2) c(1-3) len by simp
  moreover have "h4 ! r = (h1 ! r)\<lparr>n_children := Some c\<rparr>"
    using h4(3) a(2) c(1-3) len by (simp add: h3_def nth_set_node)
  ultimately have "node_rep h4 r (X_elem ''graphml'' [(''edgedefault'', ''directed'')] (key_xml ''d0'' ''node'' ''color'' # ts))"
    "n_next (h4 ! r) = None" using a(2-5) c(1,2) h4(2) len by simp_all
  then show ?thesis unfolding h4(1) by (intro node_then_rest[of h4]) simp_all
qed

text \<open>
  C24: the saved file. For every graph that recording can build, the file holds a GraphML document with
  one node for each context that was met, in the order in which they were met and numbered from 1, and one edge for
  each recorded start, in order, between the numbers of its contexts. The graph can go on recording and be saved
  again.
\<close>

theorem task_graph_file:
  assumes ok: "graph_ok g" and ctx: "o_rawout ctx = 0" and k: "xml_depth [graph_xml (recorded g)] \<le> k"
  shows "\<exists>g' h'. template_task_graph_save k ctx (Some g) h =
      Some (Some (tg_filename g, xml_declaration (graph_context ctx) @ show_xml [graph_xml (recorded g)] @ [CHR 0x0A]), Some g', h') \<and>
    graph_ok g'"
proof -
  let ?vs = "tg_vertices g" and ?ord = "graph_order g"
  from vertexes_ok[OF ok] obtain vs p where v:
    "template_task_graph_vertexes g = Some (p, g\<lparr>tg_edges := map (redirect ?vs ?ord) (tg_edges g), tg_vertices := vs\<rparr>)"
    "same_vertices ?vs vs" "\<forall>i<length ?ord. gv_id (vs ! (?ord ! i)) = Suc i" "vertex_chain (length vs) vs p = Some ?ord"
    "graph_ok (g\<lparr>tg_edges := map (redirect ?vs ?ord) (tg_edges g), tg_vertices := vs\<rparr>)" by blast
  define es where "es = map (redirect ?vs ?ord) (tg_edges g)"
  obtain r h1 c h2 where h: "with_attribute ''edgedefault'' ''directed'' (new_element ''graphml'' h) = (r, h1)"
    "template_task_graph_color_key h1 = (c, h2)" by (meson surj_pair)
  let ?h4 = "link_elements (graph_elements vs ?ord es) c (set_node h2 r (\<lambda>n. n\<lparr>n_children := Some c\<rparr>))"
  from graph_document_built[OF h graph_elements_built, of vs ?ord es]
  have "doc_rep 0 ?h4 (Some r) [graph_xml (recorded g)]"
    using graph_xml_elements[OF ok v(2,3)] by (simp only: graph_xml_def es_def Let_def)
  from output_node_rec_rep[OF this k]
  have "XMLOutput k (graph_context ctx) ?h4 (Some r) = Some (xml_declaration (graph_context ctx) @ show_xml [graph_xml (recorded g)])"
    using ctx by (simp add: XMLOutput_def graph_context_def split: option.split)
  then show ?thesis using v(1,4,5) h by (auto simp: template_task_graph_save_def es_def)
qed

text \<open>Two starts of tasks by the task of one thread, the second one in a context that was met before.\<close>

definition sample_instruction :: heap where
  "sample_instruction = [null_node\<lparr>n_type := ELEMENT_NODE, n_name := Some ''xsl:for-each''\<rparr>]"

definition sample_graph :: "task_graph option" where
  "sample_graph = do {
     let g0 = template_task_graph_set_current 1 (Some (template_task_graph_create ''g.xml'')) 16;
     g1 \<leftarrow> template_task_graph_add 1 sample_instruction g0 (Some 0) 17 True;
     g2 \<leftarrow> template_task_graph_add 1 sample_instruction g1 (Some 0) 16 False;
     g2
   }"

lemma sample_graph_ok: "\<exists>g. sample_graph = Some g \<and> graph_ok g \<and> tg_filename g = ''g.xml'' \<and>
    recorded g = [(''xsl:for-each'', (''0x10'', None), (''0x11'', Some ''green'')), (''xsl:for-each'', (''0x10'', None), (''0x10'', Some ''red''))]"
proof -
  obtain g0 where g0: "template_task_graph_set_current 1 (Some (template_task_graph_create ''g.xml'')) 16 = Some g0" "graph_ok g0"
    using graph_ok_set_current[OF graph_ok_create] by (auto simp: template_task_graph_set_current_def)
  have n: "template_task_graph_edge_name sample_instruction (Some 0) = Some ''xsl:for-each''" by code_simp
  have run: "\<exists>g1. template_task_graph_add 1 sample_instruction (Some g) (Some 0) t m = Some (Some g1) \<and> graph_ok g1"
    if "graph_ok g" for g t m
    using graph_ok_add[OF that, of 1 sample_instruction "Some 0" t m] that n
    by (cases "tg_current g 1") (auto simp: template_task_graph_add_def)
  from run[OF g0(2), of 17 True] obtain g1 where g1: "template_task_graph_add 1 sample_instruction (Some g0) (Some 0) 17 True = Some (Some g1)"
    "graph_ok g1" by blast
  from run[OF g1(2), of 16 False] obtain g2 where g2: "template_task_graph_add 1 sample_instruction (Some g1) (Some 0) 16 False = Some (Some g2)"
    "graph_ok g2" by blast
  have "map_option tg_filename sample_graph = Some ''g.xml''" "map_option recorded sample_graph =
    Some [(''xsl:for-each'', (''0x10'', None), (''0x11'', Some ''green'')), (''xsl:for-each'', (''0x10'', None), (''0x10'', Some ''red''))]"
    by code_simp+
  moreover have eq: "sample_graph = Some g2" using g0(1) g1(1) g2(1) by (simp add: sample_graph_def)
  ultimately show ?thesis using g2(2) unfolding eq by simp
qed

theorem task_graph_file_witness:
  "\<exists>g g' h'. sample_graph = Some g \<and> template_task_graph_save 20 sample_context (Some g) [] =
     Some (Some (''g.xml'', xml_declaration (graph_context sample_context) @ show_xml [graph_xml
        [(''xsl:for-each'', (''0x10'', None), (''0x11'', Some ''green'')), (''xsl:for-each'', (''0x10'', None), (''0x10'', Some ''red''))]]
        @ [CHR 0x0A]), Some g', h')"
proof -
  let ?es = "[(''xsl:for-each'', (''0x10'', None), (''0x11'', Some ''green'')), (''xsl:for-each'', (''0x10'', None), (''0x10'', Some ''red''))]
    :: (cstring \<times> graph_end \<times> graph_end) list"
  obtain g where g: "sample_graph = Some g" "graph_ok g" "tg_filename g = ''g.xml''" "recorded g = ?es" using sample_graph_ok by blast
  have "xml_depth [graph_xml ?es] \<le> 20" by code_simp
  with task_graph_file[OF g(2), of sample_context 20 "[]"] g(1,3,4) show ?thesis by (auto simp: sample_context_def)
qed

end
