(* ===== verification/Tx_Formula.thy ===== *)
theory Tx_Formula
  imports Tx_XPathPrint Tx_XPathEval
begin

text \<open>
  The value of operator expressions: the text of an expression is compiled and evaluated, and the value is that of a
  reference semantics of XPath over numbers, strings and booleans. The numbers are IEEE doubles; an integer of the
  evaluator stands for the double of that integer. \<open>None\<close> is the trap of \<open>mod\<close> (division by zero or operands that do not
  fit \<open>long\<close>).
\<close>

subsection \<open>Reference semantics\<close>

datatype xvalue = X_num double | X_str cstring | X_bool bool

text \<open>The conversions. The text of a number is read by \<open>string2number\<close>; NaN counts as true, as it does in the code.\<close>

fun x_bool :: "xvalue \<Rightarrow> bool" where
  "x_bool (X_num d) = (\<not> d_eq d d_zero)"
| "x_bool (X_str s) = (s \<noteq> [])"
| "x_bool (X_bool b) = b"

fun x_num :: "xvalue \<Rightarrow> double" where
  "x_num (X_num d) = d"
| "x_num (X_str s) = string2number (Some s)"
| "x_num (X_bool b) = d_of_int (if b then 1 else 0)"

text \<open>Equality: as booleans when one of the values is a boolean, else as numbers when one is a number, else as strings.\<close>

fun x_equal :: "xvalue \<Rightarrow> xvalue \<Rightarrow> bool" where
  "x_equal (X_bool a) y = (a = x_bool y)"
| "x_equal x (X_bool b) = (x_bool x = b)"
| "x_equal (X_str s) (X_str t) = (s = t)"
| "x_equal x y = d_eq (x_num x) (x_num y)"

fun x_op :: "operator \<Rightarrow> xvalue \<Rightarrow> xvalue \<Rightarrow> xvalue option" where
  "x_op O_or a b = Some (X_bool (x_bool a \<or> x_bool b))"
| "x_op O_and a b = Some (X_bool (x_bool a \<and> x_bool b))"
| "x_op O_eq a b = Some (X_bool (x_equal a b))"
| "x_op O_ne a b = Some (X_bool (\<not> x_equal a b))"
| "x_op O_lt a b = Some (X_bool (d_less (x_num a) (x_num b)))"
| "x_op O_le a b = Some (X_bool (d_less (x_num a) (x_num b) \<or> d_eq (x_num a) (x_num b)))"
| "x_op O_gt a b = Some (X_bool (d_less (x_num b) (x_num a)))"
| "x_op O_ge a b = Some (X_bool (d_less (x_num b) (x_num a) \<or> d_eq (x_num a) (x_num b)))"
| "x_op O_add a b = Some (X_num (d_add (x_num a) (x_num b)))"
| "x_op O_sub a b = Some (X_num (d_minus (x_num a) (x_num b)))"
| "x_op O_mul a b = Some (X_num (d_mul (x_num a) (x_num b)))"
| "x_op O_div a b = Some (X_num (d_div (x_num a) (x_num b)))"
| "x_op O_mod a b = map_option X_num (d_mod (x_num a) (x_num b))"

text \<open>The right operand of a connective that the left one decides is not looked at.\<close>

definition decided :: "operator \<Rightarrow> xvalue \<Rightarrow> bool" where
  "decided f a \<longleftrightarrow> f = O_or \<and> x_bool a \<or> f = O_and \<and> \<not> x_bool a"

primrec meaning :: "formula \<Rightarrow> xvalue option" where
  "meaning (F_int n) = Some (X_num (d_of_int (int n)))"
| "meaning (F_str s) = Some (X_str s)"
| "meaning (F_not e) = map_option (\<lambda>a. X_bool (\<not> x_bool a)) (meaning e)"
| "meaning (F_op f l r) = do {
     a \<leftarrow> meaning l;
     if decided f a then Some (X_bool (x_bool a)) else do { b \<leftarrow> meaning r; x_op f a b }
   }"

subsection \<open>The values of the evaluator\<close>

fun value_of :: "rvalue \<Rightarrow> xvalue option" where
  "value_of (VAL_INT i) = Some (X_num (d_of_int i))"
| "value_of (VAL_NUMBER d) = Some (X_num d)"
| "value_of (VAL_BOOL b) = Some (X_bool (b \<noteq> 0))"
| "value_of (VAL_STRING (Some s)) = Some (X_str s)"
| "value_of _ = None"

text \<open>Rounding does not turn an integer into zero.\<close>

lemma fround_nonzero:
  assumes "0 < n"
  shows "\<not> d_eq (fround s (of_int n)) d_zero"
proof -
  obtain k where k: "int_log2 n = int k" "2 ^ k \<le> n" using int_log2_bounds[OF assms] by blast
  define e where "e = max (rat_log2 (of_int n) - 52) (-1074)"
  have "pow2 e \<le> pow2 (int k)"
  proof (cases "0 \<le> e")
    case True
    then have "nat e \<le> k" using k assms by (auto simp: e_def rat_log2_int)
    with True show ?thesis by (simp add: pow2_def)
  next
    case False
    then show ?thesis by (simp add: pow2_def) (meson dual_order.trans le_divide_eq_1_pos one_le_power divide_le_eq_1_pos one_le_numeral zero_less_power zero_less_numeral)
  qed
  also have "\<dots> \<le> of_int n"
  proof -
    have "(of_int (2 ^ k) :: rat) \<le> of_int n" using k(2) by (simp only: of_int_le_iff)
    then show ?thesis by (simp add: pow2_def)
  qed
  finally have "pow2 e \<le> of_int n" .
  moreover have p: "0 < pow2 e" by (simp add: pow2_def)
  ultimately have "1 \<le> of_int n / pow2 e" by simp
  then have "1 \<le> \<lfloor>of_int n / pow2 e\<rfloor>" by linarith
  then have "1 \<le> round_even (of_int n / pow2 e)" by (auto simp: round_even_def Let_def)
  then have "0 < of_int (round_even (of_int n / pow2 e)) * pow2 e" using p by simp
  with assms show ?thesis unfolding fround_def e_def[symmetric] Let_def by (auto simp: d_zero_def sval_def)
qed

lemma d_of_int_zero: "d_eq (d_of_int i) d_zero \<longleftrightarrow> i = 0"
proof (cases "i = 0")
  case False
  then have "\<not> d_eq (fround (i < 0) (of_int \<bar>i\<bar>)) d_zero" by (intro fround_nonzero) simp
  with False show ?thesis by (simp add: d_of_int_def d_of_rat_def)
qed (simp add: d_of_int_small_0)

lemma value_bool: "value_of v = Some a \<Longrightarrow> rval2bool v = x_bool a"
  by (cases v rule: value_of.cases) (auto simp: d_of_int_zero)

lemma value_num: "value_of v = Some a \<Longrightarrow> rval2number h v = Some (x_num a)"
  by (cases v rule: value_of.cases) auto

lemma value_equal: "value_of v = Some a \<Longrightarrow> value_of w = Some b \<Longrightarrow> rval_equal h v w eq = Some (eq_or_ne eq (x_equal a b))"
  by (cases v rule: value_of.cases; cases w rule: value_of.cases) (auto simp: rval_equal_def d_of_int_zero strcmp_eq_0)

lemma d_order_cases: "\<not> d_isnan x \<Longrightarrow> \<not> d_isnan y \<Longrightarrow> d_less x y \<or> d_less y x \<or> d_eq x y"
  by (cases x; cases y) auto

lemma d_less_irrefl: "d_eq x y \<Longrightarrow> \<not> d_less x y \<and> \<not> d_less y x"
  by (cases x; cases y) auto

lemma d_nan_order: "d_isnan x \<or> d_isnan y \<Longrightarrow> \<not> d_less x y \<and> \<not> d_eq x y \<and> \<not> d_less y x"
  by (cases x; cases y) auto

lemma value_order:
  assumes "value_of v = Some a" "value_of w = Some b"
  shows "rval_less h v w = Some (d_less (x_num a) (x_num b))"
    "rval_less_or_equal h v w = Some (d_less (x_num a) (x_num b) \<or> d_eq (x_num a) (x_num b))"
    "rval_greater h v w = Some (d_less (x_num b) (x_num a))"
    "rval_greater_or_equal h v w = Some (d_less (x_num b) (x_num a) \<or> d_eq (x_num a) (x_num b))"
proof -
  have n: "v \<noteq> VAL_NULL" "w \<noteq> VAL_NULL" using assms by auto
  note num = value_num[OF assms(1), of h] value_num[OF assms(2), of h]
  note ord = d_order_cases[of "x_num a" "x_num b"] d_less_irrefl[of "x_num a" "x_num b"] d_nan_order[of "x_num a" "x_num b"]
    d_less_asym[of "x_num a" "x_num b"]
  show "rval_less h v w = Some (d_less (x_num a) (x_num b))"
    using n num ord by (auto simp: rval_order_defs)
  show "rval_less_or_equal h v w = Some (d_less (x_num a) (x_num b) \<or> d_eq (x_num a) (x_num b))"
    using n num ord by (auto simp: rval_order_defs)
  show "rval_greater h v w = Some (d_less (x_num b) (x_num a))"
    using n num ord by (auto simp: rval_order_defs)
  show "rval_greater_or_equal h v w = Some (d_less (x_num b) (x_num a) \<or> d_eq (x_num a) (x_num b))"
    using n num ord by (auto simp: rval_order_defs)
qed

subsection \<open>Evaluation\<close>

text \<open>What an evaluation does when the value must be \<open>m\<close>: it crashes, or returns such a value in an unchanged state.\<close>

definition evaluates :: "(rvalue \<times> xstate) option \<Rightarrow> xstate \<Rightarrow> xvalue option \<Rightarrow> bool" where
  "evaluates r st m \<longleftrightarrow> (case m of None \<Rightarrow> r = None | Some a \<Rightarrow> \<exists>v. r = Some (v, st) \<and> value_of v = Some a)"

lemma evaluates_simps [simp]:
  "evaluates r st None \<longleftrightarrow> r = None" "evaluates r st (Some a) \<longleftrightarrow> (\<exists>v. r = Some (v, st) \<and> value_of v = Some a)"
  by (simp_all add: evaluates_def)

lemma operands:
  assumes "evaluates (ev (Some t) c st) st (Some a)" "evaluates (ev (Some u) c st) st (Some b)"
  obtains v w where "eval_operands ev (new_expr ty None [t, u]) c st = Some (v, w, st)" "value_of v = Some a" "value_of w = Some b"
  using assms by (auto simp: eval_operands_def first_child_def second_child_def arg_ptr_def new_expr_def)

lemma test_step:
  assumes "evaluates (ev (Some t) c st) st (Some a)" "evaluates (ev (Some u) c st) st (Some b)"
    and "\<And>v w. value_of v = Some a \<Longrightarrow> value_of w = Some b \<Longrightarrow> test (x_heap st) v w = Some r"
  shows "evaluates (exec_test test ev (new_expr ty None [t, u]) c st) st (Some (X_bool r))"
proof -
  obtain v w where vw: "eval_operands ev (new_expr ty None [t, u]) c st = Some (v, w, st)" "value_of v = Some a" "value_of w = Some b"
    using operands[of ev t c st a u b, OF assms(1,2)] by blast
  with assms(3) show ?thesis by (simp add: exec_test_def)
qed

lemma arith_step:
  assumes "evaluates (ev (Some t) c st) st (Some a)" "evaluates (ev (Some u) c st) st (Some b)"
  shows "evaluates (exec_arith op ev (new_expr ty None [t, u]) c st) st (map_option X_num (op (x_num a) (x_num b)))"
proof -
  obtain v w where vw: "eval_operands ev (new_expr ty None [t, u]) c st = Some (v, w, st)" "value_of v = Some a" "value_of w = Some b"
    using operands[of ev t c st a u b, OF assms] by blast
  from value_num[OF vw(2), of "x_heap st"] value_num[OF vw(3), of "x_heap st"] vw(1) show ?thesis
    by (cases "op (x_num a) (x_num b)") (simp_all add: exec_arith_def)
qed

lemma crash_step:
  assumes "f \<noteq> O_or" "f \<noteq> O_and"
    "evaluates (ev (Some t) c st) st m" "\<And>a. m = Some a \<Longrightarrow> evaluates (ev (Some u) c st) st None" 
  shows "execute_step env k ev (new_expr (op_type f) None [t, u]) c st = None"
proof -
  have "eval_operands ev (new_expr ty None [t, u]) c st = None" for ty
    using assms(3,4) by (cases m) (auto simp: eval_operands_def first_child_def second_child_def arg_ptr_def new_expr_def)
  then show ?thesis using assms(1,2)
    by (cases f) (simp_all add: execute_step_def exec_test_def exec_arith_def new_expr_def)
qed

lemma operator_step:
  assumes "f \<noteq> O_or" "f \<noteq> O_and" "evaluates (ev (Some t) c st) st (Some a)" "evaluates (ev (Some u) c st) st (Some b)"
  shows "evaluates (execute_step env k ev (new_expr (op_type f) None [t, u]) c st) st (x_op f a b)"
proof -
  have ty: "execute_step env k ev (new_expr (op_type f) None [t, u]) c st = (case f of
      O_eq \<Rightarrow> exec_test (\<lambda>h l r. rval_equal h l r True) ev (new_expr (op_type f) None [t, u]) c st
    | O_ne \<Rightarrow> exec_test (\<lambda>h l r. rval_equal h l r False) ev (new_expr (op_type f) None [t, u]) c st
    | O_lt \<Rightarrow> exec_test rval_less ev (new_expr (op_type f) None [t, u]) c st
    | O_le \<Rightarrow> exec_test rval_less_or_equal ev (new_expr (op_type f) None [t, u]) c st
    | O_gt \<Rightarrow> exec_test rval_greater ev (new_expr (op_type f) None [t, u]) c st
    | O_ge \<Rightarrow> exec_test rval_greater_or_equal ev (new_expr (op_type f) None [t, u]) c st
    | O_add \<Rightarrow> exec_arith (\<lambda>l r. Some (d_add l r)) ev (new_expr (op_type f) None [t, u]) c st
    | O_sub \<Rightarrow> exec_arith (\<lambda>l r. Some (d_minus l r)) ev (new_expr (op_type f) None [t, u]) c st
    | O_mul \<Rightarrow> exec_arith (\<lambda>l r. Some (d_mul l r)) ev (new_expr (op_type f) None [t, u]) c st
    | O_div \<Rightarrow> exec_arith (\<lambda>l r. Some (d_div l r)) ev (new_expr (op_type f) None [t, u]) c st
    | _ \<Rightarrow> exec_arith d_mod ev (new_expr (op_type f) None [t, u]) c st)"
    using assms(1,2) by (cases f) (simp_all add: execute_step_def new_expr_def)
  show ?thesis
  proof (cases f)
    case O_eq
    show ?thesis unfolding ty unfolding O_eq operator.case x_op.simps
      by (rule test_step[of ev t c st a u b, OF assms(3,4)]) (simp add: value_equal eq_or_ne_def)
  next
    case O_ne
    show ?thesis unfolding ty unfolding O_ne operator.case x_op.simps
      by (rule test_step[of ev t c st a u b, OF assms(3,4)]) (simp add: value_equal eq_or_ne_def)
  next
    case O_lt
    show ?thesis unfolding ty unfolding O_lt operator.case x_op.simps by (rule test_step[of ev t c st a u b, OF assms(3,4) value_order(1)])
  next
    case O_le
    show ?thesis unfolding ty unfolding O_le operator.case x_op.simps by (rule test_step[of ev t c st a u b, OF assms(3,4) value_order(2)])
  next
    case O_gt
    show ?thesis unfolding ty unfolding O_gt operator.case x_op.simps by (rule test_step[of ev t c st a u b, OF assms(3,4) value_order(3)])
  next
    case O_ge
    show ?thesis unfolding ty unfolding O_ge operator.case x_op.simps by (rule test_step[of ev t c st a u b, OF assms(3,4) value_order(4)])
  next
    case O_add
    show ?thesis unfolding ty unfolding O_add operator.case x_op.simps using arith_step[of ev t c st a u b "\<lambda>l r. Some (d_add l r)", OF assms(3,4)] by simp
  next
    case O_sub
    show ?thesis unfolding ty unfolding O_sub operator.case x_op.simps using arith_step[of ev t c st a u b "\<lambda>l r. Some (d_minus l r)", OF assms(3,4)] by simp
  next
    case O_mul
    show ?thesis unfolding ty unfolding O_mul operator.case x_op.simps using arith_step[of ev t c st a u b "\<lambda>l r. Some (d_mul l r)", OF assms(3,4)] by simp
  next
    case O_div
    show ?thesis unfolding ty unfolding O_div operator.case x_op.simps using arith_step[of ev t c st a u b "\<lambda>l r. Some (d_div l r)", OF assms(3,4)] by simp
  next
    case O_mod
    show ?thesis unfolding ty unfolding O_mod operator.case x_op.simps by (rule arith_step[of ev t c st a u b, OF assms(3,4)])
  qed (use assms(1,2) in simp_all)
qed

text \<open>The connectives.\<close>

lemma connective_step:
  assumes f: "f = O_or \<or> f = O_and" and l: "evaluates (ev (Some t) c st) st (Some a)"
    and r: "\<not> decided f a \<Longrightarrow> evaluates (ev (Some u) c st) st m"
  shows "evaluates (execute_step env k ev (new_expr (op_type f) None [t, u]) c st) st
    (if decided f a then Some (X_bool (x_bool a)) else do { b \<leftarrow> m; x_op f a b })"
proof -
  obtain v where v: "ev (Some t) c st = Some (v, st)" "rval2bool v = x_bool a" using l value_bool by auto
  show ?thesis
  proof (cases "decided f a")
    case True
    with f v show ?thesis by (auto simp: decided_def execute_step_def new_expr_def)
  next
    case False
    with r have "evaluates (ev (Some u) c st) st m" by simp
    with f v False show ?thesis
      by (cases m) (auto simp: decided_def execute_step_def new_expr_def value_bool)
  qed
qed

lemma evaluates_meaning:
  "formula_depth e < k \<Longrightarrow> evaluates (xpath_execute_scalar env k (Some (tree_of e)) c st) st (meaning e)"
proof (induction e arbitrary: k)
  case (F_int n)
  then obtain k' where "k = Suc k'" by (cases k) auto
  then show ?case by (simp add: execute_step_def)
next
  case (F_str s)
  then obtain k' where "k = Suc k'" by (cases k) auto
  then show ?case by (simp add: execute_step_def)
next
  case (F_not e)
  then obtain k' where k: "k = Suc k'" "formula_depth e < k'" by (cases k) auto
  with F_not.IH[of k'] show ?case
    by (cases "meaning e") (auto simp: execute_step_def new_expr_def first_child_def arg_ptr_def value_bool)
next
  case (F_op f l r)
  then obtain k' where k: "k = Suc k'" "formula_depth l < k'" "formula_depth r < k'" by (cases k) auto
  let ?ev = "xpath_execute_scalar env k'"
  have step: "xpath_execute_scalar env k (Some (tree_of (F_op f l r))) c st =
      execute_step env k' ?ev (new_expr (op_type f) None [tree_of l, tree_of r]) c st" by (simp add: k)
  note L = F_op.IH(1)[OF k(2)] and R = F_op.IH(2)[OF k(3)]
  show ?case
  proof (cases "meaning l")
    case None
    with L have "?ev (Some (tree_of l)) c st = None" by simp
    then have "execute_step env k' ?ev (new_expr (op_type f) None [tree_of l, tree_of r]) c st = None"
      by (cases f) (simp_all add: execute_step_def new_expr_def exec_test_def exec_arith_def eval_operands_def first_child_def arg_ptr_def)
    with None show ?thesis unfolding step by simp
  next
    case (Some a)
    with L have L': "evaluates (?ev (Some (tree_of l)) c st) st (Some a)" by simp
    show ?thesis
    proof (cases "f = O_or \<or> f = O_and")
      case True
      from connective_step[of f ?ev "tree_of l" c st a "tree_of r" "meaning r" env k', OF True L' R] show ?thesis unfolding step by (simp add: Some)
    next
      case False
      then have nd: "\<not> decided f a" by (auto simp: decided_def)
      show ?thesis
      proof (cases "meaning r")
        case None
        with False L' R crash_step[of f ?ev "tree_of l" c st "Some a" "tree_of r" env k'] show ?thesis unfolding step by (simp add: Some nd)
      next
        case (Some b)
        with False L' R operator_step[of f ?ev "tree_of l" c st a "tree_of r" b env k'] \<open>meaning l = Some a\<close>
        show ?thesis unfolding step by (simp add: nd)
      qed
    qed
  qed
qed

text \<open>A state to evaluate in.\<close>

definition sample_state :: xstate where
  "sample_state = \<lparr>x_heap = [], x_expressions = [], x_urldict = []\<rparr>"

text \<open>
  C36: The value of an operator expression. The text of an expression of integers, strings, \<open>not\<close> and the thirteen binary
  operators, written with its parentheses, compiles, and for every document and context the evaluator gives the compiled
  expression the value of the reference semantics without a change of documents and caches: the connectives look at the
  right operand only when the left one does not decide, a comparison with a boolean compares booleans, one with a number
  numbers, one of two strings strings, the order and the arithmetic are those of numbers. The evaluation crashes exactly
  when a \<open>mod\<close> that is looked at traps. Fuel of the nesting depth plus 3 is enough for both.
\<close>

theorem formula_evaluates_to_meaning:
  assumes "printable e" "formula_depth e + 3 \<le> k"
  shows "\<exists>t. xpath_compile k (show_formula e) = Some (Some t) \<and>
    (case meaning e of
       None \<Rightarrow> xpath_execute_scalar env k (Some t) current st = None
     | Some a \<Rightarrow> \<exists>v. xpath_execute_scalar env k (Some t) current st = Some (v, st) \<and> value_of v = Some a)"
proof (intro exI conjI)
  show "xpath_compile k (show_formula e) = Some (Some (tree_of e))" by (rule compile_printed[OF assms])
  from evaluates_meaning[of e k env current st] assms(2) show "case meaning e of
       None \<Rightarrow> xpath_execute_scalar env k (Some (tree_of e)) current st = None
     | Some a \<Rightarrow> \<exists>v. xpath_execute_scalar env k (Some (tree_of e)) current st = Some (v, st) \<and> value_of v = Some a"
    by (simp add: evaluates_def)
qed

theorem formula_evaluates_to_meaning_witness:
  "\<exists>t v. xpath_compile 6 ''(('a') = (not(0))) or ((1) mod (0))'' = Some (Some t) \<and>
     xpath_execute_scalar plain_env 6 (Some t) None sample_state = Some (v, sample_state) \<and> value_of v = Some (X_bool True)"
proof -
  let ?e = "F_op O_or (F_op O_eq (F_str ''a'') (F_not (F_int 0))) (F_op O_mod (F_int 1) (F_int 0))"
  have shown: "show_formula ?e = ''(('a') = (not(0))) or ((1) mod (0))''"
    by (simp add: show_nat.simps[of 0] show_nat.simps[of "Suc 0"] digit_char_def)
  have val: "meaning ?e = Some (X_bool True)" by (simp add: decided_def d_of_int_zero)
  have "printable ?e" "formula_depth ?e + 3 \<le> 6" by simp_all
  from formula_evaluates_to_meaning[OF this, of plain_env None sample_state] show ?thesis unfolding shown val by simp
qed

end
