(* ===== verification/Tx_Fuel.thy ===== *)
theory Tx_Fuel
  imports Tx_Templates
begin

text \<open>
  The fuel of the compiler and of the evaluator only decides whether the model returns: a result that is there for
  one fuel is the result for every larger one. \<open>below\<close> orders computations by that, and every construct of the
  definitions keeps the order (\<open>fuel_mono\<close>).
\<close>

definition below :: "'a option \<Rightarrow> 'a option \<Rightarrow> bool" where
  "below a b \<longleftrightarrow> a = None \<or> a = b"

named_theorems fuel_mono \<open>constructs that keep the order of computations\<close>

lemma below_refl [fuel_mono]: "below a a"
  by (simp add: below_def)

lemma below_None [fuel_mono]: "below None b"
  by (simp add: below_def)

lemma below_bind [fuel_mono]: "below a b \<Longrightarrow> (\<And>x. below (f x) (g x)) \<Longrightarrow> below (Option.bind a f) (Option.bind b g)"
  by (cases a; cases b) (auto simp: below_def)

lemma below_map [fuel_mono]: "below a b \<Longrightarrow> below (map_option f a) (map_option f b)"
  by (auto simp: below_def)

lemma below_if [fuel_mono]: "below a b \<Longrightarrow> below c d \<Longrightarrow> below (if p then a else c) (if p then b else d)"
  by simp

lemma below_let [fuel_mono]: "(\<And>x. below (f x) (g x)) \<Longrightarrow> below (Let a f) (Let a g)"
  by simp

lemma below_prod [fuel_mono]: "(\<And>x y. below (f x y) (g x y)) \<Longrightarrow> below (case_prod f p) (case_prod g p)"
  by (cases p) simp

lemma below_option [fuel_mono]: "below a b \<Longrightarrow> (\<And>x. below (f x) (g x)) \<Longrightarrow> below (case_option a f p) (case_option b g p)"
  by (cases p) simp_all

lemma below_list [fuel_mono]: "below a b \<Longrightarrow> (\<And>x xs. below (f x xs) (g x xs)) \<Longrightarrow> below (case_list a f p) (case_list b g p)"
  by (cases p) simp_all

lemma below_rvalue [fuel_mono]:
  "below a b \<Longrightarrow> (\<And>i. below (f1 i) (g1 i)) \<Longrightarrow> (\<And>i. below (f2 i) (g2 i)) \<Longrightarrow> (\<And>d. below (f3 d) (g3 d)) \<Longrightarrow>
   (\<And>s. below (f4 s) (g4 s)) \<Longrightarrow> (\<And>p. below (f5 p) (g5 p)) \<Longrightarrow>
   below (case_rvalue a f1 f2 f3 f4 f5 v) (case_rvalue b g1 g2 g3 g4 g5 v)"
  by (cases v) simp_all

text \<open>Two fuels, the larger one on the right.\<close>

lemma fuel_induct [consumes 1, case_names zero suc]:
  fixes k k' :: nat
  assumes "k \<le> k'" "\<And>k'. P 0 k'" "\<And>k k'. k \<le> k' \<Longrightarrow> P k k' \<Longrightarrow> P (Suc k) (Suc k')"
  shows "P k k'"
  using assms(1)
proof (induction k arbitrary: k')
  case (Suc k)
  then obtain k2 where "k' = Suc k2" "k \<le> k2" by (cases k') auto
  with Suc.IH show ?case by (simp add: assms(3))
qed (rule assms(2))

subsection \<open>The compiler\<close>

definition parser_le :: "parser \<Rightarrow> parser \<Rightarrow> bool" where
  "parser_le f g \<longleftrightarrow> (\<forall>s. below (f s) (g s))"

lemma parser_leD: "parser_le f g \<Longrightarrow> below (f s) (g s)"
  by (simp add: parser_le_def)

lemma call_args_mono [fuel_mono]:
  assumes "k \<le> k'" and r: "parser_le f g"
  shows "below (call_args k f args s) (call_args k' g args s)"
  using assms(1)
proof (induction k k' arbitrary: args s rule: fuel_induct)
  case (zero k')
  then show ?case by (simp add: below_def)
next
  case (suc k k')
  show ?case by (simp only: call_args.simps) (intro fuel_mono parser_leD[OF r] suc)
qed

lemma name_step_mono [fuel_mono]:
  assumes r: "k \<le> k'" "parser_le f g"
  shows "below (name_step k f attr s) (name_step k' g attr s)"
  unfolding name_step_def by (intro fuel_mono r)

lemma do_select_mono [fuel_mono]:
  assumes r: "k \<le> k'" "parser_le f g"
  shows "below (do_select_expr k f s) (do_select_expr k' g s)"
  unfolding do_select_expr_def by (intro fuel_mono r)

lemma do_node2_mono [fuel_mono]:
  assumes r: "k \<le> k'" "parser_le f g"
  shows "below (do_node2_expr k f s) (do_node2_expr k' g s)"
  unfolding do_node2_expr_def by (intro fuel_mono parser_leD[OF r(2)] r)

lemma node_loop_mono [fuel_mono]:
  assumes "k \<le> k'" and r: "parser_le f g"
  shows "below (node_loop k f n s) (node_loop k' g n s)"
  using assms(1)
proof (induction k k' arbitrary: n s rule: fuel_induct)
  case (zero k')
  then show ?case by (simp add: below_def)
next
  case (suc k k')
  show ?case by (simp only: node_loop.simps) (intro fuel_mono parser_leD[OF r] r suc)
qed

lemma do_node_mono [fuel_mono]:
  assumes r: "k \<le> k'" "parser_le f g"
  shows "below (do_node_expr k f s) (do_node_expr k' g s)"
  unfolding do_node_expr_def by (intro fuel_mono r)

lemma nary_loop_mono [fuel_mono]:
  assumes "k \<le> k'" and r: "\<And>s. below (f s) (g s)"
  shows "below (nary_loop k pat f ns s) (nary_loop k' pat g ns s)"
  using assms(1)
proof (induction k k' arbitrary: ns s rule: fuel_induct)
  case (zero k')
  then show ?case by (simp add: below_def)
next
  case (suc k k')
  show ?case by (simp only: nary_loop.simps) (intro fuel_mono r suc)
qed

lemma nary_mono [fuel_mono]:
  assumes "k \<le> k'" and r: "\<And>s. below (f s) (g s)"
  shows "below (nary_expr k ty pat f s) (nary_expr k' ty pat g s)"
  unfolding nary_expr_def by (intro fuel_mono assms)

lemma binary_loop_mono [fuel_mono]:
  assumes "k \<le> k'" and r: "\<And>s. below (f s) (g s)"
  shows "below (binary_loop k op f n s) (binary_loop k' op g n s)"
  using assms(1)
proof (induction k k' arbitrary: n s rule: fuel_induct)
  case (zero k')
  then show ?case by (simp add: below_def)
next
  case (suc k k')
  show ?case by (simp only: binary_loop.simps) (intro fuel_mono r suc)
qed

lemma do_not_mono [fuel_mono]:
  assumes "k \<le> k'" and r: "parser_le f g"
  shows "below (do_not_expr k f s) (do_not_expr k' g s)"
  using assms(1)
proof (induction k k' arbitrary: s rule: fuel_induct)
  case (zero k')
  then show ?case by (simp add: below_def)
next
  case (suc k k')
  show ?case by (simp only: do_not_expr.simps do_union_expr_def) (intro fuel_mono r suc)
qed

lemma do_and_mono [fuel_mono]:
  assumes r: "k \<le> k'" "parser_le f g"
  shows "below (do_and_expr k f s) (do_and_expr k' g s)"
  unfolding do_and_expr_def do_eq_expr_def do_rel_expr_def do_add_expr_def do_mul_expr_def by (intro fuel_mono r)

lemma do_or_mono: "k \<le> k' \<Longrightarrow> below (do_or_expr k s) (do_or_expr k' s)"
proof (induction k k' arbitrary: s rule: fuel_induct)
  case (zero k')
  then show ?case by (simp add: below_def)
next
  case (suc k k')
  then have "parser_le (do_or_expr k) (do_or_expr k')" by (simp add: parser_le_def)
  with suc.hyps show ?case by (simp only: do_or_expr.simps) (intro fuel_mono)
qed

lemma xpath_compile_mono [fuel_mono]: "k \<le> k' \<Longrightarrow> below (xpath_compile k s) (xpath_compile k' s)"
  unfolding xpath_compile_def by (intro fuel_mono do_or_mono)

lemma xpath_find_expr_mono [fuel_mono]: "k \<le> k' \<Longrightarrow> below (xpath_find_expr k st e) (xpath_find_expr k' st e)"
  unfolding xpath_find_expr_def by (intro fuel_mono)

subsection \<open>The functions\<close>

definition ev_le :: "evaluator \<Rightarrow> evaluator \<Rightarrow> bool" where
  "ev_le f g \<longleftrightarrow> (\<forall>e c st. below (f e c st) (g e c st))"

lemma ev_leD: "ev_le f g \<Longrightarrow> below (f e c st) (g e c st)"
  by (simp add: ev_le_def)

lemma eval_string_mono [fuel_mono]:
  assumes r: "ev_le f g"
  shows "below (eval_string f args c st) (eval_string g args c st)"
  unfolding eval_string_def by (intro fuel_mono ev_leD[OF r])

lemma eval_number_mono [fuel_mono]:
  assumes r: "ev_le f g"
  shows "below (eval_number f args c st) (eval_number g args c st)"
  unfolding eval_number_def by (intro fuel_mono ev_leD[OF r])

lemma eval_two_mono [fuel_mono]:
  assumes r: "ev_le f g"
  shows "below (eval_two f args c st) (eval_two g args c st)"
  unfolding eval_two_def by (intro fuel_mono r)

lemma eval_selection_mono [fuel_mono]:
  assumes r: "ev_le f g"
  shows "below (xpath_eval_selection env f c e st) (xpath_eval_selection env g c e st)"
  unfolding xpath_eval_selection_def by (intro fuel_mono ev_leD[OF r])

lemma sum_args_mono [fuel_mono]:
  assumes r: "ev_le f g"
  shows "below (sum_args f args c st d) (sum_args g args c st d)"
proof (induction args arbitrary: st d)
  case (Cons a args)
  show ?case by (simp only: sum_args.simps) (intro fuel_mono ev_leD[OF r] Cons.IH)
qed (simp add: below_def)

lemma concat_args_mono [fuel_mono]:
  assumes r: "ev_le f g"
  shows "below (concat_args f args c st s) (concat_args g args c st s)"
proof (induction args arbitrary: st s)
  case (Cons a args)
  show ?case by (simp only: concat_args.simps) (intro fuel_mono ev_leD[OF r] Cons.IH)
qed (simp add: below_def)

lemma md5_args_mono [fuel_mono]:
  assumes r: "ev_le f g"
  shows "below (md5_args f args c st s) (md5_args g args c st s)"
proof (induction args arbitrary: st s)
  case (Cons a args)
  show ?case by (simp only: md5_args.simps) (intro fuel_mono r Cons.IH)
qed (simp add: below_def)

lemma urlcode_args_mono [fuel_mono]:
  assumes r: "ev_le f g"
  shows "below (urlcode_args env f args c st s) (urlcode_args env g args c st s)"
proof (induction args arbitrary: st s)
  case (Cons a args)
  show ?case by (simp only: urlcode_args.simps) (intro fuel_mono r Cons.IH)
qed (simp add: below_def)

lemma placeholder_args_mono [fuel_mono]:
  assumes r: "ev_le f g"
  shows "below (placeholder_args k f args c st s) (placeholder_args k g args c st s)"
proof (induction k arbitrary: args st s)
  case 0
  show ?case by (cases args) (simp_all add: below_def)
next
  case (Suc k)
  consider "args = []" | e where "args = [e]" | e e' q where "args = e # e' # q" by (metis list.exhaust)
  then show ?case
  proof cases
    case 3
    show ?thesis unfolding 3 placeholder_args.simps by (intro fuel_mono r Suc)
  qed (simp_all add: below_def)
qed

lemma callback_args_mono [fuel_mono]:
  assumes r: "ev_le f g"
  shows "below (callback_args k f args c st) (callback_args k g args c st)"
proof (induction k arbitrary: args st)
  case (Suc k)
  show ?case by (cases args) (simp_all only: callback_args.simps, (intro fuel_mono r Suc)+)
qed (simp add: below_def)

text \<open>All functions of the table.\<close>

definition xf_mono :: "xf \<Rightarrow> bool" where
  "xf_mono f \<longleftrightarrow> (\<forall>env k k' ev ev' args c st. k \<le> k' \<longrightarrow> ev_le ev ev' \<longrightarrow> below (f env k ev args c st) (f env k' ev' args c st))"

lemma xf_monoI:
  "(\<And>env k k' ev ev' args c st. k \<le> k' \<Longrightarrow> ev_le ev ev' \<Longrightarrow> below (f env k ev args c st) (f env k' ev' args c st)) \<Longrightarrow> xf_mono f"
  by (simp add: xf_mono_def)

lemma constant_functions_mono:
  "xf_mono xf_position" "xf_mono xf_last" "xf_mono xf_true" "xf_mono xf_false" "xf_mono xf_current" "xf_mono xf_text"
  "xf_mono xf_node" "xf_mono xf_banner" "xf_mono xf_base64" "xf_mono xf_stub" "xf_mono xf_exists" "xf_mono xf_thread_id"
  by (simp_all add: xf_mono_def below_def xf_position_def xf_last_def xf_true_def xf_false_def xf_current_def xf_text_def xf_node_def
      xf_banner_def xf_base64_def xf_stub_def xf_exists_def xf_thread_id_def)

lemma string_functions_mono:
  "xf_mono xf_substr" "xf_mono xf_normalize" "xf_mono xf_strlen" "xf_mono xf_concat" "xf_mono xf_contains" "xf_mono xf_translate"
  "xf_mono xf_sub_before" "xf_mono xf_sub_after" "xf_mono xf_strescape" "xf_mono xf_urlenc" "xf_mono xf_md5" "xf_mono xf_starts"
  "xf_mono xf_tostr" "xf_mono xf_name" "xf_mono xf_local_name" "xf_mono xf_getid"
  unfolding xf_substr_def xf_normalize_def xf_strlen_def xf_concat_def xf_contains_def xf_translate_def xf_sub_before_def
    xf_sub_after_def xf_strescape_def xf_urlenc_def xf_md5_def xf_starts_def xf_tostr_def xf_name_def xf_local_name_def xf_getid_def
  by (rule xf_monoI, (assumption | rule fuel_mono ev_leD)+)+

lemma node_functions_mono:
  "xf_mono xf_tonum" "xf_mono xf_tobool" "xf_mono xf_round" "xf_mono xf_floor" "xf_mono xf_ceil" "xf_mono xf_sum" "xf_mono xf_count"
  "xf_mono xf_document" "xf_mono xf_exnodeset" "xf_mono xf_veristat" "xf_mono xf_veristat_local" "xf_mono xf_urlcode"
  "xf_mono xf_key" "xf_mono xf_check" "xf_mono xf_localization" "xf_mono xf_localization_plural" "xf_mono xf_format"
  unfolding xf_tonum_def xf_tobool_def xf_round_def xf_floor_def xf_ceil_def xf_sum_def xf_count_def xf_document_def xf_exnodeset_def
    xf_veristat_def xf_veristat_local_def xf_urlcode_def xf_key_def xf_check_def xf_localization_def xf_localization_plural_def
    xf_localization_base_def xf_format_def
  by (rule xf_monoI, (assumption | rule fuel_mono ev_leD)+)+

lemma functions_mono: "list_all (\<lambda>(n, f). xf_mono f) xpath_functions"
  unfolding xpath_functions_def by (simp add: constant_functions_mono string_functions_mono node_functions_mono)

lemma do_callback_mono [fuel_mono]:
  assumes r: "ev_le f g"
  shows "below (do_callback env f n args c st) (do_callback env g n args c st)"
  unfolding do_callback_def by (intro fuel_mono r)

lemma dispatcher_mono [fuel_mono]:
  assumes r: "k \<le> k'" "ev_le f g"
  shows "below (xpath_call_dispatcher env k f n args c st) (xpath_call_dispatcher env k' g n args c st)"
proof (cases "map_of xpath_functions n")
  case None
  then show ?thesis unfolding xpath_call_dispatcher_def by (simp only: option.case) (intro fuel_mono r)
next
  case (Some h)
  then have "xf_mono h" using functions_mono by (auto simp: list_all_iff dest: map_of_SomeD)
  with r have "below (h env k f args c st) (h env k' g args c st)" by (simp add: xf_mono_def)
  with Some show ?thesis unfolding xpath_call_dispatcher_def by (simp only: option.case) (intro fuel_mono r)
qed

subsection \<open>The evaluator\<close>

lemma filter_loop_mono [fuel_mono]:
  assumes "k \<le> k'" and r: "\<And>a st. below (f a st) (g a st)"
  shows "below (filter_loop k f s p st) (filter_loop k' g s p st)"
  using assms(1)
proof (induction k k' arbitrary: s p st rule: fuel_induct)
  case (zero k')
  then show ?case by (cases p) (simp_all add: below_def)
next
  case (suc k k')
  show ?case by (cases p) (simp_all only: filter_loop.simps, (intro fuel_mono r suc)+)
qed

lemma xpath_filter_mono [fuel_mono]:
  assumes r: "k \<le> k'" "ev_le f g"
  shows "below (xpath_filter k f p e st) (xpath_filter k' g p e st)"
proof -
  have "below ((if b then h else (\<lambda>a st. f e (Some a) st)) a st) ((if b then h else (\<lambda>a st. g e (Some a) st)) a st)" for b h a st
    using r(2) by (auto simp: below_refl ev_leD)
  then show ?thesis unfolding xpath_filter_def by (intro fuel_mono r)
qed

lemma select_common_mono [fuel_mono]:
  assumes r: "ev_le f g"
  shows "below (xpath_select_common f e c sel st) (xpath_select_common g e c sel st)"
  unfolding xpath_select_common_def by (intro fuel_mono ev_leD[OF r])

lemma union_loop_mono [fuel_mono]:
  assumes r: "ev_le f g"
  shows "below (union_loop f es c tmp pos sel st) (union_loop g es c tmp pos sel st)"
proof (induction es arbitrary: tmp pos sel st)
  case (Cons e es)
  show ?case by (simp only: union_loop.simps) (intro fuel_mono ev_leD[OF r] Cons.IH)
qed (simp add: below_def)

lemma bool_loop_mono [fuel_mono]:
  assumes r: "ev_le f g"
  shows "below (bool_loop f b es c st) (bool_loop g b es c st)"
proof (induction es arbitrary: st)
  case (Cons e es)
  show ?case by (simp only: bool_loop.simps) (intro fuel_mono ev_leD[OF r] Cons.IH)
qed (simp add: below_def)

lemma operands_mono [fuel_mono]:
  assumes r: "ev_le f g"
  shows "below (eval_operands f e c st) (eval_operands g e c st)"
  unfolding eval_operands_def by (intro fuel_mono ev_leD[OF r])

lemma cases_mono [fuel_mono]:
  assumes r: "ev_le f g"
  shows "below (exec_attr_all f e c st) (exec_attr_all g e c st)" "below (exec_test t f e c st) (exec_test t g e c st)"
    "below (exec_arith op f e c st) (exec_arith op g e c st)" "below (exec_attr f e c st) (exec_attr g e c st)"
  unfolding exec_attr_all_def exec_test_def exec_arith_def exec_attr_def by (intro fuel_mono ev_leD[OF r] r)+

lemma exec_filter_mono [fuel_mono]:
  assumes r: "k \<le> k'" "ev_le f g"
  shows "below (exec_filter k f e c st) (exec_filter k' g e c st)"
  unfolding exec_filter_def by (intro fuel_mono ev_leD[OF r(2)] r)

lemma execute_step_mono [fuel_mono]:
  assumes r: "k \<le> k'" "ev_le f g"
  shows "below (execute_step env k f e c st) (execute_step env k' g e c st)"
proof (cases "axis_selector (xe_type e)")
  case None
  then show ?thesis unfolding execute_step_def
    by (cases "xe_type e") (simp_all only: option.case nodetype.case, (intro fuel_mono ev_leD[OF r(2)] r)+)
next
  case (Some sel)
  then show ?thesis unfolding execute_step_def by (simp only: option.case) (intro fuel_mono r)
qed

lemma xpath_execute_mono [fuel_mono]: "k \<le> k' \<Longrightarrow> below (xpath_execute_scalar env k e c st) (xpath_execute_scalar env k' e c st)"
proof (induction k k' arbitrary: e c st rule: fuel_induct)
  case (zero k')
  then show ?case by (simp add: below_def)
next
  case (suc k k')
  then have "ev_le (xpath_execute_scalar env k) (xpath_execute_scalar env k')" by (simp add: ev_le_def)
  with suc.hyps show ?case by (simp only: xpath_execute_scalar.simps) (intro fuel_mono)
qed

lemma ev_le_execute [fuel_mono]: "k \<le> k' \<Longrightarrow> ev_le (xpath_execute_scalar env k) (xpath_execute_scalar env k')"
  by (simp add: ev_le_def xpath_execute_mono)

lemma entry_points_mono [fuel_mono]:
  assumes r: "k \<le> k'"
  shows "below (xpath_eval_boolean env k c e st) (xpath_eval_boolean env k' c e st)"
    "below (xpath_eval_string env k c e st) (xpath_eval_string env k' c e st)"
    "below (xpath_eval_expression env k c x st) (xpath_eval_expression env k' c x st)"
    "below (xpath_eval_node env k c x st) (xpath_eval_node env k' c x st)"
  unfolding xpath_eval_boolean_def xpath_eval_string_def xpath_eval_expression_def xpath_eval_node_def by (intro fuel_mono r)+

lemma sort_passes_mono [fuel_mono]: "k \<le> k' \<Longrightarrow> below (sort_passes k gt xs) (sort_passes k' gt xs)"
proof (induction k k' arbitrary: xs rule: fuel_induct)
  case (suc k k')
  show ?case by (simp only: sort_passes.simps) (intro fuel_mono suc)
qed (simp add: below_def)

lemma sort_keys_mono [fuel_mono]:
  assumes r: "\<And>a st. below (f a st) (g a st)"
  shows "below (sort_keys_loop f as st) (sort_keys_loop g as st)"
proof (induction as arbitrary: st)
  case (Cons a as)
  show ?case by (simp only: sort_keys_loop.simps) (intro fuel_mono r Cons.IH)
qed (simp add: below_def)

lemma sort_selection_mono [fuel_mono]:
  assumes "k \<le> k'" "\<And>a st. below (f a st) (g a st)"
  shows "below (xpath_sort_selection k num bw f sel st) (xpath_sort_selection k' num bw g sel st)"
  unfolding xpath_sort_selection_def by (intro fuel_mono assms)

lemma process_loop_mono [fuel_mono]:
  assumes r: "\<And>x st. below (f x st) (g x st)"
  shows "below (process_string_loop f k s res st) (process_string_loop g k s res st)"
proof (induction k arbitrary: s res st)
  case (Suc k)
  show ?case by (simp only: process_string_loop.simps) (intro fuel_mono r Suc)
qed (simp add: below_def)

lemma process_string_mono [fuel_mono]: "k \<le> k' \<Longrightarrow> below (xml_process_string env k c s st) (xml_process_string env k' c s st)"
  unfolding xml_process_string_def by (intro fuel_mono)

end
