(* ===== verification/Tx_RunFuel.thy ===== *)
theory Tx_RunFuel
  imports Tx_Fuel Tx_Process
begin

text \<open>
  The fuel of a transformation: the main loop, the search for templates, global variables and \<open>XSLTProcess\<close> keep the
  order of \<open>Tx_Fuel\<close>. One fuel serves the main loop, the evaluator and the compiler; what is there for one fuel is
  there, unchanged, for every larger one.
\<close>

subsection \<open>Searching a template\<close>

lemma match_test_mono [fuel_mono]:
  assumes r: "ev_le f g"
  shows "below (match_test f t ch n st) (match_test g t ch n st)"
  unfolding match_test_def by (intro fuel_mono ev_leD[OF r])

lemma match_filter_mono [fuel_mono]:
  assumes r: "ev_le f g"
  shows "below (select_match_with_filter f n e st) (select_match_with_filter g n e st)"
  unfolding select_match_with_filter_def by (intro fuel_mono ev_leD[OF r])

lemma match_first_mono:
  "(\<And>e n st. e \<in> set es \<Longrightarrow> below (select_match env f e n st) (select_match env g e n st)) \<Longrightarrow>
   below (match_first env f es n st) (match_first env g es n st)"
  by (cases es) (simp_all add: below_refl)

lemma match_any_mono:
  "(\<And>e n st. e \<in> set es \<Longrightarrow> below (select_match env f e n st) (select_match env g e n st)) \<Longrightarrow>
   below (match_any env f b es n st) (match_any env g b es n st)"
proof (induction es arbitrary: st)
  case (Cons e es)
  have "below (select_match env f e n st) (select_match env g e n st)" for n st using Cons.prems by simp
  moreover have "below (match_any env f b es n st) (match_any env g b es n st)" for st using Cons.IH Cons.prems by simp
  ultimately show ?case by (simp only: match_any.simps) (intro fuel_mono)
qed (simp add: below_refl)

lemma select_match_mono:
  assumes r: "ev_le f g"
  shows "below (select_match env f e n st) (select_match env g e n st)"
proof (induction e arbitrary: n st)
  case (XE ty nm ct i kd ch)
  note m = match_first_mono[of ch env f g, OF XE] match_any_mono[of ch env f g, OF XE]
  show ?case by (simp only: select_match.simps) (intro fuel_mono ev_leD[OF r] r m)
qed

lemma heavier_loop_mono [fuel_mono]:
  assumes r: "\<And>e st. below (f e st) (g e st)"
  shows "below (heavier_loop f ts res w st) (heavier_loop g ts res w st)"
proof (induction ts arbitrary: res w st)
  case (Cons t ts)
  show ?case by (simp only: heavier_loop.simps) (intro fuel_mono r Cons.IH)
qed (simp add: below_refl)

lemma find_template_mono [fuel_mono]:
  assumes r: "ev_le f g"
  shows "below (find_template env f m n mode st) (find_template env g m n mode st)"
  unfolding find_template_def find_select_template_def
  by (intro fuel_mono match_first_mono select_match_mono[OF r])

subsection \<open>The instructions\<close>

text \<open>The environment of a transformation with another fuel for the evaluator.\<close>

definition with_fuel :: "tenv \<Rightarrow> nat \<Rightarrow> tenv" where
  "with_fuel te j = te\<lparr>te_fuel := j\<rparr>"

lemma te_fields:
  "env_of (with_fuel te j) = env_of te" "te_env (with_fuel te j) = te_env te" "te_templates (with_fuel te j) = te_templates te"
  "te_outmode (with_fuel te j) = te_outmode te" "te_pool (with_fuel te j) = te_pool te" "te_parallel (with_fuel te j) = te_parallel te"
  "te_fuel (with_fuel te j) = j" "te_with_vars (with_fuel te j) t = with_fuel (te_with_vars te t) j"
  "te_fuel (te_with_vars te t) = te_fuel te"
  by (simp_all add: with_fuel_def env_of_def te_with_vars_def fun_eq_iff)

text \<open>A loop whose body grows with the fuel.\<close>

lemma below_each_node [fuel_mono]:
  assumes "k \<le> k'" and f: "\<And>a st. below (f a st) (g a st)"
  shows "below (each_node k f p st) (each_node k' g p st)"
  using assms(1)
proof (induction k k' arbitrary: p st rule: fuel_induct)
  case (zero k')
  then show ?case by (cases p) (simp_all add: below_def)
next
  case (suc k k')
  show ?case by (cases p) (simp_all only: each_node.simps, (intro fuel_mono f suc.IH)+)
qed

definition runner_le :: "runner \<Rightarrow> runner \<Rightarrow> bool" where
  "runner_le f g \<longleftrightarrow> (\<forall>c st. below (f c st) (g c st))"

lemma runner_leD: "runner_le f g \<Longrightarrow> below (f c st) (g c st)"
  by (simp add: runner_le_def)

lemma template_task_run_mono [fuel_mono]:
  assumes r: "te_fuel te \<le> j" "runner_le f g"
  shows "below (template_task_run te i c f st) (template_task_run (with_fuel te j) i c g st)"
  unfolding template_task_run_def te_fields by (intro fuel_mono runner_leD[OF r(2)] r)

lemma xml_eval_string_mono [fuel_mono]:
  assumes r: "te_fuel te \<le> j" "runner_le f g"
  shows "below (xml_eval_string te f l s p st) (xml_eval_string (with_fuel te j) g l s p st)"
  unfolding xml_eval_string_def te_fields by (intro fuel_mono runner_leD[OF r(2)] r)

lemma do_local_var_mono [fuel_mono]:
  assumes r: "te_fuel te \<le> j" "runner_le f g"
  shows "below (do_local_var te f l d v st) (do_local_var (with_fuel te j) g l d v st)"
  unfolding do_local_var_def te_fields by (intro fuel_mono runner_leD[OF r(2)] r)

lemma copy_attributes_mono [fuel_mono]:
  assumes r: "te_fuel te \<le> j"
  shows "below (copy_attributes te k l c n p st) (copy_attributes (with_fuel te j) k l c n p st)"
proof (induction k arbitrary: p st)
  case 0
  show ?case by (cases p) (simp_all add: below_def)
next
  case (Suc k)
  show ?case by (cases p) (simp_all only: copy_attributes.simps te_fields, (intro fuel_mono r Suc)+)
qed

lemma copy_node_mono [fuel_mono]:
  assumes r: "te_fuel te \<le> j"
  shows "below (copy_node_to_result te l c p i st) (copy_node_to_result (with_fuel te j) l c p i st)"
  unfolding copy_node_to_result_def by (intro fuel_mono r)

lemma compiled_of_mono [fuel_mono]:
  assumes r: "te_fuel te \<le> j"
  shows "below (compiled_of te i a st) (compiled_of (with_fuel te j) i a st)"
  unfolding compiled_of_def te_fields by (intro fuel_mono r)

lemma eval_test_mono [fuel_mono]:
  assumes r: "te_fuel te \<le> j"
  shows "below (eval_test te c i st) (eval_test (with_fuel te j) c i st)"
  unfolding eval_test_def te_fields by (intro fuel_mono r)

lemma sort_by_mono [fuel_mono]:
  assumes r: "te_fuel te \<le> j"
  shows "below (sort_by te c i sel st) (sort_by (with_fuel te j) c i sel st)"
  unfolding sort_by_def te_fields Let_def by (intro fuel_mono r)

lemma instruction_value_of_mono [fuel_mono]:
  assumes r: "te_fuel te \<le> j"
  shows "below (instruction_value_of te c i st) (instruction_value_of (with_fuel te j) c i st)"
  unfolding instruction_value_of_def te_fields by (intro fuel_mono r)

lemma with_param_mono [fuel_mono]:
  assumes r: "te_fuel te \<le> j" "runner_le f g"
  shows "below (with_param te f c i ps st) (with_param (with_fuel te j) g c i ps st)"
  unfolding with_param_def te_fields by (intro fuel_mono runner_leD[OF r(2)] r)

lemma run_children_mono [fuel_mono]:
  assumes r: "runner_le f g"
  shows "below (run_children f c i st) (run_children g c i st)"
  unfolding run_children_def by (intro fuel_mono runner_leD[OF r] r)

lemma call_params_mono [fuel_mono]:
  assumes "k \<le> k'" and r: "te_fuel te \<le> j" "runner_le f g"
  shows "below (call_params te f c k i ps st) (call_params (with_fuel te j) g c k' i ps st)"
  using assms(1)
proof (induction k k' arbitrary: i ps st rule: fuel_induct)
  case (zero k')
  then show ?case by (cases i) (simp_all add: below_def)
next
  case (suc k k')
  show ?case by (cases i) (simp_all only: call_params.simps te_fields, (intro fuel_mono runner_leD[OF r(2)] r suc)+)
qed

lemma apply_params_mono [fuel_mono]:
  assumes "k \<le> k'" and r: "te_fuel te \<le> j" "runner_le f g"
  shows "below (apply_params te f c k i sel ps st) (apply_params (with_fuel te j) g c k' i sel ps st)"
  using assms(1)
proof (induction k k' arbitrary: i sel ps st rule: fuel_induct)
  case (zero k')
  then show ?case by (cases i) (simp_all add: below_def)
next
  case (suc k k')
  show ?case by (cases i) (simp_all only: apply_params.simps te_fields, (intro fuel_mono runner_leD[OF r(2)] r suc)+)
qed

lemma choose_loop_mono [fuel_mono]:
  assumes "k \<le> k'" and r: "te_fuel te \<le> j" "runner_le f g"
  shows "below (choose_loop te f c k i oth st) (choose_loop (with_fuel te j) g c k' i oth st)"
  using assms(1)
proof (induction k k' arbitrary: i oth st rule: fuel_induct)
  case (zero k')
  then show ?case by (cases i) (simp_all only: choose_loop.simps te_fields, (intro fuel_mono runner_leD[OF r(2)] r)+)
next
  case (suc k k')
  show ?case by (cases i) (simp_all only: choose_loop.simps te_fields, (intro fuel_mono runner_leD[OF r(2)] r suc)+)
qed

lemma foreach_sorts_mono [fuel_mono]:
  assumes "k \<le> k'" and r: "te_fuel te \<le> j"
  shows "below (foreach_sorts te c k i sel st) (foreach_sorts (with_fuel te j) c k' i sel st)"
  using assms(1)
proof (induction k k' arbitrary: i sel st rule: fuel_induct)
  case (zero k')
  then show ?case by (cases i) (simp_all add: below_def)
next
  case (suc k k')
  show ?case by (cases i) (simp_all only: foreach_sorts.simps te_fields, (intro fuel_mono r suc)+)
qed

lemma copy_rec_mono [fuel_mono]:
  assumes "k \<le> k'" and r: "te_fuel te \<le> j"
  shows "below (copy_node_to_result_rec k te l d p i st) (copy_node_to_result_rec k' (with_fuel te j) l d p i st)"
  using assms(1)
proof (induction k k' arbitrary: p i st rule: fuel_induct)
  case (zero k')
  then show ?case by (simp add: below_def)
next
  case (suc k k')
  show ?case by (simp only: copy_node_to_result_rec.simps te_fields) (intro fuel_mono r suc)
qed

lemma instruction_call_template_mono [fuel_mono]:
  assumes r: "te_fuel te \<le> j" "k \<le> k'" "runner_le f g"
  shows "below (instruction_call_template te k f c i st) (instruction_call_template (with_fuel te j) k' g c i st)"
  unfolding instruction_call_template_def te_fields by (intro fuel_mono runner_leD[OF r(3)] r)

lemma instruction_apply_templates_mono [fuel_mono]:
  assumes r: "te_fuel te \<le> j" "k \<le> k'" "runner_le f g" "runner_le f' g'"
  shows "below (instruction_apply_templates te k f f' c i st) (instruction_apply_templates (with_fuel te j) k' g g' c i st)"
  unfolding instruction_apply_templates_def te_fields by (intro fuel_mono runner_leD[OF r(3)] runner_leD[OF r(4)] r)

lemma instruction_attribute_mono [fuel_mono]:
  assumes r: "te_fuel te \<le> j" "runner_le f g"
  shows "below (instruction_attribute te f c i st) (instruction_attribute (with_fuel te j) g c i st)"
  unfolding instruction_attribute_def te_fields by (intro fuel_mono runner_leD[OF r(2)] r)

lemma instruction_element_mono [fuel_mono]:
  assumes r: "te_fuel te \<le> j" "runner_le f g"
  shows "below (instruction_element te f c i st) (instruction_element (with_fuel te j) g c i st)"
  unfolding instruction_element_def te_fields by (intro fuel_mono runner_leD[OF r(2)] r)

lemma instruction_if_mono [fuel_mono]:
  assumes r: "te_fuel te \<le> j" "runner_le f g"
  shows "below (instruction_if te f c i st) (instruction_if (with_fuel te j) g c i st)"
  unfolding instruction_if_def te_fields by (intro fuel_mono runner_leD[OF r(2)] r)

lemma instruction_choose_mono [fuel_mono]:
  assumes r: "te_fuel te \<le> j" "k \<le> k'" "runner_le f g"
  shows "below (instruction_choose te k f c i st) (instruction_choose (with_fuel te j) k' g c i st)"
  unfolding instruction_choose_def te_fields by (intro fuel_mono runner_leD[OF r(3)] r)

lemma instruction_param_mono [fuel_mono]:
  assumes r: "te_fuel te \<le> j" "runner_le f g"
  shows "below (instruction_param te f c i st) (instruction_param (with_fuel te j) g c i st)"
  unfolding instruction_param_def te_fields by (intro fuel_mono runner_leD[OF r(2)] r)

lemma instruction_for_each_mono [fuel_mono]:
  assumes r: "te_fuel te \<le> j" "k \<le> k'" "runner_le f g"
  shows "below (instruction_for_each te k f c i st) (instruction_for_each (with_fuel te j) k' g c i st)"
  unfolding instruction_for_each_def te_fields by (intro fuel_mono runner_leD[OF r(3)] r)

lemma instruction_copy_of_mono [fuel_mono]:
  assumes r: "te_fuel te \<le> j" "k \<le> k'"
  shows "below (instruction_copy_of te k c i st) (instruction_copy_of (with_fuel te j) k' c i st)"
  unfolding instruction_copy_of_def te_fields by (intro fuel_mono r)

lemma instruction_variable_mono [fuel_mono]:
  assumes r: "te_fuel te \<le> j" "runner_le f g"
  shows "below (instruction_variable te f c i st) (instruction_variable (with_fuel te j) g c i st)"
  unfolding instruction_variable_def te_fields by (intro fuel_mono runner_leD[OF r(2)] r)

lemma instruction_text_mono [fuel_mono]:
  assumes r: "k \<le> k'"
  shows "below (instruction_text k c i st) (instruction_text k' c i st)"
  unfolding instruction_text_def by (intro fuel_mono r)

lemma instruction_copy_mono [fuel_mono]:
  assumes r: "runner_le f g"
  shows "below (instruction_copy f c i st) (instruction_copy g c i st)"
  unfolding instruction_copy_def by (intro fuel_mono runner_leD[OF r] r)

lemma instruction_message_mono [fuel_mono]:
  assumes r: "te_fuel te \<le> j" "runner_le f g"
  shows "below (instruction_message te f c i st) (instruction_message (with_fuel te j) g c i st)"
  unfolding instruction_message_def te_fields by (intro fuel_mono runner_leD[OF r(2)] r)

lemma instruction_comment_mono [fuel_mono]:
  assumes r: "te_fuel te \<le> j" "runner_le f g"
  shows "below (instruction_comment te f c i st) (instruction_comment (with_fuel te j) g c i st)"
  unfolding instruction_comment_def te_fields by (intro fuel_mono runner_leD[OF r(2)] r)

lemma instruction_pi_mono [fuel_mono]:
  assumes r: "te_fuel te \<le> j" "runner_le f g"
  shows "below (instruction_processing_instruction te f c i st) (instruction_processing_instruction (with_fuel te j) g c i st)"
  unfolding instruction_processing_instruction_def te_fields by (intro fuel_mono runner_leD[OF r(2)] r)

subsection \<open>The main loop\<close>

lemma map_of_below:
  assumes "list_all2 (\<lambda>(n, f) (m, g). n = m \<and> (\<forall>c i st. below (f c i st) (g c i st))) fs gs"
  shows "below (case map_of fs name of None \<Rightarrow> Some st | Some f \<Rightarrow> f c i st) (case map_of gs name of None \<Rightarrow> Some st | Some g \<Rightarrow> g c i st)"
  using assms by (induction rule: list_all2_induct) (auto intro: below_refl)

lemma instructions_process_mono [fuel_mono]:
  assumes "k \<le> k'" and r: "te_fuel te \<le> j" "runner_le f g" "runner_le f' g'"
  shows "below (instructions_process te k f f' c i st) (instructions_process (with_fuel te j) k' g g' c i st)"
proof -
  have "list_all2 (\<lambda>(n, f) (m, g). n = m \<and> (\<forall>c i st. below (f c i st) (g c i st))) (instruction_of te k f f') (instruction_of (with_fuel te j) k' g g')"
    unfolding instruction_of_def using assms by (simp add: fuel_mono)
  from map_of_below[OF this] show ?thesis unfolding instructions_process_def te_fields by (intro below_bind below_refl)
qed

lemma apply_one_mono [fuel_mono]:
  assumes r: "te_fuel te \<le> j" "k \<le> k'" "runner_le f g" "runner_le f' g'"
  shows "below (apply_one te k f f' c i st) (apply_one (with_fuel te j) k' g g' c i st)"
  unfolding apply_one_def te_fields by (intro fuel_mono runner_leD[OF r(3)] runner_leD[OF r(4)] r)

lemma apply_default_process_mono [fuel_mono]:
  assumes r: "te_fuel te \<le> j" "k \<le> k'" "runner_le f g"
  shows "below (apply_default_process te k f c st) (apply_default_process (with_fuel te j) k' g c st)"
  unfolding apply_default_process_def te_fields by (intro fuel_mono runner_leD[OF r(3)] r)

lemma process_step_mono [fuel_mono]:
  assumes r: "te_fuel te \<le> j" "k \<le> k'" "runner_le f g" "runner_le f' g'"
  shows "below (process_step te k f f' c st) (process_step (with_fuel te j) k' g g' c st)"
  unfolding process_step_def te_fields by (intro fuel_mono runner_leD[OF r(3)] runner_leD[OF r(4)] r)

lemma run_xslt_mono [fuel_mono]:
  assumes "k \<le> k'" and r: "te_fuel te \<le> j"
  shows "below (run_xslt te k w st) (run_xslt (with_fuel te j) k' w st)"
  using assms(1)
proof (induction k k' arbitrary: w st rule: fuel_induct)
  case (zero k')
  then show ?case by (simp add: below_def)
next
  case (suc k k')
  then have le: "runner_le (\<lambda>c. run_xslt te k (Apply c)) (\<lambda>c. run_xslt (with_fuel te j) k' (Apply c))"
    "runner_le (\<lambda>c. run_xslt te k (Process c)) (\<lambda>c. run_xslt (with_fuel te j) k' (Process c))" by (simp_all add: runner_le_def)
  show ?case
  proof (cases w)
    case (Apply c)
    show ?thesis unfolding Apply run_xslt.simps work.case by (intro fuel_mono le r suc.hyps)
  next
    case (Process c)
    show ?thesis unfolding Process run_xslt.simps work.case by (intro fuel_mono le r suc.hyps)
  qed
qed

subsection \<open>A transformation\<close>

lemma global_variable_mono [fuel_mono]:
  assumes r: "te_fuel te \<le> j" "k \<le> k'"
  shows "below (global_variable k te d doc a s) (global_variable k' (with_fuel te j) d doc a s)"
proof -
  have "runner_le (\<lambda>c. run_xslt (te_with_vars te t) k (Apply c)) (\<lambda>c. run_xslt (with_fuel (te_with_vars te t) j) k' (Apply c))" for t
    using r by (simp add: runner_le_def run_xslt_mono te_fields)
  then show ?thesis unfolding global_variable_def te_fields Let_def by (intro fuel_mono) (simp_all add: r te_fields)
qed

lemma precompile_loop_mono:
  assumes "k \<le> k'" and r: "te_fuel te \<le> j"
  shows "below (precompile_variables_loop k te p doc d s) (precompile_variables_loop k' (with_fuel te j) p doc d s)"
  using assms(1)
proof (induction k k' arbitrary: p d s rule: fuel_induct)
  case (zero k')
  then show ?case by (cases p) (simp_all add: below_def)
next
  case (suc k k')
  show ?case by (cases p) (simp_all only: precompile_variables_loop.simps, (intro fuel_mono r suc)+)
qed

lemma find_first_node_mono [fuel_mono]: "k \<le> k' \<Longrightarrow> below (find_first_node k h p) (find_first_node k' h p)"
proof (induction k k' arbitrary: p rule: fuel_induct)
  case (zero k')
  then show ?case by (cases p) (simp_all add: below_def)
next
  case (suc k k')
  show ?case by (cases p) (simp_all only: find_first_node.simps, (intro fuel_mono suc)+)
qed

lemma find_node_mono [fuel_mono]: "k \<le> k' \<Longrightarrow> below (find_node_by_name k h p n) (find_node_by_name k' h p n)"
proof (induction k k' arbitrary: p rule: fuel_induct)
  case (zero k')
  then show ?case by (cases p) (simp_all add: below_def)
next
  case (suc k k')
  show ?case by (cases p) (simp_all only: find_node_by_name.simps, (intro fuel_mono suc)+)
qed

lemma processor_tenv_fuel: "processor_tenv k' ext pool p d = with_fuel (processor_tenv k ext pool p d) k'"
  by (simp add: processor_tenv_def with_fuel_def)

text \<open>
  The fuel is no part of the meaning of a transformation: a result of \<open>XSLTProcess\<close> with some fuel is its result with
  every larger one, and \<open>None\<close> for every fuel is a crash or a run without end.
\<close>

lemma transformation_independent_of_fuel:
  assumes "XSLTProcess k ext pool pctx document st = Some result" "k \<le> k'"
  shows "XSLTProcess k' ext pool pctx document st = Some result"
proof -
  have t: "te_fuel (processor_tenv k ext b p d) \<le> k'" for b p d using assms(2) by (simp add: processor_tenv_def)
  note step = precompile_loop_mono[OF assms(2) t] run_xslt_mono[OF assms(2) t]
  have "below (XSLTProcess k ext pool pctx document st) (XSLTProcess k' ext pool pctx document st)"
    unfolding XSLTProcess_def processor_tenv_fuel[of k' ext _ _ _ k] precompile_variables_def process_one_node_def
    by (intro fuel_mono step assms(2))
  with assms(1) show ?thesis by (simp add: below_def)
qed

end
