(* ===== verification/Spec2Isabelle.thy ===== *)
theory Spec2Isabelle
  imports Tx_Utf8 Tx_Dict Tx_Allocator Tx_Pool Tx_Double Tx_Nodes Tx_Select Tx_Axes Tx_Rvalue Tx_XPathParse
    Tx_XPathPrint Tx_Context Tx_Functions Tx_Format Tx_XPathEval Tx_Paths Tx_XmlRoundtrip Tx_Templates
    Tx_Transform Tx_Instructions Tx_Literal Tx_Localization Tx_Stylesheet Tx_Sort Tx_Types Tx_Md5 Tx_Cache
    Tx_Lifecycle Tx_Scheduler Tx_Graph Tx_Formula Tx_RunFuel
begin

text \<open>
  TurboXSL is a C library that applies XSLT 1.0 stylesheets to XML documents, with a pool of threads for the parts of
  a transformation that can run in parallel. This development models its program code (\<open>src/src\<close>) as functions and
  step relations, and proves what each part promises. It is the documentation of the model: the theories are named
  after the parts, the definitions after the C functions they translate.

  The program and its parts. \<open>XSLTInit\<close> creates the global data; \<open>XSLTNewProcessor\<close> parses a stylesheet, puts in what
  it includes and imports and collects its templates, keys, sorts and formats; \<open>XSLTProcess\<close> walks a parsed document,
  finds for each node the template that matches, and carries out its instructions, which evaluate XPath expressions
  and build the result; \<open>XMLOutput\<close> writes the result. Below lie nodes, strings, dictionaries and a region allocator;
  beside lie the pool with its queue and latches, the record of tasks, catalogues of messages, the rights of groups,
  the external cache and the digest.

  Theories and sources. Each group below has the definitions first, then their lemmas.
  \<^item> \<open>Tx_Prelude\<close>: C types (\<open>byte\<close>, \<open>cstring\<close>, \<open>u32\<close>, \<open>size_t\<close> arithmetic with its wrap-around) and shared lemmas.
  \<^item> \<open>Tx_Strings\<close>, \<open>Tx_Utf8\<close> (strings.c, utils.c): growing buffers with their capacity, where \<open>None\<close> is a write behind
    it; comparison; UTF-8. Appending stays in the buffer and gives the concatenation; decoding inverts encoding.
  \<^item> \<open>Tx_Dict\<close> (xmldict.c): the hash table with its chains as an array; it refines a finite map. Its interface is the
    locale \<open>dictionary\<close>, interpreted on the table and on the maps that the client theories use in its place.
  \<^item> \<open>Tx_Allocator\<close> (allocator.c): allocators, entries of threads, blocks and modes; requests lie in their block and are
    disjoint, whatever threads ask and switch modes in between. \<open>Tx_Lifecycle\<close> (transform.c, parse.c, nodes.c): which object
    owns which allocator from creation to release, the allocators that nodes carry, and the calls that crash.
  \<^item> \<open>Tx_Queue\<close>, \<open>Tx_Pool\<close> (unbounded_queue.c, threadpool.c, shared_variable.c): cells in memory refine a list (locale
    \<open>fifo\<close>); workers, latch and shutdown are step relations over that interface, with invariants by rule induction.
  \<^item> \<open>Tx_Scheduler\<close> (template_task.c, transform.c 657-685): callers of \<open>XSLTProcess\<close> and their tasks, interleaved at
    every access to the pool pointer that they share; a call on the NULL pointer is a crash. \<open>Tx_Graph\<close>
    (template_task_graph.c): the record of tasks and the GraphML document that is saved.
  \<^item> \<open>Tx_Double\<close> (IEEE doubles and their text), \<open>Tx_Nodes\<close> (ltr_xsl.h, nodes.c): the heap of
    \<open>XMLNODE\<close> structures, a list indexed by address; child lists stay doubly linked.
  \<^item> \<open>Tx_Select\<close>, \<open>Tx_Axes\<close> (xpath.c 20-480): selections and the thirteen axes, against the axes of the tree.
  \<^item> \<open>Tx_Rvalue\<close> (rvalue.c): conversion and comparison of values. \<open>Tx_XPathParse\<close>, \<open>Tx_XPathPrint\<close> (xpath.c 986-1605): the
    compiler, against a printer. \<open>Tx_Context\<close> (variables.c, concurrent_dictionary.c): environment (\<open>xenv\<close>) and state
    (\<open>xstate\<close>) of an evaluation; the locale \<open>byte_map\<close> is what the tables of expressions and addresses promise.
  \<^item> \<open>Tx_Functions\<close>, \<open>Tx_Format\<close> (functions.c): the 45 functions, callbacks and the dispatcher. \<open>Tx_Md5\<close> (md5.c): the digest
    in pieces, against RFC 1321.
  \<^item> \<open>Tx_XPathEval\<close> (xpath.c 166-984): predicates, sorting and all cases of the evaluator. \<open>Tx_Paths\<close>: location paths against
    their semantics on the tree. \<open>Tx_Types\<close>: the types of values, and expressions that always have one. \<open>Tx_Formula\<close>:
    operator expressions, compiled from their text, have the values of a reference semantics. \<open>Tx_Sort\<close>: sorting is the stable sort by the collation
    of the keys (locale \<open>sort_order\<close>).
  \<^item> \<open>Tx_Parse\<close>, \<open>Tx_Output\<close> (parse.c, output.c): the parser as a state machine (\<open>parse_step\<close>), the serialiser. \<open>Tx_XmlTree\<close>,
    \<open>Tx_XmlSteps\<close>, \<open>Tx_XmlRoundtrip\<close>: parsing inverts printing, and what happens to malformed text.
  \<^item> \<open>Tx_Templates\<close> (templates.c): templates by mode, as patterns and as a tree of direct paths; the search for a template.
  \<^item> \<open>Tx_Transform\<close>, \<open>Tx_Instructions\<close> (transform.c, instructions.c, template_task.c, variables.c): the main loop and the
    seventeen instructions. \<open>Tx_Literal\<close>: templates without instructions are copied.
  \<^item> \<open>Tx_Process\<close> (transform.c, variables.c): preparation of a stylesheet and transformation of a document. \<open>Tx_Stylesheet\<close>:
    from the text of a stylesheet to the text of the result.
  \<^item> \<open>Tx_Localization\<close>, \<open>Tx_Rights\<close>, \<open>Tx_Cache\<close> (localization.c, group_rights.c, external_cache.c): catalogues with their
    plural rules, the rights of the user, the clients and keys of the cache and what it can answer while values expire.
  \<^item> \<open>Tx_Interface\<close> (nodes.c, utils.c, functions.c, output.c): documents, callbacks and files of turboxsl.h.

  State and errors. A pointer is an address in an explicit heap or \<open>None\<close> for NULL; a function that changes memory
  takes the heap and returns it. An outer \<open>None\<close> is a run that the C program does not survive (NULL or wild pointer,
  write behind a buffer) or that does not return within its fuel; errors that the code reports are inner values.
  Integers have their width where it matters (\<open>u32\<close> positions and counters, \<open>size_t\<close> sizes, \<open>uint_wrap\<close>).

  Fuel. Recursion whose end depends on data takes fuel. Walks over lists of nodes use the length of the heap, which is
  enough for every list that ends (\<open>linked_length\<close>). What is proved to return: the compiler above the nesting depth plus
  3, the evaluator on location paths above the number of steps and on closed expressions above their depth, the parser above twice the length of the text, the
  serialiser above the number of nodes, sorting above the square of the number of nodes, a literal stylesheet
  above twice the length of its file. The fuel decides only whether a run returns, never what it returns: the compiler,
  the functions, the evaluator and the main loop keep their result when it grows (\<open>Tx_Fuel\<close>, \<open>Tx_RunFuel\<close>: the order
  \<open>below\<close> on partial results and the collection \<open>fuel_mono\<close>). Where the program does not return (a
  stray character inside a tag, an unclosed function call) the theorem says so for every fuel.

  Threads. The sequential model runs a task where it is started, which is what the code does without a pool. That the
  pool runs each task, that a caller waits for its tasks and that shutdown ends are properties of the step relations of
  \<open>Tx_Pool\<close> and \<open>Tx_Scheduler\<close>, in which each critical section is one step. That instructions that run in parallel
  give the result of the sequential run is not proved.

  Parameters. Files, the parser where a function reads a document, Perl callbacks, libgettextpo, the commands of
  libmemcached and the addresses printed by \<open>generate-id\<close> are arguments; what is assumed of them is written in the
  theorem (\<open>memcached_laws\<close>: a server answers with what it was given last until that expires, or with nothing). The C library is modelled where the program uses it: doubles are IEEE 754 binary64
  values with rounding to nearest even, and \<open>strtod\<close>, \<open>%ld\<close> and \<open>%f\<close> are definitions of \<open>Tx_Double\<close>.

  Not modelled. The vendored logging library zlog and the calls of it (logger.c), which have no effect on results; the
  creation of locks (thread_lock.c); \<open>free\<close> of the memory of dictionaries, catalogues, queues and tables, which
  ends their life (the allocators, which own documents, are modelled); the command line and the tests; failing
  \<open>malloc\<close>; the constants of xsl_elements.c, which are literals in the model.

  What modelling showed. Theorems and lemmas also state where the code departs from XSLT, XPath or its own intent, each
  beside the component: for instance that \<open>a//b\<close> misses children (\<open>Tx_Paths\<close>), that a prefix of a name closes its element
  (\<open>Tx_XmlRoundtrip\<close>), that a longer path hides a template (\<open>Tx_Templates\<close>), that one current allocator serves all
  threads (\<open>Tx_Interface\<close>), that a nodeset is compared with a string through the text of the rest of its list
  (\<open>Tx_Rvalue\<close>), that a full block grows in place of refusing a request (\<open>Tx_Allocator\<close>) and that overlapping calls can lose the
  pool, after which a waiting caller crashes (\<open>Tx_Scheduler\<close>).
\<close>

end
